(* ===== verification/Feo_Prelude.thy ===== *)
theory Feo_Prelude
  imports Main "HOL-Library.Word" "HOL-Library.AList"
begin

text \<open>
  Shared vocabulary of the development.

  \<^item> Machine integers are words of their width.
  \<^item> A Rust computation over a state \<open>'s\<close> is an \<open>('s, 'a) io\<close>: it maps the state to an
    outcome and the state it leaves behind. \<open>Ret a\<close> is a return, \<open>Panic\<close> a panic (an
    \<open>unwrap\<close>, \<open>expect\<close>, \<open>assert!\<close>, index or overflow check that fails) and \<open>Hang\<close> says that
    the call has not returned: it blocks, or the loop has used up its fuel. The state is kept in
    all three cases, so a statement about the state after \<open>n\<close> units of fuel is a statement about
    every finite prefix of a run that never ends.
  \<^item> \<open>Result<T, E>\<close> is the sum \<open>'e + 'a\<close> with \<open>Inl\<close> for \<open>Err\<close>, and a value of it is returned
    like any other value.
  \<^item> \<open>hoare P m Q E\<close> is the proof rule the components share: from a state with \<open>P\<close>, a return
    of \<open>m\<close> satisfies \<open>Q\<close> and a panic or a hang leaves a state with \<open>E\<close>.
\<close>

section \<open>Machine integers\<close>

type_synonym u8 = "8 word"
type_synonym u16 = "16 word"
type_synonym u32 = "32 word"
type_synonym u64 = "64 word"
type_synonym u128 = "128 word"

section \<open>Outcomes and stateful computations\<close>

datatype 'a outcome = Ret 'a | Panic | Hang

type_synonym ('s, 'a) io = "'s \<Rightarrow> 'a outcome \<times> 's"

named_theorems io_defs "definitions of the combinators"
named_theorems hoare_intros "proof rules of the combinators"

fun obind :: "'a outcome \<Rightarrow> ('a \<Rightarrow> 'b outcome) \<Rightarrow> 'b outcome" where
  "obind (Ret a) f = f a"
| "obind Panic f = Panic"
| "obind Hang f = Hang"

text \<open>\<open>assert!\<close>.\<close>

definition oassert :: "bool \<Rightarrow> unit outcome" where
  "oassert b = (if b then Ret () else Panic)"

definition io_return :: "'a \<Rightarrow> ('s, 'a) io" where
  [io_defs]: "io_return a s = (Ret a, s)"

definition io_panic :: "('s, 'a) io" where
  [io_defs]: "io_panic s = (Panic, s)"

definition io_hang :: "('s, 'a) io" where
  [io_defs]: "io_hang s = (Hang, s)"

definition io_bind :: "('s, 'a) io \<Rightarrow> ('a \<Rightarrow> ('s, 'b) io) \<Rightarrow> ('s, 'b) io" where
  [io_defs]: "io_bind m f s =
    (case m s of (Ret a, s') \<Rightarrow> f a s' | (Panic, s') \<Rightarrow> (Panic, s') | (Hang, s') \<Rightarrow> (Hang, s'))"

definition io_get :: "('s, 's) io" where
  [io_defs]: "io_get s = (Ret s, s)"

definition io_gets :: "('s \<Rightarrow> 'a) \<Rightarrow> ('s, 'a) io" where
  [io_defs]: "io_gets f s = (Ret (f s), s)"

definition io_modify :: "('s \<Rightarrow> 's) \<Rightarrow> ('s, unit) io" where
  [io_defs]: "io_modify f s = (Ret (), f s)"

definition io_lift :: "'a outcome \<Rightarrow> ('s, 'a) io" where
  [io_defs]: "io_lift r s = (r, s)"

text \<open>Run a computation on a part of the state.\<close>

definition io_zoom :: "('s \<Rightarrow> 'w) \<Rightarrow> ('w \<Rightarrow> 's \<Rightarrow> 's) \<Rightarrow> ('w, 'a) io \<Rightarrow> ('s, 'a) io" where
  [io_defs]: "io_zoom g p m s = (case m (g s) of (r, w) \<Rightarrow> (r, p w s))"

text \<open>\<open>Option::expect\<close> and \<open>Result::expect\<close>.\<close>

definition io_expect :: "'a option \<Rightarrow> ('s, 'a) io" where
  [io_defs]: "io_expect x = (case x of None \<Rightarrow> io_panic | Some a \<Rightarrow> io_return a)"

definition io_unwrap :: "('e + 'a) \<Rightarrow> ('s, 'a) io" where
  [io_defs]: "io_unwrap x = (case x of Inl e \<Rightarrow> io_panic | Inr a \<Rightarrow> io_return a)"

text \<open>The \<open>?\<close> operator: an error is the result of the whole function.\<close>

definition io_try :: "('s, 'e + 'a) io \<Rightarrow> ('a \<Rightarrow> ('s, 'e + 'b) io) \<Rightarrow> ('s, 'e + 'b) io" where
  [io_defs]: "io_try m f = io_bind m (\<lambda>r. case r of Inl e \<Rightarrow> io_return (Inl e) | Inr a \<Rightarrow> f a)"

text \<open>A \<open>for\<close> loop over a list.\<close>

fun io_for :: "'a list \<Rightarrow> ('a \<Rightarrow> ('s, unit) io) \<Rightarrow> ('s, unit) io" where
  "io_for [] f = io_return ()"
| "io_for (x # xs) f = io_bind (f x) (\<lambda>_. io_for xs f)"

text \<open>A \<open>for\<close> loop whose body ends in \<open>?\<close>.\<close>

fun io_try_for :: "'a list \<Rightarrow> ('a \<Rightarrow> ('s, 'e + unit) io) \<Rightarrow> ('s, 'e + unit) io" where
  "io_try_for [] f = io_return (Inr ())"
| "io_try_for (x # xs) f = io_try (f x) (\<lambda>_. io_try_for xs f)"

lemma io_try_for_step: "f x s = (Ret (Inr u), s') \<Longrightarrow> io_try_for (x # xs) f s = io_try_for xs f s'"
  by (simp add: io_try_def io_bind_def)

section \<open>The proof rule\<close>

definition hoare :: "('s \<Rightarrow> bool) \<Rightarrow> ('s, 'a) io \<Rightarrow> ('a \<Rightarrow> 's \<Rightarrow> bool) \<Rightarrow> ('s \<Rightarrow> bool) \<Rightarrow> bool" where
  "hoare P m Q E \<longleftrightarrow>
    (\<forall>s. P s \<longrightarrow> (case m s of (Ret a, s') \<Rightarrow> Q a s' | (Panic, s') \<Rightarrow> E s' | (Hang, s') \<Rightarrow> E s'))"

lemma hoareI:
  assumes "\<And>s. P s \<Longrightarrow> (case m s of (Ret a, s') \<Rightarrow> Q a s' | (Panic, s') \<Rightarrow> E s' | (Hang, s') \<Rightarrow> E s')"
  shows "hoare P m Q E"
  using assms by (simp add: hoare_def)

lemma hoare_Ret: "hoare P m Q E \<Longrightarrow> P s \<Longrightarrow> m s = (Ret a, s') \<Longrightarrow> Q a s'"
  by (force simp: hoare_def)

lemma hoare_Panic: "hoare P m Q E \<Longrightarrow> P s \<Longrightarrow> m s = (Panic, s') \<Longrightarrow> E s'"
  by (force simp: hoare_def)

lemma hoare_Hang: "hoare P m Q E \<Longrightarrow> P s \<Longrightarrow> m s = (Hang, s') \<Longrightarrow> E s'"
  by (force simp: hoare_def)

lemma hoare_outcome:
  assumes "hoare P m Q E" "P s" "m s = (r, s')"
  shows "case r of Ret a \<Rightarrow> Q a s' | Panic \<Rightarrow> E s' | Hang \<Rightarrow> E s'"
  using assms by (cases r) (force simp: hoare_def)+

lemma hoare_snd:
  assumes "hoare P m (\<lambda>_. E) E" "P s"
  shows "E (snd (m s))"
proof (cases "m s")
  case (Pair r s')
  with assms show ?thesis by (cases r) (auto simp: hoare_def split: prod.splits outcome.splits)
qed

lemma hoare_conseq:
  assumes "hoare P m Q E" "\<And>s. P' s \<Longrightarrow> P s" "\<And>a s. Q a s \<Longrightarrow> Q' a s" "\<And>s. E s \<Longrightarrow> E' s"
  shows "hoare P' m Q' E'"
  using assms by (force simp: hoare_def split: prod.splits outcome.splits)

lemma hoare_return [hoare_intros]: "(\<And>s. P s \<Longrightarrow> Q a s) \<Longrightarrow> hoare P (io_return a) Q E"
  by (simp add: hoare_def io_return_def)

lemma hoare_panic [hoare_intros]: "(\<And>s. P s \<Longrightarrow> E s) \<Longrightarrow> hoare P io_panic Q E"
  by (simp add: hoare_def io_panic_def)

lemma hoare_hang [hoare_intros]: "(\<And>s. P s \<Longrightarrow> E s) \<Longrightarrow> hoare P io_hang Q E"
  by (simp add: hoare_def io_hang_def)

lemma hoare_bind:
  assumes "hoare P m R E" "\<And>a. hoare (R a) (f a) Q E"
  shows "hoare P (io_bind m f) Q E"
proof (rule hoareI)
  fix s
  assume "P s"
  then show "case io_bind m f s of (Ret a, s') \<Rightarrow> Q a s' | (Panic, s') \<Rightarrow> E s' | (Hang, s') \<Rightarrow> E s'"
    using assms unfolding hoare_def io_bind_def
    by (cases "m s"; cases "fst (m s)") fastforce+
qed

lemma hoare_get [hoare_intros]: "(\<And>s. P s \<Longrightarrow> Q s s) \<Longrightarrow> hoare P io_get Q E"
  by (simp add: hoare_def io_get_def)

lemma hoare_gets [hoare_intros]: "(\<And>s. P s \<Longrightarrow> Q (f s) s) \<Longrightarrow> hoare P (io_gets f) Q E"
  by (simp add: hoare_def io_gets_def)

lemma hoare_modify [hoare_intros]: "(\<And>s. P s \<Longrightarrow> Q () (f s)) \<Longrightarrow> hoare P (io_modify f) Q E"
  by (simp add: hoare_def io_modify_def)

lemma hoare_lift [hoare_intros]:
  "(\<And>a s. r = Ret a \<Longrightarrow> P s \<Longrightarrow> Q a s) \<Longrightarrow> (\<And>s. P s \<Longrightarrow> E s) \<Longrightarrow> hoare P (io_lift r) Q E"
  by (cases r) (simp_all add: hoare_def io_lift_def)

lemma hoare_expect [hoare_intros]:
  "(\<And>a s. x = Some a \<Longrightarrow> P s \<Longrightarrow> Q a s) \<Longrightarrow> (\<And>s. x = None \<Longrightarrow> P s \<Longrightarrow> E s) \<Longrightarrow> hoare P (io_expect x) Q E"
  by (cases x) (simp_all add: hoare_def io_expect_def io_return_def io_panic_def)

lemma hoare_unwrap [hoare_intros]:
  "(\<And>a s. x = Inr a \<Longrightarrow> P s \<Longrightarrow> Q a s) \<Longrightarrow> (\<And>s. P s \<Longrightarrow> E s) \<Longrightarrow> hoare P (io_unwrap x) Q E"
  by (cases x) (simp_all add: hoare_def io_unwrap_def io_return_def io_panic_def)

lemma hoare_try:
  assumes "hoare P m (\<lambda>r s. case r of Inl e \<Rightarrow> Q (Inl e) s | Inr a \<Rightarrow> R a s) E"
    and "\<And>a. hoare (R a) (f a) Q E"
  shows "hoare P (io_try m f) Q E"
  unfolding io_try_def
  by (rule hoare_bind [OF assms(1)]) (auto split: sum.splits intro: hoare_return assms(2))

lemma hoare_for:
  assumes "\<And>x. x \<in> set xs \<Longrightarrow> hoare I (f x) (\<lambda>_. I) E"
  shows "hoare I (io_for xs f) (\<lambda>_. I) E"
  using assms by (induction xs) (auto intro: hoare_return hoare_bind)

lemma hoare_try_for:
  assumes "\<And>x. x \<in> set xs \<Longrightarrow> hoare I (f x) (\<lambda>_. I) E"
  shows "hoare I (io_try_for xs f) (\<lambda>_. I) E"
  using assms
proof (induction xs)
  case Nil
  then show ?case by (auto intro: hoare_return)
next
  case (Cons x xs)
  have "hoare I (f x) (\<lambda>r s. case r of Inl e \<Rightarrow> I s | Inr a \<Rightarrow> I s) E"
    by (rule hoare_conseq [OF Cons.prems [of x]]) (auto split: sum.splits)
  then have "hoare I (io_try (f x) (\<lambda>_. io_try_for xs f)) (\<lambda>_. I) E"
    by (rule hoare_try) (use Cons in auto)
  then show ?case by simp
qed

text \<open>A loop whose invariant knows the part of the list already done.\<close>

lemma hoare_for_prefix:
  assumes "\<And>xs x ys. all = xs @ x # ys \<Longrightarrow> hoare (J xs) (f x) (\<lambda>_. J (xs @ [x])) E"
  shows "hoare (J []) (io_for all f) (\<lambda>_. J all) E"
proof -
  have "hoare (J xs) (io_for ys f) (\<lambda>_. J all) E" if "all = xs @ ys" for xs ys
    using that
  proof (induction ys arbitrary: xs)
    case Nil
    then show ?case by (auto intro: hoare_return)
  next
    case (Cons y ys)
    show ?case unfolding io_for.simps
      by (rule hoare_bind [OF assms [OF Cons.prems] Cons.IH]) (use Cons.prems in simp)
  qed
  from this [of "[]" all] show ?thesis by simp
qed

lemma hoare_if:
  "(b \<Longrightarrow> hoare P m Q E) \<Longrightarrow> (\<not> b \<Longrightarrow> hoare P m' Q E) \<Longrightarrow> hoare P (if b then m else m') Q E"
  by simp

lemma hoare_pre: "hoare P m Q E \<Longrightarrow> (\<And>s. P' s \<Longrightarrow> P s) \<Longrightarrow> hoare P' m Q E"
  by (rule hoare_conseq)

lemma hoare_post: "hoare P m Q E \<Longrightarrow> (\<And>a s. Q a s \<Longrightarrow> Q' a s) \<Longrightarrow> hoare P m Q' E"
  by (rule hoare_conseq)

text \<open>A fact that does not depend on the state can be taken out of the precondition.\<close>

lemma hoare_assume: "(A \<Longrightarrow> hoare P m Q E) \<Longrightarrow> hoare (\<lambda>s. A \<and> P s) m Q E"
  by (auto simp: hoare_def)

lemma hoare_exists:
  assumes "\<And>x. hoare (P x) m Q E"
  shows "hoare (\<lambda>s. \<exists>x. P x s) m Q E"
proof (rule hoareI)
  fix s
  assume "\<exists>x. P x s"
  then obtain x where "P x s" ..
  with assms [of x] show "case m s of (Ret a, s') \<Rightarrow> Q a s' | (Panic, s') \<Rightarrow> E s' | (Hang, s') \<Rightarrow> E s'"
    by (simp add: hoare_def)
qed

lemma hoare_false: "hoare (\<lambda>_. False) m Q E"
  by (simp add: hoare_def)

text \<open>Reading the state: the rest of the computation runs from the very state that was read.\<close>

lemma hoare_bind_get: "(\<And>s. P s \<Longrightarrow> hoare (\<lambda>s'. s' = s) (f s) Q E) \<Longrightarrow> hoare P (io_bind io_get f) Q E"
  by (auto simp: hoare_def io_bind_def io_get_def)

lemma hoare_bind_gets:
  "(\<And>s. P s \<Longrightarrow> hoare (\<lambda>s'. s' = s) (f (g s)) Q E) \<Longrightarrow> hoare P (io_bind (io_gets g) f) Q E"
  by (auto simp: hoare_def io_bind_def io_gets_def)

section \<open>Maps iterated in list order\<close>

text \<open>
  A \<open>HashMap\<close> that the code iterates over is an association list with distinct keys: the list
  order is the iteration order, which Rust leaves open, so every statement is about every order.
  \<open>modify_key\<close> is \<open>get_mut\<close> followed by an assignment.
\<close>

definition modify_key :: "'k \<Rightarrow> ('v \<Rightarrow> 'v) \<Rightarrow> ('k \<times> 'v) list \<Rightarrow> ('k \<times> 'v) list" where
  "modify_key k f xs = map (\<lambda>(k', v). (k', if k' = k then f v else v)) xs"

lemma fst_modify_key [simp]: "map fst (modify_key k f xs) = map fst xs"
  by (simp add: modify_key_def case_prod_beta)

lemma map_of_modify_key [simp]:
  "map_of (modify_key k f xs) = (map_of xs)(k := map_option f (map_of xs k))"
  by (induction xs) (auto simp: modify_key_def)

lemma set_modify_key:
  "set (modify_key k f xs) = (\<lambda>(k', v). (k', if k' = k then f v else v)) ` set xs"
  by (simp add: modify_key_def)

lemma modify_key_other: "k \<notin> fst ` set xs \<Longrightarrow> modify_key k f xs = xs"
  by (induction xs) (auto simp: modify_key_def)

lemma modify_key_split:
  assumes "distinct (map fst xs)" "map_of xs k = Some v"
  obtains as bs where "xs = as @ (k, v) # bs" "\<And>f. modify_key k f xs = as @ (k, f v) # bs"
proof -
  from map_of_SomeD [OF assms(2)] obtain as bs where xs: "xs = as @ (k, v) # bs"
    by (meson split_list)
  with assms(1) have "k \<notin> fst ` set as" "k \<notin> fst ` set bs" by auto
  then have "modify_key k f xs = as @ (k, f v) # bs" for f
    using modify_key_other [of k as f] modify_key_other [of k bs f]
    by (simp add: xs) (simp add: modify_key_def)
  with xs that show thesis by blast
qed

lemma map_of_Some_in: "map_of xs k = Some v \<Longrightarrow> k \<in> fst ` set xs"
  by (metis map_of_SomeD image_eqI fst_conv)

lemma map_of_None_iff: "map_of xs k = None \<longleftrightarrow> k \<notin> fst ` set xs"
  by (simp add: map_of_eq_None_iff)

section \<open>Little-endian bytes\<close>

text \<open>\<open>to_le_bytes\<close> and \<open>from_le_bytes\<close> of an unsigned integer of \<open>n\<close> bytes, given by its value.\<close>

fun le_bytes :: "nat \<Rightarrow> nat \<Rightarrow> u8 list" where
  "le_bytes 0 v = []"
| "le_bytes (Suc n) v = word_of_nat v # le_bytes n (v div 256)"

fun le_val :: "u8 list \<Rightarrow> nat" where
  "le_val [] = 0"
| "le_val (b # bs) = unat b + 256 * le_val bs"

lemma length_le_bytes [simp]: "length (le_bytes n v) = n"
  by (induction n arbitrary: v) auto

lemma unat_byte: "unat (word_of_nat v :: u8) = v mod 256"
  by (simp add: unat_of_nat)

lemma le_val_le_bytes [simp]: "le_val (le_bytes n v) = v mod 256 ^ n"
proof (induction n arbitrary: v)
  case 0
  then show ?case by simp
next
  case (Suc n)
  then show ?case by (simp add: unat_byte mod_mult2_eq)
qed

lemma le_val_bound: "le_val bs < 256 ^ length bs"
proof (induction bs)
  case Nil
  then show ?case by simp
next
  case (Cons b bs)
  have "unat b < 256" using unsigned_less [of b] by simp
  with Cons show ?case by simp
qed

lemma unat_bound: "unat (w :: 'a::len word) < 2 ^ LENGTH('a)"
  by (rule unsigned_less)

lemma le_val_u64 [simp]: "le_val (le_bytes 8 (unat (x :: u64))) = unat x"
  using unat_bound [of x] by simp

end
