(* ===== verification/Feo_Ids.thy ===== *)
theory Feo_Ids
  imports Feo_Prelude
begin

text \<open>
  Identifiers, activity and IO errors, and the signal alphabet
  (\<open>feo/src/ids.rs\<close>, \<open>feo/src/error.rs\<close>, \<open>feo/src/signalling/common/signals.rs\<close>).
  A \<open>GenericId<T>\<close> is a \<open>u64\<close> with a phantom marker type that keeps the kinds of
  identifiers apart; its derived order is the order of the number. The lemmas give the
  uniqueness of the printed forms.
\<close>

section \<open>Identifiers\<close>

datatype 'm generic_id = GenericId (id_of: u64)

datatype activity_id_marker = ActivityIdMarker
datatype agent_id_marker = AgentIdMarker
datatype worker_id_marker = WorkerIdMarker
datatype relay_id_marker = RelayIdMarker

type_synonym activity_id = "activity_id_marker generic_id"
type_synonym agent_id = "agent_id_marker generic_id"
type_synonym worker_id = "worker_id_marker generic_id"
type_synonym relay_id = "relay_id_marker generic_id"

instantiation generic_id :: (type) linorder
begin

definition less_eq_generic_id :: "'a generic_id \<Rightarrow> 'a generic_id \<Rightarrow> bool" where
  "less_eq_generic_id a b \<longleftrightarrow> id_of a \<le> id_of b"

definition less_generic_id :: "'a generic_id \<Rightarrow> 'a generic_id \<Rightarrow> bool" where
  "less_generic_id a b \<longleftrightarrow> id_of a < id_of b"

instance
  by standard (auto simp: less_eq_generic_id_def less_generic_id_def generic_id.expand)

end

datatype channel_id =
    ChActivity activity_id
  | ChAgent agent_id
  | ChWorker worker_id
  | ChRelay relay_id

section \<open>Printed forms\<close>

fun decimal :: "nat \<Rightarrow> string" where
  "decimal n = (if n < 10 then [char_of (48 + n)] else decimal (n div 10) @ [char_of (48 + n mod 10)])"

declare decimal.simps [simp del]

definition display_id :: "string \<Rightarrow> 'm generic_id \<Rightarrow> string" where
  "display_id prefix i = prefix @ decimal (unat (id_of i))"

definition display_activity_id :: "activity_id \<Rightarrow> string" where
  "display_activity_id = display_id ''A''"

definition display_agent_id :: "agent_id \<Rightarrow> string" where
  "display_agent_id = display_id ''Agt-''"

definition display_worker_id :: "worker_id \<Rightarrow> string" where
  "display_worker_id = display_id ''W''"

definition display_relay_id :: "relay_id \<Rightarrow> string" where
  "display_relay_id = display_id ''R''"

fun display_channel_id :: "channel_id \<Rightarrow> string" where
  "display_channel_id (ChActivity i) = ''C('' @ display_activity_id i @ '')''"
| "display_channel_id (ChAgent i) = ''C('' @ display_agent_id i @ '')''"
| "display_channel_id (ChWorker i) = ''C('' @ display_worker_id i @ '')''"
| "display_channel_id (ChRelay i) = ''C('' @ display_relay_id i @ '')''"

text \<open>Decimal digits are read back by the usual evaluation, so printing loses nothing.\<close>

definition digit_chars :: "char set" where
  "digit_chars = char_of ` {48..<58::nat}"

fun undecimal :: "nat \<Rightarrow> string \<Rightarrow> nat" where
  "undecimal acc [] = acc"
| "undecimal acc (c # cs) = undecimal (10 * acc + (of_char c - 48)) cs"

lemma undecimal_append: "undecimal acc (xs @ ys) = undecimal (undecimal acc xs) ys"
  by (induction xs arbitrary: acc) auto

lemma of_char_digit: "n < 10 \<Longrightarrow> of_char (char_of (48 + n) :: char) = 48 + n"
  for n :: nat by simp

lemma undecimal_decimal: "undecimal 0 (decimal n) = n"
proof (induction n rule: decimal.induct)
  case (1 n)
  show ?case
  proof (cases "n < 10")
    case True
    then show ?thesis by (subst decimal.simps) (simp add: of_char_digit)
  next
    case False
    with "1.IH" show ?thesis
      by (subst decimal.simps) (simp add: undecimal_append of_char_digit)
  qed
qed

lemma decimal_inj: "decimal m = decimal n \<longleftrightarrow> m = n"
  by (metis undecimal_decimal)

lemma decimal_digits: "set (decimal n) \<subseteq> digit_chars"
proof (induction n rule: decimal.induct)
  case (1 n)
  have d: "char_of (48 + k) \<in> digit_chars" if "k < 10" for k :: nat
    unfolding digit_chars_def by (rule imageI) (use that in simp)
  show ?case
  proof (cases "n < 10")
    case True
    then show ?thesis by (subst decimal.simps) (simp add: d)
  next
    case False
    then show ?thesis using "1.IH" d [of "n mod 10"] by (subst decimal.simps) simp
  qed
qed

lemma decimal_nonempty: "decimal n \<noteq> []"
  by (subst decimal.simps) simp

lemma display_id_inj: "display_id p i = display_id p j \<longleftrightarrow> i = j"
  by (auto simp: display_id_def decimal_inj word_unat_eq_iff intro: generic_id.expand)

lemma hd_decimal: "hd (decimal n) \<in> digit_chars"
  using decimal_digits [of n] decimal_nonempty [of n] by (meson hd_in_set subsetD)

lemma decimal_neq_Cons: "c \<notin> digit_chars \<Longrightarrow> decimal n \<noteq> c # cs"
  using hd_decimal [of n] by force

lemma g_not_digit: "CHR ''g'' \<notin> digit_chars"
proof
  assume "CHR ''g'' \<in> digit_chars"
  then obtain n :: nat where "CHR ''g'' = char_of n" "n < 58"
    by (auto simp: digit_chars_def)
  then have "of_char (CHR ''g'') = n" by simp
  with \<open>n < 58\<close> show False by simp
qed

lemma decimal_neq_g [simp]: "decimal n \<noteq> CHR ''g'' # cs" "CHR ''g'' # cs \<noteq> decimal n"
  using decimal_neq_Cons [OF g_not_digit] by metis+

lemma decimal_app_neq_g [simp]:
  "decimal n @ ys \<noteq> CHR ''g'' # cs" "CHR ''g'' # cs \<noteq> decimal n @ ys"
  using decimal_nonempty [of n] decimal_neq_Cons [OF g_not_digit, of n]
  by (cases "decimal n"; auto)+

text \<open>
  A printed channel id determines the channel: two channel ids print alike (\<open>Display for
  ChannelId\<close>) only if they are the same kind of peer with the same number, although the prefixes
  of activities (\<open>A\<close>) and agents (\<open>Agt-\<close>) overlap.
\<close>

theorem display_channel_id_inj: "display_channel_id c = display_channel_id d \<longleftrightarrow> c = d"
  by (cases c; cases d)
    (auto simp: display_activity_id_def display_agent_id_def display_worker_id_def
      display_relay_id_def display_id_inj, auto simp: display_id_def)

section \<open>Errors\<close>

text \<open>The failures an activity can report (\<open>ActivityError\<close>).\<close>

datatype activity_error = AStartup | AStep | AShutdown

text \<open>
  The kinds of \<open>std::io::Error\<close> that the sources create or test for; every other kind is
  \<open>IoOther\<close>.
\<close>

datatype io_error_kind =
    ConnectionReset | IoNotFound | TimedOut | WouldBlock | Interrupted | WriteZero | BrokenPipe | IoOther

section \<open>Time values inside signals\<close>

text \<open>
  A \<open>Duration\<close> is a number of nanoseconds (see \<open>Feo_Time\<close>); \<open>Timestamp\<close> and \<open>SyncInfo\<close> wrap
  one (\<open>timestamp.rs\<close>).
\<close>

type_synonym duration = nat

datatype timestamp = Timestamp (ts_nanos: duration)
datatype sync_info = SyncInfo (since_epoch: duration)

section \<open>Signals\<close>

datatype signal =
    StartupSync sync_info
  | Startup activity_id timestamp
  | Shutdown activity_id timestamp
  | Step activity_id timestamp
  | Ready activity_id timestamp
  | ActivityFailed activity_id activity_error
  | Terminate timestamp
  | TerminateAck agent_id

text \<open>The crate's error type (\<open>Error\<close> in \<open>error.rs\<close>).\<close>

datatype error =
    EActivityFailed activity_id activity_error
  | EActivityNotFound activity_id
  | EChannel string
  | EChannelClosed
  | EChannelNotFound channel_id
  | EIo io_error_kind string
  | ETimeout "duration option" string
  | EUnexpectedProtocolSignal
  | EUnexpectedSignal signal
  | EWorkerNotFound worker_id
  | EMwComError

definition error_from_io :: "io_error_kind \<Rightarrow> error" where
  "error_from_io k = EIo k ''failed''"

fun show_activity_error :: "activity_error \<Rightarrow> string" where
  "show_activity_error AStartup = ''Startup''"
| "show_activity_error AStep = ''Step''"
| "show_activity_error AShutdown = ''Shutdown''"

text \<open>
  \<open>Display for Signal\<close>; the derived \<open>Debug\<close> text of the time values is the caller's function.
\<close>

fun display_signal :: "(duration \<Rightarrow> string) \<Rightarrow> signal \<Rightarrow> string" where
  "display_signal dbg (StartupSync t) = ''StartupSync('' @ dbg (since_epoch t) @ '')''"
| "display_signal dbg (Startup i t) = ''Startup('' @ display_activity_id i @ '', '' @ dbg (ts_nanos t) @ '')''"
| "display_signal dbg (Shutdown i t) = ''Shutdown('' @ display_activity_id i @ '', '' @ dbg (ts_nanos t) @ '')''"
| "display_signal dbg (Step i t) = ''Step('' @ display_activity_id i @ '', '' @ dbg (ts_nanos t) @ '')''"
| "display_signal dbg (Ready i t) = ''Ready('' @ display_activity_id i @ '', '' @ dbg (ts_nanos t) @ '')''"
| "display_signal dbg (ActivityFailed i e) =
     ''ActivityFailed('' @ display_activity_id i @ '', '' @ show_activity_error e @ '')''"
| "display_signal dbg (Terminate t) = ''Terminate('' @ dbg (ts_nanos t) @ '')''"
| "display_signal dbg (TerminateAck i) = ''TerminateAck('' @ display_agent_id i @ '')''"

end
