(* ===== verification/Feo_Time.thy ===== *)
theory Feo_Time
  imports Feo_Ids
begin

text \<open>
  The crate \<open>feo-time\<close> (\<open>feo-time/src/lib.rs\<close>, \<open>ffi.rs\<close>): durations, instants, system times
  and the global speed factor.

  A \<open>Duration\<close> (a \<open>u64\<close> of seconds and a \<open>u32\<close> of nanoseconds below one second) is its number of
  nanoseconds; \<open>duration_ok\<close> is its range. An \<open>Instant\<close> and a \<open>SystemTime\<close> are a signed number
  of nanoseconds from the clock's origin, in the range of the platform's \<open>timespec\<close>. The statics
  \<open>INIT\<close>, \<open>START\<close> and \<open>FACTOR\<close> are a record; the raw readings of the two clocks of the operating
  system are arguments.
\<close>

section \<open>Durations\<close>

definition nanos_per_sec :: nat where
  "nanos_per_sec = 1000000000"

definition duration_max :: nat where
  "duration_max = (2 ^ 64 - 1) * nanos_per_sec + (nanos_per_sec - 1)"

definition duration_ok :: "duration \<Rightarrow> bool" where
  "duration_ok d \<longleftrightarrow> d \<le> duration_max"

definition dur_zero :: duration where
  "dur_zero = 0"

definition dur_checked :: "nat \<Rightarrow> duration outcome" where
  "dur_checked n = (if n \<le> duration_max then Ret n else Panic)"

definition dur_new :: "u64 \<Rightarrow> u32 \<Rightarrow> duration outcome" where
  "dur_new secs nanos = dur_checked (unat secs * nanos_per_sec + unat nanos)"

definition dur_from_secs :: "u64 \<Rightarrow> duration" where
  "dur_from_secs secs = unat secs * nanos_per_sec"

definition dur_from_millis :: "u64 \<Rightarrow> duration" where
  "dur_from_millis millis = unat millis * 1000000"

definition dur_from_micros :: "u64 \<Rightarrow> duration" where
  "dur_from_micros micros = unat micros * 1000"

definition dur_from_nanos :: "u64 \<Rightarrow> duration" where
  "dur_from_nanos nanos = unat nanos"

definition dur_as_secs :: "duration \<Rightarrow> u64" where
  "dur_as_secs d = word_of_nat (d div nanos_per_sec)"

definition dur_subsec_nanos :: "duration \<Rightarrow> u32" where
  "dur_subsec_nanos d = word_of_nat (d mod nanos_per_sec)"

definition dur_as_nanos :: "duration \<Rightarrow> u128" where
  "dur_as_nanos d = word_of_nat d"

definition dur_is_zero :: "duration \<Rightarrow> bool" where
  "dur_is_zero d \<longleftrightarrow> d = 0"

definition dur_saturating_sub :: "duration \<Rightarrow> duration \<Rightarrow> duration" where
  "dur_saturating_sub a b = a - b"

definition dur_add :: "duration \<Rightarrow> duration \<Rightarrow> duration outcome" where
  "dur_add a b = dur_checked (a + b)"

definition dur_sub :: "duration \<Rightarrow> duration \<Rightarrow> duration outcome" where
  "dur_sub a b = (if b \<le> a then Ret (a - b) else Panic)"

definition dur_mul :: "duration \<Rightarrow> u32 \<Rightarrow> duration outcome" where
  "dur_mul d k = dur_checked (d * unat k)"

definition dur_div :: "duration \<Rightarrow> u32 \<Rightarrow> duration outcome" where
  "dur_div d k = (if k = 0 then Panic else Ret (d div unat k))"

fun dur_sum :: "duration list \<Rightarrow> duration outcome" where
  "dur_sum [] = Ret 0"
| "dur_sum (d # ds) = obind (dur_sum ds) (\<lambda>s. dur_add d s)"

lemma dur_checked_Ret: "dur_checked n = Ret d \<longleftrightarrow> d = n \<and> n \<le> duration_max"
  by (auto simp: dur_checked_def)

lemma dur_mul_Ret: "dur_mul d k = Ret e \<longleftrightarrow> e = d * unat k \<and> d * unat k \<le> duration_max"
  by (simp add: dur_mul_def dur_checked_Ret)

lemma dur_div_Ret: "dur_div d k = Ret e \<longleftrightarrow> k \<noteq> 0 \<and> e = d div unat k"
  by (auto simp: dur_div_def)

lemma duration_ok_of_u64 [simp]:
  "duration_ok (dur_from_secs s)" "duration_ok (dur_from_millis s)"
  "duration_ok (dur_from_micros s)" "duration_ok (dur_from_nanos s)"
  using unat_bound [of s]
  by (simp_all add: duration_ok_def duration_max_def dur_from_secs_def dur_from_millis_def
      dur_from_micros_def dur_from_nanos_def nanos_per_sec_def)

lemma duration_ok_ops:
  "duration_ok a \<Longrightarrow> duration_ok (dur_saturating_sub a b)"
  "dur_add a b = Ret c \<Longrightarrow> duration_ok c"
  "duration_ok a \<Longrightarrow> dur_sub a b = Ret c \<Longrightarrow> duration_ok c"
  "dur_mul a k = Ret c \<Longrightarrow> duration_ok c"
  "duration_ok a \<Longrightarrow> dur_div a k = Ret c \<Longrightarrow> duration_ok c"
  by (auto simp: duration_ok_def dur_saturating_sub_def dur_add_def dur_sub_def dur_mul_Ret
      dur_div_Ret dur_checked_Ret split: if_splits intro: order_trans [OF div_le_dividend])

lemma unat_as_secs: "duration_ok d \<Longrightarrow> unat (dur_as_secs d) = d div nanos_per_sec"
  by (simp add: dur_as_secs_def unat_of_nat duration_ok_def duration_max_def nanos_per_sec_def)

lemma unat_subsec_nanos: "unat (dur_subsec_nanos d) = d mod nanos_per_sec"
  by (simp add: dur_subsec_nanos_def unat_of_nat nanos_per_sec_def)

lemma unat_as_nanos: "duration_ok d \<Longrightarrow> unat (dur_as_nanos d) = d"
  by (simp add: dur_as_nanos_def unat_of_nat duration_ok_def duration_max_def nanos_per_sec_def)

lemma dur_new_split: "duration_ok d \<Longrightarrow> dur_new (dur_as_secs d) (dur_subsec_nanos d) = Ret d"
  by (simp add: dur_new_def dur_checked_Ret unat_as_secs unat_subsec_nanos duration_ok_def)

section \<open>Instants and system times\<close>

type_synonym instant = int
type_synonym systime = int

definition clock_min :: int where
  "clock_min = - (2 ^ 63) * 1000000000"

definition clock_max :: int where
  "clock_max = 2 ^ 63 * 1000000000 - 1"

definition unix_epoch :: systime where
  "unix_epoch = 0"

definition checked_duration_since :: "instant \<Rightarrow> instant \<Rightarrow> duration option" where
  "checked_duration_since self earlier = (if earlier \<le> self then Some (nat (self - earlier)) else None)"

definition duration_since :: "instant \<Rightarrow> instant \<Rightarrow> duration" where
  "duration_since self earlier =
    (case checked_duration_since self earlier of None \<Rightarrow> dur_zero | Some d \<Rightarrow> d)"

definition saturating_duration_since :: "instant \<Rightarrow> instant \<Rightarrow> duration" where
  "saturating_duration_since self earlier =
    (case checked_duration_since self earlier of None \<Rightarrow> dur_zero | Some d \<Rightarrow> d)"

definition instant_checked_add :: "instant \<Rightarrow> duration \<Rightarrow> instant option" where
  "instant_checked_add i d = (if i + int d \<le> clock_max then Some (i + int d) else None)"

definition instant_checked_sub :: "instant \<Rightarrow> duration \<Rightarrow> instant option" where
  "instant_checked_sub i d = (if clock_min \<le> i - int d then Some (i - int d) else None)"

definition expect_ret :: "'a option \<Rightarrow> 'a outcome" where
  "expect_ret x = (case x of None \<Rightarrow> Panic | Some a \<Rightarrow> Ret a)"

definition instant_add :: "instant \<Rightarrow> duration \<Rightarrow> instant outcome" where
  "instant_add i d = expect_ret (instant_checked_add i d)"

definition instant_sub :: "instant \<Rightarrow> duration \<Rightarrow> instant outcome" where
  "instant_sub i d = expect_ret (instant_checked_sub i d)"

definition instant_diff :: "instant \<Rightarrow> instant \<Rightarrow> duration" where
  "instant_diff self other = duration_since self other"

text \<open>\<open>SystemTime::duration_since\<close> fails with the distance when the clock went backwards.\<close>

definition systime_duration_since :: "systime \<Rightarrow> systime \<Rightarrow> duration + duration" where
  "systime_duration_since self earlier =
    (if earlier \<le> self then Inr (nat (self - earlier)) else Inl (nat (earlier - self)))"

definition systime_checked_add :: "systime \<Rightarrow> duration \<Rightarrow> systime option" where
  "systime_checked_add t d = (if t + int d \<le> clock_max then Some (t + int d) else None)"

definition systime_checked_sub :: "systime \<Rightarrow> duration \<Rightarrow> systime option" where
  "systime_checked_sub t d = (if clock_min \<le> t - int d then Some (t - int d) else None)"

definition systime_add :: "systime \<Rightarrow> duration \<Rightarrow> systime outcome" where
  "systime_add t d = expect_ret (systime_checked_add t d)"

definition systime_sub :: "systime \<Rightarrow> duration \<Rightarrow> systime outcome" where
  "systime_sub t d = expect_ret (systime_checked_sub t d)"

lemma expect_ret_Ret [simp]: "expect_ret x = Ret a \<longleftrightarrow> x = Some a"
  by (cases x) (auto simp: expect_ret_def)

lemma duration_since_nat: "duration_since a b = nat (a - b)"
  by (auto simp: duration_since_def checked_duration_since_def dur_zero_def)

section \<open>The speed factor\<close>

text \<open>The statics \<open>INIT\<close>, \<open>START\<close> and \<open>FACTOR\<close> (an \<open>i32\<close>).\<close>

record time_globals =
  tg_init :: bool
  tg_start :: "(systime \<times> instant) option"
  tg_factor :: "32 word"

definition time_globals_init :: time_globals where
  "time_globals_init = \<lparr>tg_init = False, tg_start = None, tg_factor = 0\<rparr>"

definition unsigned_abs :: "32 word \<Rightarrow> u32" where
  "unsigned_abs f = word_of_int \<bar>sint f\<bar>"

definition is_positive :: "32 word \<Rightarrow> bool" where
  "is_positive f \<longleftrightarrow> 0 < sint f"

text \<open>
  \<open>START\<close> is a lazy static: it is read with the factor already set only after \<open>speed\<close> has forced
  it. Forcing it inside \<open>now\<close> would re-enter its own initialisation, which does not return.
\<close>

definition start_of :: "time_globals \<Rightarrow> (systime \<times> instant) outcome" where
  "start_of g = (case tg_start g of None \<Rightarrow> Hang | Some s \<Rightarrow> Ret s)"

definition speed :: "32 word \<Rightarrow> systime \<Rightarrow> instant \<Rightarrow> time_globals \<Rightarrow> time_globals outcome" where
  "speed factor sys_now inst_now g =
    (if tg_init g then Panic
     else Ret (g\<lparr>tg_init := True,
                 tg_start := (case tg_start g of None \<Rightarrow> Some (sys_now, inst_now) | Some s \<Rightarrow> Some s),
                 tg_factor := factor\<rparr>))"

definition get_speed :: "time_globals \<Rightarrow> 32 word option" where
  "get_speed g = (if tg_factor g \<noteq> 0 then Some (tg_factor g) else None)"

definition instant_now :: "time_globals \<Rightarrow> instant \<Rightarrow> instant outcome" where
  "instant_now g now =
    (let factor = tg_factor g in
     if factor \<noteq> 0 then
       obind (start_of g) (\<lambda>(_, start).
         let since_start = duration_since now start in
         if is_positive factor then
           obind (dur_mul since_start (unsigned_abs factor))
             (\<lambda>elapsed. expect_ret (instant_checked_add start elapsed))
         else
           obind (dur_div since_start (unsigned_abs factor))
             (\<lambda>elapsed. expect_ret (instant_checked_add start elapsed)))
     else Ret now)"

definition instant_elapsed :: "time_globals \<Rightarrow> instant \<Rightarrow> instant \<Rightarrow> duration outcome" where
  "instant_elapsed g now self = obind (instant_now g now) (\<lambda>t. Ret (instant_diff t self))"

definition systime_now :: "time_globals \<Rightarrow> systime \<Rightarrow> systime outcome" where
  "systime_now g now =
    (let factor = tg_factor g in
     if factor \<noteq> 0 then
       obind (start_of g) (\<lambda>(start, _).
         case systime_duration_since now start of
           Inl _ \<Rightarrow> Panic
         | Inr since_start \<Rightarrow>
             if is_positive factor then
               obind (dur_mul since_start (unsigned_abs factor))
                 (\<lambda>elapsed. expect_ret (systime_checked_add start elapsed))
             else
               obind (dur_div since_start (unsigned_abs factor))
                 (\<lambda>elapsed. expect_ret (systime_checked_add start elapsed)))
     else Ret now)"

definition systime_elapsed :: "time_globals \<Rightarrow> systime \<Rightarrow> systime \<Rightarrow> (duration + duration) outcome" where
  "systime_elapsed g now self = obind (systime_now g now) (\<lambda>t. Ret (systime_duration_since t self))"

definition scaled :: "time_globals \<Rightarrow> duration \<Rightarrow> duration outcome" where
  "scaled g d =
    (let factor = tg_factor g in
     if factor \<noteq> 0 then
       (if is_positive factor then dur_div d (unsigned_abs factor) else dur_mul d (unsigned_abs factor))
     else Ret d)"

section \<open>The C interface\<close>

record feo_time_spec =
  tv_sec :: u64
  tv_nsec :: u32

definition feo_clock_speed :: "32 word \<Rightarrow> systime \<Rightarrow> instant \<Rightarrow> time_globals \<Rightarrow> time_globals outcome" where
  "feo_clock_speed = speed"

definition feo_clock_gettime :: "time_globals \<Rightarrow> systime \<Rightarrow> feo_time_spec outcome" where
  "feo_clock_gettime g raw =
    obind (systime_now g raw) (\<lambda>t.
      case systime_duration_since t unix_epoch of
        Inl _ \<Rightarrow> Panic
      | Inr now \<Rightarrow> Ret \<lparr>tv_sec = dur_as_secs now, tv_nsec = dur_subsec_nanos now\<rparr>)"

section \<open>Properties\<close>

lemma abs_sint_bound: "\<bar>sint (f :: 32 word)\<bar> \<le> 2 ^ 31"
  using sint_greater_eq [of f] sint_less [of f] by simp

lemma unat_unsigned_abs: "unat (unsigned_abs f) = nat \<bar>sint f\<bar>"
proof -
  have "uint (unsigned_abs f) = \<bar>sint f\<bar>"
    using abs_sint_bound [of f] by (simp add: unsigned_abs_def uint_word_of_int)
  then show ?thesis by (simp add: unat_eq_nat_uint)
qed

lemma sint_nonzero: "f \<noteq> 0 \<Longrightarrow> sint (f :: 32 word) \<noteq> 0"
  by (metis sint_0 signed_word_eqI)

lemma unsigned_abs_pos: "f \<noteq> 0 \<Longrightarrow> 0 < unat (unsigned_abs f)"
  by (simp add: unat_unsigned_abs sint_nonzero)

text \<open>The factor is set together with \<open>START\<close>, so \<open>now\<close> always finds it.\<close>

definition time_globals_ok :: "time_globals \<Rightarrow> bool" where
  "time_globals_ok g \<longleftrightarrow> (tg_factor g \<noteq> 0 \<longrightarrow> tg_init g \<and> tg_start g \<noteq> None)"

lemma time_globals_ok_init: "time_globals_ok time_globals_init"
  by (simp add: time_globals_ok_def time_globals_init_def)

lemma speed_ok: "speed f s i g = Ret g' \<Longrightarrow> time_globals_ok g'"
  by (auto simp: speed_def time_globals_ok_def split: if_splits option.splits)

lemma instant_now_factor:
  assumes "instant_now g raw = Ret t" "tg_factor g \<noteq> 0"
  obtains sys start where "tg_start g = Some (sys, start)"
    and "t = start + int (if is_positive (tg_factor g)
           then nat (raw - start) * unat (unsigned_abs (tg_factor g))
           else nat (raw - start) div unat (unsigned_abs (tg_factor g)))"
proof -
  from assms obtain sys start where st: "tg_start g = Some (sys, start)"
    by (cases "tg_start g") (auto simp: instant_now_def start_of_def)
  have "t = start + int (if is_positive (tg_factor g)
           then nat (raw - start) * unat (unsigned_abs (tg_factor g))
           else nat (raw - start) div unat (unsigned_abs (tg_factor g)))"
    using assms st
    by (auto simp: instant_now_def start_of_def Let_def duration_since_nat instant_checked_add_def
        dur_mul_def dur_checked_def dur_div_def split: if_splits)
  with st that show ?thesis by blast
qed

lemma start_of_not_Hang: "time_globals_ok g \<Longrightarrow> tg_factor g \<noteq> 0 \<Longrightarrow> start_of g \<noteq> Hang"
  by (auto simp: time_globals_ok_def start_of_def)

lemma expect_ret_not_Hang [simp]: "expect_ret x \<noteq> Hang" "dur_checked n \<noteq> Hang"
  "dur_mul d k \<noteq> Hang" "dur_div d k \<noteq> Hang"
  by (auto simp: expect_ret_def dur_checked_def dur_mul_def dur_div_def split: option.splits)

lemma obind_not_Hang: "m \<noteq> Hang \<Longrightarrow> (\<And>a. m = Ret a \<Longrightarrow> f a \<noteq> Hang) \<Longrightarrow> obind m f \<noteq> Hang"
  by (cases m) auto

text \<open>Elapsed clock time is a monotone function of the elapsed raw time.\<close>

definition scale_elapsed :: "32 word \<Rightarrow> nat \<Rightarrow> nat" where
  "scale_elapsed f n =
    (if is_positive f then n * unat (unsigned_abs f) else n div unat (unsigned_abs f))"

lemma scale_elapsed_mono: "m \<le> n \<Longrightarrow> scale_elapsed f m \<le> scale_elapsed f n"
  by (simp add: scale_elapsed_def div_le_mono)

lemma instant_now_Ret:
  assumes "instant_now g raw = Ret t"
  shows "tg_factor g = 0 \<and> t = raw \<or>
    (\<exists>sys start. tg_factor g \<noteq> 0 \<and> tg_start g = Some (sys, start)
      \<and> t = start + int (scale_elapsed (tg_factor g) (nat (raw - start))))"
proof (cases "tg_factor g = 0")
  case True
  with assms show ?thesis by (simp add: instant_now_def)
next
  case False
  from instant_now_factor [OF assms False] False show ?thesis
    by (force simp: scale_elapsed_def)
qed



text \<open>
  Sleeping for a scaled duration advances the scaled clock by the duration that was asked
  for: exactly when the clock is unscaled or slowed down, and short of it by less than the factor
  (the rounding of the division) when it is sped up.
\<close>

theorem scaled_sleep:
  assumes s: "scaled g d = Ret s" and t: "instant_now g raw = Ret t"
    and t': "instant_now g (raw + int s) = Ret t'"
    and after: "\<And>sys start. tg_start g = Some (sys, start) \<Longrightarrow> start \<le> raw"
  shows "t' - t \<le> int d \<and> int d < t' - t + max 1 \<bar>sint (tg_factor g)\<bar>
    \<and> (sint (tg_factor g) \<le> 0 \<longrightarrow> t' - t = int d)"
proof -
  let ?f = "tg_factor g" and ?k = "unat (unsigned_abs (tg_factor g))"
  show ?thesis
  proof (cases "?f = 0")
    case True
    with s t t' show ?thesis by (simp add: scaled_def instant_now_def)
  next
    case False
    then have k: "0 < ?k" by (rule unsigned_abs_pos)
    from instant_now_Ret [OF t] False obtain sys start where st: "tg_start g = Some (sys, start)"
      and teq: "t = start + int (scale_elapsed ?f (nat (raw - start)))" by auto
    from instant_now_Ret [OF t'] False st
    have teq': "t' = start + int (scale_elapsed ?f (nat (raw + int s - start)))" by auto
    define n where "n = nat (raw - start)"
    from after [OF st] have split_n: "nat (raw + int s - start) = n + s" by (simp add: n_def)
    have diff: "t' - t = int (scale_elapsed ?f (n + s)) - int (scale_elapsed ?f n)"
      using teq teq' split_n by (simp add: n_def)
    show ?thesis
    proof (cases "is_positive ?f")
      case True
      with s False have sd: "s = d div ?k" by (simp add: scaled_def dur_div_Ret)
      have "d = ?k * (d div ?k) + d mod ?k" "d mod ?k < ?k" using k by simp_all
      moreover have "t' - t = int (d div ?k * ?k)"
        using diff True sd by (simp add: scale_elapsed_def distrib_right)
      ultimately have "t' - t \<le> int d \<and> int d < t' - t + int ?k"
        by (metis add_less_cancel_left mult.commute of_nat_add of_nat_le_iff of_nat_less_iff le_add1)
      with True show ?thesis by (simp add: unat_unsigned_abs is_positive_def)
    next
      case neg: False
      with s False have sd: "s = d * ?k" by (simp add: scaled_def dur_mul_Ret)
      have "t' - t = int d" using diff neg sd k by (simp add: scale_elapsed_def)
      with neg False show ?thesis using sint_nonzero [OF False] by (simp add: is_positive_def)
    qed
  qed
qed

theorem scaled_sleep_witness:
  "scaled \<lparr>tg_init = True, tg_start = Some (5, 100), tg_factor = 3\<rparr> 20 = Ret 6
    \<and> (148::int) - 130 \<le> int 20 \<and> int 20 < 148 - 130 + max 1 \<bar>sint (3 :: 32 word)\<bar>"
proof -
  let ?g = "\<lparr>tg_init = True, tg_start = Some (5, 100), tg_factor = 3\<rparr>"
  note ev = instant_now_def start_of_def duration_since_nat is_positive_def unsigned_abs_def
    dur_mul_def dur_div_def dur_checked_def duration_max_def nanos_per_sec_def
    instant_checked_add_def clock_max_def scaled_def
  have s: "scaled ?g 20 = Ret 6" by (simp add: ev)
  have a: "instant_now ?g 110 = Ret 130" by (simp add: ev)
  have b: "instant_now ?g (110 + int 6) = Ret 148" by (simp add: ev)
  from scaled_sleep [OF s a b] s show ?thesis by simp
qed

end
