(* ===== verification/Feo_Timestamp.thy ===== *)
theory Feo_Timestamp
  imports Feo_Time
begin

text \<open>
  Startup time and timestamps (\<open>feo/src/timestamp.rs\<close>). \<open>STARTUP_TIME\<close>, a \<open>OnceLock\<close>, is an
  optional \<open>time_info\<close>; the raw clock readings of \<open>time_info_now\<close> are a function from the number
  of the try to the three values read in it. The lemmas show that the startup time is written
  once, that synchronisation carries it to another host, and what the conversions to and from
  integers accept.
\<close>

section \<open>Startup time\<close>

record time_info =
  ti_systime :: systime
  ti_instant :: instant

type_synonym startup_time = "time_info option"

text \<open>One iteration reads the monotonic clock, the system clock and the monotonic clock again.\<close>

type_synonym clock_readings = "nat \<Rightarrow> instant \<times> systime \<times> instant"

definition max_delay :: duration where
  "max_delay = 1000"

definition max_tries :: nat where
  "max_tries = 10"

fun time_info_loop :: "nat \<Rightarrow> clock_readings \<Rightarrow> nat \<Rightarrow> time_info outcome" where
  "time_info_loop 0 readings k = Panic"
| "time_info_loop (Suc tries) readings k =
    (case readings k of (inst, sys, inst2) \<Rightarrow>
       if saturating_duration_since inst2 inst < max_delay
       then Ret \<lparr>ti_systime = sys, ti_instant = inst\<rparr>
       else if 0 < tries then time_info_loop tries readings (Suc k)
       else Panic)"

definition time_info_now :: "clock_readings \<Rightarrow> time_info outcome" where
  "time_info_now readings = time_info_loop max_tries readings 0"

definition initialize :: "clock_readings \<Rightarrow> startup_time \<Rightarrow> startup_time outcome" where
  "initialize readings st =
    (case st of Some t \<Rightarrow> Ret (Some t)
     | None \<Rightarrow> obind (time_info_now readings) (\<lambda>t. Ret (Some t)))"

definition initialize_from :: "clock_readings \<Rightarrow> sync_info \<Rightarrow> startup_time \<Rightarrow> startup_time outcome" where
  "initialize_from readings sync st =
    (case st of Some t \<Rightarrow> Ret (Some t)
     | None \<Rightarrow>
         obind (time_info_now readings) (\<lambda>now.
         obind (systime_add unix_epoch (since_epoch sync)) (\<lambda>startup.
         case systime_duration_since (ti_systime now) startup of
           Inl _ \<Rightarrow> Panic
         | Inr elapsed \<Rightarrow>
             (case instant_checked_sub (ti_instant now) elapsed of
                None \<Rightarrow> Panic
              | Some startup_instant \<Rightarrow>
                  Ret (Some \<lparr>ti_systime = startup, ti_instant = startup_instant\<rparr>)))))"

definition startup_instant :: "startup_time \<Rightarrow> instant outcome" where
  "startup_instant st = (case st of None \<Rightarrow> Panic | Some t \<Rightarrow> Ret (ti_instant t))"

definition sync_info_of :: "startup_time \<Rightarrow> sync_info outcome" where
  "sync_info_of st =
    (case st of None \<Rightarrow> Panic
     | Some t \<Rightarrow>
         (case systime_duration_since (ti_systime t) unix_epoch of
            Inl _ \<Rightarrow> Panic
          | Inr d \<Rightarrow> Ret (SyncInfo d)))"

definition timestamp_at :: "time_globals \<Rightarrow> startup_time \<Rightarrow> instant \<Rightarrow> timestamp outcome" where
  "timestamp_at g st now =
    obind (startup_instant st) (\<lambda>start.
    obind (scaled g (duration_since now start)) (\<lambda>d. Ret (Timestamp d)))"

section \<open>Conversions\<close>

definition u64_max :: nat where
  "u64_max = 2 ^ 64 - 1"

definition u128_of_sync :: "sync_info \<Rightarrow> u128" where
  "u128_of_sync info = dur_as_nanos (since_epoch info)"

definition u64_of_sync :: "sync_info \<Rightarrow> u64 outcome" where
  "u64_of_sync info =
    (let nanos = dur_as_nanos (since_epoch info)
     in if unat nanos \<le> u64_max then Ret (ucast nanos) else Panic)"

definition sync_of_u128 :: "u128 \<Rightarrow> sync_info outcome" where
  "sync_of_u128 nanos =
    (if unat nanos \<le> u64_max then Ret (SyncInfo (dur_from_nanos (ucast nanos))) else Panic)"

definition sync_of_u64 :: "u64 \<Rightarrow> sync_info" where
  "sync_of_u64 nanos = SyncInfo (dur_from_nanos nanos)"

definition u128_of_timestamp :: "timestamp \<Rightarrow> u128" where
  "u128_of_timestamp t = dur_as_nanos (ts_nanos t)"

definition u64_of_timestamp :: "timestamp \<Rightarrow> u64 outcome" where
  "u64_of_timestamp t =
    (let nanos = dur_as_nanos (ts_nanos t)
     in if unat nanos \<le> u64_max then Ret (ucast nanos) else Panic)"

definition timestamp_of_u128 :: "u128 \<Rightarrow> timestamp outcome" where
  "timestamp_of_u128 nanos =
    (if unat nanos \<le> u64_max then Ret (Timestamp (dur_from_nanos (ucast nanos))) else Panic)"

definition timestamp_of_u64 :: "u64 \<Rightarrow> timestamp" where
  "timestamp_of_u64 nanos = Timestamp (dur_from_nanos nanos)"

lemma unat_ucast_u64: "unat (n :: u128) \<le> u64_max \<Longrightarrow> unat (ucast n :: u64) = unat n"
  by (simp add: unsigned_ucast_eq u64_max_def take_bit_nat_eq_self)

lemma timestamp_of_u128_roundtrip:
  "duration_ok (ts_nanos t) \<Longrightarrow>
    timestamp_of_u128 (u128_of_timestamp t) = (if ts_nanos t \<le> u64_max then Ret t else Panic)"
  by (cases t)
    (simp add: timestamp_of_u128_def u128_of_timestamp_def unat_as_nanos unat_ucast_u64 dur_from_nanos_def)

lemma sync_of_u128_roundtrip:
  "duration_ok (since_epoch t) \<Longrightarrow>
    sync_of_u128 (u128_of_sync t) = (if since_epoch t \<le> u64_max then Ret t else Panic)"
  by (cases t)
    (simp add: sync_of_u128_def u128_of_sync_def unat_as_nanos unat_ucast_u64 dur_from_nanos_def)

section \<open>Properties\<close>

text \<open>A successful reading is the first one whose two instants are close enough.\<close>

definition reading_close :: "clock_readings \<Rightarrow> nat \<Rightarrow> bool" where
  "reading_close readings k =
    (case readings k of (inst, sys, inst2) \<Rightarrow> saturating_duration_since inst2 inst < max_delay)"

lemma time_info_loop_Ret:
  assumes "time_info_loop tries readings k = Ret t"
  shows "\<exists>j < tries. reading_close readings (k + j) \<and> (\<forall>i < j. \<not> reading_close readings (k + i))
    \<and> t = (case readings (k + j) of (inst, sys, inst2) \<Rightarrow> \<lparr>ti_systime = sys, ti_instant = inst\<rparr>)"
  using assms
proof (induction tries arbitrary: k)
  case 0
  then show ?case by simp
next
  case (Suc tries)
  show ?case
  proof (cases "reading_close readings k")
    case True
    with Suc.prems show ?thesis
      by (intro exI [of _ 0]) (auto simp: reading_close_def split: prod.splits)
  next
    case False
    with Suc.prems have "time_info_loop tries readings (Suc k) = Ret t"
      by (auto simp: reading_close_def split: prod.splits if_splits)
    from Suc.IH [OF this] obtain j where j: "j < tries" "reading_close readings (Suc k + j)"
      "\<forall>i < j. \<not> reading_close readings (Suc k + i)"
      "t = (case readings (Suc k + j) of (inst, sys, inst2) \<Rightarrow> \<lparr>ti_systime = sys, ti_instant = inst\<rparr>)"
      by auto
    moreover have "\<not> reading_close readings (k + i)" if "i < Suc j" for i
      using that False j(3) by (cases i) auto
    ultimately show ?thesis by (intro exI [of _ "Suc j"]) simp
  qed
qed

lemma time_info_loop_returns:
  assumes "reading_close readings (k + j)" "j < tries"
  shows "\<exists>t. time_info_loop tries readings k = Ret t"
  using assms
proof (induction tries arbitrary: k j)
  case 0
  then show ?case by simp
next
  case (Suc tries)
  show ?case
  proof (cases "reading_close readings k")
    case True
    then show ?thesis by (auto simp: reading_close_def split: prod.splits)
  next
    case False
    with Suc.prems obtain j' where j': "j = Suc j'" by (cases j) auto
    with Suc.prems have "reading_close readings (Suc k + j')" "j' < tries" by auto
    from Suc.IH [OF this] False show ?thesis
      using j' Suc.prems by (auto simp: reading_close_def split: prod.splits)
  qed
qed

text \<open>
  \<open>time_info_now\<close> takes at most ten readings: it returns exactly when one of the first ten
  pairs of monotonic readings is less than a microsecond apart, and then it returns the first such
  reading; otherwise it panics.
\<close>

theorem time_info_now_first_close:
  "(case time_info_now readings of
      Ret t \<Rightarrow> \<exists>j < 10. reading_close readings j \<and> (\<forall>i < j. \<not> reading_close readings i)
        \<and> t = (case readings j of (inst, sys, inst2) \<Rightarrow> \<lparr>ti_systime = sys, ti_instant = inst\<rparr>)
    | Panic \<Rightarrow> \<forall>j < 10. \<not> reading_close readings j
    | Hang \<Rightarrow> False)"
proof -
  have nohang: "time_info_loop n readings k \<noteq> Hang" for n k
    by (induction n arbitrary: k) (auto split: prod.splits)
  show ?thesis
  proof (cases "time_info_now readings")
    case (Ret t)
    then show ?thesis using time_info_loop_Ret [of max_tries readings 0 t]
      by (simp add: time_info_now_def max_tries_def)
  next
    case Panic
    then show ?thesis using time_info_loop_returns [of readings 0 _ max_tries]
      by (auto simp: time_info_now_def max_tries_def)
  next
    case Hang
    with nohang show ?thesis by (simp add: time_info_now_def)
  qed
qed

fun demo_readings :: clock_readings where
  "demo_readings 0 = (0, 0, 5000)"
| "demo_readings (Suc k) = (7000, 9, 7001)"

lemma demo_readings_result: "time_info_now demo_readings = Ret \<lparr>ti_systime = 9, ti_instant = 7000\<rparr>"
  by (simp add: time_info_now_def max_tries_def max_delay_def saturating_duration_since_def
      checked_duration_since_def numeral_eq_Suc)

theorem time_info_now_first_close_witness:
  "\<exists>j < 10. reading_close demo_readings j \<and> (\<forall>i < j. \<not> reading_close demo_readings i)"
  using time_info_now_first_close [of demo_readings] by (auto simp: demo_readings_result)

lemma initialize_first_wins: "initialize readings (Some t) = Ret (Some t)"
  "initialize_from readings sync (Some t) = Ret (Some t)"
  by (simp_all add: initialize_def initialize_from_def)

lemma initialize_from_Ret:
  assumes "initialize_from readings sync None = Ret st" "time_info_now readings = Ret now"
  shows "st = Some \<lparr>ti_systime = unix_epoch + int (since_epoch sync),
      ti_instant = ti_instant now - (ti_systime now - (unix_epoch + int (since_epoch sync)))\<rparr>
    \<and> unix_epoch + int (since_epoch sync) \<le> ti_systime now"
  using assms
  by (auto simp: initialize_from_def systime_add_def expect_ret_def systime_checked_add_def
      systime_duration_since_def instant_checked_sub_def split: if_splits option.splits)

text \<open>
  C36: synchronisation makes both hosts stamp alike: the secondary that initialises from the
  primary's \<open>SyncInfo\<close> records the primary's startup time, and when its monotonic clock has
  advanced as much as the system clock since then, its timestamps equal those of the primary at
  the same moment, whatever the origins of the two monotonic clocks.
\<close>

theorem sync_timestamps_agree:
  assumes primary: "sync_info_of (Some p) = Ret sync"
    and reading: "time_info_now readings = Ret now"
    and secondary: "initialize_from readings sync None = Ret st"
    and clocks: "now_s - ti_instant now = (ti_systime p + (now_p - ti_instant p)) - ti_systime now"
  shows "timestamp_at g st now_s = timestamp_at g (Some p) now_p
    \<and> map_option ti_systime st = Some (ti_systime p)"
proof -
  from primary have sync: "unix_epoch + int (since_epoch sync) = ti_systime p"
    by (auto simp: sync_info_of_def systime_duration_since_def unix_epoch_def split: if_splits)
  from initialize_from_Ret [OF secondary reading] sync
  have st: "st = Some \<lparr>ti_systime = ti_systime p,
      ti_instant = ti_instant now - (ti_systime now - ti_systime p)\<rparr>" by simp
  have "now_s - (ti_instant now - (ti_systime now - ti_systime p)) = now_p - ti_instant p"
    using clocks by simp
  then show ?thesis
    by (simp add: st timestamp_at_def startup_instant_def duration_since_nat)
qed

theorem sync_timestamps_agree_witness:
  "timestamp_at time_globals_init (Some \<lparr>ti_systime = 1000, ti_instant = 900\<rparr>) 1050
    = timestamp_at time_globals_init (Some \<lparr>ti_systime = 1000, ti_instant = 20\<rparr>) 170"
proof -
  let ?p = "\<lparr>ti_systime = 1000, ti_instant = 20\<rparr>"
  let ?rd = "\<lambda>k::nat. (1000::int, 1100::int, 1000::int)"
  have max10: "max_tries = Suc 9" by (simp add: max_tries_def)
  have p: "sync_info_of (Some ?p) = Ret (SyncInfo 1000)"
    by (simp add: sync_info_of_def systime_duration_since_def unix_epoch_def)
  have r: "time_info_now ?rd = Ret \<lparr>ti_systime = 1100, ti_instant = 1000\<rparr>"
    unfolding time_info_now_def max10 time_info_loop.simps
    by (simp add: saturating_duration_since_def checked_duration_since_def max_delay_def)
  have s: "initialize_from ?rd (SyncInfo 1000) None
      = Ret (Some \<lparr>ti_systime = 1000, ti_instant = 900\<rparr>)"
    by (simp add: initialize_from_def r systime_add_def expect_ret_def systime_checked_add_def
        clock_max_def unix_epoch_def systime_duration_since_def instant_checked_sub_def clock_min_def)
  have c: "1050 - ti_instant \<lparr>ti_systime = 1100, ti_instant = 1000\<rparr>
      = (ti_systime ?p + (170 - ti_instant ?p)) - ti_systime \<lparr>ti_systime = 1100, ti_instant = 1000\<rparr>"
    by simp
  from sync_timestamps_agree [OF p r s c, of time_globals_init] show ?thesis by blast
qed

text \<open>
  Under a speed-up factor the timestamp is the real time since startup divided by the factor,
  while the \<open>Instant\<close> clock advances by that time multiplied by it: \<open>timestamp\<close> applies the scaling
  that is meant for sleeping.
\<close>

theorem timestamp_divides_speedup:
  assumes factor: "0 < sint (tg_factor g)" and start: "tg_start g = Some (sys, si)"
    and later: "si \<le> raw"
    and ts: "timestamp_at g (Some \<lparr>ti_systime = sys, ti_instant = si\<rparr>) raw = Ret stamp"
    and el: "instant_elapsed g raw si = Ret elapsed"
  shows "ts_nanos stamp = nat (raw - si) div nat (sint (tg_factor g))
    \<and> elapsed = nat (raw - si) * nat (sint (tg_factor g))"
proof -
  let ?f = "tg_factor g"
  from factor have f: "?f \<noteq> 0" "is_positive ?f" "unat (unsigned_abs ?f) = nat (sint ?f)"
    by (auto simp: is_positive_def unat_unsigned_abs)
  from unsigned_abs_pos [OF f(1)] have nz: "unsigned_abs ?f \<noteq> 0" by auto
  have "ts_nanos stamp = nat (raw - si) div nat (sint ?f)"
    using ts f nz by (auto simp: timestamp_at_def startup_instant_def scaled_def dur_div_def
        Let_def duration_since_nat)
  moreover have "elapsed = nat (raw - si) * nat (sint ?f)"
  proof -
    from el obtain t where t: "instant_now g raw = Ret t" and e: "elapsed = instant_diff t si"
      by (cases "instant_now g raw") (auto simp: instant_elapsed_def)
    from instant_now_Ret [OF t] f(1) start have "t = si + int (scale_elapsed ?f (nat (raw - si)))"
      by auto
    with e f show ?thesis
      by (simp add: instant_diff_def duration_since_nat scale_elapsed_def nat_mult_distrib)
  qed
  ultimately show ?thesis by blast
qed

theorem timestamp_divides_speedup_witness:
  "timestamp_at \<lparr>tg_init = True, tg_start = Some (5, 100), tg_factor = 2\<rparr>
     (Some \<lparr>ti_systime = 5, ti_instant = 100\<rparr>) 500 = Ret (Timestamp 200)
   \<and> instant_elapsed \<lparr>tg_init = True, tg_start = Some (5, 100), tg_factor = 2\<rparr> 500 100 = Ret 800
   \<and> (200::nat) = nat (500 - 100) div nat (sint (2 :: 32 word))"
proof -
  let ?g = "\<lparr>tg_init = True, tg_start = Some (5, 100), tg_factor = 2\<rparr>"
  note ev = timestamp_at_def startup_instant_def scaled_def dur_div_def duration_since_nat
    is_positive_def unsigned_abs_def instant_elapsed_def instant_now_def start_of_def dur_mul_def
    dur_checked_def duration_max_def nanos_per_sec_def instant_checked_add_def clock_max_def
    instant_diff_def expect_ret_def
  have t: "timestamp_at ?g (Some \<lparr>ti_systime = 5, ti_instant = 100\<rparr>) 500 = Ret (Timestamp 200)"
    by (simp add: ev)
  have e: "instant_elapsed ?g 500 100 = Ret 800" by (simp add: ev)
  have f: "0 < sint (tg_factor ?g)" by simp
  have s: "tg_start ?g = Some (5, 100)" by simp
  from timestamp_divides_speedup [OF f s _ t e] t e show ?thesis by simp
qed

end
