(* ===== verification/Feo_Interface.thy ===== *)
theory Feo_Interface
  imports Feo_Timestamp
begin

text \<open>
  The connector traits (\<open>feo/src/signalling/common/interface.rs\<close>) and the platform. A trait object
  is a record of operations on a state \<open>'w\<close>, which holds the connector and the world behind it
  (channels, peers, clock). \<open>platform\<close> is what the scheduler and the workers use besides the
  connector: the clock of \<open>feo_time\<close>, \<open>timestamp()\<close>, \<open>thread::sleep\<close>, the shutdown flag that a
  signal handler sets, and \<open>sync_info()\<close> and \<open>initialize_from\<close> of \<open>timestamp.rs\<close>.
\<close>

section \<open>Traits\<close>

record 'w connect_scheduler =
  cs_connect_remotes :: "('w, error + unit) io"
  cs_sync_time :: "('w, error + unit) io"
  cs_connected_agents :: "'w \<Rightarrow> agent_id list"
  cs_receive :: "duration \<Rightarrow> ('w, error + signal option) io"
  cs_send_to_activity :: "activity_id \<Rightarrow> signal \<Rightarrow> ('w, error + unit) io"
  cs_broadcast_terminate :: "signal \<Rightarrow> ('w, error + unit) io"

record 'w connect_worker =
  cw_connect_remote :: "('w, error + unit) io"
  cw_receive :: "duration \<Rightarrow> ('w, error + signal option) io"
  cw_send_to_scheduler :: "signal \<Rightarrow> ('w, error + unit) io"

record 'w platform =
  pf_now :: "('w, instant) io"
  pf_timestamp :: "('w, timestamp) io"
  pf_sleep :: "duration \<Rightarrow> ('w, unit) io"
  pf_shutdown_requested :: "('w, bool) io"
  pf_sync_info :: "('w, sync_info) io"
  pf_initialize_from :: "sync_info \<Rightarrow> ('w, unit) io"

text \<open>\<open>Instant::elapsed\<close> on the platform clock.\<close>

definition pf_elapsed :: "'w platform \<Rightarrow> instant \<Rightarrow> ('w, duration) io" where
  "pf_elapsed pf start = io_bind (pf_now pf) (\<lambda>t. io_return (instant_diff t start))"

text \<open>A \<open>u32\<close> addition of a length and a constant that overflows panics, and so does the product.\<close>

definition scaled_timeout :: "duration \<Rightarrow> nat \<Rightarrow> nat \<Rightarrow> duration outcome" where
  "scaled_timeout d len extra =
    (if unat (word_of_nat len :: u32) + extra < 2 ^ 32 then dur_mul d (word_of_nat len + word_of_nat extra)
     else Panic)"

text \<open>The elements of a \<open>BTreeSet\<close> in iteration order.\<close>

definition btree_set :: "'a::linorder list \<Rightarrow> 'a list" where
  "btree_set xs = sort (remdups xs)"

lemma btree_set_props [simp]:
  "sorted (btree_set xs)" "distinct (btree_set xs)" "set (btree_set xs) = set xs"
  by (simp_all add: btree_set_def)

lemma btree_set_unique: "sorted xs \<Longrightarrow> distinct xs \<Longrightarrow> set xs = set ys \<Longrightarrow> btree_set ys = xs"
  by (metis btree_set_props sorted_distinct_set_unique)

end
