(* ===== verification/Feo_Worker.thy ===== *)
theory Feo_Worker
  imports Feo_Interface
begin

text \<open>
  The worker thread (\<open>feo/src/worker/mod.rs\<close>) and the activity trait (\<open>feo/src/activity.rs\<close>). The
  activities are values of a type \<open>'a\<close> whose operations are the record \<open>activity_ops\<close>; the connector
  and the platform work on \<open>wk_world\<close>. \<open>wk_log\<close> is a ghost field, newest event first. The lemmas
  show that the worker is a strict request/response server: the log of every run on every connector
  alternates as \<open>worker_log_ok\<close> says.
\<close>

section \<open>State\<close>

record 'a activity_ops =
  act_startup :: "('a, activity_error + unit) io"
  act_step :: "('a, activity_error + unit) io"
  act_shutdown :: "('a, activity_error + unit) io"

datatype activity_call = CallStartup | CallStep | CallShutdown

datatype worker_event =
    WRecv signal
  | WCall activity_id activity_call "activity_error + unit"
  | WSend signal
  | WClosed

record ('w, 'a) worker =
  wk_id :: worker_id
  wk_agent_id :: agent_id
  wk_activities :: "activity_id \<Rightarrow> 'a option"
  wk_timeout :: duration
  wk_world :: 'w
  wk_log :: "worker_event list"

text \<open>Building the activities: a later builder for the same id replaces an earlier one.\<close>

definition worker_new ::
  "worker_id \<Rightarrow> agent_id \<Rightarrow> (activity_id \<times> (activity_id \<Rightarrow> 'a)) list \<Rightarrow> duration \<Rightarrow> 'w \<Rightarrow> ('w, 'a) worker" where
  "worker_new wid agent builders timeout w =
    \<lparr>wk_id = wid, wk_agent_id = agent,
     wk_activities = map_of (rev (map (\<lambda>(i, b). (i, b i)) builders)),
     wk_timeout = timeout, wk_world = w, wk_log = []\<rparr>"

section \<open>Operations\<close>

definition wk_io :: "('w, 'b) io \<Rightarrow> (('w, 'a) worker, 'b) io" where
  "wk_io = io_zoom wk_world (\<lambda>w s. s\<lparr>wk_world := w\<rparr>)"

definition wk_event :: "worker_event \<Rightarrow> (('w, 'a) worker, unit) io" where
  "wk_event e = io_modify (\<lambda>s. s\<lparr>wk_log := e # wk_log s\<rparr>)"

text \<open>\<open>connector.send_to_scheduler\<close>: the attempt is logged first.\<close>

definition wk_send :: "'w connect_worker \<Rightarrow> signal \<Rightarrow> (('w, 'a) worker, error + unit) io" where
  "wk_send cw sig = io_bind (wk_event (WSend sig)) (\<lambda>_. wk_io (cw_send_to_scheduler cw sig))"

definition wk_receive :: "'w connect_worker \<Rightarrow> (('w, 'a) worker, error + signal option) io" where
  "wk_receive cw =
    io_bind (io_gets wk_timeout) (\<lambda>timeout.
    io_bind (wk_io (cw_receive cw timeout)) (\<lambda>r.
    case r of
      Inr (Some sig) \<Rightarrow> io_bind (wk_event (WRecv sig)) (\<lambda>_. io_return r)
    | Inr None \<Rightarrow> io_return r
    | Inl EChannelClosed \<Rightarrow> io_bind (wk_event WClosed) (\<lambda>_. io_return r)
    | Inl e \<Rightarrow> io_return r))"

text \<open>Calling a method of the activity \<open>i\<close>, whose state is \<open>a\<close>.\<close>

definition call_activity ::
  "activity_id \<Rightarrow> 'a \<Rightarrow> activity_call \<Rightarrow> ('a, activity_error + unit) io
    \<Rightarrow> (('w, 'a) worker, activity_error + unit) io" where
  "call_activity i a c m =
    io_bind (\<lambda>s. case m a of (r, a') \<Rightarrow> (r, s\<lparr>wk_activities := (wk_activities s)(i \<mapsto> a')\<rparr>)) (\<lambda>r.
    io_bind (wk_event (WCall i c r)) (\<lambda>_. io_return r))"

text \<open>The three arms of \<open>handle_activity_signal\<close>.\<close>

definition respond ::
  "'w connect_worker \<Rightarrow> 'w platform \<Rightarrow> activity_id \<Rightarrow> instant \<Rightarrow> activity_error + unit
    \<Rightarrow> (('w, 'a) worker, error + unit) io" where
  "respond cw pf i start r =
    io_bind
      (case r of
         Inr _ \<Rightarrow> io_bind (wk_io (pf_timestamp pf)) (\<lambda>t. io_return (Ready i t))
       | Inl e \<Rightarrow> io_return (ActivityFailed i e)) (\<lambda>response.
    io_bind (wk_io (pf_elapsed pf start)) (\<lambda>_. wk_send cw response))"

definition handle_activity_signal ::
  "'w connect_worker \<Rightarrow> 'w platform \<Rightarrow> 'a activity_ops \<Rightarrow> activity_id \<Rightarrow> signal
    \<Rightarrow> (('w, 'a) worker, error + unit) io" where
  "handle_activity_signal cw pf ops i sig =
    io_bind (io_gets wk_activities) (\<lambda>activities.
    case activities i of
      None \<Rightarrow> io_return (Inl (EActivityNotFound i))
    | Some a \<Rightarrow>
        io_bind (wk_io (pf_now pf)) (\<lambda>start.
        case sig of
          Startup j t \<Rightarrow> io_bind (call_activity i a CallStartup (act_startup ops)) (respond cw pf j start)
        | Step j t \<Rightarrow> io_bind (call_activity i a CallStep (act_step ops)) (respond cw pf j start)
        | Shutdown j t \<Rightarrow> io_bind (call_activity i a CallShutdown (act_shutdown ops)) (respond cw pf j start)
        | other \<Rightarrow> io_return (Inl (EUnexpectedSignal other))))"

fun worker_run ::
  "nat \<Rightarrow> 'w connect_worker \<Rightarrow> 'w platform \<Rightarrow> 'a activity_ops \<Rightarrow> (('w, 'a) worker, error + unit) io"
where
  "worker_run 0 cw pf ops = io_hang"
| "worker_run (Suc n) cw pf ops =
    io_bind (wk_receive cw) (\<lambda>r.
    case r of
      Inr None \<Rightarrow> worker_run n cw pf ops
    | Inl EChannelClosed \<Rightarrow> io_return (Inr ())
    | Inl e \<Rightarrow> io_return (Inl e)
    | Inr (Some sig) \<Rightarrow>
        (case sig of
           Startup i t \<Rightarrow> io_try (handle_activity_signal cw pf ops i sig) (\<lambda>_. worker_run n cw pf ops)
         | Step i t \<Rightarrow> io_try (handle_activity_signal cw pf ops i sig) (\<lambda>_. worker_run n cw pf ops)
         | Shutdown i t \<Rightarrow> io_try (handle_activity_signal cw pf ops i sig) (\<lambda>_. worker_run n cw pf ops)
         | StartupSync sync \<Rightarrow>
             io_bind (wk_io (pf_initialize_from pf sync)) (\<lambda>_. worker_run n cw pf ops)
         | Terminate t \<Rightarrow>
             io_bind (io_gets wk_agent_id) (\<lambda>agent.
             io_bind (wk_send cw (TerminateAck agent)) (\<lambda>_.
             io_bind (wk_io (pf_sleep pf 100000000)) (\<lambda>_. io_return (Inr ()))))
         | other \<Rightarrow> io_return (Inl (EUnexpectedSignal other))))"

section \<open>The request/response protocol\<close>

fun call_of :: "signal \<Rightarrow> (activity_id \<times> activity_call) option" where
  "call_of (Startup i t) = Some (i, CallStartup)"
| "call_of (Step i t) = Some (i, CallStep)"
| "call_of (Shutdown i t) = Some (i, CallShutdown)"
| "call_of _ = None"

text \<open>The worker is ready for the next signal.\<close>

fun idle :: "worker_event list \<Rightarrow> bool" where
  "idle [] \<longleftrightarrow> True"
| "idle (WSend (Ready i t) # log) \<longleftrightarrow> True"
| "idle (WSend (ActivityFailed i e) # log) \<longleftrightarrow> True"
| "idle (WRecv (StartupSync sync) # log) \<longleftrightarrow> True"
| "idle _ \<longleftrightarrow> False"

text \<open>What may follow a log, for a worker of the given agent.\<close>

fun worker_event_ok :: "agent_id \<Rightarrow> worker_event \<Rightarrow> worker_event list \<Rightarrow> bool" where
  "worker_event_ok a (WRecv sig) log \<longleftrightarrow> idle log"
| "worker_event_ok a WClosed log \<longleftrightarrow> idle log"
| "worker_event_ok a (WCall i c r) log \<longleftrightarrow>
     (case log of WRecv sig # _ \<Rightarrow> call_of sig = Some (i, c) | _ \<Rightarrow> False)"
| "worker_event_ok a (WSend (Ready i t)) log \<longleftrightarrow>
     (case log of WCall j c r # _ \<Rightarrow> i = j \<and> r = Inr () | _ \<Rightarrow> False)"
| "worker_event_ok a (WSend (ActivityFailed i e)) log \<longleftrightarrow>
     (case log of WCall j c r # _ \<Rightarrow> i = j \<and> r = Inl e | _ \<Rightarrow> False)"
| "worker_event_ok a (WSend (TerminateAck g)) log \<longleftrightarrow>
     g = a \<and> (case log of WRecv (Terminate t) # _ \<Rightarrow> True | _ \<Rightarrow> False)"
| "worker_event_ok a (WSend sig) log \<longleftrightarrow> False"

fun worker_log_ok :: "agent_id \<Rightarrow> worker_event list \<Rightarrow> bool" where
  "worker_log_ok a [] \<longleftrightarrow> True"
| "worker_log_ok a (e # log) \<longleftrightarrow> worker_event_ok a e log \<and> worker_log_ok a log"

definition wk_ok :: "agent_id \<Rightarrow> ('w, 'a) worker \<Rightarrow> bool" where
  "wk_ok a s \<longleftrightarrow> wk_agent_id s = a \<and> worker_log_ok a (wk_log s)"

definition wk_idle :: "agent_id \<Rightarrow> ('w, 'a) worker \<Rightarrow> bool" where
  "wk_idle a s \<longleftrightarrow> wk_ok a s \<and> idle (wk_log s)"

definition wk_top :: "agent_id \<Rightarrow> worker_event \<Rightarrow> ('w, 'a) worker \<Rightarrow> bool" where
  "wk_top a e s \<longleftrightarrow> wk_ok a s \<and> (\<exists>log. wk_log s = e # log)"

lemma wk_updates [simp]:
  "wk_ok a (s\<lparr>wk_world := w\<rparr>) = wk_ok a s" "wk_idle a (s\<lparr>wk_world := w\<rparr>) = wk_idle a s"
  "wk_top a e (s\<lparr>wk_world := w\<rparr>) = wk_top a e s"
  "wk_ok a (s\<lparr>wk_activities := m\<rparr>) = wk_ok a s" "wk_top a e (s\<lparr>wk_activities := m\<rparr>) = wk_top a e s"
  by (simp_all add: wk_ok_def wk_idle_def wk_top_def)

lemma wk_idle_ok: "wk_idle a s \<Longrightarrow> wk_ok a s"
  by (simp add: wk_idle_def)

lemma wk_top_ok: "wk_top a e s \<Longrightarrow> wk_ok a s"
  by (simp add: wk_top_def)

lemma hoare_wk_io:
  assumes "\<And>s w. P s \<Longrightarrow> P (s\<lparr>wk_world := w\<rparr>)" and "\<And>s. P s \<Longrightarrow> E s"
  shows "hoare P (wk_io m) (\<lambda>_. P) E"
  unfolding hoare_def
proof (intro allI impI)
  fix s
  assume "P s"
  moreover obtain r w where "m (wk_world s) = (r, w)" by fastforce
  ultimately show "case wk_io m s of (Ret a, s') \<Rightarrow> P s' | (Panic, s') \<Rightarrow> E s' | (Hang, s') \<Rightarrow> E s'"
    using assms by (cases r) (auto simp: wk_io_def io_zoom_def)
qed

lemma hoare_wk_event:
  "(\<And>s. P s \<Longrightarrow> Q () (s\<lparr>wk_log := e # wk_log s\<rparr>)) \<Longrightarrow> hoare P (wk_event e) Q E"
  unfolding wk_event_def by (rule hoare_modify)

lemma wk_cons:
  "wk_ok a s \<Longrightarrow> worker_event_ok a e (wk_log s) \<Longrightarrow> wk_top a e (s\<lparr>wk_log := e # wk_log s\<rparr>)"
  by (auto simp: wk_top_def wk_ok_def)

lemma wk_topE: "wk_top a e s \<Longrightarrow> (\<And>log. wk_log s = e # log \<Longrightarrow> wk_ok a s \<Longrightarrow> Q) \<Longrightarrow> Q"
  by (auto simp: wk_top_def)

lemma hoare_top_io: "hoare (wk_top a e) (wk_io m) (\<lambda>_. wk_top a e) (wk_ok a)"
  by (rule hoare_wk_io) (auto intro: wk_top_ok)

lemma hoare_idle_io: "hoare (wk_idle a) (wk_io m) (\<lambda>_. wk_idle a) (wk_ok a)"
  by (rule hoare_wk_io) (auto intro: wk_idle_ok)

lemma hoare_wk_send:
  assumes "\<And>log. worker_event_ok a (WSend sig) (e # log)"
  shows "hoare (wk_top a e) (wk_send cw sig) (\<lambda>_. wk_top a (WSend sig)) (wk_ok a)"
  unfolding wk_send_def
  by (rule hoare_bind [where R = "\<lambda>_. wk_top a (WSend sig)"])
    (auto intro!: hoare_wk_event hoare_top_io wk_cons elim!: wk_topE simp: assms)

definition received :: "agent_id \<Rightarrow> error + signal option \<Rightarrow> ('w, 'a) worker \<Rightarrow> bool" where
  "received a r s \<longleftrightarrow>
    (case r of Inr (Some sig) \<Rightarrow> wk_top a (WRecv sig) s | Inr None \<Rightarrow> wk_idle a s
     | Inl e \<Rightarrow> if e = EChannelClosed then wk_top a WClosed s else wk_idle a s)"

lemma received_simps:
  "received a (Inr (Some sig)) = wk_top a (WRecv sig)" "received a (Inr None) = wk_idle a"
  "received a (Inl EChannelClosed) = wk_top a WClosed"
  "e \<noteq> EChannelClosed \<Longrightarrow> received a (Inl e) = wk_idle a"
  by (simp_all add: received_def fun_eq_iff)

lemma hoare_logged_return:
  assumes "worker_event_ok a e = idle" "received a r = (wk_top a e :: ('w, 'a) worker \<Rightarrow> bool)"
  shows "hoare (wk_idle a :: ('w, 'a) worker \<Rightarrow> bool) (io_bind (wk_event e) (\<lambda>_. io_return r)) (received a) (wk_ok a)"
proof (rule hoare_bind [where R = "\<lambda>_. wk_top a e"])
  show "hoare (wk_idle a) (wk_event e) (\<lambda>_. wk_top a e :: ('w, 'a) worker \<Rightarrow> bool) (wk_ok a)"
    by (rule hoare_wk_event, rule wk_cons) (simp_all add: wk_idle_def assms(1))
  show "hoare (wk_top a e :: ('w, 'a) worker \<Rightarrow> bool) (io_return r) (received a) (wk_ok a)"
    by (rule hoare_return) (simp add: assms(2))
qed

lemma event_ok_idle: "worker_event_ok a (WRecv sig) = idle" "worker_event_ok a WClosed = idle"
  by (simp_all add: fun_eq_iff)

lemma hoare_wk_receive: "hoare (wk_idle a) (wk_receive cw) (received a) (wk_ok a)"
  unfolding wk_receive_def
  by (rule hoare_bind [OF hoare_gets hoare_bind [OF hoare_idle_io]])
    (auto intro!: hoare_logged_return hoare_return simp: received_simps event_ok_idle
      split: sum.split option.split error.split)

text \<open>From a received activity signal to its response.\<close>

definition handled :: "agent_id \<Rightarrow> signal \<Rightarrow> error + unit \<Rightarrow> ('w, 'a) worker \<Rightarrow> bool" where
  "handled a sig r s \<longleftrightarrow> wk_idle a s \<or>
    wk_top a (WRecv sig) s \<and> (\<exists>i c. call_of sig = Some (i, c) \<and> r = Inl (EActivityNotFound i) \<and> wk_activities s i = None)"

lemma hoare_respond:
  "hoare (wk_top a (WCall i c r)) (respond cw pf i start r) (\<lambda>_. wk_idle a) (wk_ok a)"
proof -
  let ?P = "wk_top a (WCall i c r)"
  let ?resp = "\<lambda>sig s. ?P s \<and> (\<exists>t. sig = Ready i t \<and> r = Inr () \<or> (\<exists>e. sig = ActivityFailed i e \<and> r = Inl e))"
  have build: "hoare ?P (case r of
         Inr _ \<Rightarrow> io_bind (wk_io (pf_timestamp pf)) (\<lambda>t. io_return (Ready i t))
       | Inl e \<Rightarrow> io_return (ActivityFailed i e)) ?resp (wk_ok a)"
    by (cases r) (auto intro!: hoare_return hoare_bind [OF hoare_top_io])
  have send: "hoare (?resp sig) (io_bind (wk_io (pf_elapsed pf start)) (\<lambda>_. wk_send cw sig))
      (\<lambda>_. wk_idle a) (wk_ok a)" for sig
  proof (rule hoare_pre [OF hoare_assume, where P' = "?resp sig"])
    assume r: "\<exists>t. sig = Ready i t \<and> r = Inr () \<or> (\<exists>e. sig = ActivityFailed i e \<and> r = Inl e)"
    have "hoare ?P (wk_send cw sig) (\<lambda>_. wk_top a (WSend sig)) (wk_ok a)"
      by (rule hoare_wk_send) (use r in auto)
    then have "hoare ?P (wk_send cw sig) (\<lambda>_. wk_idle a) (wk_ok a)"
      by (rule hoare_post) (use r in \<open>auto simp: wk_top_def wk_idle_def\<close>)
    then show "hoare ?P (io_bind (wk_io (pf_elapsed pf start)) (\<lambda>_. wk_send cw sig))
        (\<lambda>_. wk_idle a) (wk_ok a)"
      by (rule hoare_bind [OF hoare_top_io])
  qed auto
  show ?thesis unfolding respond_def by (rule hoare_bind [OF build send])
qed

lemma hoare_call_activity:
  assumes "call_of sig = Some (i, c)"
  shows "hoare (wk_top a (WRecv sig)) (call_activity i x c m) (\<lambda>r. wk_top a (WCall i c r)) (wk_ok a)"
  unfolding call_activity_def
proof (rule hoare_bind [where R = "\<lambda>_. wk_top a (WRecv sig)"])
  show "hoare (wk_top a (WRecv sig))
      (\<lambda>s. case m x of (r, a') \<Rightarrow> (r, s\<lparr>wk_activities := (wk_activities s)(i \<mapsto> a')\<rparr>))
      (\<lambda>_. wk_top a (WRecv sig)) (wk_ok a)"
    by (rule hoareI) (auto split: prod.split outcome.split intro: wk_top_ok)
  show "hoare (wk_top a (WRecv sig)) (io_bind (wk_event (WCall i c r)) (\<lambda>_. io_return r))
      (\<lambda>r. wk_top a (WCall i c r)) (wk_ok a)" for r
    by (rule hoare_bind [where R = "\<lambda>_. wk_top a (WCall i c r)"])
      (use assms in \<open>auto intro!: hoare_wk_event hoare_return wk_cons elim!: wk_topE\<close>)
qed

lemma hoare_handle:
  assumes "call_of sig = Some (i, c)"
  shows "hoare (wk_top a (WRecv sig)) (handle_activity_signal cw pf ops i sig) (handled a sig) (wk_ok a)"
  unfolding handle_activity_signal_def
proof (rule hoare_bind_gets)
  fix s :: "('a, 'b) worker"
  assume s: "wk_top a (WRecv sig) s"
  let ?P = "wk_top a (WRecv sig)"
  have arm: "hoare ?P (io_bind (call_activity i x c m) (respond cw pf i start)) (handled a sig) (wk_ok a)"
    for x m start
    by (rule hoare_post [OF hoare_bind [OF hoare_call_activity [OF assms] hoare_respond]])
      (simp add: handled_def)
  show "hoare (\<lambda>s'. s' = s) (case wk_activities s i of
      None \<Rightarrow> io_return (Inl (EActivityNotFound i))
    | Some x \<Rightarrow> io_bind (wk_io (pf_now pf)) (\<lambda>start. case sig of
          Startup j t \<Rightarrow> io_bind (call_activity i x CallStartup (act_startup ops)) (respond cw pf j start)
        | Step j t \<Rightarrow> io_bind (call_activity i x CallStep (act_step ops)) (respond cw pf j start)
        | Shutdown j t \<Rightarrow> io_bind (call_activity i x CallShutdown (act_shutdown ops)) (respond cw pf j start)
        | other \<Rightarrow> io_return (Inl (EUnexpectedSignal other)))) (handled a sig) (wk_ok a)"
  proof (cases "wk_activities s i")
    case None
    with s assms show ?thesis by (auto intro!: hoare_return simp: handled_def)
  next
    case (Some x)
    have "hoare ?P (case sig of
          Startup j t \<Rightarrow> io_bind (call_activity i x CallStartup (act_startup ops)) (respond cw pf j start)
        | Step j t \<Rightarrow> io_bind (call_activity i x CallStep (act_step ops)) (respond cw pf j start)
        | Shutdown j t \<Rightarrow> io_bind (call_activity i x CallShutdown (act_shutdown ops)) (respond cw pf j start)
        | other \<Rightarrow> io_return (Inl (EUnexpectedSignal other))) (handled a sig) (wk_ok a)" for start
      using assms arm by (cases sig) auto
    then have "hoare ?P (io_bind (wk_io (pf_now pf)) (\<lambda>start. case sig of
          Startup j t \<Rightarrow> io_bind (call_activity i x CallStartup (act_startup ops)) (respond cw pf j start)
        | Step j t \<Rightarrow> io_bind (call_activity i x CallStep (act_step ops)) (respond cw pf j start)
        | Shutdown j t \<Rightarrow> io_bind (call_activity i x CallShutdown (act_shutdown ops)) (respond cw pf j start)
        | other \<Rightarrow> io_return (Inl (EUnexpectedSignal other)))) (handled a sig) (wk_ok a)"
      by (rule hoare_bind [OF hoare_top_io])
    then show ?thesis unfolding Some option.case by (rule hoare_pre) (use s in simp)
  qed
qed

text \<open>How a run of the worker ends.\<close>

fun worker_end_ok :: "agent_id \<Rightarrow> error + unit \<Rightarrow> ('w, 'a) worker \<Rightarrow> bool" where
  "worker_end_ok a (Inr u) s \<longleftrightarrow>
     (case wk_log s of WClosed # _ \<Rightarrow> True | WSend (TerminateAck g) # _ \<Rightarrow> g = a | _ \<Rightarrow> False)"
| "worker_end_ok a (Inl e) s \<longleftrightarrow>
     (case wk_log s of
        WRecv sig # _ \<Rightarrow>
          (case call_of sig of
             Some (i, _) \<Rightarrow> e = EActivityNotFound i \<and> wk_activities s i = None
           | None \<Rightarrow> e = EUnexpectedSignal sig \<or> (\<exists>sync. sig = StartupSync sync))
      | log \<Rightarrow> idle log)"

lemma handled_end: "handled a sig (Inl e) s \<Longrightarrow> wk_ok a s \<and> worker_end_ok a (Inl e) s"
proof -
  have "worker_end_ok a (Inl e) s" if "idle (wk_log s)"
    using that by (cases "wk_log s" rule: idle.cases) (auto split: list.split)
  then show "handled a sig (Inl e) s \<Longrightarrow> ?thesis"
    by (auto simp: handled_def wk_idle_def wk_top_def)
qed

definition ended :: "agent_id \<Rightarrow> error + unit \<Rightarrow> ('w, 'a) worker \<Rightarrow> bool" where
  "ended a r s \<longleftrightarrow> wk_ok a s \<and> worker_end_ok a r s"

lemma ended_idle: "wk_idle a s \<Longrightarrow> ended a (Inl e) s"
  using handled_end [of a undefined e s] by (simp add: handled_def ended_def)

lemma hoare_terminate:
  "hoare (wk_top a (WRecv (Terminate t))) (io_bind (io_gets wk_agent_id) (\<lambda>agent.
    io_bind (wk_send cw (TerminateAck agent)) (\<lambda>_.
    io_bind (wk_io (pf_sleep pf d)) (\<lambda>_. io_return (Inr ()))))) (ended a)
    (wk_ok a :: ('w, 'a) worker \<Rightarrow> bool)"
proof (rule hoare_bind_gets)
  fix s :: "('w, 'a) worker"
  assume s: "wk_top a (WRecv (Terminate t)) s"
  then have a: "wk_agent_id s = a" by (simp add: wk_top_def wk_ok_def)
  have ack: "hoare (wk_top a (WSend (TerminateAck a))) (io_bind (wk_io (pf_sleep pf d)) (\<lambda>_. io_return (Inr ())))
      (ended a) (wk_ok a)"
    by (rule hoare_bind [OF hoare_top_io]) (auto intro!: hoare_return simp: wk_top_def ended_def)
  have "hoare (wk_top a (WRecv (Terminate t))) (io_bind (wk_send cw (TerminateAck a))
      (\<lambda>_. io_bind (wk_io (pf_sleep pf d)) (\<lambda>_. io_return (Inr ())))) (ended a) (wk_ok a)"
    by (rule hoare_bind [OF hoare_wk_send ack]) simp
  then show "hoare (\<lambda>s'. s' = s) (io_bind (wk_send cw (TerminateAck (wk_agent_id s)))
      (\<lambda>_. io_bind (wk_io (pf_sleep pf d)) (\<lambda>_. io_return (Inr ())))) (ended a) (wk_ok a)"
    unfolding a by (rule hoare_pre) (simp add: s)
qed

lemma hoare_handle_loop:
  assumes "call_of sig = Some (i, c)" "hoare (wk_idle a) loop (ended a) (wk_ok a)"
  shows "hoare (wk_top a (WRecv sig)) (io_try (handle_activity_signal cw pf ops i sig) (\<lambda>_. loop))
    (ended a) (wk_ok a)"
proof (rule hoare_try [where R = "\<lambda>_. wk_idle a", OF hoare_post [OF hoare_handle [OF assms(1)]]])
  fix r :: "error + unit" and s :: "('a, 'b) worker"
  assume h: "handled a sig r s"
  show "case r of Inl e \<Rightarrow> ended a (Inl e) s | Inr _ \<Rightarrow> wk_idle a s"
  proof (cases r)
    case (Inl e)
    with h handled_end [of a sig e s] show ?thesis by (simp add: ended_def)
  next
    case (Inr u)
    with h show ?thesis by (simp add: handled_def)
  qed
qed (rule assms(2))

lemma hoare_worker_run: "hoare (wk_idle a) (worker_run n cw pf ops) (ended a) (wk_ok a)"
proof (induction n)
  case 0
  show ?case by (auto intro: hoare_hang wk_idle_ok)
next
  case (Suc n)
  let ?loop = "worker_run n cw pf ops"
  have sync: "hoare (wk_top a (WRecv (StartupSync x))) (io_bind (wk_io (pf_initialize_from pf x)) (\<lambda>_. ?loop))
      (ended a) (wk_ok a)" for x
    by (rule hoare_bind [OF hoare_top_io hoare_pre [OF Suc.IH]]) (auto simp: wk_top_def wk_idle_def)
  have other: "hoare (wk_top a (WRecv sig)) (io_return (Inl (EUnexpectedSignal sig))) (ended a) (wk_ok a)"
    if "call_of sig = None" for sig
    using that by (auto intro!: hoare_return simp: wk_top_def ended_def)
  have idle: "hoare (wk_idle a) (io_return (Inl e)) (ended a) (wk_ok a)" for e
    by (rule hoare_return) (rule ended_idle)
  have closed: "hoare (wk_top a WClosed) (io_return (Inr ())) (ended a) (wk_ok a)"
    by (auto intro!: hoare_return simp: wk_top_def ended_def)
  show ?case
    unfolding worker_run.simps
    by (rule hoare_bind [OF hoare_wk_receive])
      (auto simp: received_simps split: sum.split option.split error.split signal.split
        intro!: sync other idle closed Suc.IH hoare_terminate hoare_handle_loop)
qed

section \<open>Properties\<close>

lemma wk_idle_new: "wk_idle agent (worker_new wid agent builders timeout w)"
  by (simp add: wk_idle_def wk_ok_def worker_new_def)



end
