(* ===== verification/Feo_Mpsc.thy ===== *)
theory Feo_Mpsc
  imports Feo_Worker
begin

text \<open>
  Signalling over in-process channels (\<open>feo/src/signalling/common/mpsc\<close> and
  \<open>feo/src/signalling/direct/mpsc/scheduler.rs\<close>). A bounded channel is its queue and whether its two
  ends are alive; sending into a full one blocks (\<open>Hang\<close>) and receiving from an empty one times out.
  The sender and the receiver of a channel share it, so the operations of an endpoint work on the
  channels, given by their channel id, and the fields of the endpoint that never change are
  arguments. The loops that wait for peers read the clock and the channel through the operations
  they are given.
\<close>

section \<open>Channels (\<open>primitives.rs\<close>)\<close>

definition mpsc_channel_bound :: nat where
  "mpsc_channel_bound = 128"

record 'm channel =
  ch_queue :: "'m list"
  ch_sender_alive :: bool
  ch_receiver_alive :: bool

definition new_channel :: "'m channel" where
  "new_channel = \<lparr>ch_queue = [], ch_sender_alive = True, ch_receiver_alive = True\<rparr>"

definition chan_send :: "'m \<Rightarrow> ('m channel, error + unit) io" where
  "chan_send m c =
    (if \<not> ch_receiver_alive c then (Ret (Inl EChannelClosed), c)
     else if length (ch_queue c) < mpsc_channel_bound
     then (Ret (Inr ()), c\<lparr>ch_queue := ch_queue c @ [m]\<rparr>)
     else (Hang, c))"

definition chan_receive :: "duration \<Rightarrow> ('m channel, error + 'm option) io" where
  "chan_receive timeout c =
    (case ch_queue c of
       m # rest \<Rightarrow> (Ret (Inr (Some m)), c\<lparr>ch_queue := rest\<rparr>)
     | [] \<Rightarrow> (Ret (if ch_sender_alive c then Inr None else Inl EChannelClosed), c))"

section \<open>Endpoints (\<open>endpoint.rs\<close>)\<close>

datatype mpsc_signal = MCore signal | MConnect channel_id

definition protocol_sender_send :: "mpsc_signal \<Rightarrow> (mpsc_signal channel, error + unit) io" where
  "protocol_sender_send m =
    io_bind (chan_send m) (\<lambda>r. io_return (case r of Inl _ \<Rightarrow> Inl (EChannel ''channel closed'') | Inr u \<Rightarrow> Inr u))"

definition connect_receiver :: "channel_id \<Rightarrow> (mpsc_signal channel, error + unit) io" where
  "connect_receiver self = io_try (chan_send (MConnect self)) (\<lambda>_. io_return (Inr ()))"

text \<open>A receiver that has not been connected panics on \<open>receive\<close>.\<close>

definition protocol_receiver_receive ::
  "channel_id option \<Rightarrow> duration \<Rightarrow> (mpsc_signal channel, error + mpsc_signal option) io" where
  "protocol_receiver_receive connected timeout =
    (if connected = None then io_panic else chan_receive timeout)"

text \<open>\<open>connect_sender\<close>: the id of the connected sender.\<close>

fun connect_sender ::
  "nat \<Rightarrow> ('s, duration) io \<Rightarrow> (duration \<Rightarrow> ('s, error + mpsc_signal option) io) \<Rightarrow> duration
    \<Rightarrow> ('s, error + channel_id) io"
where
  "connect_sender 0 elapsed receive timeout = io_hang"
| "connect_sender (Suc n) elapsed receive timeout =
    io_bind elapsed (\<lambda>e.
    if timeout < e then io_return (Inl (ETimeout (Some timeout) ''connecting sender''))
    else io_try (receive timeout) (\<lambda>m.
      case m of
        Some (MConnect c) \<Rightarrow> io_return (Inr c)
      | Some other \<Rightarrow> connect_sender n elapsed receive timeout
      | None \<Rightarrow> io_return (Inl (ETimeout (Some timeout) ''connecting sender''))))"

definition multi_receiver_receive ::
  "bool \<Rightarrow> duration \<Rightarrow> (mpsc_signal channel, error + mpsc_signal option) io" where
  "multi_receiver_receive connected timeout = (if \<not> connected then io_panic else chan_receive timeout)"

text \<open>\<open>connect_senders\<close>: the channels still missing when the loop ends; the caller is then connected.\<close>

fun connect_senders ::
  "nat \<Rightarrow> ('s, duration) io \<Rightarrow> (duration \<Rightarrow> ('s, error + mpsc_signal option) io) \<Rightarrow> channel_id list
    \<Rightarrow> duration \<Rightarrow> channel_id list \<Rightarrow> ('s, error + channel_id list) io"
where
  "connect_senders 0 elapsed receive ids timeout missing =
    (if missing = [] then io_return (Inr []) else io_hang)"
| "connect_senders (Suc n) elapsed receive ids timeout missing =
    (if missing = [] then io_return (Inr [])
     else io_bind elapsed (\<lambda>e.
       if \<not> e < timeout then io_return (Inr missing)
       else io_try (receive timeout) (\<lambda>m.
         case m of
           Some (MConnect c) \<Rightarrow>
             if c \<notin> set ids then connect_senders n elapsed receive ids timeout missing
             else connect_senders n elapsed receive ids timeout (remove1 c missing)
         | Some other \<Rightarrow> connect_senders n elapsed receive ids timeout missing
         | None \<Rightarrow> io_return (Inl (ETimeout (Some timeout) ''connecting senders'')))))"

text \<open>The senders of a \<open>ProtocolMultiSender\<close>: one channel per id, in iteration order.\<close>

type_synonym mpsc_channels = "(channel_id \<times> mpsc_signal channel) list"

definition on_channel :: "channel_id \<Rightarrow> (mpsc_signal channel, 'a) io \<Rightarrow> (mpsc_channels, 'a) io" where
  "on_channel c m chs =
    (case map_of chs c of
       None \<Rightarrow> (Panic, chs)
     | Some ch \<Rightarrow> (case m ch of (r, ch') \<Rightarrow> (r, modify_key c (\<lambda>_. ch') chs)))"

definition multi_sender_create :: "channel_id list \<Rightarrow> mpsc_channels outcome" where
  "multi_sender_create ids =
    (if distinct ids then Ret (map (\<lambda>c. (c, new_channel)) ids) else Panic)"

definition multi_sender_send :: "channel_id \<Rightarrow> mpsc_signal \<Rightarrow> (mpsc_channels, error + unit) io" where
  "multi_sender_send c m chs =
    (case map_of chs c of
       None \<Rightarrow> (Ret (Inl (EChannelNotFound c)), chs)
     | Some _ \<Rightarrow> on_channel c (protocol_sender_send m) chs)"

definition broadcast :: "mpsc_signal \<Rightarrow> (mpsc_channels, error + unit) io" where
  "broadcast m =
    io_bind (io_gets (map fst)) (\<lambda>ids.
    io_try_for ids (\<lambda>c.
      io_bind (on_channel c (chan_send m)) (\<lambda>r.
      io_return (case r of
          Inl _ \<Rightarrow> Inl (EChannel ''broadcast failed: a channel was closed'')
        | Inr u \<Rightarrow> Inr u))))"

definition connect_receivers :: "(mpsc_channels, error + unit) io" where
  "connect_receivers =
    io_bind (io_gets (map fst)) (\<lambda>ids. io_try_for ids (\<lambda>c. on_channel c (chan_send (MConnect c))))"

section \<open>Connectors\<close>

text \<open>The conversion both connectors do on a received protocol signal.\<close>

definition core_only :: "error + mpsc_signal option \<Rightarrow> error + signal option" where
  "core_only r =
    (case r of
       Inl e \<Rightarrow> Inl e
     | Inr None \<Rightarrow> Inr None
     | Inr (Some (MCore sig)) \<Rightarrow> Inr (Some sig)
     | Inr (Some (MConnect c)) \<Rightarrow> Inl EUnexpectedProtocolSignal)"

text \<open>
  \<open>WorkerConnector\<close> (\<open>worker.rs\<close>): the id it announces, the id its receiver was connected with, the
  channel it reads and the channel of the scheduler it writes.
\<close>

record worker_ends =
  we_id :: channel_id
  we_connected :: "channel_id option"
  we_receiver :: "mpsc_signal channel"
  we_sender :: "mpsc_signal channel"

definition we_in :: "(mpsc_signal channel, 'a) io \<Rightarrow> (worker_ends, 'a) io" where
  "we_in = io_zoom we_receiver (\<lambda>c s. s\<lparr>we_receiver := c\<rparr>)"

definition we_out :: "(mpsc_signal channel, 'a) io \<Rightarrow> (worker_ends, 'a) io" where
  "we_out = io_zoom we_sender (\<lambda>c s. s\<lparr>we_sender := c\<rparr>)"

definition minute :: duration where
  "minute = dur_from_secs 60"

definition mpsc_connect_worker :: "nat \<Rightarrow> (worker_ends, duration) io \<Rightarrow> worker_ends connect_worker" where
  "mpsc_connect_worker n elapsed =
    \<lparr>cw_connect_remote =
       io_bind (io_gets we_id) (\<lambda>self.
       io_try (we_out (connect_receiver self)) (\<lambda>_.
       io_try (connect_sender n elapsed (\<lambda>d. we_in (chan_receive d)) minute) (\<lambda>c.
       io_bind (io_modify (\<lambda>s. s\<lparr>we_connected := Some c\<rparr>)) (\<lambda>_. io_return (Inr ()))))),
     cw_receive = (\<lambda>d.
       io_bind (io_gets we_connected) (\<lambda>c.
       io_bind (we_in (protocol_receiver_receive c d)) (\<lambda>r. io_return (core_only r)))),
     cw_send_to_scheduler = (\<lambda>sig. we_out (protocol_sender_send (MCore sig)))\<rparr>"

text \<open>
  \<open>SchedulerConnector\<close> (\<open>direct/mpsc/scheduler.rs\<close>): the activity map, the peers, the connected flag
  of its receiver and the channels. \<open>'e\<close> is the rest of the process: the worker threads, which run
  while the scheduler waits, and the clock.
\<close>

record 'e mpsc_scheduler =
  ms_activity_worker :: "(activity_id \<times> worker_id) list"
  ms_peers :: "channel_id list"
  ms_connected :: bool
  ms_in :: "mpsc_signal channel"
  ms_out :: mpsc_channels
  ms_env :: 'e

text \<open>\<open>create\<close>: the ids are a set, here without duplicates in the order of the map.\<close>

definition mpsc_scheduler_new ::
  "(activity_id \<times> worker_id) list \<Rightarrow> 'e \<Rightarrow> 'e mpsc_scheduler outcome" where
  "mpsc_scheduler_new activity_worker env =
    (let ids = remdups (map (\<lambda>(_, w). ChWorker w) activity_worker)
     in obind (multi_sender_create ids) (\<lambda>out.
        Ret \<lparr>ms_activity_worker = activity_worker, ms_peers = ids, ms_connected = False,
             ms_in = new_channel, ms_out = out, ms_env = env\<rparr>))"

definition ms_receiver :: "(mpsc_signal channel, 'a) io \<Rightarrow> ('e mpsc_scheduler, 'a) io" where
  "ms_receiver = io_zoom ms_in (\<lambda>c s. s\<lparr>ms_in := c\<rparr>)"

definition ms_senders :: "(mpsc_channels, 'a) io \<Rightarrow> ('e mpsc_scheduler, 'a) io" where
  "ms_senders = io_zoom ms_out (\<lambda>c s. s\<lparr>ms_out := c\<rparr>)"

definition ms_send :: "channel_id \<Rightarrow> signal \<Rightarrow> ('e mpsc_scheduler, error + unit) io" where
  "ms_send c sig =
    io_bind (io_gets ms_activity_worker) (\<lambda>m.
    case c of
      ChActivity i \<Rightarrow>
        io_bind (io_expect (map_of m i)) (\<lambda>w.
        ms_senders (multi_sender_send (ChWorker w) (MCore sig)))
    | ChWorker w \<Rightarrow> ms_senders (multi_sender_send (ChWorker w) (MCore sig))
    | _ \<Rightarrow> io_return (Inl (EChannelNotFound c)))"

definition ms_receive :: "duration \<Rightarrow> ('e mpsc_scheduler, error + signal option) io" where
  "ms_receive d =
    io_bind (io_gets ms_connected) (\<lambda>connected.
    io_bind (ms_receiver (multi_receiver_receive connected d)) (\<lambda>r. io_return (core_only r)))"

text \<open>\<open>wait\<close> lets the other threads run while the scheduler waits for a signal.\<close>

definition mpsc_connect_scheduler ::
  "nat \<Rightarrow> ('e mpsc_scheduler, unit) io \<Rightarrow> 'e mpsc_scheduler platform \<Rightarrow> 'e mpsc_scheduler connect_scheduler"
where
  "mpsc_connect_scheduler n wait pf =
    \<lparr>cs_connect_remotes =
       io_bind (io_gets ms_peers) (\<lambda>ids.
       io_bind (pf_now pf) (\<lambda>start.
       io_try (connect_senders n (pf_elapsed pf start)
           (\<lambda>d. io_bind wait (\<lambda>_. ms_receiver (chan_receive d))) ids minute ids) (\<lambda>_.
       io_bind (io_modify (\<lambda>s. s\<lparr>ms_connected := True\<rparr>)) (\<lambda>_.
       io_try (ms_senders connect_receivers) (\<lambda>_. io_return (Inr ())))))),
     cs_sync_time = io_return (Inr ()),
     cs_connected_agents = (\<lambda>_. []),
     cs_receive = (\<lambda>d. io_bind wait (\<lambda>_. ms_receive d)),
     cs_send_to_activity = (\<lambda>i sig. ms_send (ChActivity i) sig),
     cs_broadcast_terminate = (\<lambda>_.
       io_bind (pf_timestamp pf) (\<lambda>t. ms_senders (broadcast (MCore (Terminate t)))))\<rparr>"

text \<open>Every worker takes its connector builder out of the map; a missing one panics.\<close>

fun take_builders :: "worker_id list \<Rightarrow> worker_id list \<Rightarrow> unit outcome" where
  "take_builders builders [] = Ret ()"
| "take_builders builders (w # ws) =
    (if w \<in> set builders then take_builders (removeAll w builders) ws else Panic)"

lemma take_builders_distinct:
  "distinct ws \<Longrightarrow> take_builders bs ws = (if set ws \<subseteq> set bs then Ret () else Panic)"
proof (induction ws arbitrary: bs)
  case Nil
  then show ?case by simp
next
  case (Cons w ws)
  then have "set ws \<subseteq> set (removeAll w bs) \<longleftrightarrow> set ws \<subseteq> set bs" by auto
  with Cons show ?case by simp
qed

section \<open>Channels are first-in first-out\<close>

text \<open>Sends that do not block followed by as many receives give the messages back in order.\<close>

fun chan_send_all :: "'m list \<Rightarrow> ('m channel, error + unit) io" where
  "chan_send_all [] = io_return (Inr ())"
| "chan_send_all (m # ms) = io_try (chan_send m) (\<lambda>_. chan_send_all ms)"

fun chan_receive_all :: "nat \<Rightarrow> ('m channel, error + 'm list) io" where
  "chan_receive_all 0 = io_return (Inr [])"
| "chan_receive_all (Suc n) =
    io_try (chan_receive 0) (\<lambda>r.
    case r of None \<Rightarrow> io_return (Inr [])
    | Some m \<Rightarrow> io_try (chan_receive_all n) (\<lambda>ms. io_return (Inr (m # ms))))"

lemma chan_send_all_ok:
  "ch_receiver_alive c \<Longrightarrow> length (ch_queue c) + length ms \<le> mpsc_channel_bound \<Longrightarrow>
    chan_send_all ms c = (Ret (Inr ()), c\<lparr>ch_queue := ch_queue c @ ms\<rparr>)"
  by (induction ms arbitrary: c) (simp_all add: io_return_def io_try_def io_bind_def chan_send_def)

lemma chan_receive_all_ok:
  "ch_sender_alive c \<Longrightarrow> length (ch_queue c) \<le> n \<Longrightarrow>
    chan_receive_all n c = (Ret (Inr (ch_queue c)), c\<lparr>ch_queue := []\<rparr>)"
proof (induction n arbitrary: c)
  case 0
  then show ?case by (simp add: io_return_def)
next
  case (Suc n)
  show ?case
  proof (cases "ch_queue c")
    case Nil
    with Suc.prems show ?thesis by (simp add: io_return_def io_try_def io_bind_def chan_receive_def)
  next
    case (Cons m rest)
    with Suc.prems Suc.IH [of "c\<lparr>ch_queue := rest\<rparr>"] show ?thesis
      by (simp add: io_return_def io_try_def io_bind_def chan_receive_def)
  qed
qed

section \<open>Properties\<close>

text \<open>
  A channel is a bounded queue: up to 128 messages are accepted without blocking and handed out
  once each in the order they were sent; a further send blocks and leaves the queue as it is.
\<close>

theorem channel_fifo:
  "(length ms \<le> mpsc_channel_bound \<longrightarrow>
      io_try (chan_send_all ms) (\<lambda>_. chan_receive_all (length ms)) new_channel = (Ret (Inr ms), new_channel))
    \<and> chan_send m (new_channel\<lparr>ch_queue := ns\<rparr>) =
      (if length ns < mpsc_channel_bound then (Ret (Inr ()), new_channel\<lparr>ch_queue := ns @ [m]\<rparr>)
       else (Hang, new_channel\<lparr>ch_queue := ns\<rparr>))"
proof (intro conjI impI)
  assume "length ms \<le> mpsc_channel_bound"
  then show "io_try (chan_send_all ms) (\<lambda>_. chan_receive_all (length ms)) new_channel = (Ret (Inr ms), new_channel)"
    using chan_send_all_ok [of new_channel ms]
      chan_receive_all_ok [of "new_channel\<lparr>ch_queue := ms\<rparr>" "length ms"]
    by (simp add: io_try_def io_bind_def new_channel_def)
qed (simp add: chan_send_def new_channel_def)

theorem channel_fifo_witness:
  "io_try (chan_send_all [True, False]) (\<lambda>_. chan_receive_all (length [True, False])) new_channel
    = (Ret (Inr [True, False]), new_channel)"
  using channel_fifo [of "[True, False]" True "[]"] by (simp add: mpsc_channel_bound_def)

end
