(* ===== verification/Feo_Wire.thy ===== *)
theory Feo_Wire
  imports Feo_Timestamp
begin

text \<open>
  The wire format of the socket signalling (\<open>feo/src/signalling/common/socket/mod.rs\<close>):
  \<open>ProtocolSignal\<close>, its tags, \<open>encode\<close> and \<open>try_decode\<close>. A message is a type byte, a length byte
  and little-endian fields. \<open>try_decode\<close> returns \<open>None\<close> while the message is incomplete and panics
  on an unknown tag, on a value its field type rejects, and on a length byte that is too small for
  the fields. The locale \<open>encode_decode\<close> is the contract of the trait \<open>EncodeDecode\<close> that a
  \<open>Connection\<close> needs from its message type; the signal codec is its interpretation.
\<close>

section \<open>The trait \<open>EncodeDecode\<close>\<close>

locale encode_decode =
  fixes enc :: "'m \<Rightarrow> u8 list"
    and dec :: "u8 list \<Rightarrow> ('m \<times> nat) option outcome"
    and ok :: "'m \<Rightarrow> bool"
    and max_len :: nat
  assumes dec_enc: "ok m \<Longrightarrow> dec (enc m @ rest) = Ret (Some (m, length (enc m)))"
    and dec_short: "ok m \<Longrightarrow> k < length (enc m) \<Longrightarrow> dec (take k (enc m)) = Ret None"
    and dec_nil: "dec [] = Ret None"
    and enc_bound: "ok m \<Longrightarrow> length (enc m) \<le> max_len"
    and enc_nonempty: "ok m \<Longrightarrow> enc m \<noteq> []"
begin

text \<open>Messages are uniquely decodable from a concatenated stream.\<close>

lemma enc_prefix_free: "ok m \<Longrightarrow> ok n \<Longrightarrow> enc m @ xs = enc n @ ys \<Longrightarrow> m = n \<and> xs = ys"
  using dec_enc [of m xs] dec_enc [of n ys] by auto

lemma stream_decodable:
  "list_all ok ms \<Longrightarrow> list_all ok ns \<Longrightarrow> concat (map enc ms) = concat (map enc ns) \<Longrightarrow> ms = ns"
proof (induction ms arbitrary: ns)
  case Nil
  then show ?case using enc_nonempty by (cases ns) auto
next
  case (Cons m ms)
  then obtain n ns' where ns: "ns = n # ns'" using enc_nonempty by (cases ns) auto
  with Cons.prems enc_prefix_free [of m n "concat (map enc ms)" "concat (map enc ns')"]
  have "m = n" "concat (map enc ms) = concat (map enc ns')" by auto
  with Cons ns show ?case by auto
qed

end

section \<open>Protocol signals and tags\<close>

datatype protocol_signal =
    Core signal
  | ActivityHello activity_id
  | ChannelHello channel_id

datatype signal_tag =
    CoreStartupSync | CoreStartup | CoreStep | CoreShutdown | CoreReady | CoreActivityFailed
  | CoreTerminate | CoreTerminateAck | ConnectorActivityHello | ConnectorChannelActivityHello
  | ConnectorChannelWorkerHello | ConnectorChannelAgentHello | ConnectorChannelRelayHello

fun tag_u8 :: "signal_tag \<Rightarrow> u8" where
  "tag_u8 CoreStartupSync = 1"
| "tag_u8 CoreStartup = 21"
| "tag_u8 CoreStep = 22"
| "tag_u8 CoreShutdown = 23"
| "tag_u8 CoreReady = 24"
| "tag_u8 CoreActivityFailed = 27"
| "tag_u8 CoreTerminate = 25"
| "tag_u8 CoreTerminateAck = 26"
| "tag_u8 ConnectorActivityHello = 31"
| "tag_u8 ConnectorChannelActivityHello = 33"
| "tag_u8 ConnectorChannelWorkerHello = 34"
| "tag_u8 ConnectorChannelAgentHello = 35"
| "tag_u8 ConnectorChannelRelayHello = 36"

text \<open>\<open>TryFrom<u8> for SignalTag\<close>: the guards in source order; the relay tag has none.\<close>

definition signal_tag_of_u8 :: "u8 \<Rightarrow> u8 + signal_tag" where
  "signal_tag_of_u8 v =
    (if v = tag_u8 CoreStartupSync then Inr CoreStartupSync
     else if v = tag_u8 CoreStartup then Inr CoreStartup
     else if v = tag_u8 CoreStep then Inr CoreStep
     else if v = tag_u8 CoreShutdown then Inr CoreShutdown
     else if v = tag_u8 CoreReady then Inr CoreReady
     else if v = tag_u8 CoreActivityFailed then Inr CoreActivityFailed
     else if v = tag_u8 CoreTerminate then Inr CoreTerminate
     else if v = tag_u8 CoreTerminateAck then Inr CoreTerminateAck
     else if v = tag_u8 ConnectorActivityHello then Inr ConnectorActivityHello
     else if v = tag_u8 ConnectorChannelActivityHello then Inr ConnectorChannelActivityHello
     else if v = tag_u8 ConnectorChannelWorkerHello then Inr ConnectorChannelWorkerHello
     else if v = tag_u8 ConnectorChannelAgentHello then Inr ConnectorChannelAgentHello
     else Inl v)"

fun u8_of_activity_error :: "activity_error \<Rightarrow> u8" where
  "u8_of_activity_error AStartup = 0"
| "u8_of_activity_error AStep = 1"
| "u8_of_activity_error AShutdown = 2"

definition activity_error_of_u8 :: "u8 \<Rightarrow> activity_error outcome" where
  "activity_error_of_u8 v =
    (if v = 0 then Ret AStartup else if v = 1 then Ret AStep else if v = 2 then Ret AShutdown
     else Panic)"

section \<open>Encoding\<close>

definition field_u8 :: "u8 \<Rightarrow> u8 list" where
  "field_u8 v = le_bytes 1 (unat v)"

definition field_u64 :: "u64 \<Rightarrow> u8 list" where
  "field_u64 v = le_bytes 8 (unat v)"

definition field_u128 :: "u128 \<Rightarrow> u8 list" where
  "field_u128 v = le_bytes 16 (unat v)"

text \<open>The macro \<open>encode_data!\<close>: tag, summed field sizes as one byte, fields.\<close>

definition encode_data :: "signal_tag \<Rightarrow> u8 list list \<Rightarrow> u8 list" where
  "encode_data tag fs =
    tag_u8 tag # word_of_nat (sum_list (map length fs)) # concat fs"

fun encode :: "protocol_signal \<Rightarrow> u8 list" where
  "encode (Core (StartupSync sync)) = encode_data CoreStartupSync [field_u128 (u128_of_sync sync)]"
| "encode (Core (Startup a t)) =
     encode_data CoreStartup [field_u64 (id_of a), field_u128 (u128_of_timestamp t)]"
| "encode (Core (Step a t)) =
     encode_data CoreStep [field_u64 (id_of a), field_u128 (u128_of_timestamp t)]"
| "encode (Core (Shutdown a t)) =
     encode_data CoreShutdown [field_u64 (id_of a), field_u128 (u128_of_timestamp t)]"
| "encode (Core (Ready a t)) =
     encode_data CoreReady [field_u64 (id_of a), field_u128 (u128_of_timestamp t)]"
| "encode (Core (ActivityFailed a e)) =
     encode_data CoreActivityFailed [field_u64 (id_of a), field_u8 (u8_of_activity_error e)]"
| "encode (Core (Terminate t)) = encode_data CoreTerminate [field_u128 (u128_of_timestamp t)]"
| "encode (Core (TerminateAck g)) = encode_data CoreTerminateAck [field_u64 (id_of g)]"
| "encode (ActivityHello a) = encode_data ConnectorActivityHello [field_u64 (id_of a)]"
| "encode (ChannelHello (ChActivity a)) = encode_data ConnectorChannelActivityHello [field_u64 (id_of a)]"
| "encode (ChannelHello (ChWorker w)) = encode_data ConnectorChannelWorkerHello [field_u64 (id_of w)]"
| "encode (ChannelHello (ChAgent g)) = encode_data ConnectorChannelAgentHello [field_u64 (id_of g)]"
| "encode (ChannelHello (ChRelay r)) = encode_data ConnectorChannelRelayHello [field_u64 (id_of r)]"

section \<open>Decoding\<close>

text \<open>The macro \<open>decode_data!\<close>: slicing beyond the declared data panics.\<close>

definition decode_data1 ::
  "nat \<Rightarrow> (nat \<Rightarrow> 'a outcome) \<Rightarrow> ('a \<Rightarrow> protocol_signal) \<Rightarrow> u8 list \<Rightarrow> (protocol_signal \<times> nat) option outcome"
where
  "decode_data1 n conv wrap src =
    (if length src < n then Panic
     else obind (conv (le_val (take n src))) (\<lambda>v. Ret (Some (wrap v, 2 + n))))"

definition decode_data2 ::
  "nat \<Rightarrow> (nat \<Rightarrow> 'a outcome) \<Rightarrow> nat \<Rightarrow> (nat \<Rightarrow> 'b outcome) \<Rightarrow> ('a \<Rightarrow> 'b \<Rightarrow> protocol_signal)
    \<Rightarrow> u8 list \<Rightarrow> (protocol_signal \<times> nat) option outcome"
where
  "decode_data2 n1 conv1 n2 conv2 wrap src =
    (if length src < n1 + n2 then Panic
     else obind (conv1 (le_val (take n1 src)))
       (\<lambda>v1. obind (conv2 (le_val (take n2 (drop n1 src))))
         (\<lambda>v2. Ret (Some (wrap v1 v2, 2 + n1 + n2)))))"

definition conv_id :: "nat \<Rightarrow> 'm generic_id outcome" where
  "conv_id v = Ret (GenericId (word_of_nat v))"

definition conv_timestamp :: "nat \<Rightarrow> timestamp outcome" where
  "conv_timestamp v = timestamp_of_u128 (word_of_nat v)"

definition conv_sync :: "nat \<Rightarrow> sync_info outcome" where
  "conv_sync v = sync_of_u128 (word_of_nat v)"

definition conv_activity_error :: "nat \<Rightarrow> activity_error outcome" where
  "conv_activity_error v = activity_error_of_u8 (word_of_nat v)"

fun decode_fields :: "signal_tag \<Rightarrow> u8 list \<Rightarrow> (protocol_signal \<times> nat) option outcome" where
  "decode_fields CoreStartupSync src = decode_data1 16 conv_sync (\<lambda>s. Core (StartupSync s)) src"
| "decode_fields CoreStartup src =
     decode_data2 8 conv_id 16 conv_timestamp (\<lambda>a t. Core (Startup a t)) src"
| "decode_fields CoreStep src =
     decode_data2 8 conv_id 16 conv_timestamp (\<lambda>a t. Core (Step a t)) src"
| "decode_fields CoreShutdown src =
     decode_data2 8 conv_id 16 conv_timestamp (\<lambda>a t. Core (Shutdown a t)) src"
| "decode_fields CoreReady src =
     decode_data2 8 conv_id 16 conv_timestamp (\<lambda>a t. Core (Ready a t)) src"
| "decode_fields CoreActivityFailed src =
     decode_data2 8 conv_id 1 conv_activity_error (\<lambda>a e. Core (ActivityFailed a e)) src"
| "decode_fields CoreTerminate src = decode_data1 16 conv_timestamp (\<lambda>t. Core (Terminate t)) src"
| "decode_fields CoreTerminateAck src = decode_data1 8 conv_id (\<lambda>g. Core (TerminateAck g)) src"
| "decode_fields ConnectorActivityHello src = decode_data1 8 conv_id ActivityHello src"
| "decode_fields ConnectorChannelActivityHello src =
     decode_data1 8 conv_id (\<lambda>i. ChannelHello (ChActivity i)) src"
| "decode_fields ConnectorChannelWorkerHello src =
     decode_data1 8 conv_id (\<lambda>i. ChannelHello (ChWorker i)) src"
| "decode_fields ConnectorChannelAgentHello src =
     decode_data1 8 conv_id (\<lambda>i. ChannelHello (ChAgent i)) src"
| "decode_fields ConnectorChannelRelayHello src =
     decode_data1 8 conv_id (\<lambda>i. ChannelHello (ChRelay i)) src"

definition try_decode :: "u8 list \<Rightarrow> (protocol_signal \<times> nat) option outcome" where
  "try_decode src =
    (case src of
       type_id # len # body \<Rightarrow>
         (if length body < unat len then Ret None
          else case signal_tag_of_u8 type_id of
                 Inl _ \<Rightarrow> Panic
               | Inr tag \<Rightarrow> decode_fields tag (take (unat len) body))
     | _ \<Rightarrow> Ret None)"

section \<open>Properties\<close>

text \<open>The signals whose encoding the decoder accepts.\<close>

fun wire_ok :: "protocol_signal \<Rightarrow> bool" where
  "wire_ok (Core (StartupSync s)) \<longleftrightarrow> since_epoch s \<le> u64_max"
| "wire_ok (Core (Startup a t)) \<longleftrightarrow> ts_nanos t \<le> u64_max"
| "wire_ok (Core (Step a t)) \<longleftrightarrow> ts_nanos t \<le> u64_max"
| "wire_ok (Core (Shutdown a t)) \<longleftrightarrow> ts_nanos t \<le> u64_max"
| "wire_ok (Core (Ready a t)) \<longleftrightarrow> ts_nanos t \<le> u64_max"
| "wire_ok (Core (Terminate t)) \<longleftrightarrow> ts_nanos t \<le> u64_max"
| "wire_ok (ChannelHello (ChRelay r)) \<longleftrightarrow> False"
| "wire_ok _ \<longleftrightarrow> True"

fun encoded_len :: "protocol_signal \<Rightarrow> nat" where
  "encoded_len (Core (StartupSync s)) = 18"
| "encoded_len (Core (ActivityFailed a e)) = 11"
| "encoded_len (Core (Terminate t)) = 18"
| "encoded_len (Core (TerminateAck g)) = 10"
| "encoded_len (Core s) = 26"
| "encoded_len (ActivityHello a) = 10"
| "encoded_len (ChannelHello c) = 10"

lemma length_fields [simp]:
  "length (field_u8 b) = 1" "length (field_u64 w) = 8" "length (field_u128 v) = 16"
  by (simp_all add: field_u8_def field_u64_def field_u128_def)

lemma length_encode: "length (encode s) = encoded_len s"
  by (induction s rule: encode.induct) (simp_all add: encode_data_def)

lemma tag_roundtrip:
  "tag \<noteq> ConnectorChannelRelayHello \<Longrightarrow> signal_tag_of_u8 (tag_u8 tag) = Inr tag"
  by (cases tag) (simp_all add: signal_tag_of_u8_def)

lemma relay_tag_unknown: "signal_tag_of_u8 (tag_u8 ConnectorChannelRelayHello) = Inl 36"
  by (simp add: signal_tag_of_u8_def)

lemma duration_ok_u64: "n \<le> u64_max \<Longrightarrow> duration_ok n"
  by (simp add: duration_ok_def duration_max_def u64_max_def nanos_per_sec_def)

lemma le_val_fields [simp]:
  "le_val (field_u8 b) = unat b" "le_val (field_u64 w) = unat w" "le_val (field_u128 v) = unat v"
  using unat_bound [of b] unat_bound [of w] unat_bound [of v]
  by (simp_all add: field_u8_def field_u64_def field_u128_def)

lemma conv_roundtrip [simp]:
  "conv_id (unat (id_of a)) = Ret a"
  "ts_nanos t \<le> u64_max \<Longrightarrow> conv_timestamp (unat (u128_of_timestamp t)) = Ret t"
  "since_epoch s \<le> u64_max \<Longrightarrow> conv_sync (unat (u128_of_sync s)) = Ret s"
  "conv_activity_error (unat (u8_of_activity_error e)) = Ret e"
  by (simp add: conv_id_def)
    (simp add: conv_timestamp_def timestamp_of_u128_roundtrip duration_ok_u64,
     simp add: conv_sync_def sync_of_u128_roundtrip duration_ok_u64,
     cases e, simp_all add: conv_activity_error_def activity_error_of_u8_def)

declare tag_u8.simps [simp del]

lemma try_decode_encode_data:
  assumes "length (concat fs) < 256"
  shows "try_decode (encode_data tag fs @ rest) =
    (case signal_tag_of_u8 (tag_u8 tag) of Inl _ \<Rightarrow> Panic | Inr t \<Rightarrow> decode_fields t (concat fs))"
  using assms by (simp add: try_decode_def encode_data_def unat_of_nat length_concat split: sum.split)

lemma try_decode_encode:
  "wire_ok s \<Longrightarrow> try_decode (encode s @ rest) = Ret (Some (s, encoded_len s))"
  by (induction s rule: encode.induct)
    (simp_all add: try_decode_encode_data tag_roundtrip decode_data1_def decode_data2_def)

text \<open>An incomplete message is recognised by its length byte alone, whatever its tag.\<close>

lemma encode_shape:
  "\<exists>t body. encode s = t # word_of_nat (length body) # body \<and> length body = encoded_len s - 2"
  by (induction s rule: encode.induct) (simp_all add: encode_data_def)

lemma encoded_len_bounds: "10 \<le> encoded_len s" "encoded_len s \<le> 26"
  by (induction s rule: encoded_len.induct) simp_all

lemma try_decode_short:
  assumes "k < encoded_len s"
  shows "try_decode (take k (encode s)) = Ret None"
proof -
  from encode_shape [of s] obtain t body where e: "encode s = t # word_of_nat (length body) # body"
    and l: "length body = encoded_len s - 2" by blast
  have "length body < 256" using l encoded_len_bounds(2) [of s] by linarith
  then have u: "unat (word_of_nat (length body) :: u8) = length body"
    by (simp only: unat_of_nat) simp
  show ?thesis
  proof (cases "k < 2")
    case True
    then consider "k = 0" | "k = Suc 0" by linarith
    then show ?thesis by cases (simp_all add: e try_decode_def)
  next
    case False
    then obtain j where j: "k = Suc (Suc j)" by (metis add_2_eq_Suc le_Suc_ex not_less)
    with assms l have "j < length body" by simp
    with j show ?thesis by (simp add: e u try_decode_def)
  qed
qed

interpretation wire: encode_decode encode try_decode wire_ok 26
  by unfold_locales
    (use try_decode_short encoded_len_bounds in
      \<open>auto simp: try_decode_encode length_encode try_decode_def [of "[]"] simp flip: length_greater_0_conv
        intro: less_le_trans [OF _ encoded_len_bounds(1)]\<close>)

text \<open>
  C7: the wire format is a faithful codec: every signal the decoder accepts is read back exactly,
  with exactly its encoded bytes consumed, whatever follows it in the buffer; and a strict prefix of
  an encoding is reported as incomplete, never as another message and never with a panic.
\<close>

theorem wire_roundtrip:
  "(wire_ok s \<longrightarrow> try_decode (encode s @ rest) = Ret (Some (s, length (encode s))))
    \<and> (k < length (encode s) \<longrightarrow> try_decode (take k (encode s)) = Ret None)"
  by (simp add: try_decode_encode try_decode_short length_encode)

theorem wire_roundtrip_witness:
  "try_decode (encode (Core (TerminateAck (GenericId 7))) @ [1, 2])
     = Ret (Some (Core (TerminateAck (GenericId 7)), length (encode (Core (TerminateAck (GenericId 7))))))
   \<and> try_decode (take 9 (encode (Core (TerminateAck (GenericId 7))))) = Ret None"
  using wire_roundtrip [of "Core (TerminateAck (GenericId 7))" "[1, 2]" 9] by (simp add: length_encode del: encode.simps)

text \<open>
  Concatenated encodings are uniquely decodable: two streams of accepted signals with the same
  bytes are the same stream.
\<close>

theorem wire_stream_unique:
  assumes "list_all wire_ok ms" and "list_all wire_ok ns"
    and "concat (map encode ms) = concat (map encode ns)"
  shows "ms = ns"
  using assms by (rule wire.stream_decodable)

theorem wire_stream_unique_witness:
  "[ActivityHello (GenericId 3)] = [ActivityHello (GenericId (1 + 2))]"
  by (rule wire_stream_unique) simp_all

text \<open>
  The hello of a relay channel is encoded but not decodable: the decoder panics on it, because
  the tag conversion does not know the tag that the encoder writes; so does the decoder for a
  timestamp of more than \<open>2 ^ 64 - 1\<close> nanoseconds, which the encoder sends as a \<open>u128\<close>.
\<close>

theorem wire_rejected_encodings:
  "try_decode (encode (ChannelHello (ChRelay r)) @ rest) = Panic
    \<and> (duration_ok d \<and> u64_max < d \<longrightarrow> try_decode (encode (Core (Terminate (Timestamp d))) @ rest) = Panic)"
proof
  show "try_decode (encode (ChannelHello (ChRelay r)) @ rest) = Panic"
    by (simp add: try_decode_encode_data relay_tag_unknown)
  have "timestamp_of_u128 (u128_of_timestamp (Timestamp d)) = Panic" if "duration_ok d \<and> u64_max < d"
    using that timestamp_of_u128_roundtrip [of "Timestamp d"] by simp
  then show "duration_ok d \<and> u64_max < d \<longrightarrow>
      try_decode (encode (Core (Terminate (Timestamp d))) @ rest) = Panic"
    by (simp add: try_decode_encode_data tag_roundtrip decode_data1_def conv_timestamp_def)
qed

theorem wire_rejected_encodings_witness:
  "try_decode (encode (Core (Terminate (Timestamp (2 ^ 64)))) @ []) = Panic"
  using wire_rejected_encodings [of "GenericId 0" "[]" "2 ^ 64"]
  by (simp add: duration_ok_def duration_max_def u64_max_def nanos_per_sec_def)

end
