(* ===== verification/Feo_Connection.thy ===== *)
theory Feo_Connection
  imports Feo_Wire
begin

text \<open>
  The buffered message reader over a non-blocking stream
  (\<open>feo/src/signalling/common/socket/connection.rs\<close>), for any message type with an
  \<open>EncodeDecode\<close> codec.

  A stream is the sequence of what the operating system will let the reader see: chunks of bytes,
  moments at which a read would block, and failures; an empty chunk is the end of the stream, which
  every later read finds again. A read with a short buffer takes a part of a chunk. Writing appends to the sent bytes unless the peer is
  gone. The lemmas carry one invariant: the unread bytes of the buffer followed by the bytes still in
  the stream are the encodings of the messages not yet delivered.
\<close>

section \<open>Streams\<close>

datatype read_event = Chunk "u8 list" | Blocked | Failed io_error_kind

record stream =
  st_in :: "read_event list"
  st_out :: "u8 list"
  st_write_error :: "io_error_kind option"

definition stream_read :: "nat \<Rightarrow> stream \<Rightarrow> (io_error_kind + u8 list) \<times> stream" where
  "stream_read n s =
    (if n = 0 then (Inr [], s)
     else case st_in s of
            [] \<Rightarrow> (Inl WouldBlock, s)
          | Blocked # es \<Rightarrow> (Inl WouldBlock, s\<lparr>st_in := es\<rparr>)
          | Failed k # es \<Rightarrow> (Inl k, s\<lparr>st_in := es\<rparr>)
          | Chunk bs # es \<Rightarrow>
              if bs = [] then (Inr [], s)
              else if length bs \<le> n then (Inr bs, s\<lparr>st_in := es\<rparr>)
              else (Inr (take n bs), s\<lparr>st_in := Chunk (drop n bs) # es\<rparr>))"

definition stream_write_all :: "u8 list \<Rightarrow> stream \<Rightarrow> (io_error_kind + unit) \<times> stream" where
  "stream_write_all bs s =
    (case st_write_error s of
       Some k \<Rightarrow> (Inl k, s)
     | None \<Rightarrow> (Inr (), s\<lparr>st_out := st_out s @ bs\<rparr>))"

section \<open>Connections\<close>

definition buffer_size :: nat where
  "buffer_size = 128"

record connection =
  c_stream :: stream
  recv_buffer :: "u8 list"
  recv_begin :: nat
  recv_end :: nat
  send_buffer :: "u8 list"
  stream_readable :: bool
  buffer_readable :: bool

definition connection_new :: "stream \<Rightarrow> connection" where
  "connection_new s =
    \<lparr>c_stream = s, recv_buffer = replicate buffer_size 0, recv_begin = 0, recv_end = 0,
     send_buffer = replicate buffer_size 0, stream_readable = False, buffer_readable = False\<rparr>"

definition set_stream_readable :: "connection \<Rightarrow> connection" where
  "set_stream_readable c = c\<lparr>stream_readable := True\<rparr>"

definition is_readable :: "connection \<Rightarrow> bool" where
  "is_readable c \<longleftrightarrow> stream_readable c \<or> buffer_readable c"

text \<open>\<open>read_from_stream\<close>: read until the stream would block or the buffer is full.\<close>

definition store_bytes :: "u8 list \<Rightarrow> connection \<Rightarrow> connection" where
  "store_bytes bs c =
    c\<lparr>recv_buffer := take (recv_end c) (recv_buffer c) @ bs
        @ drop (recv_end c + length bs) (recv_buffer c),
      recv_end := recv_end c + length bs, buffer_readable := True\<rparr>"

function read_from_stream :: "connection \<Rightarrow> (io_error_kind + unit) outcome \<times> connection" where
  "read_from_stream c =
    (if length (recv_buffer c) < recv_end c then (Panic, c)
     else case stream_read (length (recv_buffer c) - recv_end c) (c_stream c) of
            (Inr bs, st) \<Rightarrow>
              if bs = [] then (Ret (Inl ConnectionReset), c\<lparr>c_stream := st\<rparr>)
              else
                let c' = store_bytes bs (c\<lparr>c_stream := st\<rparr>) in
                if recv_end c' = length (recv_buffer c') then (Ret (Inr ()), c')
                else read_from_stream c'
          | (Inl k, st) \<Rightarrow>
              if k = WouldBlock then (Ret (Inr ()), c\<lparr>c_stream := st, stream_readable := False\<rparr>)
              else (Ret (Inl k), c\<lparr>c_stream := st\<rparr>))"
  by pat_completeness auto

termination
  by (relation "measure (\<lambda>c. length (recv_buffer c) - recv_end c)")
    (auto simp: store_bytes_def neq_Nil_conv)

declare read_from_stream.simps [simp del]

definition shift_buffer :: "(connection, unit) io" where
  "shift_buffer c =
    (if recv_end c < recv_begin c \<or> length (recv_buffer c) < recv_end c then (Panic, c)
     else let remaining = recv_end c - recv_begin c;
              tmp = take remaining (drop (recv_begin c) (recv_buffer c))
          in (Ret (), c\<lparr>recv_buffer := tmp @ drop remaining (recv_buffer c),
                       recv_end := remaining, recv_begin := 0\<rparr>))"

definition parse_from_buffer ::
  "(u8 list \<Rightarrow> ('m \<times> nat) option outcome) \<Rightarrow> (connection, 'm option) io" where
  "parse_from_buffer dec c =
    (if recv_end c < recv_begin c \<or> length (recv_buffer c) < recv_end c then (Panic, c)
     else case dec (take (recv_end c - recv_begin c) (drop (recv_begin c) (recv_buffer c))) of
            Ret (Some (msg, consumed)) \<Rightarrow>
              let c' = c\<lparr>recv_begin := recv_begin c + consumed\<rparr> in
              if buffer_size div 2 < recv_begin c'
              then io_bind shift_buffer (\<lambda>_. io_return (Some msg)) c'
              else (Ret (Some msg), c')
          | Ret None \<Rightarrow> (Ret None, c\<lparr>buffer_readable := False\<rparr>)
          | Panic \<Rightarrow> (Panic, c)
          | Hang \<Rightarrow> (Hang, c))"

definition connection_read ::
  "(u8 list \<Rightarrow> ('m \<times> nat) option outcome) \<Rightarrow> (connection, io_error_kind + 'm option) io" where
  "connection_read dec =
    io_bind io_get (\<lambda>c0.
    io_bind (if buffer_readable c0 then parse_from_buffer dec else io_return None) (\<lambda>m0.
    case m0 of Some msg \<Rightarrow> io_return (Inr (Some msg))
    | None \<Rightarrow>
    io_bind io_get (\<lambda>c1.
    io_try (if stream_readable c1 then read_from_stream else io_return (Inr ())) (\<lambda>_.
    io_bind io_get (\<lambda>c2.
    io_bind (if buffer_readable c2 then parse_from_buffer dec else io_return None) (\<lambda>m1.
    io_return (Inr m1)))))))"

text \<open>\<open>send\<close>: encode into the send buffer (a full buffer is \<open>WriteZero\<close>), then write it out.\<close>

definition connection_send :: "('m \<Rightarrow> u8 list) \<Rightarrow> 'm \<Rightarrow> (connection, io_error_kind + unit) io" where
  "connection_send enc msg c =
    (let bs = enc msg; n = length (send_buffer c) in
     if n < length bs then (Ret (Inl WriteZero), c\<lparr>send_buffer := take n bs\<rparr>)
     else let c' = c\<lparr>send_buffer := bs @ drop (length bs) (send_buffer c)\<rparr>
          in case stream_write_all bs (c_stream c') of
               (r, st) \<Rightarrow> (Ret r, c'\<lparr>c_stream := st\<rparr>))"

section \<open>The framing invariant\<close>

definition unread :: "connection \<Rightarrow> u8 list" where
  "unread c = take (recv_end c - recv_begin c) (drop (recv_begin c) (recv_buffer c))"

fun event_bytes :: "read_event \<Rightarrow> u8 list" where
  "event_bytes (Chunk bs) = bs"
| "event_bytes _ = []"

fun event_ok :: "read_event \<Rightarrow> bool" where
  "event_ok (Chunk bs) \<longleftrightarrow> bs \<noteq> []"
| "event_ok Blocked \<longleftrightarrow> True"
| "event_ok (Failed k) \<longleftrightarrow> False"

definition stream_bytes :: "stream \<Rightarrow> u8 list" where
  "stream_bytes s = concat (map event_bytes (st_in s))"

text \<open>The number of times the stream will still block.\<close>

definition blocks :: "stream \<Rightarrow> nat" where
  "blocks s = length (filter (\<lambda>e. e = Blocked) (st_in s))"

definition healthy :: "stream \<Rightarrow> bool" where
  "healthy s \<longleftrightarrow> list_all event_ok (st_in s)"

definition buffer_ok :: "connection \<Rightarrow> bool" where
  "buffer_ok c \<longleftrightarrow> length (recv_buffer c) = buffer_size \<and> recv_begin c \<le> recv_end c
    \<and> recv_end c \<le> buffer_size \<and> recv_begin c \<le> buffer_size div 2"

lemma length_unread: "buffer_ok c \<Longrightarrow> length (unread c) = recv_end c - recv_begin c"
  by (auto simp: buffer_ok_def unread_def min_def)

lemma unread_stream_update [simp]: "unread (c\<lparr>c_stream := s\<rparr>) = unread c"
  "unread (c\<lparr>stream_readable := b\<rparr>) = unread c" "unread (c\<lparr>buffer_readable := b\<rparr>) = unread c"
  by (simp_all add: unread_def)

lemma buffer_ok_update [simp]: "buffer_ok (c\<lparr>c_stream := s\<rparr>) = buffer_ok c"
  "buffer_ok (c\<lparr>stream_readable := b\<rparr>) = buffer_ok c"
  "buffer_ok (c\<lparr>buffer_readable := b\<rparr>) = buffer_ok c"
  by (simp_all add: buffer_ok_def)

lemma store_bytes_unread:
  assumes "buffer_ok c" "length bs \<le> buffer_size - recv_end c"
  shows "unread (store_bytes bs c) = unread c @ bs" "buffer_ok (store_bytes bs c)"
  using assms by (auto simp: store_bytes_def unread_def buffer_ok_def drop_take)

lemma store_bytes_simps [simp]:
  "c_stream (store_bytes bs c) = c_stream c" "buffer_readable (store_bytes bs c)"
  "stream_readable (store_bytes bs c) = stream_readable c"
  "recv_end (store_bytes bs c) = recv_end c + length bs"
  by (simp_all add: store_bytes_def)

lemma shift_buffer_unread:
  assumes "buffer_size = length (recv_buffer c)" "recv_begin c \<le> recv_end c" "recv_end c \<le> buffer_size"
  shows "\<exists>c'. shift_buffer c = (Ret (), c') \<and> unread c' = unread c \<and> buffer_ok c'
    \<and> c_stream c' = c_stream c \<and> buffer_readable c' = buffer_readable c
    \<and> stream_readable c' = stream_readable c"
  using assms by (auto simp: shift_buffer_def unread_def buffer_ok_def Let_def)

text \<open>A healthy stream delivers its bytes in order; a read of a non-empty buffer never fails.\<close>

lemma stream_read_healthy:
  assumes "healthy s" "0 < n"
  obtains (bytes) bs s' where "stream_read n s = (Inr bs, s')" "bs \<noteq> []" "length bs \<le> n"
      "stream_bytes s = bs @ stream_bytes s'" "healthy s'" "blocks s' = blocks s"
  | (block) s' where "stream_read n s = (Inl WouldBlock, s')" "stream_bytes s' = stream_bytes s"
      "healthy s'" "blocks s' + (if st_in s' = [] then 0 else 1) \<le> blocks s"
proof (cases "st_in s")
  case Nil
  with assms block [of s] show ?thesis by (simp add: stream_read_def blocks_def)
next
  case (Cons e es)
  show ?thesis
  proof (cases e)
    case (Chunk bs)
    with Cons assms have bs: "bs \<noteq> []" by (simp add: healthy_def)
    show ?thesis
    proof (cases "length bs \<le> n")
      case True
      with Cons Chunk bs assms show ?thesis
        by (intro bytes [of bs "s\<lparr>st_in := es\<rparr>"])
          (simp_all add: stream_read_def stream_bytes_def healthy_def blocks_def)
    next
      case False
      with Cons Chunk bs assms show ?thesis
        by (intro bytes [of "take n bs" "s\<lparr>st_in := Chunk (drop n bs) # es\<rparr>"])
          (simp_all add: stream_read_def stream_bytes_def healthy_def blocks_def)
    qed
  next
    case Blocked
    with Cons assms show ?thesis
      by (intro block [of "s\<lparr>st_in := es\<rparr>"])
        (simp_all add: stream_read_def stream_bytes_def healthy_def blocks_def)
  next
    case (Failed k)
    with Cons assms show ?thesis by (simp add: healthy_def)
  qed
qed

text \<open>
  \<open>read_from_stream\<close> on a healthy stream with room in the buffer: it returns, it moves bytes from
  the stream to the end of the unread part and changes nothing else, and afterwards the stream would
  block or the buffer is full.
\<close>

lemma read_from_stream_healthy:
  assumes "buffer_ok c" "healthy (c_stream c)" "recv_end c < buffer_size"
  shows "\<exists>c' bs. read_from_stream c = (Ret (Inr ()), c') \<and> buffer_ok c' \<and> healthy (c_stream c')
    \<and> unread c' = unread c @ bs \<and> stream_bytes (c_stream c) = bs @ stream_bytes (c_stream c')
    \<and> (buffer_readable c' \<longleftrightarrow> buffer_readable c \<or> bs \<noteq> [])
    \<and> (\<not> stream_readable c' \<or> recv_end c' = buffer_size) \<and> recv_begin c' = recv_begin c
    \<and> blocks (c_stream c') + (if recv_end c' = buffer_size \<or> st_in (c_stream c') = [] then 0 else 1)
        \<le> blocks (c_stream c)"
  using assms
proof (induction c rule: read_from_stream.induct)
  case (1 c)
  let ?n = "length (recv_buffer c) - recv_end c"
  from "1.prems" have n: "0 < ?n" "\<not> length (recv_buffer c) < recv_end c" "?n = buffer_size - recv_end c"
    by (auto simp: buffer_ok_def)
  from "1.prems"(2) n(1) show ?case
  proof (cases rule: stream_read_healthy)
    case (block s')
    then show ?thesis using "1.prems" n
      by (intro exI [of _ "c\<lparr>c_stream := s', stream_readable := False\<rparr>"] exI [of _ "[]"])
        (simp add: read_from_stream.simps [of c])
  next
    case (bytes bs s')
    define c' where "c' = store_bytes bs (c\<lparr>c_stream := s'\<rparr>)"
    have room: "length bs \<le> buffer_size - recv_end c" using bytes n by simp
    have ok: "buffer_ok c'" and un: "unread c' = unread c @ bs"
      using store_bytes_unread [of "c\<lparr>c_stream := s'\<rparr>" bs] "1.prems"(1) room by (simp_all add: c'_def)
    have beg: "recv_begin c' = recv_begin c" by (simp add: c'_def store_bytes_def)
    have sz: "length (recv_buffer c') = buffer_size" using ok by (simp add: buffer_ok_def)
    have fields: "c_stream c' = s'" "buffer_readable c'" "recv_end c' = recv_end c + length bs"
      by (simp_all add: c'_def)
    have unfold_c: "read_from_stream c =
        (if recv_end c' = buffer_size then (Ret (Inr ()), c') else read_from_stream c')"
      using n bytes sz fields(3)
      by (simp add: read_from_stream.simps [of c] c'_def [symmetric] Let_def)
    show ?thesis
    proof (cases "recv_end c' = buffer_size")
      case True
      with ok un beg bytes unfold_c fields show ?thesis by (intro exI [of _ c'] exI [of _ bs]) simp
    next
      case False
      with ok have lt: "recv_end c' < buffer_size" by (simp add: buffer_ok_def)
      from "1.IH" [OF n(2) bytes(1) [symmetric] refl bytes(2) c'_def] False sz ok lt bytes(5) fields
      obtain c'' bs' where "read_from_stream c' = (Ret (Inr ()), c'')" "buffer_ok c''"
        "healthy (c_stream c'')" "unread c'' = unread c' @ bs'"
        "stream_bytes s' = bs' @ stream_bytes (c_stream c'')"
        "buffer_readable c'' \<longleftrightarrow> buffer_readable c' \<or> bs' \<noteq> []"
        "\<not> stream_readable c'' \<or> recv_end c'' = buffer_size" "recv_begin c'' = recv_begin c'"
        "blocks (c_stream c'') + (if recv_end c'' = buffer_size \<or> st_in (c_stream c'') = [] then 0 else 1)
          \<le> blocks s'"
        by auto
      with un beg bytes unfold_c False fields show ?thesis
        by (intro exI [of _ c''] exI [of _ "bs @ bs'"]) simp
    qed
  qed
qed

section \<open>Framing\<close>

definition frame_inv ::
  "('m \<Rightarrow> u8 list) \<Rightarrow> ('m \<Rightarrow> bool) \<Rightarrow> 'm list \<Rightarrow> connection \<Rightarrow> bool" where
  "frame_inv enc ok ms c \<longleftrightarrow> buffer_ok c \<and> healthy (c_stream c) \<and> list_all ok ms
    \<and> unread c @ stream_bytes (c_stream c) = concat (map enc ms)
    \<and> (\<not> buffer_readable c \<longrightarrow> (\<forall>m ms'. ms = m # ms' \<longrightarrow> length (unread c) < length (enc m)))"

text \<open>Reading again and again, with the poll reporting the stream readable before each read.\<close>

fun read_many ::
  "(u8 list \<Rightarrow> ('m \<times> nat) option outcome) \<Rightarrow> nat \<Rightarrow> (connection, io_error_kind + 'm list) io" where
  "read_many dec 0 = io_return (Inr [])"
| "read_many dec (Suc n) =
    io_bind (io_modify set_stream_readable) (\<lambda>_.
    io_try (connection_read dec) (\<lambda>r.
    io_try (read_many dec n) (\<lambda>ms.
    io_return (Inr (case r of None \<Rightarrow> ms | Some m \<Rightarrow> m # ms)))))"

lemma frame_inv_readable: "frame_inv enc ok ms c \<Longrightarrow> frame_inv enc ok ms (set_stream_readable c)"
  by (simp add: frame_inv_def set_stream_readable_def)

context encode_decode
begin

text \<open>Too few bytes are left unread for the buffer to be full when the reader goes to the stream.\<close>

lemma frame_inv_room:
  assumes "frame_inv enc ok ms c" "\<not> buffer_readable c" "max_len \<le> buffer_size div 2"
  shows "recv_end c < buffer_size"
proof -
  have "length (unread c) < buffer_size div 2"
  proof (cases ms)
    case Nil
    with assms(1) show ?thesis by (simp add: frame_inv_def buffer_size_def)
  next
    case (Cons m ms')
    with assms have "length (unread c) < length (enc m)" "ok m" by (auto simp: frame_inv_def)
    with enc_bound [of m] assms(3) show ?thesis by linarith
  qed
  moreover have ok: "buffer_ok c" using assms by (simp add: frame_inv_def)
  ultimately have "recv_end c - recv_begin c < buffer_size div 2" by (simp only: length_unread)
  moreover have "recv_begin c \<le> buffer_size div 2" using ok by (simp add: buffer_ok_def)
  ultimately show ?thesis by (simp add: buffer_size_def)
qed

lemma parse_incomplete:
  assumes "frame_inv enc ok ms c" "\<And>m ms'. ms = m # ms' \<Longrightarrow> length (unread c) < length (enc m)"
  shows "parse_from_buffer dec c = (Ret None, c\<lparr>buffer_readable := False\<rparr>)
    \<and> frame_inv enc ok ms (c\<lparr>buffer_readable := False\<rparr>)"
proof -
  have "dec (unread c) = Ret None"
  proof (cases ms)
    case Nil
    with assms(1) show ?thesis by (simp add: frame_inv_def dec_nil)
  next
    case (Cons m ms')
    with assms have short: "length (unread c) < length (enc m)" and "ok m"
      by (auto simp: frame_inv_def)
    have "unread c = take (length (unread c)) (concat (map enc ms))"
      using assms(1) by (metis append_eq_conv_conj frame_inv_def)
    with Cons short have "unread c = take (length (unread c)) (enc m)" by simp
    with dec_short [OF \<open>ok m\<close> short] show ?thesis by simp
  qed
  with assms show ?thesis
    by (auto simp: parse_from_buffer_def unread_def [symmetric] frame_inv_def buffer_ok_def)
qed

lemma parse_complete:
  assumes "frame_inv enc ok (m # ms) c" "length (enc m) \<le> length (unread c)" "buffer_readable c"
  shows "\<exists>c'. parse_from_buffer dec c = (Ret (Some m), c') \<and> frame_inv enc ok ms c'
    \<and> c_stream c' = c_stream c"
proof -
  let ?n = "length (enc m)" and ?c1 = "c\<lparr>recv_begin := recv_begin c + length (enc m)\<rparr>"
  from assms(1) have ok: "buffer_ok c" "ok m"
    and eq: "unread c @ stream_bytes (c_stream c) = enc m @ concat (map enc ms)"
    by (simp_all add: frame_inv_def)
  have "take ?n (unread c) = take ?n (unread c @ stream_bytes (c_stream c))" using assms(2) by simp
  also have "\<dots> = enc m" by (simp add: eq)
  finally have unr: "unread c = enc m @ drop ?n (unread c)" by (metis append_take_drop_id)
  have "drop ?n (unread c) @ stream_bytes (c_stream c) = drop ?n (unread c @ stream_bytes (c_stream c))"
    using assms(2) by simp
  then have rest: "drop ?n (unread c) @ stream_bytes (c_stream c) = concat (map enc ms)"
    by (simp add: eq)
  have dec: "dec (unread c) = Ret (Some (m, ?n))"
    by (subst unr) (rule dec_enc [OF \<open>ok m\<close>])
  have un1: "unread ?c1 = drop ?n (unread c)"
    by (simp add: unread_def drop_take add.commute)
  have in_buf: "recv_begin c + ?n \<le> recv_end c" "recv_end c \<le> buffer_size"
    "length (recv_buffer c) = buffer_size"
    using ok(1) assms(2) length_unread [OF ok(1)] by (auto simp: buffer_ok_def)
  show ?thesis
  proof (cases "buffer_size div 2 < recv_begin ?c1")
    case True
    obtain c' where c': "shift_buffer ?c1 = (Ret (), c')" "unread c' = unread ?c1" "buffer_ok c'"
      "c_stream c' = c_stream ?c1" "buffer_readable c' = buffer_readable ?c1"
      using shift_buffer_unread [of ?c1] in_buf by auto
    then have "parse_from_buffer dec c = (Ret (Some m), c')"
      using True dec in_buf
      by (simp add: parse_from_buffer_def unread_def [symmetric] io_bind_def io_return_def)
    moreover have "frame_inv enc ok ms c'"
      using c' un1 rest assms(1,3) by (simp add: frame_inv_def)
    ultimately show ?thesis using c'(4) by auto
  next
    case False
    then have "parse_from_buffer dec c = (Ret (Some m), ?c1)"
      using dec in_buf by (simp add: parse_from_buffer_def unread_def [symmetric])
    moreover have "buffer_ok ?c1" using False in_buf by (simp add: buffer_ok_def)
    then have "frame_inv enc ok ms ?c1" using un1 rest assms(1,3) by (simp add: frame_inv_def)
    ultimately show ?thesis by auto
  qed
qed

lemma parse_frame:
  assumes "frame_inv enc ok ms c" "buffer_readable c"
  obtains (some) m ms' c' where "ms = m # ms'" "parse_from_buffer dec c = (Ret (Some m), c')"
      "frame_inv enc ok ms' c'" "c_stream c' = c_stream c"
  | (none) "parse_from_buffer dec c = (Ret None, c\<lparr>buffer_readable := False\<rparr>)"
      "frame_inv enc ok ms (c\<lparr>buffer_readable := False\<rparr>)"
      "\<And>m ms'. ms = m # ms' \<Longrightarrow> length (unread c) < length (enc m)"
proof (cases "\<exists>m ms'. ms = m # ms' \<and> length (enc m) \<le> length (unread c)")
  case True
  then obtain m ms' where m: "ms = m # ms'" "length (enc m) \<le> length (unread c)" by blast
  from parse_complete [OF assms(1) [unfolded m(1)] m(2) assms(2)] some m(1) show ?thesis by blast
next
  case False
  then have short: "\<And>m ms'. ms = m # ms' \<Longrightarrow> length (unread c) < length (enc m)" by force
  have "parse_from_buffer dec c = (Ret None, c\<lparr>buffer_readable := False\<rparr>)
      \<and> frame_inv enc ok ms (c\<lparr>buffer_readable := False\<rparr>)"
    by (rule parse_incomplete [OF assms(1)]) (rule short)
  then show ?thesis by (intro none) (auto dest: short)
qed

lemma connection_read_buffered:
  "buffer_readable c \<Longrightarrow> parse_from_buffer d c = (Ret (Some m), c') \<Longrightarrow>
    connection_read d c = (Ret (Inr (Some m)), c')"
  by (simp add: connection_read_def io_bind_def io_get_def io_return_def)

lemma connection_read_unready:
  "(if buffer_readable c then parse_from_buffer d else io_return None) c = (Ret None, c1) \<Longrightarrow>
    \<not> buffer_readable c1 \<Longrightarrow> \<not> stream_readable c1 \<Longrightarrow> connection_read d c = (Ret (Inr None), c1)"
  by (simp add: connection_read_def io_bind_def io_get_def io_return_def io_try_def)

lemma connection_read_stream:
  "(if buffer_readable c then parse_from_buffer d else io_return None) c = (Ret None, c1) \<Longrightarrow>
    stream_readable c1 \<Longrightarrow> read_from_stream c1 = (Ret (Inr ()), c2) \<Longrightarrow>
    (if buffer_readable c2 then parse_from_buffer d else io_return None) c2 = (Ret r, c3) \<Longrightarrow>
    connection_read d c = (Ret (Inr r), c3)"
  by (simp add: connection_read_def io_bind_def io_get_def io_return_def io_try_def)

text \<open>
  One \<open>read\<close>: it returns the next message, or \<open>None\<close> with the connection not readable any more; it
  neither fails nor panics. First the part after the buffer has been found to hold no message.
\<close>

lemma connection_read_second:
  assumes c1: "frame_inv enc ok ms c1" "\<not> buffer_readable c1" and small: "max_len \<le> buffer_size div 2"
    and first: "(if buffer_readable c then parse_from_buffer dec else io_return None) c = (Ret None, c1)"
  obtains (got) m ms' c' where "connection_read dec c = (Ret (Inr (Some m)), c')" "ms = m # ms'"
      "frame_inv enc ok ms' c'" "blocks (c_stream c') \<le> blocks (c_stream c1)"
  | (idle) c' where "connection_read dec c = (Ret (Inr None), c')" "frame_inv enc ok ms c'"
      "\<not> is_readable c'" "blocks (c_stream c')
        + (if stream_readable c1 \<and> st_in (c_stream c') \<noteq> [] then 1 else 0) \<le> blocks (c_stream c1)"
proof (cases "stream_readable c1")
  case False
  show thesis
    by (rule idle [OF connection_read_unready [OF first c1(2) False] c1(1)])
      (use False c1(2) in \<open>simp_all add: is_readable_def\<close>)
next
  case sr: True
  have "buffer_ok c1" "healthy (c_stream c1)" using c1(1) by (simp_all add: frame_inv_def)
  from read_from_stream_healthy [OF this frame_inv_room [OF c1 small]] obtain c2 bs where
    rd: "read_from_stream c1 = (Ret (Inr ()), c2)" and c2: "buffer_ok c2" "healthy (c_stream c2)"
    "unread c2 = unread c1 @ bs" "stream_bytes (c_stream c1) = bs @ stream_bytes (c_stream c2)"
    "buffer_readable c2 \<longleftrightarrow> buffer_readable c1 \<or> bs \<noteq> []"
    "\<not> stream_readable c2 \<or> recv_end c2 = buffer_size"
    "blocks (c_stream c2) + (if recv_end c2 = buffer_size \<or> st_in (c_stream c2) = [] then 0 else 1)
      \<le> blocks (c_stream c1)" by blast
  note go = connection_read_stream [OF first sr rd]
  have inv2: "frame_inv enc ok ms c2"
    using c1 c2(1-5) by (auto simp: frame_inv_def)
  have room: "recv_end c2 < buffer_size"
    if "\<And>m ms'. ms = m # ms' \<Longrightarrow> length (unread c2) < length (enc m)"
    using frame_inv_room [of ms "c2\<lparr>buffer_readable := False\<rparr>"] inv2 that small
    by (auto simp: frame_inv_def)
  have le: "blocks (c_stream c2) \<le> blocks (c_stream c1)" using c2(7) by linarith
  have room_le: "blocks (c_stream c2) + (if st_in (c_stream c2) \<noteq> [] then 1 else 0)
      \<le> blocks (c_stream c1)" "\<not> stream_readable c2" if "recv_end c2 < buffer_size"
    using that c2(6,7) by (auto split: if_splits)
  show thesis
  proof (cases "buffer_readable c2")
    case False
    with inv2 have full: "recv_end c2 < buffer_size" by (intro room) (simp add: frame_inv_def)
    show thesis
      by (rule idle [of c2, OF go inv2])
        (use False room_le [OF full] sr in \<open>simp_all add: is_readable_def io_return_def\<close>)
  next
    case True
    from inv2 True show thesis
    proof (cases rule: parse_frame)
      case (some m ms' c3)
      show thesis
        by (rule got [of m c3, OF go some(1,3)]) (use True some le in simp_all)
    next
      case none
      with room have full: "recv_end c2 < buffer_size" by blast
      show thesis
        by (rule idle [of "c2\<lparr>buffer_readable := False\<rparr>", OF go none(2)])
          (use True none(1) room_le [OF full] sr in \<open>simp_all add: is_readable_def\<close>)
    qed
  qed
qed

lemma connection_read_frame:
  assumes inv: "frame_inv enc ok ms c" and small: "max_len \<le> buffer_size div 2"
  obtains (got) m ms' c' where "connection_read dec c = (Ret (Inr (Some m)), c')" "ms = m # ms'"
      "frame_inv enc ok ms' c'" "blocks (c_stream c') \<le> blocks (c_stream c)"
  | (idle) c' where "connection_read dec c = (Ret (Inr None), c')" "frame_inv enc ok ms c'"
      "\<not> is_readable c'" "blocks (c_stream c')
        + (if stream_readable c \<and> st_in (c_stream c') \<noteq> [] then 1 else 0) \<le> blocks (c_stream c)"
proof (cases "buffer_readable c")
  case False
  show thesis
    by (rule connection_read_second [OF inv False small, of c])
      (use False got idle in \<open>auto simp: io_return_def\<close>)
next
  case True
  from inv True show thesis
  proof (cases rule: parse_frame)
    case (some m ms' c')
    show thesis
      by (rule got [OF connection_read_buffered [OF True some(2)] some(1,3)]) (simp add: some(4))
  next
    case none
    show thesis
      by (rule connection_read_second [OF none(2) _ small, of c])
        (use True none(1) got idle in \<open>simp_all\<close>)
  qed
qed

lemma read_many_frame:
  assumes "frame_inv enc ok ms c" "max_len \<le> buffer_size div 2"
  shows "\<exists>ms1 ms2 c'. read_many dec n c = (Ret (Inr ms1), c') \<and> ms = ms1 @ ms2
    \<and> frame_inv enc ok ms2 c' \<and> (length ms + blocks (c_stream c) < n \<longrightarrow> ms2 = [])"
  using assms(1)
proof (induction n arbitrary: ms c)
  case 0
  then show ?case by (auto simp: io_return_def)
next
  case (Suc n)
  let ?c = "set_stream_readable c"
  note run = io_bind_def io_modify_def io_try_def io_return_def
  have sr: "stream_readable ?c" "c_stream ?c = c_stream c" by (simp_all add: set_stream_readable_def)
  from frame_inv_readable [OF Suc.prems] assms(2) show ?case
  proof (cases rule: connection_read_frame)
    case (got m ms' c')
    from Suc.IH [OF got(3)] obtain ms1 ms2 c'' where "read_many dec n c' = (Ret (Inr ms1), c'')"
      "ms' = ms1 @ ms2" "frame_inv enc ok ms2 c''" "length ms' + blocks (c_stream c') < n \<longrightarrow> ms2 = []"
      by blast
    with got sr have "read_many dec (Suc n) c = (Ret (Inr (m # ms1)), c'')" by (simp add: run)
    moreover have "ms = (m # ms1) @ ms2" using got(2) \<open>ms' = ms1 @ ms2\<close> by simp
    moreover have "length ms + blocks (c_stream c) < Suc n \<longrightarrow> ms2 = []"
      using got(2,4) sr \<open>length ms' + blocks (c_stream c') < n \<longrightarrow> ms2 = []\<close> by simp
    ultimately show ?thesis using \<open>frame_inv enc ok ms2 c''\<close> by blast
  next
    case (idle c')
    from Suc.IH [OF idle(2)] obtain ms1 ms2 c'' where r: "read_many dec n c' = (Ret (Inr ms1), c'')"
      "ms = ms1 @ ms2" "frame_inv enc ok ms2 c''" "length ms + blocks (c_stream c') < n \<longrightarrow> ms2 = []"
      by blast
    have "ms2 = []" if "length ms + blocks (c_stream c) < Suc n"
    proof (cases "st_in (c_stream c') = []")
      case True
      with idle have "unread c' = concat (map enc ms)" "\<not> buffer_readable c'"
        by (simp_all add: frame_inv_def stream_bytes_def is_readable_def)
      with idle(2) have "ms = []" by (cases ms) (auto simp: frame_inv_def)
      with r(2) show ?thesis by simp
    next
      case False
      with idle(4) sr that r(4) show ?thesis by simp
    qed
    moreover have "read_many dec (Suc n) c = (Ret (Inr ms1), c'')" using r(1) idle(1) by (simp add: run)
    ultimately show ?thesis using r(2,3) by blast
  qed
qed

end

section \<open>Properties\<close>

lemma frame_inv_new:
  "healthy s \<Longrightarrow> list_all ok ms \<Longrightarrow> stream_bytes s = concat (map enc ms) \<Longrightarrow>
    (\<And>m. ok m \<Longrightarrow> enc m \<noteq> []) \<Longrightarrow> frame_inv enc ok ms (connection_new s)"
  by (auto simp: frame_inv_def connection_new_def buffer_ok_def unread_def)

text \<open>
  C6: framing over a non-blocking stream: whatever the chunks in which the bytes of the sent signals
  arrive and however often the stream blocks in between, reading the connection returns exactly those
  signals in order; it never fails, panics or reports a reset; and once it has been polled more often
  than there are signals and blocking points, nothing is left undelivered.
\<close>

theorem connection_delivers:
  assumes "healthy s" and "list_all wire_ok ms" and "stream_bytes s = concat (map encode ms)"
  shows "\<exists>ms1 ms2 c. read_many try_decode n (connection_new s) = (Ret (Inr ms1), c) \<and> ms = ms1 @ ms2
    \<and> (length ms + blocks s < n \<longrightarrow> ms2 = [])"
proof -
  have "frame_inv encode wire_ok ms (connection_new s)"
    by (rule frame_inv_new [OF assms(1,2,3) wire.enc_nonempty])
  from wire.read_many_frame [OF this, of n] show ?thesis
    by (auto simp: buffer_size_def connection_new_def)
qed

text \<open>The witness: a startup signal and a hello arrive in three chunks with a block in between.\<close>

definition demo_signals :: "protocol_signal list" where
  "demo_signals = [Core (Startup (GenericId 5) (Timestamp 9)), ActivityHello (GenericId 3)]"

fun split_stream :: "u8 list \<Rightarrow> stream" where
  "split_stream bs = \<lparr>st_in = [Chunk (take 1 bs), Blocked, Chunk (take 30 (drop 1 bs)), Chunk (drop 31 bs)],
    st_out = [], st_write_error = None\<rparr>"

lemma split_stream_facts:
  assumes "31 < length bs"
  shows "healthy (split_stream bs)" "stream_bytes (split_stream bs) = bs" "blocks (split_stream bs) = 1"
proof -
  from assms show "healthy (split_stream bs)" by (cases bs) (auto simp: healthy_def)
  have "take 30 (drop 1 bs) @ drop 31 bs = drop 1 bs"
    using append_take_drop_id [of 30 "drop 1 bs"] by (simp add: add.commute)
  then show "stream_bytes (split_stream bs) = bs" by (simp add: stream_bytes_def)
  show "blocks (split_stream bs) = 1" by (simp add: blocks_def)
qed

definition demo_stream :: stream where
  "demo_stream = split_stream (concat (map encode demo_signals))"

lemma demo_length: "31 < length (concat (map encode demo_signals))"
  by (simp add: demo_signals_def length_encode del: encode.simps)

lemmas demo_stream_facts = split_stream_facts [OF demo_length, folded demo_stream_def]

theorem connection_delivers_witness:
  "\<exists>c. read_many try_decode 4 (connection_new demo_stream) = (Ret (Inr demo_signals), c)"
proof -
  have "list_all wire_ok demo_signals" "length demo_signals = 2"
    by (simp_all add: demo_signals_def u64_max_def)
  with connection_delivers [OF demo_stream_facts(1) _ demo_stream_facts(2), of 4] demo_stream_facts(3)
  show ?thesis by auto
qed

end
