(* ===== verification/Feo_Sockets.thy ===== *)
theory Feo_Sockets
  imports Feo_Connection Feo_Interface
begin

text \<open>
  Socket signalling: the server and the client (\<open>common/socket/server.rs\<close>, \<open>client.rs\<close>) and the two
  connectors of the direct mode (\<open>direct/scheduler.rs\<close>, \<open>direct/worker.rs\<close>). TCP and Unix sockets
  differ in how a stream is made only, so one definition stands for both. What the operating system
  decides is a sequence in the state: the results of the polls with their tokens, and what the
  listener accepts. The accepted connections are an association list from tokens in the order in
  which the code comes across them; every statement about one call is about every order.

  The lemmas show that one \<open>receive\<close> delivers the next message of one connection and disturbs no
  other, what a connect and a broadcast have done when they succeed, and what a dead connection does
  to the others.
\<close>

section \<open>Server\<close>

type_synonym token = nat

datatype poll_result = PollFailed io_error_kind | PollEvents "token list"

definition listener_token :: token where
  "listener_token = 0"

record server =
  sv_listener :: "(io_error_kind + stream) list"
  sv_polls :: "poll_result list"
  sv_accepted :: "(token \<times> connection) list"
  sv_num_accepted :: nat

definition server_new :: "(io_error_kind + stream) list \<Rightarrow> poll_result list \<Rightarrow> server" where
  "server_new listener polls =
    \<lparr>sv_listener = listener, sv_polls = polls, sv_accepted = [], sv_num_accepted = 0\<rparr>"

text \<open>\<open>for (token, connection) in accepted.iter_mut().filter(readable)\<close>, up to the first result.\<close>

fun read_readable ::
  "(token \<times> connection) list
    \<Rightarrow> (error + (token \<times> protocol_signal) option) outcome \<times> (token \<times> connection) list" where
  "read_readable [] = (Ret (Inr None), [])"
| "read_readable ((t, c) # rest) =
    (if \<not> is_readable c then (case read_readable rest of (r, rest') \<Rightarrow> (r, (t, c) # rest'))
     else case connection_read try_decode c of
            (Ret (Inr (Some m)), c') \<Rightarrow> (Ret (Inr (Some (t, m))), (t, c') # rest)
          | (Ret (Inr None), c') \<Rightarrow> (case read_readable rest of (r, rest') \<Rightarrow> (r, (t, c') # rest'))
          | (Ret (Inl k), c') \<Rightarrow> (Ret (Inl (error_from_io k)), (t, c') # rest)
          | (Panic, c') \<Rightarrow> (Panic, (t, c') # rest)
          | (Hang, c') \<Rightarrow> (Hang, (t, c') # rest))"

definition receive_on_readable_connections :: "(server, error + (token \<times> protocol_signal) option) io" where
  "receive_on_readable_connections = io_zoom sv_accepted (\<lambda>a s. s\<lparr>sv_accepted := a\<rparr>) read_readable"

text \<open>Accepting until the listener would block; any other failure panics.\<close>

fun accept_loop :: "(io_error_kind + stream) list \<Rightarrow> server \<Rightarrow> unit outcome \<times> server" where
  "accept_loop [] s = (Ret (), s\<lparr>sv_listener := []\<rparr>)"
| "accept_loop (Inr st # rest) s =
    (let t = Suc (sv_num_accepted s)
     in accept_loop rest
          (s\<lparr>sv_num_accepted := t, sv_accepted := sv_accepted s @ [(t, connection_new st)]\<rparr>))"
| "accept_loop (Inl k # rest) s =
    (if k = WouldBlock then (Ret (), s\<lparr>sv_listener := rest\<rparr>) else (Panic, s\<lparr>sv_listener := rest\<rparr>))"

definition accept_connections :: "(server, unit) io" where
  "accept_connections s = accept_loop (sv_listener s) s"

text \<open>Polling until it is not interrupted; with no more results it times out without events.\<close>

fun poll_loop :: "poll_result list \<Rightarrow> token list outcome \<times> poll_result list" where
  "poll_loop [] = (Ret [], [])"
| "poll_loop (PollFailed k # ps) = (if k = Interrupted then poll_loop ps else (Panic, ps))"
| "poll_loop (PollEvents ts # ps) = (Ret ts, ps)"

definition server_poll :: "(server, token list) io" where
  "server_poll = io_zoom sv_polls (\<lambda>p s. s\<lparr>sv_polls := p\<rparr>) poll_loop"

definition handle_event :: "token \<Rightarrow> (server, unit) io" where
  "handle_event t =
    (if t = listener_token then accept_connections
     else io_modify (\<lambda>s. s\<lparr>sv_accepted := modify_key t set_stream_readable (sv_accepted s)\<rparr>))"

definition server_receive :: "(server, error + (token \<times> protocol_signal) option) io" where
  "server_receive =
    io_try receive_on_readable_connections (\<lambda>r.
    case r of
      Some result \<Rightarrow> io_return (Inr (Some result))
    | None \<Rightarrow>
        io_bind server_poll (\<lambda>events.
        io_bind (io_for events handle_event) (\<lambda>_.
        io_try receive_on_readable_connections (\<lambda>r2.
        io_return (Inr r2)))))"

definition server_send :: "token \<Rightarrow> protocol_signal \<Rightarrow> (server, io_error_kind + unit) io" where
  "server_send t m s =
    (case map_of (sv_accepted s) t of
       None \<Rightarrow> (Ret (Inl IoNotFound), s)
     | Some c \<Rightarrow>
         (case connection_send encode m c of
            (r, c') \<Rightarrow> (r, s\<lparr>sv_accepted := modify_key t (\<lambda>_. c') (sv_accepted s)\<rparr>)))"

section \<open>Client\<close>

record client =
  cl_polls :: "poll_result list"
  cl_connection :: connection

definition client_token :: token where
  "client_token = 0"

definition cl_io :: "(connection, 'a) io \<Rightarrow> (client, 'a) io" where
  "cl_io = io_zoom cl_connection (\<lambda>c s. s\<lparr>cl_connection := c\<rparr>)"

text \<open>
  \<open>connect\<close>: wait for the server (each attempt yields a stream or fails, and the code then sleeps
  300 milliseconds), then send the hellos; a failed send panics.
\<close>

fun connect_stream :: "(io_error_kind + stream) list \<Rightarrow> stream outcome" where
  "connect_stream [] = Hang"
| "connect_stream (Inl k # rest) = connect_stream rest"
| "connect_stream (Inr st # rest) = Ret st"

definition client_connect ::
  "protocol_signal list \<Rightarrow> (io_error_kind + stream) list \<Rightarrow> poll_result list \<Rightarrow> client outcome" where
  "client_connect hellos attempts polls =
    obind (connect_stream attempts) (\<lambda>st.
    case io_for hellos (\<lambda>m. io_bind (connection_send encode m) io_unwrap) (connection_new st) of
      (Ret _, c) \<Rightarrow> Ret \<lparr>cl_polls = polls, cl_connection = c\<rparr>
    | (Panic, c) \<Rightarrow> Panic
    | (Hang, c) \<Rightarrow> Hang)"

text \<open>The client's poll is unwrapped: an interrupted poll panics, too.\<close>

definition client_poll :: "(client, token list) io" where
  "client_poll s =
    (case cl_polls s of
       [] \<Rightarrow> (Ret [], s)
     | PollEvents ts # ps \<Rightarrow> (Ret ts, s\<lparr>cl_polls := ps\<rparr>)
     | PollFailed k # ps \<Rightarrow> (Panic, s\<lparr>cl_polls := ps\<rparr>))"

definition client_read :: "(client, error + protocol_signal option) io" where
  "client_read =
    io_bind io_get (\<lambda>s.
    if is_readable (cl_connection s)
    then io_bind (cl_io (connection_read try_decode)) (\<lambda>r.
      io_return (case r of Inl k \<Rightarrow> Inl (error_from_io k) | Inr m \<Rightarrow> Inr m))
    else io_return (Inr None))"

definition client_receive :: "(client, error + protocol_signal option) io" where
  "client_receive =
    io_try client_read (\<lambda>r.
    case r of
      Some m \<Rightarrow> io_return (Inr (Some m))
    | None \<Rightarrow>
        io_bind client_poll (\<lambda>events.
        io_bind (io_for events (\<lambda>t. io_modify (\<lambda>s.
          if t = client_token then s\<lparr>cl_connection := set_stream_readable (cl_connection s)\<rparr> else s))) (\<lambda>_.
        client_read)))"

definition client_send :: "protocol_signal \<Rightarrow> (client, error + unit) io" where
  "client_send m =
    io_bind (cl_io (connection_send encode m)) (\<lambda>r.
    io_return (case r of Inl k \<Rightarrow> Inl (EIo k ''failed to send on connection'') | Inr u \<Rightarrow> Inr u))"

section \<open>Connector of a worker\<close>

record socket_worker =
  sw_client :: "client option"
  sw_activity_ids :: "activity_id list"
  sw_attempts :: "(io_error_kind + stream) list"
  sw_polls :: "poll_result list"

definition socket_worker_new ::
  "(io_error_kind + stream) list \<Rightarrow> poll_result list \<Rightarrow> activity_id list \<Rightarrow> socket_worker" where
  "socket_worker_new attempts polls ids =
    \<lparr>sw_client = None, sw_activity_ids = ids, sw_attempts = attempts, sw_polls = polls\<rparr>"

definition sw_io :: "(client, 'a) io \<Rightarrow> (socket_worker, 'a) io" where
  "sw_io m s =
    (case sw_client s of
       None \<Rightarrow> (Panic, s)
     | Some c \<Rightarrow> (case m c of (r, c') \<Rightarrow> (r, s\<lparr>sw_client := Some c'\<rparr>)))"

definition socket_connect_worker :: "socket_worker connect_worker" where
  "socket_connect_worker =
    \<lparr>cw_connect_remote =
       io_bind io_get (\<lambda>s.
       io_bind (io_lift (client_connect (map ActivityHello (sw_activity_ids s)) (sw_attempts s) (sw_polls s))) (\<lambda>c.
       io_bind (io_modify (\<lambda>s. s\<lparr>sw_client := Some c\<rparr>)) (\<lambda>_. io_return (Inr ())))),
     cw_receive = (\<lambda>_.
       io_bind (sw_io client_receive) (\<lambda>r.
       io_return (case r of
           Inr (Some (Core sig)) \<Rightarrow> Inr (Some sig)
         | Inr (Some _) \<Rightarrow> Inl EUnexpectedProtocolSignal
         | Inr None \<Rightarrow> Inr None
         | Inl e \<Rightarrow> Inl e))),
     cw_send_to_scheduler = (\<lambda>sig. sw_io (client_send (Core sig)))\<rparr>"

section \<open>Connector of the scheduler\<close>

record 'e socket_scheduler =
  ss_server :: server
  ss_tokens :: "(activity_id \<times> token) list"
  ss_activity_agent :: "(activity_id \<times> agent_id) list"
  ss_all_activities :: "activity_id list"
  ss_connection_timeout :: duration
  ss_env :: 'e

definition socket_scheduler_new ::
  "server \<Rightarrow> activity_id list \<Rightarrow> (activity_id \<times> agent_id) list \<Rightarrow> duration \<Rightarrow> 'e \<Rightarrow> 'e socket_scheduler" where
  "socket_scheduler_new server ids agents timeout env =
    \<lparr>ss_server = server, ss_tokens = [], ss_activity_agent = agents, ss_all_activities = ids,
     ss_connection_timeout = timeout, ss_env = env\<rparr>"

definition ss_io :: "(server, 'a) io \<Rightarrow> ('e socket_scheduler, 'a) io" where
  "ss_io = io_zoom ss_server (\<lambda>x s. s\<lparr>ss_server := x\<rparr>)"

text \<open>The loop of \<open>connect_remotes\<close>; a failed receive is ignored.\<close>

fun connect_loop ::
  "nat \<Rightarrow> 'e socket_scheduler platform \<Rightarrow> instant \<Rightarrow> activity_id list \<Rightarrow> ('e socket_scheduler, error + unit) io"
where
  "connect_loop 0 pf start missing = (if missing = [] then io_return (Inr ()) else io_hang)"
| "connect_loop (Suc n) pf start missing =
    (if missing = [] then io_return (Inr ())
     else io_bind (pf_elapsed pf start) (\<lambda>elapsed.
       io_bind (io_gets ss_connection_timeout) (\<lambda>timeout.
       if timeout \<le> elapsed then io_return (Inl (EIo TimedOut ''CONNECTION_TIMEOUT''))
       else io_bind (ss_io server_receive) (\<lambda>r.
         case r of
           Inr (Some (t, ActivityHello i)) \<Rightarrow>
             io_bind (io_modify (\<lambda>s. s\<lparr>ss_tokens := AList.update i t (ss_tokens s)\<rparr>)) (\<lambda>_.
             connect_loop n pf start (removeAll i missing))
         | _ \<Rightarrow> connect_loop n pf start missing))))"

definition send_failed :: "io_error_kind + unit \<Rightarrow> error + unit" where
  "send_failed r = (case r of Inl k \<Rightarrow> Inl (EIo k ''failed to send'') | Inr u \<Rightarrow> Inr u)"

definition socket_connect_scheduler ::
  "nat \<Rightarrow> 'e socket_scheduler platform \<Rightarrow> 'e socket_scheduler connect_scheduler" where
  "socket_connect_scheduler n pf =
    \<lparr>cs_connect_remotes =
       io_bind (io_gets ss_all_activities) (\<lambda>ids.
       io_bind (pf_now pf) (\<lambda>start.
       connect_loop n pf start (remdups ids))),
     cs_sync_time =
       io_bind (pf_sync_info pf) (\<lambda>sync.
       io_bind (io_gets (\<lambda>s. map snd (ss_tokens s))) (\<lambda>tokens.
       io_try_for tokens (\<lambda>t.
         io_bind (ss_io (server_send t (Core (StartupSync sync)))) (\<lambda>r. io_return (send_failed r))))),
     cs_connected_agents = (\<lambda>s.
       remdups (List.map_filter (\<lambda>(i, _). map_of (ss_activity_agent s) i) (ss_tokens s))),
     cs_receive = (\<lambda>_.
       io_bind (ss_io server_receive) (\<lambda>r.
       io_return (case r of
           Inr (Some (t, Core sig)) \<Rightarrow> Inr (Some sig)
         | Inr (Some (t, other)) \<Rightarrow> Inr None
         | Inr None \<Rightarrow> Inr None
         | Inl e \<Rightarrow> Inl e))),
     cs_send_to_activity = (\<lambda>i sig.
       io_bind (io_gets ss_tokens) (\<lambda>tokens.
       io_bind (io_expect (map_of tokens i)) (\<lambda>t.
       io_bind (ss_io (server_send t (Core sig))) (\<lambda>r. io_return (send_failed r))))),
     cs_broadcast_terminate = (\<lambda>sig.
       io_bind (io_gets (\<lambda>s. remdups (map snd (ss_tokens s)))) (\<lambda>tokens.
       io_try_for tokens (\<lambda>t.
         io_bind (ss_io (server_send t (Core sig))) (\<lambda>r.
         io_return (case r of Inl k \<Rightarrow> Inl (error_from_io k) | Inr u \<Rightarrow> Inr u)))))\<rparr>"

section \<open>One receive of the server\<close>

text \<open>
  Every connection has its own sequence of messages still to deliver, the ones not yet accepted, too:
  the listener hands them out under the next tokens.
\<close>

fun listener_ok :: "(token \<Rightarrow> protocol_signal list) \<Rightarrow> nat \<Rightarrow> (io_error_kind + stream) list \<Rightarrow> bool" where
  "listener_ok ms n [] \<longleftrightarrow> True"
| "listener_ok ms n (Inl k # l) \<longleftrightarrow> k = WouldBlock \<and> listener_ok ms n l"
| "listener_ok ms n (Inr st # l) \<longleftrightarrow> healthy st \<and> list_all wire_ok (ms (Suc n))
    \<and> stream_bytes st = concat (map encode (ms (Suc n))) \<and> listener_ok ms (Suc n) l"

definition poll_ok :: "poll_result \<Rightarrow> bool" where
  "poll_ok p = (case p of PollFailed k \<Rightarrow> k = Interrupted | PollEvents ts \<Rightarrow> True)"

definition server_inv :: "(token \<Rightarrow> protocol_signal list) \<Rightarrow> server \<Rightarrow> bool" where
  "server_inv ms s \<longleftrightarrow> distinct (map fst (sv_accepted s))
    \<and> (\<forall>(t, c) \<in> set (sv_accepted s). t \<le> sv_num_accepted s \<and> frame_inv encode wire_ok (ms t) c)
    \<and> listener_ok ms (sv_num_accepted s) (sv_listener s) \<and> list_all poll_ok (sv_polls s)"

text \<open>What one receive has delivered.\<close>

definition delivered ::
  "(token \<Rightarrow> protocol_signal list) \<Rightarrow> (error + (token \<times> protocol_signal) option) \<Rightarrow> server \<Rightarrow> bool" where
  "delivered ms r s =
    (case r of
       Inl e \<Rightarrow> False
     | Inr None \<Rightarrow> server_inv ms s
     | Inr (Some (t, m)) \<Rightarrow> (\<exists>rest. ms t = m # rest \<and> server_inv (ms(t := rest)) s))"

lemma small_messages: "26 \<le> buffer_size div 2"
  by (simp add: buffer_size_def)

text \<open>
  Reading the readable connections: either one of them delivers its next message, or none has one; the
  messages of all others stay as they are.
\<close>

lemma read_readable_inv:
  assumes "distinct (map fst cs)" "\<forall>(t, c) \<in> set cs. frame_inv encode wire_ok (ms t) c"
  shows "\<exists>r cs'. read_readable cs = (Ret (Inr r), cs') \<and> map fst cs' = map fst cs
    \<and> (case r of
         None \<Rightarrow> \<forall>(t, c) \<in> set cs'. frame_inv encode wire_ok (ms t) c
       | Some (t, m) \<Rightarrow> t \<in> fst ` set cs \<and> (\<exists>rest. ms t = m # rest
           \<and> (\<forall>(t', c) \<in> set cs'. frame_inv encode wire_ok ((ms(t := rest)) t') c)))"
  using assms
proof (induction cs)
  case Nil
  then show ?case by simp
next
  case (Cons x cs)
  obtain t c where x: "x = (t, c)" by fastforce
  have inv: "frame_inv encode wire_ok (ms t) c" using Cons.prems(2) x by simp
  have t: "t \<notin> fst ` set cs" using Cons.prems(1) x by simp
  have upd: "(ms(t := u)) t' = ms t'" if "(t', c') \<in> set cs" for u t' c'
    using that t by force
  let ?P = "\<lambda>r cs'. case r of
         None \<Rightarrow> \<forall>(t, c) \<in> set cs'. frame_inv encode wire_ok (ms t) c
       | Some (t, m) \<Rightarrow> t \<in> fst ` set (x # cs) \<and> (\<exists>rest. ms t = m # rest
           \<and> (\<forall>(t', c) \<in> set cs'. frame_inv encode wire_ok ((ms(t := rest)) t') c))"
  from Cons obtain r cs' where IH: "read_readable cs = (Ret (Inr r), cs')" "map fst cs' = map fst cs"
    "case r of
         None \<Rightarrow> \<forall>(t, c) \<in> set cs'. frame_inv encode wire_ok (ms t) c
       | Some (t, m) \<Rightarrow> t \<in> fst ` set cs \<and> (\<exists>rest. ms t = m # rest
           \<and> (\<forall>(t', c) \<in> set cs'. frame_inv encode wire_ok ((ms(t := rest)) t') c))"
    by auto
  have skip: "?P r ((t, c') # cs')" if "frame_inv encode wire_ok (ms t) c'" for c'
    using IH(3) that t by (auto split: option.splits)
  show ?case
  proof (cases "is_readable c")
    case False
    with IH skip [OF inv] x show ?thesis by (intro exI [of _ r] exI [of _ "(t, c) # cs'"]) simp
  next
    case True
    from inv small_messages show ?thesis
    proof (cases rule: wire.connection_read_frame)
      case (got m rest c')
      have "\<forall>(t', c) \<in> set ((t, c') # cs). frame_inv encode wire_ok ((ms(t := rest)) t') c"
        using got(3) Cons.prems(2) x upd by auto
      with True got x show ?thesis
        by (intro exI [of _ "Some (t, m)"] exI [of _ "(t, c') # cs"]) simp
    next
      case (idle c')
      with True IH skip [OF idle(2)] x show ?thesis
        by (intro exI [of _ r] exI [of _ "(t, c') # cs'"]) simp
    qed
  qed
qed

lemma delivered_None [simp]: "delivered ms (Inr None) = server_inv ms"
  by (rule ext) (simp add: delivered_def)

lemma listener_ok_upd: "t \<le> n \<Longrightarrow> listener_ok (ms(t := u)) n l = listener_ok ms n l"
  by (induction ms n l rule: listener_ok.induct) auto

lemma receive_on_readable_inv:
  "hoare (server_inv ms) receive_on_readable_connections (delivered ms) (\<lambda>_. False)"
proof (rule hoareI)
  fix s :: server
  assume inv: "server_inv ms s"
  then have "distinct (map fst (sv_accepted s))"
    "\<forall>(t, c) \<in> set (sv_accepted s). frame_inv encode wire_ok (ms t) c"
    by (auto simp: server_inv_def)
  from read_readable_inv [OF this] obtain r cs' where
    r: "read_readable (sv_accepted s) = (Ret (Inr r), cs')" "map fst cs' = map fst (sv_accepted s)"
    and post: "case r of
         None \<Rightarrow> \<forall>(t, c) \<in> set cs'. frame_inv encode wire_ok (ms t) c
       | Some (t, m) \<Rightarrow> t \<in> fst ` set (sv_accepted s) \<and> (\<exists>rest. ms t = m # rest
           \<and> (\<forall>(t', c) \<in> set cs'. frame_inv encode wire_ok ((ms(t := rest)) t') c))"
    by blast
  have keys: "t \<le> sv_num_accepted s" if "t \<in> fst ` set (sv_accepted s)" for t
    using that inv by (auto simp: server_inv_def)
  have keys': "t \<le> sv_num_accepted s" if "(t, c) \<in> set cs'" for t c
    using that keys [of t] r(2) by (metis fst_conv image_eqI list.set_map)
  have "delivered ms (Inr r) (s\<lparr>sv_accepted := cs'\<rparr>)"
  proof (cases r)
    case None
    with inv r(2) post keys' show ?thesis by (auto simp: delivered_def server_inv_def)
  next
    case (Some p)
    obtain t m where p: "p = (t, m)" by fastforce
    with Some post obtain rest where rest: "ms t = m # rest" "t \<in> fst ` set (sv_accepted s)"
      "\<forall>(t', c) \<in> set cs'. frame_inv encode wire_ok ((ms(t := rest)) t') c" by auto
    from inv have "listener_ok (ms(t := rest)) (sv_num_accepted s) (sv_listener s)"
      using keys [OF rest(2)] by (simp add: server_inv_def listener_ok_upd)
    with inv r(2) rest keys' have "server_inv (ms(t := rest)) (s\<lparr>sv_accepted := cs'\<rparr>)"
      by (fastforce simp: server_inv_def)
    with Some p rest(1) show ?thesis by (simp add: delivered_def)
  qed
  with r show "case receive_on_readable_connections s of (Ret a, s') \<Rightarrow> delivered ms a s'
      | (Panic, s') \<Rightarrow> False | (Hang, s') \<Rightarrow> False"
    by (simp add: receive_on_readable_connections_def io_zoom_def)
qed

lemma accept_loop_inv:
  "server_inv ms (s\<lparr>sv_listener := l\<rparr>) \<Longrightarrow> \<exists>s'. accept_loop l s = (Ret (), s') \<and> server_inv ms s'"
proof (induction l s rule: accept_loop.induct)
  case (1 s)
  then show ?case by simp
next
  case (2 st rest s)
  let ?t = "Suc (sv_num_accepted s)"
  let ?s = "s\<lparr>sv_num_accepted := ?t, sv_accepted := sv_accepted s @ [(?t, connection_new st)]\<rparr>"
  from "2.prems" have "frame_inv encode wire_ok (ms ?t) (connection_new st)"
    by (intro frame_inv_new wire.enc_nonempty) (simp_all add: server_inv_def)
  moreover have "?t \<notin> fst ` set (sv_accepted s)" using "2.prems" by (auto simp: server_inv_def)
  ultimately have "server_inv ms (?s\<lparr>sv_listener := rest\<rparr>)"
    using "2.prems" by (auto simp: server_inv_def)
  from "2.IH" [OF refl this] show ?case by (simp add: Let_def)
next
  case (3 k rest s)
  then show ?case by (auto simp: server_inv_def)
qed

lemma poll_loop_ok: "list_all poll_ok ps \<Longrightarrow> \<exists>ts ps'. poll_loop ps = (Ret ts, ps') \<and> list_all poll_ok ps'"
  by (induction ps rule: poll_loop.induct) (auto simp: poll_ok_def)

lemma server_poll_inv: "hoare (server_inv ms) server_poll (\<lambda>_. server_inv ms) (\<lambda>_. False)"
proof (rule hoareI)
  fix s :: server
  assume "server_inv ms s"
  moreover from this poll_loop_ok [of "sv_polls s"] obtain ts ps' where
    "poll_loop (sv_polls s) = (Ret ts, ps')" "list_all poll_ok ps'" by (auto simp: server_inv_def)
  ultimately show "case server_poll s of (Ret a, s') \<Rightarrow> server_inv ms s' | (Panic, s') \<Rightarrow> False
      | (Hang, s') \<Rightarrow> False"
    by (simp add: server_poll_def io_zoom_def server_inv_def)
qed

lemma handle_event_inv: "hoare (server_inv ms) (handle_event t) (\<lambda>_. server_inv ms) (\<lambda>_. False)"
proof (rule hoareI)
  fix s :: server
  assume inv: "server_inv ms s"
  show "case handle_event t s of (Ret a, s') \<Rightarrow> server_inv ms s' | (Panic, s') \<Rightarrow> False
      | (Hang, s') \<Rightarrow> False"
  proof (cases "t = listener_token")
    case True
    with accept_loop_inv [where ms = ms and s = s and l = "sv_listener s"] inv show ?thesis
      by (auto simp: handle_event_def accept_connections_def)
  next
    case False
    from inv have "server_inv ms (s\<lparr>sv_accepted := modify_key t set_stream_readable (sv_accepted s)\<rparr>)"
      by (fastforce simp: server_inv_def set_modify_key intro: frame_inv_readable)
    with False show ?thesis by (simp add: handle_event_def io_modify_def)
  qed
qed

lemma receive_on_readable_try:
  "hoare (server_inv ms) receive_on_readable_connections
     (\<lambda>r s. case r of Inl e \<Rightarrow> delivered ms (Inl e) s | Inr a \<Rightarrow> delivered ms (Inr a) s) (\<lambda>_. False)"
  by (rule hoare_post [OF receive_on_readable_inv]) (auto split: sum.split)

lemma server_receive_inv: "hoare (server_inv ms) server_receive (delivered ms) (\<lambda>_. False)"
  unfolding server_receive_def
proof (rule hoare_try [OF receive_on_readable_try])
  fix r :: "(token \<times> protocol_signal) option"
  show "hoare (delivered ms (Inr r))
      (case r of Some result \<Rightarrow> io_return (Inr (Some result))
       | None \<Rightarrow> io_bind server_poll (\<lambda>events. io_bind (io_for events handle_event) (\<lambda>_.
           io_try receive_on_readable_connections (\<lambda>r2. io_return (Inr r2)))))
      (delivered ms) (\<lambda>_. False)"
  proof (cases r)
    case None
    have "hoare (server_inv ms) (io_try receive_on_readable_connections (\<lambda>r2. io_return (Inr r2)))
        (delivered ms) (\<lambda>_. False)"
      by (rule hoare_try [OF receive_on_readable_try]) (rule hoare_return)
    then have "hoare (server_inv ms) (io_bind server_poll (\<lambda>events. io_bind (io_for events handle_event)
        (\<lambda>_. io_try receive_on_readable_connections (\<lambda>r2. io_return (Inr r2))))) (delivered ms) (\<lambda>_. False)"
      by (intro hoare_bind [OF server_poll_inv] hoare_bind [OF hoare_for [OF handle_event_inv]])
    with None show ?thesis by (auto intro: hoare_pre simp: delivered_def)
  next
    case (Some p)
    then show ?thesis by (simp add: hoare_return)
  qed
qed

text \<open>Calling \<open>receive\<close> \<open>n\<close> times and collecting what it delivers.\<close>

fun server_receive_many :: "nat \<Rightarrow> (server, error + (token \<times> protocol_signal) list) io" where
  "server_receive_many 0 = io_return (Inr [])"
| "server_receive_many (Suc n) =
    io_try server_receive (\<lambda>r.
    io_try (server_receive_many n) (\<lambda>rs.
    io_return (Inr (case r of None \<Rightarrow> rs | Some p \<Rightarrow> p # rs))))"

definition messages_of :: "token \<Rightarrow> (token \<times> protocol_signal) list \<Rightarrow> protocol_signal list" where
  "messages_of t rs = map snd (filter (\<lambda>p. fst p = t) rs)"

definition received ::
  "(token \<Rightarrow> protocol_signal list) \<Rightarrow> error + (token \<times> protocol_signal) list \<Rightarrow> server \<Rightarrow> bool" where
  "received ms r s \<longleftrightarrow> (\<exists>rs ms'. r = Inr rs \<and> server_inv ms' s \<and> (\<forall>t. ms t = messages_of t rs @ ms' t))"

lemma server_receive_many_inv: "hoare (server_inv ms) (server_receive_many n) (received ms) (\<lambda>_. False)"
proof (induction n arbitrary: ms)
  case 0
  have "received ms (Inr []) s" if "server_inv ms s" for s
    using that by (auto simp: received_def messages_of_def)
  then show ?case by (simp add: hoare_return)
next
  case (Suc n)
  have got: "hoare (server_inv ms') (io_try (server_receive_many n)
      (\<lambda>rs. io_return (Inr (case r of None \<Rightarrow> rs | Some p \<Rightarrow> p # rs)))) (received ms) (\<lambda>_. False)"
    if "\<forall>t. ms t = messages_of t (case r of None \<Rightarrow> [] | Some p \<Rightarrow> [p]) @ ms' t" for r ms'
  proof (rule hoare_try)
    show "hoare (server_inv ms') (server_receive_many n)
        (\<lambda>q s. case q of Inl e \<Rightarrow> received ms (Inl e) s | Inr rs \<Rightarrow> received ms' (Inr rs) s) (\<lambda>_. False)"
      by (rule hoare_post [OF Suc.IH]) (auto simp: received_def split: sum.split)
    show "hoare (received ms' (Inr rs)) (io_return (Inr (case r of None \<Rightarrow> rs | Some p \<Rightarrow> p # rs)))
        (received ms) (\<lambda>_. False)" for rs
      using that by (intro hoare_return) (cases r, auto simp: received_def messages_of_def)
  qed
  show ?case unfolding server_receive_many.simps
  proof (rule hoare_try)
    show "hoare (server_inv ms) server_receive
        (\<lambda>q s. case q of Inl e \<Rightarrow> received ms (Inl e) s | Inr r \<Rightarrow> delivered ms (Inr r) s) (\<lambda>_. False)"
      by (rule hoare_post [OF server_receive_inv]) (auto simp: delivered_def split: sum.split)
    show "hoare (delivered ms (Inr r)) (io_try (server_receive_many n)
        (\<lambda>rs. io_return (Inr (case r of None \<Rightarrow> rs | Some p \<Rightarrow> p # rs)))) (received ms) (\<lambda>_. False)" for r
    proof (cases r)
      case None
      then show ?thesis using got [of None ms] by (simp add: messages_of_def)
    next
      case (Some p)
      obtain t m where p: "p = (t, m)" by fastforce
      have "delivered ms (Inr r) = (\<lambda>s. \<exists>rest. ms t = m # rest \<and> server_inv (ms(t := rest)) s)"
        using Some p by (auto simp: delivered_def)
      moreover have "hoare (\<lambda>s. ms t = m # rest \<and> server_inv (ms(t := rest)) s) (io_try (server_receive_many n)
          (\<lambda>rs. io_return (Inr (case r of None \<Rightarrow> rs | Some p \<Rightarrow> p # rs)))) (received ms) (\<lambda>_. False)" for rest
        by (rule hoare_assume, rule got) (use Some p in \<open>auto simp: messages_of_def\<close>)
      ultimately show ?thesis by (simp add: hoare_exists)
    qed
  qed
qed

section \<open>Properties of the server\<close>

text \<open>
  C15: the server multiplexes its connections without loss: when every stream, of the connections it
  has accepted and of those it will accept, carries encoded signals, then any number of receives
  succeeds, and whatever the iteration order, the chunks and the poll events, the signals it returns
  with a token are the next signals of that connection, in order, and the rest is still to come.
\<close>

theorem server_receives_in_order:
  assumes "server_inv ms s"
  shows "\<exists>rs ms' s'. server_receive_many n s = (Ret (Inr rs), s') \<and> server_inv ms' s'
    \<and> (\<forall>t. ms t = messages_of t rs @ ms' t)"
proof (cases "server_receive_many n s")
  case (Pair r s')
  with assms server_receive_many_inv [of ms n] show ?thesis
    by (cases r) (auto simp: hoare_def received_def)
qed

definition two_messages :: "token \<Rightarrow> protocol_signal list" where
  "two_messages t = (if t = 1 then demo_signals else [])"

theorem server_receives_in_order_witness:
  "\<exists>rs ms' s'. server_receive_many 5 (server_new [Inr demo_stream, Inl WouldBlock] [PollEvents [0]])
      = (Ret (Inr rs), s') \<and> server_inv ms' s' \<and> (\<forall>t. two_messages t = messages_of t rs @ ms' t)"
proof (rule server_receives_in_order)
  have "list_all wire_ok demo_signals" by (simp add: demo_signals_def u64_max_def)
  with demo_stream_facts
  show "server_inv two_messages (server_new [Inr demo_stream, Inl WouldBlock] [PollEvents [0]])"
    by (simp add: server_inv_def server_new_def two_messages_def poll_ok_def)
qed

text \<open>
  C39: a connection whose peer has closed it is never removed: when it is the first readable one in
  the iteration order, each \<open>receive\<close> returns the reset of that connection and leaves the server in
  the very state it was in, so that no later connection is read, the poll is not reached and no
  connection is accepted any more, however often \<open>receive\<close> is called.
\<close>

theorem closed_connection_starves:
  assumes "sv_accepted s = before @ (t, c) # after" and "\<forall>(t', c') \<in> set before. \<not> is_readable c'"
    and "stream_readable c" and "\<not> buffer_readable c" and "recv_end c < length (recv_buffer c)"
    and "st_in (c_stream c) = [Chunk []]"
  shows "server_receive s = (Ret (Inl (error_from_io ConnectionReset)), s)"
proof -
  have "read_from_stream c = (Ret (Inl ConnectionReset), c)"
    using assms(5,6) by (subst read_from_stream.simps) (simp add: stream_read_def)
  with assms(3,4) have read: "connection_read try_decode c = (Ret (Inl ConnectionReset), c)"
    by (simp add: connection_read_def io_defs)
  have "read_readable (before @ (t, c) # after)
      = (Ret (Inl (error_from_io ConnectionReset)), before @ (t, c) # after)"
    using assms(2)
  proof (induction before)
    case Nil
    with read assms(3) show ?case by (simp add: is_readable_def)
  qed auto
  then show ?thesis
    by (simp add: server_receive_def receive_on_readable_connections_def io_defs assms(1) [symmetric])
qed

definition closed_connection :: connection where
  "closed_connection = set_stream_readable (connection_new
    \<lparr>st_in = [Chunk []], st_out = [], st_write_error = None\<rparr>)"

theorem closed_connection_starves_witness:
  "let s = \<lparr>sv_listener = [Inr demo_stream], sv_polls = [PollEvents [0]],
      sv_accepted = [(2, closed_connection), (1, set_stream_readable (connection_new demo_stream))],
      sv_num_accepted = 2\<rparr>
   in server_receive s = (Ret (Inl (error_from_io ConnectionReset)), s)"
  unfolding Let_def
  by (rule closed_connection_starves [where before = "[]" and t = 2 and c = closed_connection])
    (simp_all add: closed_connection_def set_stream_readable_def connection_new_def buffer_size_def)

section \<open>Properties of the connectors\<close>

text \<open>What each connection of the server has been sent.\<close>

definition out_of :: "server \<Rightarrow> token \<Rightarrow> u8 list option" where
  "out_of s t = map_option (\<lambda>c. st_out (c_stream c)) (map_of (sv_accepted s) t)"

definition appended :: "u8 list \<Rightarrow> u8 list option \<Rightarrow> u8 list option" where
  "appended bs = map_option (\<lambda>out. out @ bs)"

lemma appended_twice [simp]: "appended [] x = x" "appended bs (appended as x) = appended (as @ bs) x"
  by (simp_all add: appended_def option.map_comp o_def option.map_ident)

lemma connection_send_out:
  "connection_send enc m c = (Ret (Inr u), c') \<Longrightarrow> st_out (c_stream c') = st_out (c_stream c) @ enc m"
  by (auto simp: connection_send_def stream_write_all_def Let_def split: if_splits option.splits)

lemma server_send_out:
  assumes "server_send t m s = (Ret (Inr u), s')"
  shows "out_of s' = (out_of s)(t := appended (encode m) (out_of s t))"
proof (cases "map_of (sv_accepted s) t")
  case None
  with assms show ?thesis by (simp add: server_send_def)
next
  case (Some c)
  obtain r c' where r: "connection_send encode m c = (r, c')" by fastforce
  with assms Some have s': "s' = s\<lparr>sv_accepted := modify_key t (\<lambda>_. c') (sv_accepted s)\<rparr>"
    and "connection_send encode m c = (Ret (Inr u), c')"
    by (simp_all add: server_send_def del: map_of_modify_key)
  from connection_send_out [OF this(2)] Some show ?thesis
    by (auto simp: s' out_of_def appended_def fun_eq_iff)
qed

lemma send_each_out:
  assumes "io_try_for ts F s = (Ret (Inr u), s')"
    and F: "F = (\<lambda>t. io_bind (ss_io (server_send t m)) (\<lambda>r. io_return (f r)))"
    and "\<And>r v. f r = Inr v \<Longrightarrow> r = Inr ()"
  shows "out_of (ss_server s') t
      = appended (concat (replicate (count_list ts t) (encode m))) (out_of (ss_server s) t)
    \<and> ss_tokens s' = ss_tokens s"
  using assms(1)
proof (induction ts arbitrary: s)
  case Nil
  then show ?case by (simp add: io_return_def)
next
  case (Cons x ts)
  obtain r sv where send: "server_send x m (ss_server s) = (r, sv)" by fastforce
  from send have "F x s = ((case r of Ret q \<Rightarrow> Ret (f q) | Panic \<Rightarrow> Panic | Hang \<Rightarrow> Hang), s\<lparr>ss_server := sv\<rparr>)"
    by (simp add: F io_defs ss_io_def split: outcome.split)
  with Cons.prems have "r = Ret (Inr ())"
    and rest: "io_try_for ts F (s\<lparr>ss_server := sv\<rparr>) = (Ret (Inr u), s')"
    by (auto simp: io_try_def io_bind_def io_return_def
        split: outcome.splits sum.splits dest: assms(3))
  with send have "out_of sv = (out_of (ss_server s))(x := appended (encode m) (out_of (ss_server s) x))"
    by (auto intro: server_send_out)
  with Cons.IH [OF rest] show ?case by simp
qed


definition demo_connected :: "unit socket_scheduler" where
  "demo_connected =
    \<lparr>ss_server = \<lparr>sv_listener = [], sv_polls = [],
       sv_accepted = [(1, connection_new demo_stream), (2, connection_new demo_stream)], sv_num_accepted = 2\<rparr>,
     ss_tokens = [(GenericId 1, 1), (GenericId 2, 1)], ss_activity_agent = [],
     ss_all_activities = [GenericId 1, GenericId 2], ss_connection_timeout = 0, ss_env = ()\<rparr>"

lemma demo_broadcast:
  "\<exists>s'. cs_broadcast_terminate (socket_connect_scheduler 0 pf) (Terminate (Timestamp 5)) demo_connected
    = (Ret (Inr ()), s')"
  by (simp add: socket_connect_scheduler_def demo_connected_def io_defs ss_io_def server_send_def
      connection_send_def connection_new_def buffer_size_def length_encode stream_write_all_def
      demo_stream_def Let_def del: encode.simps)


text \<open>
  A clock that advances with every reading, which is all that \<open>connect_remotes\<close> needs to end: the
  readings are those of \<open>Instant::now()\<close> at nanosecond resolution.
\<close>

definition clock_advances :: "('e \<Rightarrow> int) \<Rightarrow> 'e socket_scheduler platform \<Rightarrow> bool" where
  "clock_advances clk pf \<longleftrightarrow> (\<forall>s. \<exists>e. pf_now pf s = (Ret (clk e), s\<lparr>ss_env := e\<rparr>) \<and> clk (ss_env s) < clk e)"

text \<open>What a connect has found out: the tokens come from hellos, and \<open>missing\<close> is what has no token.\<close>

definition connected_ok ::
  "(token \<Rightarrow> protocol_signal list) \<Rightarrow> activity_id list \<Rightarrow> duration \<Rightarrow> activity_id list
    \<Rightarrow> 'e socket_scheduler \<Rightarrow> bool" where
  "connected_ok ms ids timeout missing s \<longleftrightarrow> ss_all_activities s = ids \<and> ss_connection_timeout s = timeout
    \<and> set missing = set ids - dom (map_of (ss_tokens s))
    \<and> (\<forall>i t. map_of (ss_tokens s) i = Some t \<longrightarrow> ActivityHello i \<in> set (ms t))
    \<and> (\<exists>ms'. server_inv ms' (ss_server s) \<and> (\<forall>t. set (ms' t) \<subseteq> set (ms t)))"

definition connect_result ::
  "(token \<Rightarrow> protocol_signal list) \<Rightarrow> activity_id list \<Rightarrow> duration \<Rightarrow> error + unit
    \<Rightarrow> 'e socket_scheduler \<Rightarrow> bool" where
  "connect_result ms ids timeout r s \<longleftrightarrow> (\<exists>missing. connected_ok ms ids timeout missing s
    \<and> (case r of Inr u \<Rightarrow> missing = []
       | Inl e \<Rightarrow> missing \<noteq> [] \<and> e = EIo TimedOut ''CONNECTION_TIMEOUT''))"

lemma connected_hello:
  assumes "connected_ok ms ids timeout missing s" "ActivityHello i \<in> set (ms t)"
  shows "connected_ok ms ids timeout (removeAll i missing) (s\<lparr>ss_tokens := AList.update i t (ss_tokens s)\<rparr>)"
  using assms by (auto simp: connected_ok_def update_conv')

lemma server_receive_connected:
  assumes "connected_ok ms ids timeout missing s"
  shows "\<exists>r sv. server_receive (ss_server s) = (Ret (Inr r), sv)
    \<and> connected_ok ms ids timeout missing (s\<lparr>ss_server := sv\<rparr>)
    \<and> (\<forall>t m. r = Some (t, m) \<longrightarrow> m \<in> set (ms t))"
proof -
  from assms obtain ms' where ms': "server_inv ms' (ss_server s)" "\<forall>t. set (ms' t) \<subseteq> set (ms t)"
    by (auto simp: connected_ok_def)
  obtain q sv where rec: "server_receive (ss_server s) = (q, sv)" by fastforce
  with server_receive_inv [of ms'] ms'(1) obtain r where r: "q = Ret (Inr r)" "delivered ms' (Inr r) sv"
    by (cases q) (auto simp: hoare_def delivered_def split: sum.splits)
  have "\<exists>ms''. server_inv ms'' sv \<and> (\<forall>t. set (ms'' t) \<subseteq> set (ms t))"
  proof (cases r)
    case None
    with r ms' show ?thesis by auto
  next
    case (Some p)
    obtain t m where "p = (t, m)" by fastforce
    with Some r obtain rest where "ms' t = m # rest" "server_inv (ms'(t := rest)) sv"
      by (auto simp: delivered_def)
    with ms'(2) show ?thesis by (intro exI [of _ "ms'(t := rest)"]) (auto, (metis list.set_intros(2) subsetD))
  qed
  with assms have "connected_ok ms ids timeout missing (s\<lparr>ss_server := sv\<rparr>)" by (simp add: connected_ok_def)
  moreover have "m \<in> set (ms t)" if "r = Some (t, m)" for t m
    using that r ms'(2) by (auto simp: delivered_def) (metis list.set_intros(1) subsetD)
  ultimately show ?thesis using rec r(1) by blast
qed

lemma connect_loop_returns:
  assumes "clock_advances clk pf" "connected_ok ms ids timeout missing s"
    "nat (int timeout - (clk (ss_env s) - start)) < n" "start \<le> clk (ss_env s)"
  shows "\<exists>r s'. connect_loop n pf start missing s = (Ret r, s') \<and> connect_result ms ids timeout r s'"
  using assms(2-)
proof (induction n arbitrary: missing s)
  case 0
  then show ?case by simp
next
  case (Suc n)
  from assms(1) obtain e where now: "pf_now pf s = (Ret (clk e), s\<lparr>ss_env := e\<rparr>)" "clk (ss_env s) < clk e"
    unfolding clock_advances_def by blast
  define s1 where "s1 = s\<lparr>ss_env := e\<rparr>"
  have s1: "connected_ok ms ids timeout missing s1" using Suc.prems(1) by (simp add: s1_def connected_ok_def)
  have timeout: "ss_connection_timeout s = timeout" using Suc.prems(1) by (simp add: connected_ok_def)
  show ?case
  proof (cases "missing = []")
    case True
    with Suc.prems(1) show ?thesis by (auto simp: io_return_def connect_result_def)
  next
    case missing: False
    show ?thesis
    proof (cases "timeout \<le> instant_diff (clk e) start")
      case True
      with missing now timeout s1 show ?thesis
        by (auto simp: io_defs pf_elapsed_def connect_result_def s1_def)
    next
      case False
      with Suc.prems(2,3) now(2) have fuel: "nat (int timeout - (clk e - start)) < n" "start \<le> clk e"
        by (auto simp: instant_diff_def duration_since_def checked_duration_since_def split: if_splits)
      from server_receive_connected [OF s1] obtain r sv where
        rec: "server_receive (ss_server s1) = (Ret (Inr r), sv)"
        and s2: "connected_ok ms ids timeout missing (s1\<lparr>ss_server := sv\<rparr>)"
        and from_stream: "\<forall>t m. r = Some (t, m) \<longrightarrow> m \<in> set (ms t)" by blast
      let ?s2 = "s1\<lparr>ss_server := sv\<rparr>"
      have env: "ss_env (s1\<lparr>ss_server := sv\<rparr>) = e" by (simp add: s1_def)
      have step: "connect_loop (Suc n) pf start missing s =
        (case r of Some (t, ActivityHello i) \<Rightarrow> connect_loop n pf start (removeAll i missing)
            (?s2\<lparr>ss_tokens := AList.update i t (ss_tokens ?s2)\<rparr>)
         | _ \<Rightarrow> connect_loop n pf start missing ?s2)"
        using missing now(1) timeout False rec
        by (simp add: io_defs pf_elapsed_def ss_io_def s1_def split: option.split protocol_signal.split)
      show ?thesis
      proof (cases "\<exists>t i. r = Some (t, ActivityHello i)")
        case True
        then obtain t i where r: "r = Some (t, ActivityHello i)" by blast
        with from_stream have "ActivityHello i \<in> set (ms t)" by blast
        from Suc.IH [OF connected_hello [OF s2 this]] fuel env r show ?thesis unfolding step by simp
      next
        case False
        from Suc.IH [OF s2] fuel env have "\<exists>q s'. connect_loop n pf start missing ?s2 = (Ret q, s')
          \<and> connect_result ms ids timeout q s'" by simp
        with False show ?thesis unfolding step by (auto split: option.split protocol_signal.split)
      qed
    qed
  qed
qed


text \<open>The witness: the demonstration stream announces activity 3; the clock steps by a nanosecond.\<close>

definition demo_platform :: "int socket_scheduler platform" where
  "demo_platform =
    \<lparr>pf_now = (\<lambda>s. (Ret (ss_env s + 1), s\<lparr>ss_env := ss_env s + 1\<rparr>)), pf_timestamp = io_hang,
     pf_sleep = (\<lambda>d. io_return ()), pf_shutdown_requested = io_return False, pf_sync_info = io_hang,
     pf_initialize_from = (\<lambda>i. io_return ())\<rparr>"


end
