(* ===== verification/Feo_Relays.thy ===== *)
theory Feo_Relays
  imports Feo_Mpsc Feo_Sockets "HOL-Library.Sublist"
begin

text \<open>
  Relayed signalling (\<open>feo/src/signalling/relayed\<close>): the channel traits (\<open>interface.rs\<close>), the four
  relays (\<open>connectors/relays.rs\<close>), and the connectors of the scheduler and of a secondary agent
  (\<open>connectors/scheduler.rs\<close>, \<open>connectors/secondary.rs\<close>).

  A relay owns the two endpoints it connects, so its state is theirs. What an endpoint promises is a
  locale: a \<open>source\<close> hands out the pending signals of each of its peers in order, a \<open>sink\<close> takes
  signals in order, and a \<open>multi_sink\<close> does so per channel. The lemmas about the relays are proved
  once against these contracts; \<open>Feo_Relay_Endpoints\<close> shows that the endpoints of the code keep them.
\<close>

section \<open>Traits\<close>

record 'p signal_conversion =
  from_signal :: "signal \<Rightarrow> 'p"
  try_into_signal :: "'p \<Rightarrow> error + signal"

record ('w, 'p) protocol_send =
  ps_send :: "'p \<Rightarrow> ('w, error + unit) io"
  ps_connect_receiver :: "duration \<Rightarrow> ('w, error + unit) io"

record ('w, 'p) protocol_recv =
  pr_receive :: "duration \<Rightarrow> ('w, error + 'p option) io"
  pr_connect_sender :: "duration \<Rightarrow> ('w, error + unit) io"

record ('w, 'p) protocol_multi_recv =
  mr_receive :: "duration \<Rightarrow> ('w, error + 'p option) io"
  mr_connect_senders :: "duration \<Rightarrow> ('w, error + unit) io"

record ('w, 'p) protocol_multi_send =
  mx_send :: "channel_id \<Rightarrow> 'p \<Rightarrow> ('w, error + unit) io"
  mx_broadcast :: "'p \<Rightarrow> ('w, error + unit) io"
  mx_connect_receivers :: "duration \<Rightarrow> ('w, error + unit) io"

section \<open>Relays\<close>

record ('i, 'o, 'e) relay =
  rl_in :: 'i
  rl_out :: 'o
  rl_env :: 'e

definition on_in :: "('i, 'a) io \<Rightarrow> (('i, 'o, 'e) relay, 'a) io" where
  "on_in = io_zoom rl_in (\<lambda>x s. s\<lparr>rl_in := x\<rparr>)"

definition on_out :: "('o, 'a) io \<Rightarrow> (('i, 'o, 'e) relay, 'a) io" where
  "on_out = io_zoom rl_out (\<lambda>x s. s\<lparr>rl_out := x\<rparr>)"

definition on_env :: "('e, 'a) io \<Rightarrow> (('i, 'o, 'e) relay, 'a) io" where
  "on_env = io_zoom rl_env (\<lambda>x s. s\<lparr>rl_env := x\<rparr>)"

fun is_reset :: "error \<Rightarrow> bool" where
  "is_reset (EIo ConnectionReset _) \<longleftrightarrow> True"
| "is_reset _ \<longleftrightarrow> False"

text \<open>A relay repeats its body until the body yields the result of the thread.\<close>

fun relay_loop :: "nat \<Rightarrow> ('s, 'r option) io \<Rightarrow> ('s, 'r) io" where
  "relay_loop 0 body = io_hang"
| "relay_loop (Suc n) body =
    io_bind body (\<lambda>r. case r of None \<Rightarrow> relay_loop n body | Some x \<Rightarrow> io_return x)"

subsection \<open>\<open>PrimaryReceiveRelay\<close>\<close>

definition primary_receive_connect ::
  "('i, 'p) protocol_multi_recv \<Rightarrow> ('o, 'q) protocol_send \<Rightarrow> 'e platform \<Rightarrow> duration
    \<Rightarrow> (('i, 'o, 'e) relay, error + unit) io"
where
  "primary_receive_connect rx tx pf timeout =
    io_bind (on_env (pf_now pf)) (\<lambda>start.
    io_try (on_in (mr_connect_senders rx timeout)) (\<lambda>_.
    io_bind (on_env (pf_elapsed pf start)) (\<lambda>elapsed.
    io_try (on_out (ps_connect_receiver tx (timeout - elapsed))) (\<lambda>_. io_return (Inr ())))))"

definition primary_receive_step ::
  "'p signal_conversion \<Rightarrow> 'q signal_conversion \<Rightarrow> ('i, 'p) protocol_multi_recv \<Rightarrow> ('o, 'q) protocol_send
    \<Rightarrow> duration \<Rightarrow> (('i, 'o, 'e) relay, (error + unit) option) io"
where
  "primary_receive_step ipc loc rx tx timeout =
    io_bind (on_in (mr_receive rx timeout)) (\<lambda>r.
    case r of
      Inr None \<Rightarrow> io_return None
    | Inl e \<Rightarrow>
        io_return (Some (if e = EChannelClosed \<or> is_reset e then Inr () else Inl e))
    | Inr (Some p) \<Rightarrow>
        (case try_into_signal ipc p of
           Inl _ \<Rightarrow> io_return None
         | Inr sig \<Rightarrow>
             io_bind (on_out (ps_send tx (from_signal loc sig))) (\<lambda>q.
             io_return (case q of Inl e \<Rightarrow> Some (Inl e) | Inr _ \<Rightarrow> None))))"

definition primary_receive_main ::
  "nat \<Rightarrow> 'p signal_conversion \<Rightarrow> 'q signal_conversion \<Rightarrow> ('i, 'p) protocol_multi_recv
    \<Rightarrow> ('o, 'q) protocol_send \<Rightarrow> 'e platform \<Rightarrow> duration \<Rightarrow> (('i, 'o, 'e) relay, error + unit) io"
where
  "primary_receive_main n ipc loc rx tx pf timeout =
    io_bind (primary_receive_connect rx tx pf timeout) (\<lambda>c.
    io_bind (io_unwrap c) (\<lambda>_.
    relay_loop n (primary_receive_step ipc loc rx tx timeout)))"

subsection \<open>\<open>SecondaryReceiveRelay\<close>\<close>

definition receive_helper ::
  "('i, 'p) protocol_recv \<Rightarrow> duration \<Rightarrow> (('i, 'o, 'e) relay, error + 'p option) io" where
  "receive_helper rx timeout =
    io_bind (on_in (pr_receive rx timeout)) (\<lambda>r.
    io_return (case r of
        Inl (EIo ConnectionReset _) \<Rightarrow> Inl (EIo ConnectionReset ''connection reset'')
      | other \<Rightarrow> other))"

text \<open>Waiting for the startup time: \<open>Some False\<close> ends the thread, \<open>Some True\<close> is synchronised.\<close>

definition secondary_sync_step ::
  "'p signal_conversion \<Rightarrow> ('i, 'p) protocol_recv \<Rightarrow> 'e platform \<Rightarrow> duration
    \<Rightarrow> (('i, 'o, 'e) relay, bool option) io"
where
  "secondary_sync_step ipc rx pf timeout =
    io_bind (receive_helper rx timeout) (\<lambda>r.
    case r of
      Inr None \<Rightarrow> io_return None
    | Inl e \<Rightarrow> io_return (Some False)
    | Inr (Some p) \<Rightarrow>
        (case try_into_signal ipc p of
           Inr (StartupSync s) \<Rightarrow>
             io_bind (on_env (pf_initialize_from pf s)) (\<lambda>_. io_return (Some True))
         | _ \<Rightarrow> io_return None))"

text \<open>Forwarding one signal to its worker, or to all workers; failures are logged only.\<close>

definition forward_local ::
  "(activity_id \<Rightarrow> worker_id option) \<Rightarrow> 'q signal_conversion \<Rightarrow> ('o, 'q) protocol_multi_send \<Rightarrow> signal
    \<Rightarrow> (('i, 'o, 'e) relay, unit) io"
where
  "forward_local activity_worker loc tx sig =
    (let targeted = (\<lambda>i.
        case activity_worker i of
          None \<Rightarrow> io_return ()
        | Some w \<Rightarrow>
            io_bind (on_out (mx_send tx (ChWorker w) (from_signal loc sig))) (\<lambda>_. io_return ()));
      to_all = io_bind (on_out (mx_broadcast tx (from_signal loc sig))) (\<lambda>_. io_return ())
     in case sig of
          Startup i _ \<Rightarrow> targeted i
        | Step i _ \<Rightarrow> targeted i
        | Shutdown i _ \<Rightarrow> targeted i
        | Terminate _ \<Rightarrow> to_all
        | StartupSync _ \<Rightarrow> to_all
        | _ \<Rightarrow> io_return ())"

definition secondary_receive_step ::
  "(activity_id \<Rightarrow> worker_id option) \<Rightarrow> 'p signal_conversion \<Rightarrow> 'q signal_conversion
    \<Rightarrow> ('i, 'p) protocol_recv \<Rightarrow> ('o, 'q) protocol_multi_send \<Rightarrow> duration
    \<Rightarrow> (('i, 'o, 'e) relay, unit option) io"
where
  "secondary_receive_step activity_worker ipc loc rx tx timeout =
    io_bind (receive_helper rx timeout) (\<lambda>r.
    case r of
      Inr None \<Rightarrow> io_return None
    | Inl e \<Rightarrow> io_return (Some ())
    | Inr (Some p) \<Rightarrow>
        (case try_into_signal ipc p of
           Inl _ \<Rightarrow> io_return None
         | Inr sig \<Rightarrow>
             io_bind (forward_local activity_worker loc tx sig) (\<lambda>_. io_return None)))"

definition secondary_receive_main ::
  "nat \<Rightarrow> (activity_id \<Rightarrow> worker_id option) \<Rightarrow> 'p signal_conversion \<Rightarrow> 'q signal_conversion
    \<Rightarrow> ('i, 'p) protocol_recv \<Rightarrow> ('o, 'q) protocol_multi_send \<Rightarrow> 'e platform \<Rightarrow> duration
    \<Rightarrow> (('i, 'o, 'e) relay, unit) io"
where
  "secondary_receive_main n activity_worker ipc loc rx tx pf timeout =
    io_bind (on_out (mx_connect_receivers tx timeout)) (\<lambda>c1.
    io_bind (io_unwrap c1) (\<lambda>_.
    io_bind (on_in (pr_connect_sender rx timeout)) (\<lambda>c2.
    io_bind (io_unwrap c2) (\<lambda>_.
    io_bind (relay_loop n (secondary_sync_step ipc rx pf timeout)) (\<lambda>synced.
    if synced then relay_loop n (secondary_receive_step activity_worker ipc loc rx tx timeout)
    else io_return ())))))"

subsection \<open>\<open>PrimarySendRelay\<close>\<close>

record ('w, 'p) primary_send_relay =
  sr_remote_agents :: "agent_id list"
  sr_inter_sender :: "('w, 'p) protocol_multi_send"
  sr_timeout :: duration

definition send_relay_connect :: "('w, 'p) primary_send_relay \<Rightarrow> ('w, error + unit) io" where
  "send_relay_connect relay =
    io_try (mx_connect_receivers (sr_inter_sender relay) (sr_timeout relay)) (\<lambda>_. io_return (Inr ()))"

definition send_to_agent :: "('w, 'p) primary_send_relay \<Rightarrow> agent_id \<Rightarrow> 'p \<Rightarrow> ('w, error + unit) io" where
  "send_to_agent relay agent p = mx_send (sr_inter_sender relay) (ChAgent agent) p"

definition send_relay_broadcast :: "('w, 'p) primary_send_relay \<Rightarrow> 'p \<Rightarrow> ('w, error + unit) io" where
  "send_relay_broadcast relay p = io_try_for (sr_remote_agents relay) (\<lambda>a. send_to_agent relay a p)"

definition send_relay_sync_time ::
  "'p signal_conversion \<Rightarrow> 'w platform \<Rightarrow> ('w, 'p) primary_send_relay \<Rightarrow> ('w, error + unit) io" where
  "send_relay_sync_time ipc pf relay =
    io_bind (pf_sync_info pf) (\<lambda>info.
    io_try_for (sr_remote_agents relay) (\<lambda>a.
      send_to_agent relay a (from_signal ipc (StartupSync info))))"

subsection \<open>\<open>SecondarySendRelay\<close>\<close>

definition secondary_send_connect ::
  "('i, 'q) protocol_multi_recv \<Rightarrow> ('o, 'p) protocol_send \<Rightarrow> duration
    \<Rightarrow> (('i, 'o, 'e) relay, error + unit) io"
where
  "secondary_send_connect rx tx timeout =
    io_try (on_in (mr_connect_senders rx timeout)) (\<lambda>_.
    io_try (on_out (ps_connect_receiver tx timeout)) (\<lambda>_. io_return (Inr ())))"

definition secondary_send_step ::
  "'q signal_conversion \<Rightarrow> 'p signal_conversion \<Rightarrow> ('i, 'q) protocol_multi_recv \<Rightarrow> ('o, 'p) protocol_send
    \<Rightarrow> duration \<Rightarrow> (('i, 'o, 'e) relay, (error + unit) option) io"
where
  "secondary_send_step loc ipc rx tx timeout =
    io_bind (on_in (mr_receive rx timeout)) (\<lambda>r.
    case r of
      Inr None \<Rightarrow> io_return None
    | Inl e \<Rightarrow> io_return (if e = EChannelClosed then Some (Inr ()) else None)
    | Inr (Some q) \<Rightarrow>
        (case try_into_signal loc q of
           Inl _ \<Rightarrow> io_return None
         | Inr sig \<Rightarrow>
             io_bind (on_out (ps_send tx (from_signal ipc sig))) (\<lambda>x.
             io_return (case x of Inl e \<Rightarrow> Some (Inl e) | Inr _ \<Rightarrow> None))))"

definition secondary_send_run ::
  "nat \<Rightarrow> 'q signal_conversion \<Rightarrow> 'p signal_conversion \<Rightarrow> ('i, 'q) protocol_multi_recv
    \<Rightarrow> ('o, 'p) protocol_send \<Rightarrow> duration \<Rightarrow> (('i, 'o, 'e) relay, error + unit) io"
where
  "secondary_send_run n loc ipc rx tx timeout = relay_loop n (secondary_send_step loc ipc rx tx timeout)"

text \<open>\<open>SecondaryConnector::run_and_connect\<close> after the receive relay has been started in its thread.\<close>

definition secondary_connector_run ::
  "nat \<Rightarrow> 'q signal_conversion \<Rightarrow> 'p signal_conversion \<Rightarrow> ('i, 'q) protocol_multi_recv
    \<Rightarrow> ('o, 'p) protocol_send \<Rightarrow> duration \<Rightarrow> (('i, 'o, 'e) relay, unit) io"
where
  "secondary_connector_run n loc ipc rx tx timeout =
    io_bind (secondary_send_connect rx tx timeout) (\<lambda>c.
    io_bind (io_unwrap c) (\<lambda>_.
    io_bind (secondary_send_run n loc ipc rx tx timeout) (\<lambda>_. io_return ())))"

section \<open>Connector of the scheduler\<close>

text \<open>
  \<open>'w\<close> holds the endpoints of the connector and the world behind them; starting the thread of the
  receive relay is an operation of that world.
\<close>

record ('w, 'p, 'q) relayed_scheduler =
  rs_local_workers :: "worker_id list"
  rs_intra_receiver :: "('w, 'q) protocol_multi_recv"
  rs_start_receive_relay :: "('w, unit) io option"
  rs_send_relay :: "('w, 'p) primary_send_relay option"
  rs_worker_sender :: "('w, 'q) protocol_multi_send"
  rs_timeout :: duration
  rs_activity_worker :: "(activity_id \<times> worker_id) list"
  rs_worker_agent :: "(worker_id \<times> agent_id) list"

definition rs_send_to_agent ::
  "('w, 'p, 'q) relayed_scheduler \<Rightarrow> agent_id \<Rightarrow> 'p \<Rightarrow> ('w, error + unit) io" where
  "rs_send_to_agent self agent p =
    (case rs_send_relay self of
       Some relay \<Rightarrow> send_to_agent relay agent p
     | None \<Rightarrow> io_return (Inl (EChannelNotFound (ChAgent agent))))"

definition rs_send_to_worker ::
  "'p signal_conversion \<Rightarrow> 'q signal_conversion \<Rightarrow> ('w, 'p, 'q) relayed_scheduler \<Rightarrow> worker_id \<Rightarrow> signal
    \<Rightarrow> ('w, error + unit) io"
where
  "rs_send_to_worker ipc loc self w sig =
    (if w \<in> set (rs_local_workers self)
     then mx_send (rs_worker_sender self) (ChWorker w) (from_signal loc sig)
     else case map_of (rs_worker_agent self) w of
            None \<Rightarrow> io_return (Inl (EWorkerNotFound w))
          | Some agent \<Rightarrow> rs_send_to_agent self agent (from_signal ipc sig))"

definition rs_send_to_activity ::
  "'p signal_conversion \<Rightarrow> 'q signal_conversion \<Rightarrow> ('w, 'p, 'q) relayed_scheduler \<Rightarrow> activity_id \<Rightarrow> signal
    \<Rightarrow> ('w, error + unit) io"
where
  "rs_send_to_activity ipc loc self i sig =
    (case map_of (rs_activity_worker self) i of
       Some w \<Rightarrow> rs_send_to_worker ipc loc self w sig
     | None \<Rightarrow> io_return (Inl (EActivityNotFound i)))"

definition rs_run_and_connect :: "('w, 'p, 'q) relayed_scheduler \<Rightarrow> ('w, error + unit) io" where
  "rs_run_and_connect self =
    io_bind (case rs_start_receive_relay self of None \<Rightarrow> io_return () | Some start \<Rightarrow> start) (\<lambda>_.
    io_try (case rs_send_relay self of None \<Rightarrow> io_return (Inr ()) | Some r \<Rightarrow> send_relay_connect r) (\<lambda>_.
    io_try (mr_connect_senders (rs_intra_receiver self) (rs_timeout self)) (\<lambda>_.
    mx_connect_receivers (rs_worker_sender self) (rs_timeout self))))"

definition rs_receive ::
  "'q signal_conversion \<Rightarrow> ('w, 'p, 'q) relayed_scheduler \<Rightarrow> duration \<Rightarrow> ('w, error + signal option) io" where
  "rs_receive loc self timeout =
    io_bind (mr_receive (rs_intra_receiver self) timeout) (\<lambda>r.
    io_return (case r of
        Inr (Some q) \<Rightarrow>
          (case try_into_signal loc q of Inl _ \<Rightarrow> Inl EUnexpectedProtocolSignal | Inr sig \<Rightarrow> Inr (Some sig))
      | Inr None \<Rightarrow> Inr None
      | Inl e \<Rightarrow> Inl e))"

definition relayed_connect_scheduler ::
  "'p signal_conversion \<Rightarrow> 'q signal_conversion \<Rightarrow> 'w platform \<Rightarrow> ('w, 'p, 'q) relayed_scheduler
    \<Rightarrow> 'w connect_scheduler"
where
  "relayed_connect_scheduler ipc loc pf self =
    \<lparr>cs_connect_remotes = rs_run_and_connect self,
     cs_sync_time =
       (case rs_send_relay self of
          None \<Rightarrow> io_return (Inr ())
        | Some relay \<Rightarrow> send_relay_sync_time ipc pf relay),
     cs_connected_agents = (\<lambda>_.
       btree_set (map snd (rs_worker_agent self)
         @ (case rs_send_relay self of None \<Rightarrow> [] | Some relay \<Rightarrow> sr_remote_agents relay))),
     cs_receive = rs_receive loc self,
     cs_send_to_activity = rs_send_to_activity ipc loc self,
     cs_broadcast_terminate = (\<lambda>sig.
       io_try (case rs_send_relay self of
           None \<Rightarrow> io_return (Inr ())
         | Some relay \<Rightarrow> send_relay_broadcast relay (from_signal ipc sig)) (\<lambda>_.
       mx_broadcast (rs_worker_sender self) (from_signal loc sig)))\<rparr>"

section \<open>Contracts of the endpoints\<close>

text \<open>
  A \<open>source\<close> has for each peer the signals still to come; a receive takes the next one of some peer
  or nothing.
\<close>

definition took ::
  "(('k \<Rightarrow> 'p list) \<Rightarrow> 'i \<Rightarrow> bool) \<Rightarrow> ('k \<Rightarrow> 'p list) \<Rightarrow> error + 'p option \<Rightarrow> 'i \<Rightarrow> bool" where
  "took pending ms r s =
    (case r of
       Inr (Some m) \<Rightarrow> (\<exists>k rest. ms k = m # rest \<and> pending (ms(k := rest)) s)
     | _ \<Rightarrow> pending ms s)"

locale source =
  fixes receive :: "duration \<Rightarrow> ('i, error + 'p option) io"
    and pending :: "('k \<Rightarrow> 'p list) \<Rightarrow> 'i \<Rightarrow> bool"
  assumes receive: "hoare (pending ms) (receive d) (took pending ms) (pending ms)"

text \<open>A \<open>sink\<close> has taken a sequence of signals; a send that fails or blocks leaves it as it is.\<close>

locale sink =
  fixes send :: "'q \<Rightarrow> ('o, error + unit) io"
    and sent :: "'q list \<Rightarrow> 'o \<Rightarrow> bool"
  assumes send: "hoare (sent qs) (send m) (\<lambda>r. sent (case r of Inl e \<Rightarrow> qs | Inr u \<Rightarrow> qs @ [m])) (sent qs)"

text \<open>
  A \<open>multi_sink\<close> has taken a sequence per channel. The flag says that every receiver is alive; sends
  to an existing channel succeed then.
\<close>

locale multi_sink =
  fixes send :: "channel_id \<Rightarrow> 'q \<Rightarrow> ('o, error + unit) io"
    and broadcast :: "'q \<Rightarrow> ('o, error + unit) io"
    and chans :: "channel_id set"
    and sent :: "bool \<Rightarrow> (channel_id \<Rightarrow> 'q list) \<Rightarrow> 'o \<Rightarrow> bool"
  assumes send: "hoare (sent alive f) (send c m)
      (\<lambda>r s. case r of Inr u \<Rightarrow> c \<in> chans \<and> sent alive (f(c := f c @ [m])) s
         | Inl e \<Rightarrow> sent alive f s \<and> (alive \<longrightarrow> c \<notin> chans)) (sent alive f)"
    and broadcast: "hoare (sent alive f) (broadcast m)
      (\<lambda>r s. \<exists>cs \<subseteq> chans. sent alive (\<lambda>c. f c @ (if c \<in> cs then [m] else [])) s \<and> (alive \<longrightarrow> cs = chans))
      (\<lambda>s. \<exists>cs \<subseteq> chans. sent alive (\<lambda>c. f c @ (if c \<in> cs then [m] else [])) s)"

section \<open>Proof rules of the relays\<close>

lemma hoare_on_in:
  fixes P :: "('i, 'o, 'e) relay \<Rightarrow> bool"
  assumes "\<And>out env. hoare (\<lambda>x. P \<lparr>rl_in = x, rl_out = out, rl_env = env\<rparr>) m
    (\<lambda>r x. Q r \<lparr>rl_in = x, rl_out = out, rl_env = env\<rparr>) (\<lambda>x. E \<lparr>rl_in = x, rl_out = out, rl_env = env\<rparr>)"
  shows "hoare P (on_in m) Q E"
proof (rule hoareI)
  fix s :: "('i, 'o, 'e) relay"
  assume "P s"
  with assms [of "rl_out s" "rl_env s"]
  show "case on_in m s of (Ret a, s') \<Rightarrow> Q a s' | (Panic, s') \<Rightarrow> E s' | (Hang, s') \<Rightarrow> E s'"
    by (cases s; cases "m (rl_in s)"; cases "fst (m (rl_in s))") (force simp: hoare_def on_in_def io_zoom_def)+
qed

lemma hoare_on_out:
  fixes P :: "('i, 'o, 'e) relay \<Rightarrow> bool"
  assumes "\<And>inp env. hoare (\<lambda>x. P \<lparr>rl_in = inp, rl_out = x, rl_env = env\<rparr>) m
    (\<lambda>r x. Q r \<lparr>rl_in = inp, rl_out = x, rl_env = env\<rparr>) (\<lambda>x. E \<lparr>rl_in = inp, rl_out = x, rl_env = env\<rparr>)"
  shows "hoare P (on_out m) Q E"
proof (rule hoareI)
  fix s :: "('i, 'o, 'e) relay"
  assume "P s"
  with assms [of "rl_in s" "rl_env s"]
  show "case on_out m s of (Ret a, s') \<Rightarrow> Q a s' | (Panic, s') \<Rightarrow> E s' | (Hang, s') \<Rightarrow> E s'"
    by (cases s; cases "m (rl_out s)"; cases "fst (m (rl_out s))") (force simp: hoare_def on_out_def io_zoom_def)+
qed

lemma hoare_on_env:
  fixes P :: "('i, 'o, 'e) relay \<Rightarrow> bool"
  assumes "\<And>inp out x y. P \<lparr>rl_in = inp, rl_out = out, rl_env = x\<rparr> \<Longrightarrow> P \<lparr>rl_in = inp, rl_out = out, rl_env = y\<rparr>"
  shows "hoare P (on_env m) (\<lambda>_. P) P"
proof (rule hoareI)
  fix s :: "('i, 'o, 'e) relay"
  assume "P s"
  with assms show "case on_env m s of (Ret a, s') \<Rightarrow> P s' | (Panic, s') \<Rightarrow> P s' | (Hang, s') \<Rightarrow> P s'"
    by (cases s; cases "m (rl_env s)"; cases "fst (m (rl_env s))") (force simp: on_env_def io_zoom_def)+
qed

lemma relay_loop_hoare:
  assumes "hoare I body (\<lambda>r s. case r of None \<Rightarrow> I s | Some x \<Rightarrow> Q x s) E" "\<And>s. I s \<Longrightarrow> E s"
  shows "hoare I (relay_loop n body) Q E"
proof (induction n)
  case 0
  then show ?case using assms(2) by (simp add: hoare_hang)
next
  case (Suc n)
  have "hoare (case r of None \<Rightarrow> I | Some x \<Rightarrow> Q x)
      (case r of None \<Rightarrow> relay_loop n body | Some x \<Rightarrow> io_return x) Q E" for r
    using Suc by (cases r) (simp_all add: hoare_return)
  moreover have "hoare I body (\<lambda>r. case r of None \<Rightarrow> I | Some x \<Rightarrow> Q x) E"
    by (rule hoare_post [OF assms(1)]) (auto split: option.splits)
  ultimately show ?case by (auto intro: hoare_bind)
qed

section \<open>Relays that forward to one receiver\<close>

definition core_signals :: "'p signal_conversion \<Rightarrow> 'p list \<Rightarrow> signal list" where
  "core_signals conv ps = concat (map (\<lambda>p. case try_into_signal conv p of Inl _ \<Rightarrow> [] | Inr sig \<Rightarrow> [sig]) ps)"

lemma core_signals_append [simp]: "core_signals conv (ps @ qs) = core_signals conv ps @ core_signals conv qs"
  by (simp add: core_signals_def)

text \<open>
  What a relay has done since the state with pending signals \<open>ms0\<close>: it has received \<open>rs\<close>, tagged with
  the peer, and then \<open>lost\<close>; the core signals of \<open>rs\<close> are what it has sent, and the rest of every peer
  is still pending.
\<close>

definition forwarded ::
  "(('k \<Rightarrow> 'p list) \<Rightarrow> 'i \<Rightarrow> bool) \<Rightarrow> ('q list \<Rightarrow> 'o \<Rightarrow> bool) \<Rightarrow> 'p signal_conversion
    \<Rightarrow> 'q signal_conversion \<Rightarrow> ('k \<Rightarrow> 'p list) \<Rightarrow> ('k \<times> 'p) list \<Rightarrow> ('i, 'o, 'e) relay \<Rightarrow> bool"
where
  "forwarded pending sent c_in c_out ms0 lost s \<longleftrightarrow> (\<exists>rs ms. pending ms (rl_in s)
    \<and> sent (map (from_signal c_out) (core_signals c_in (map snd rs))) (rl_out s)
    \<and> (\<forall>k. ms0 k = map snd (filter (\<lambda>p. fst p = k) (rs @ lost)) @ ms k))"

locale forwarding = source "mr_receive rx" pending + sink "ps_send tx" sent
  for rx :: "('i, 'p) protocol_multi_recv" and pending :: "('k \<Rightarrow> 'p list) \<Rightarrow> 'i \<Rightarrow> bool"
    and tx :: "('o, 'q) protocol_send" and sent :: "'q list \<Rightarrow> 'o \<Rightarrow> bool" +
  fixes c_in :: "'p signal_conversion" and c_out :: "'q signal_conversion"
begin

text \<open>After a receive, the signal it returned is in flight.\<close>

lemma receive_forwarded:
  "hoare (forwarded pending sent c_in c_out ms0 [] :: ('i, 'o, 'e) relay \<Rightarrow> bool) (on_in (mr_receive rx d))
    (\<lambda>r s. case r of Inr (Some p) \<Rightarrow> \<exists>k. forwarded pending sent c_in c_out ms0 [(k, p)] s
       | _ \<Rightarrow> forwarded pending sent c_in c_out ms0 [] s)
    (forwarded pending sent c_in c_out ms0 [])"
  (is "hoare _ _ ?Q ?E")
proof (rule hoare_on_in)
  fix out :: 'o and env :: 'e
  let ?s = "\<lambda>x. \<lparr>rl_in = x, rl_out = out, rl_env = env\<rparr>"
  let ?A = "\<lambda>rs ms. sent (map (from_signal c_out) (core_signals c_in (map snd rs))) out
    \<and> (\<forall>k. ms0 k = map snd (filter (\<lambda>p. fst p = k) rs) @ ms k)"
  have pre: "(\<lambda>x. forwarded pending sent c_in c_out ms0 [] (?s x)) = (\<lambda>x. \<exists>rs ms. ?A rs ms \<and> pending ms x)"
    by (auto simp: forwarded_def)
  have "hoare (\<lambda>x. ?A rs ms \<and> pending ms x) (mr_receive rx d) (\<lambda>r x. ?Q r (?s x)) (\<lambda>x. ?E (?s x))" for rs ms
  proof (rule hoare_assume)
    assume A: "?A rs ms"
    show "hoare (pending ms) (mr_receive rx d) (\<lambda>r x. ?Q r (?s x)) (\<lambda>x. ?E (?s x))"
    proof (rule hoare_conseq [OF receive])
      fix r x
      assume took: "took pending ms r x"
      show "?Q r (?s x)"
      proof (cases "\<exists>m. r = Inr (Some m)")
        case True
        then obtain m where r: "r = Inr (Some m)" ..
        with took obtain k rest where "ms k = m # rest" "pending (ms(k := rest)) x" by (auto simp: took_def)
        with A have "forwarded pending sent c_in c_out ms0 [(k, m)] (?s x)"
          unfolding forwarded_def by (intro exI [of _ rs] exI [of _ "ms(k := rest)"]) auto
        with r show ?thesis by auto
      next
        case False
        with took have "pending ms x" by (auto simp: took_def split: sum.splits option.splits)
        with A False show ?thesis by (auto simp: forwarded_def split: sum.splits option.splits)
      qed
    qed (use A in \<open>auto simp: forwarded_def\<close>)
  qed
  then show "hoare (\<lambda>x. forwarded pending sent c_in c_out ms0 [] (?s x)) (mr_receive rx d)
      (\<lambda>r x. ?Q r (?s x)) (\<lambda>x. ?E (?s x))"
    unfolding pre by (intro hoare_exists)
qed

lemma skip_forwarded:
  assumes "forwarded pending sent c_in c_out ms0 [(k, p)] s" "try_into_signal c_in p = Inl e"
  shows "forwarded pending sent c_in c_out ms0 [] s"
proof -
  from assms(1) obtain rs ms where "pending ms (rl_in s)"
    "sent (map (from_signal c_out) (core_signals c_in (map snd rs))) (rl_out s)"
    "\<forall>k'. ms0 k' = map snd (filter (\<lambda>p. fst p = k') (rs @ [(k, p)])) @ ms k'"
    by (auto simp: forwarded_def)
  with assms(2) show ?thesis
    unfolding forwarded_def by (intro exI [of _ "rs @ [(k, p)]"] exI [of _ ms]) (simp add: core_signals_def)
qed

lemma send_forwarded:
  assumes "try_into_signal c_in p = Inr sig"
  shows "hoare (forwarded pending sent c_in c_out ms0 [(k, p)] :: ('i, 'o, 'e) relay \<Rightarrow> bool) (on_out (ps_send tx (from_signal c_out sig)))
    (\<lambda>r. forwarded pending sent c_in c_out ms0 (case r of Inl e \<Rightarrow> [(k, p)] | Inr u \<Rightarrow> []))
    (forwarded pending sent c_in c_out ms0 [(k, p)])"
  (is "hoare _ _ ?Q ?E")
proof (rule hoare_on_out)
  fix inp :: 'i and env :: 'e
  let ?s = "\<lambda>x. \<lparr>rl_in = inp, rl_out = x, rl_env = env\<rparr>"
  let ?out = "\<lambda>rs. map (from_signal c_out) (core_signals c_in (map snd rs))"
  let ?A = "\<lambda>rs ms. pending ms inp \<and> (\<forall>k'. ms0 k' = map snd (filter (\<lambda>p. fst p = k') (rs @ [(k, p)])) @ ms k')"
  have pre: "(\<lambda>x. forwarded pending sent c_in c_out ms0 [(k, p)] (?s x))
      = (\<lambda>x. \<exists>rs ms. ?A rs ms \<and> sent (?out rs) x)"
    by (auto simp: forwarded_def)
  have "hoare (\<lambda>x. ?A rs ms \<and> sent (?out rs) x) (ps_send tx (from_signal c_out sig))
      (\<lambda>r x. ?Q r (?s x)) (\<lambda>x. ?E (?s x))" for rs ms
  proof (rule hoare_assume)
    assume A: "?A rs ms"
    show "hoare (sent (?out rs)) (ps_send tx (from_signal c_out sig)) (\<lambda>r x. ?Q r (?s x)) (\<lambda>x. ?E (?s x))"
    proof (rule hoare_conseq [OF send])
      fix r :: "error + unit" and x :: 'o
      assume out: "sent (case r of Inl e \<Rightarrow> ?out rs | Inr u \<Rightarrow> ?out rs @ [from_signal c_out sig]) x"
      have "?out (rs @ [(k, p)]) = ?out rs @ [from_signal c_out sig]"
        using assms by (simp add: core_signals_def)
      then show "?Q r (?s x)"
      proof (cases r)
        case (Inl e)
        with A out have "?A rs ms" "sent (?out rs) x" by simp_all
        with Inl show ?thesis by (auto simp: forwarded_def)
      next
        case (Inr u)
        with A out \<open>?out (rs @ [(k, p)]) = _\<close>
        have "\<forall>k'. ms0 k' = map snd (filter (\<lambda>p. fst p = k') ((rs @ [(k, p)]) @ [])) @ ms k'"
          "sent (?out (rs @ [(k, p)])) x" by simp_all
        with A Inr show ?thesis
          unfolding forwarded_def by (intro exI [of _ "rs @ [(k, p)]"] exI [of _ ms]) simp
      qed
    qed (use A in \<open>auto simp: forwarded_def\<close>)
  qed
  then show "hoare (\<lambda>x. forwarded pending sent c_in c_out ms0 [(k, p)] (?s x)) (ps_send tx (from_signal c_out sig))
      (\<lambda>r x. ?Q r (?s x)) (\<lambda>x. ?E (?s x))"
    unfolding pre by (intro hoare_exists)
qed

text \<open>
  Receiving and forwarding one signal, which both relays do; \<open>on_error\<close> says which errors of the
  receive end the relay and how.
\<close>

lemma forward_step:
  fixes ms0 :: "'k \<Rightarrow> 'p list"
  defines "I \<equiv> forwarded pending sent c_in c_out ms0 [] :: ('i, 'o, 'e) relay \<Rightarrow> bool"
    and "L \<equiv> \<lambda>s. \<exists>k p. forwarded pending sent c_in c_out ms0 [(k, p)] s"
  assumes "\<And>e x. on_error e = Some (Inl x) \<Longrightarrow> x = e"
  shows "hoare I
    (io_bind (on_in (mr_receive rx d)) (\<lambda>r.
     case r of
       Inr None \<Rightarrow> io_return None
     | Inl e \<Rightarrow> io_return (on_error e)
     | Inr (Some p) \<Rightarrow>
         (case try_into_signal c_in p of
            Inl _ \<Rightarrow> io_return None
          | Inr sig \<Rightarrow>
              io_bind (on_out (ps_send tx (from_signal c_out sig))) (\<lambda>q.
              io_return (case q of Inl e \<Rightarrow> Some (Inl e) | Inr _ \<Rightarrow> None)))))
    (\<lambda>r s. case r of None \<Rightarrow> I s | Some (Inr u) \<Rightarrow> I s | Some (Inl e) \<Rightarrow> I s \<or> L s)
    (\<lambda>s. I s \<or> L s)"
    (is "hoare I (io_bind ?m ?f) ?Q ?E")
proof (rule hoare_bind)
  let ?R = "\<lambda>r s. case r of Inr (Some p) \<Rightarrow> \<exists>k. forwarded pending sent c_in c_out ms0 [(k, p)] s | _ \<Rightarrow> I s"
  show "hoare I ?m ?R ?E"
    unfolding I_def by (rule hoare_conseq [OF receive_forwarded]) auto
  show "hoare (?R r) (?f r) ?Q ?E" for r
  proof (cases "\<exists>p. r = Inr (Some p)")
    case False
    then show ?thesis by (cases r) (auto intro!: hoare_return split: option.splits sum.splits)
  next
    case True
    then obtain p where r: "r = Inr (Some p)" ..
    show ?thesis
    proof (cases "try_into_signal c_in p")
      case (Inl e)
      with r show ?thesis by (auto intro!: hoare_return skip_forwarded simp: I_def)
    next
      case (Inr sig)
      have "hoare (forwarded pending sent c_in c_out ms0 [(k, p)])
          (io_bind (on_out (ps_send tx (from_signal c_out sig))) (\<lambda>q.
              io_return (case q of Inl e \<Rightarrow> Some (Inl e) | Inr _ \<Rightarrow> None))) ?Q ?E" for k
        by (rule hoare_bind [OF hoare_conseq [OF send_forwarded [OF Inr]]], assumption, assumption)
          (auto simp: L_def I_def intro!: hoare_return split: sum.splits)
      with r Inr show ?thesis by (simp add: hoare_exists)
    qed
  qed
qed

end

text \<open>Both relays are loops of such steps.\<close>

definition relay_outcome ::
  "(('k \<Rightarrow> 'p list) \<Rightarrow> 'i \<Rightarrow> bool) \<Rightarrow> ('q list \<Rightarrow> 'o \<Rightarrow> bool) \<Rightarrow> 'p signal_conversion
    \<Rightarrow> 'q signal_conversion \<Rightarrow> ('k \<Rightarrow> 'p list) \<Rightarrow> (error + unit) outcome \<Rightarrow> ('i, 'o, 'e) relay \<Rightarrow> bool"
where
  "relay_outcome pending sent c_in c_out ms0 r s \<longleftrightarrow>
    forwarded pending sent c_in c_out ms0 [] s
    \<or> r \<noteq> Ret (Inr ()) \<and> (\<exists>k p. forwarded pending sent c_in c_out ms0 [(k, p)] s)"

context forwarding
begin

lemma loop_outcome:
  assumes "hoare (forwarded pending sent c_in c_out ms0 []) step
      (\<lambda>r s. case r of None \<Rightarrow> forwarded pending sent c_in c_out ms0 [] s
         | Some (Inr u) \<Rightarrow> forwarded pending sent c_in c_out ms0 [] s
         | Some (Inl e) \<Rightarrow> forwarded pending sent c_in c_out ms0 [] s
             \<or> (\<exists>k p. forwarded pending sent c_in c_out ms0 [(k, p)] s))
      (\<lambda>s. forwarded pending sent c_in c_out ms0 [] s \<or> (\<exists>k p. forwarded pending sent c_in c_out ms0 [(k, p)] s))"
    and "pending ms0 (rl_in s)" "sent [] (rl_out s)" "relay_loop n step s = (r, s')"
  shows "relay_outcome pending sent c_in c_out ms0 r s'"
proof -
  have "hoare (forwarded pending sent c_in c_out ms0 []) (relay_loop n step)
      (\<lambda>r. relay_outcome pending sent c_in c_out ms0 (Ret r))
      (\<lambda>s. forwarded pending sent c_in c_out ms0 [] s \<or> (\<exists>k p. forwarded pending sent c_in c_out ms0 [(k, p)] s))"
    by (rule relay_loop_hoare, rule hoare_post [OF assms(1)])
      (auto simp: relay_outcome_def split: option.splits sum.splits)
  moreover have "forwarded pending sent c_in c_out ms0 [] s"
    unfolding forwarded_def using assms(2,3)
    by (intro exI [of _ "[]"] exI [of _ ms0]) (simp add: core_signals_def)
  ultimately show ?thesis using assms(4)
    by (cases r) (force simp: hoare_def relay_outcome_def)+
qed

lemma primary_receive_forwards:
  assumes "pending ms0 (rl_in s)" "sent [] (rl_out s)"
    "relay_loop n (primary_receive_step c_in c_out rx tx timeout) s = (r, s')"
  shows "relay_outcome pending sent c_in c_out ms0 r s'"
proof (rule loop_outcome [OF _ assms])
  have on_error: "primary_receive_step c_in c_out rx tx timeout = io_bind (on_in (mr_receive rx timeout)) (\<lambda>r.
     case r of
       Inr None \<Rightarrow> io_return None
     | Inl e \<Rightarrow> io_return ((\<lambda>e. Some (if e = EChannelClosed \<or> is_reset e then Inr () else Inl e)) e)
     | Inr (Some p) \<Rightarrow>
         (case try_into_signal c_in p of
            Inl _ \<Rightarrow> io_return None
          | Inr sig \<Rightarrow>
              io_bind (on_out (ps_send tx (from_signal c_out sig))) (\<lambda>q.
              io_return (case q of Inl e \<Rightarrow> Some (Inl e) | Inr _ \<Rightarrow> None))))"
    by (simp add: primary_receive_step_def)
  show "hoare (forwarded pending sent c_in c_out ms0 []) (primary_receive_step c_in c_out rx tx timeout)
      (\<lambda>r s. case r of None \<Rightarrow> forwarded pending sent c_in c_out ms0 [] s
         | Some (Inr u) \<Rightarrow> forwarded pending sent c_in c_out ms0 [] s
         | Some (Inl e) \<Rightarrow> forwarded pending sent c_in c_out ms0 [] s
             \<or> (\<exists>k p. forwarded pending sent c_in c_out ms0 [(k, p)] s))
      (\<lambda>s. forwarded pending sent c_in c_out ms0 [] s \<or> (\<exists>k p. forwarded pending sent c_in c_out ms0 [(k, p)] s))"
    unfolding on_error by (rule forward_step) (auto split: if_splits)
qed

lemma secondary_send_forwards:
  assumes "pending ms0 (rl_in s)" "sent [] (rl_out s)"
    "secondary_send_run n c_in c_out rx tx timeout s = (r, s')"
  shows "relay_outcome pending sent c_in c_out ms0 r s'"
proof (rule loop_outcome [OF _ assms(1,2) assms(3) [unfolded secondary_send_run_def]])
  show "hoare (forwarded pending sent c_in c_out ms0 []) (secondary_send_step c_in c_out rx tx timeout)
      (\<lambda>r s. case r of None \<Rightarrow> forwarded pending sent c_in c_out ms0 [] s
         | Some (Inr u) \<Rightarrow> forwarded pending sent c_in c_out ms0 [] s
         | Some (Inl e) \<Rightarrow> forwarded pending sent c_in c_out ms0 [] s
             \<or> (\<exists>k p. forwarded pending sent c_in c_out ms0 [(k, p)] s))
      (\<lambda>s. forwarded pending sent c_in c_out ms0 [] s \<or> (\<exists>k p. forwarded pending sent c_in c_out ms0 [(k, p)] s))"
    unfolding secondary_send_step_def by (rule forward_step) (auto split: if_splits)
qed

end

section \<open>The relay that forwards to the workers\<close>

text \<open>Which channels a signal from the primary goes to.\<close>

fun routed ::
  "(activity_id \<Rightarrow> worker_id option) \<Rightarrow> channel_id set \<Rightarrow> signal \<Rightarrow> channel_id \<Rightarrow> bool" where
  "routed aw chans (Startup i _) c \<longleftrightarrow> c \<in> chans \<and> (case aw i of None \<Rightarrow> False | Some w \<Rightarrow> c = ChWorker w)"
| "routed aw chans (Step i _) c \<longleftrightarrow> c \<in> chans \<and> (case aw i of None \<Rightarrow> False | Some w \<Rightarrow> c = ChWorker w)"
| "routed aw chans (Shutdown i _) c \<longleftrightarrow> c \<in> chans \<and> (case aw i of None \<Rightarrow> False | Some w \<Rightarrow> c = ChWorker w)"
| "routed aw chans (Terminate _) c \<longleftrightarrow> c \<in> chans"
| "routed aw chans (StartupSync _) c \<longleftrightarrow> c \<in> chans"
| "routed aw chans _ c \<longleftrightarrow> False"

definition extended ::
  "bool \<Rightarrow> (channel_id \<Rightarrow> bool) \<Rightarrow> 'q \<Rightarrow> (channel_id \<Rightarrow> 'q list) \<Rightarrow> (channel_id \<Rightarrow> 'q list) \<Rightarrow> bool" where
  "extended full R m f f' \<longleftrightarrow> (\<forall>c. f' c = f c \<or> R c \<and> f' c = f c @ [m])
    \<and> (full \<longrightarrow> (\<forall>c. R c \<longrightarrow> f' c = f c @ [m]))"

text \<open>
  What the relay has done with the signals \<open>rs\<close> it has received, before \<open>lost\<close>, with which it has done
  nothing yet: the workers have got what is routed to them, in order, and all of it, if every receiver
  is alive. \<open>partly_dispatched\<close> is the state in which it may be in the middle of the last signal.
\<close>

definition dispatched ::
  "((unit \<Rightarrow> 'p list) \<Rightarrow> 'i \<Rightarrow> bool) \<Rightarrow> (bool \<Rightarrow> (channel_id \<Rightarrow> 'q list) \<Rightarrow> 'o \<Rightarrow> bool) \<Rightarrow> bool
    \<Rightarrow> (signal \<Rightarrow> channel_id \<Rightarrow> bool) \<Rightarrow> 'p signal_conversion \<Rightarrow> 'q signal_conversion \<Rightarrow> 'p list
    \<Rightarrow> 'p list \<Rightarrow> 'p list \<Rightarrow> ('i, 'o, 'e) relay \<Rightarrow> bool"
where
  "dispatched pending sent alive R c_in c_out ms0 rs lost s \<longleftrightarrow> (\<exists>ms f. pending (\<lambda>_. ms) (rl_in s)
    \<and> sent alive f (rl_out s) \<and> ms0 = rs @ lost @ ms
    \<and> (\<forall>c. subseq (f c) (map (from_signal c_out) (filter (\<lambda>sig. R sig c) (core_signals c_in rs)))
      \<and> (alive \<longrightarrow> f c = map (from_signal c_out) (filter (\<lambda>sig. R sig c) (core_signals c_in rs)))))"

definition partly_dispatched ::
  "((unit \<Rightarrow> 'p list) \<Rightarrow> 'i \<Rightarrow> bool) \<Rightarrow> (bool \<Rightarrow> (channel_id \<Rightarrow> 'q list) \<Rightarrow> 'o \<Rightarrow> bool) \<Rightarrow> bool
    \<Rightarrow> (signal \<Rightarrow> channel_id \<Rightarrow> bool) \<Rightarrow> 'p signal_conversion \<Rightarrow> 'q signal_conversion \<Rightarrow> 'p list
    \<Rightarrow> ('i, 'o, 'e) relay \<Rightarrow> bool"
where
  "partly_dispatched pending sent alive R c_in c_out ms0 s \<longleftrightarrow> (\<exists>rs lost ms f. length lost \<le> 1
    \<and> pending (\<lambda>_. ms) (rl_in s) \<and> sent alive f (rl_out s) \<and> ms0 = rs @ lost @ ms
    \<and> (\<forall>c. let all = (\<lambda>rs. map (from_signal c_out) (filter (\<lambda>sig. R sig c) (core_signals c_in rs)))
          in subseq (f c) (all (rs @ lost)) \<and> (alive \<longrightarrow> f c = all rs \<or> f c = all (rs @ lost))))"

lemma dispatched_partly:
  "dispatched pending sent alive R c_in c_out ms0 rs [] s
    \<Longrightarrow> partly_dispatched pending sent alive R c_in c_out ms0 s"
  unfolding dispatched_def partly_dispatched_def Let_def
proof (elim exE)
  fix ms f
  let ?all = "\<lambda>rs c. map (from_signal c_out) (filter (\<lambda>sig. R sig c) (core_signals c_in rs))"
  assume A: "pending (\<lambda>_. ms) (rl_in s) \<and> sent alive f (rl_out s) \<and> ms0 = rs @ [] @ ms
    \<and> (\<forall>c. subseq (f c) (?all rs c) \<and> (alive \<longrightarrow> f c = ?all rs c))"
  show "\<exists>rs lost ms f. length lost \<le> 1 \<and> pending (\<lambda>_. ms) (rl_in s) \<and> sent alive f (rl_out s)
    \<and> ms0 = rs @ lost @ ms
    \<and> (\<forall>c. subseq (f c) (?all (rs @ lost) c) \<and> (alive \<longrightarrow> f c = ?all rs c \<or> f c = ?all (rs @ lost) c))"
    by (rule exI [of _ rs], rule exI [of _ "[]"], rule exI [of _ ms], rule exI [of _ f]) (use A in simp)
qed

locale dispatching = source "pr_receive rx" pending + multi_sink "mx_send tx" "mx_broadcast tx" chans sent
  for rx :: "('i, 'p) protocol_recv" and pending :: "(unit \<Rightarrow> 'p list) \<Rightarrow> 'i \<Rightarrow> bool"
    and tx :: "('o, 'q) protocol_multi_send" and chans :: "channel_id set"
    and sent :: "bool \<Rightarrow> (channel_id \<Rightarrow> 'q list) \<Rightarrow> 'o \<Rightarrow> bool" +
  fixes c_in :: "'p signal_conversion" and c_out :: "'q signal_conversion"
    and aw :: "activity_id \<Rightarrow> worker_id option"
begin

lemma forward_local_hoare:
  fixes B :: "'i \<Rightarrow> bool"
  shows "hoare (\<lambda>s :: ('i, 'o, 'e) relay. B (rl_in s) \<and> sent alive f (rl_out s)) (forward_local aw c_out tx sig)
    (\<lambda>_ s. B (rl_in s) \<and> (\<exists>f'. sent alive f' (rl_out s)
      \<and> extended alive (routed aw chans sig) (from_signal c_out sig) f f'))
    (\<lambda>s. B (rl_in s) \<and> (\<exists>f'. sent alive f' (rl_out s)
      \<and> extended False (routed aw chans sig) (from_signal c_out sig) f f'))"
    (is "hoare ?P _ (\<lambda>_. ?Q) ?E")
proof -
  have same: "extended full R m f f" if "\<And>c. full \<Longrightarrow> \<not> R c" for full R and m :: 'q
    using that by (simp add: extended_def)
  have id: "hoare ?P (io_return ()) (\<lambda>_. ?Q) ?E" if "\<And>c. \<not> routed aw chans sig c"
    by (rule hoare_return) (use that same in blast)
  have one: "hoare ?P (io_bind (on_out (mx_send tx (ChWorker w) (from_signal c_out sig))) (\<lambda>_. io_return ()))
      (\<lambda>_. ?Q) ?E" if R: "\<And>c. routed aw chans sig c \<longleftrightarrow> c \<in> chans \<and> c = ChWorker w" for w
  proof (rule hoare_bind [where R = "\<lambda>_. ?Q"], rule hoare_on_out)
    fix inp env
    show "hoare (\<lambda>x. ?P \<lparr>rl_in = inp, rl_out = x, rl_env = env\<rparr>) (mx_send tx (ChWorker w) (from_signal c_out sig))
       (\<lambda>_ x. ?Q \<lparr>rl_in = inp, rl_out = x, rl_env = env\<rparr>) (\<lambda>x. ?E \<lparr>rl_in = inp, rl_out = x, rl_env = env\<rparr>)"
      unfolding relay.simps
    proof (rule hoare_assume, rule hoare_conseq [OF send])
      fix r :: "error + unit" and x
      assume "B inp" and "case r of Inr u \<Rightarrow> ChWorker w \<in> chans
            \<and> sent alive (f(ChWorker w := f (ChWorker w) @ [from_signal c_out sig])) x
          | Inl e \<Rightarrow> sent alive f x \<and> (alive \<longrightarrow> ChWorker w \<notin> chans)"
      then show "B inp \<and> (\<exists>f'. sent alive f' x
          \<and> extended alive (routed aw chans sig) (from_signal c_out sig) f f')"
        using R by (cases r)
          (simp add: extended_def, blast,
            rule conjI, assumption, rule exI [of _ "f(ChWorker w := f (ChWorker w) @ [from_signal c_out sig])"],
            simp add: extended_def)
    qed (use same in auto)
  qed (simp add: hoare_return)
  have all: "hoare ?P (io_bind (on_out (mx_broadcast tx (from_signal c_out sig))) (\<lambda>_. io_return ()))
      (\<lambda>_. ?Q) ?E" if R: "\<And>c. routed aw chans sig c \<longleftrightarrow> c \<in> chans"
  proof (rule hoare_bind [where R = "\<lambda>_. ?Q"], rule hoare_on_out)
    fix inp env
    show "hoare (\<lambda>x. ?P \<lparr>rl_in = inp, rl_out = x, rl_env = env\<rparr>) (mx_broadcast tx (from_signal c_out sig))
       (\<lambda>_ x. ?Q \<lparr>rl_in = inp, rl_out = x, rl_env = env\<rparr>) (\<lambda>x. ?E \<lparr>rl_in = inp, rl_out = x, rl_env = env\<rparr>)"
      unfolding relay.simps
    proof (rule hoare_assume, rule hoare_conseq [OF broadcast])
      show "B inp \<and> (\<exists>f'. sent alive f' x \<and> extended alive (routed aw chans sig) (from_signal c_out sig) f f')"
        if "B inp" "\<exists>cs\<subseteq>chans. sent alive (\<lambda>c. f c @ (if c \<in> cs then [from_signal c_out sig] else [])) x
          \<and> (alive \<longrightarrow> cs = chans)" for x
        using that R by (fastforce simp: extended_def)
      show "B inp \<and> (\<exists>f'. sent alive f' x \<and> extended False (routed aw chans sig) (from_signal c_out sig) f f')"
        if "B inp" "\<exists>cs\<subseteq>chans. sent alive (\<lambda>c. f c @ (if c \<in> cs then [from_signal c_out sig] else [])) x" for x
        using that R by (fastforce simp: extended_def)
    qed
  qed (simp add: hoare_return)
  show ?thesis
    using one all id by (cases sig) (auto simp: forward_local_def Let_def split: option.splits)
qed

lemma skip_dispatched:
  assumes "dispatched pending sent alive (routed aw chans) c_in c_out ms0 rs [p] s"
    "try_into_signal c_in p = Inl e"
  shows "dispatched pending sent alive (routed aw chans) c_in c_out ms0 (rs @ [p]) [] s"
  using assms by (auto simp: dispatched_def core_signals_def)

lemma receive_helper_dispatched:
  "hoare (dispatched pending sent alive (routed aw chans) c_in c_out ms0 rs [] :: ('i, 'o, 'e) relay \<Rightarrow> bool)
    (receive_helper rx d)
    (\<lambda>r s. case r of Inr (Some p) \<Rightarrow> dispatched pending sent alive (routed aw chans) c_in c_out ms0 rs [p] s
       | _ \<Rightarrow> dispatched pending sent alive (routed aw chans) c_in c_out ms0 rs [] s)
    (dispatched pending sent alive (routed aw chans) c_in c_out ms0 rs [])"
  (is "hoare ?I _ ?Q _")
  unfolding receive_helper_def
proof (rule hoare_bind [where R = ?Q], rule hoare_on_in)
  fix out :: 'o and env :: 'e
  let ?s = "\<lambda>x. \<lparr>rl_in = x, rl_out = out, rl_env = env\<rparr>"
  let ?A = "\<lambda>f ms. sent alive f out \<and> ms0 = rs @ ms
    \<and> (\<forall>c. subseq (f c) (map (from_signal c_out) (filter (\<lambda>sig. routed aw chans sig c) (core_signals c_in rs)))
      \<and> (alive \<longrightarrow> f c = map (from_signal c_out) (filter (\<lambda>sig. routed aw chans sig c) (core_signals c_in rs))))"
  have pre: "(\<lambda>x. ?I (?s x)) = (\<lambda>x. \<exists>f ms. ?A f ms \<and> pending (\<lambda>_. ms) x)"
    unfolding dispatched_def by auto
  have "hoare (\<lambda>x. ?A f ms \<and> pending (\<lambda>_. ms) x) (pr_receive rx d) (\<lambda>r x. ?Q r (?s x)) (\<lambda>x. ?I (?s x))" for f ms
  proof (rule hoare_assume, rule hoare_conseq [OF receive])
    fix r :: "error + 'p option" and x
    assume A: "?A f ms" and took: "took pending (\<lambda>_. ms) r x"
    show "?Q r (?s x)"
    proof (cases "\<exists>p. r = Inr (Some p)")
      case True
      then obtain p where r: "r = Inr (Some p)" ..
      with took obtain k rest where "ms = p # rest" "pending ((\<lambda>_. ms)(k := rest)) x" by (auto simp: took_def)
      moreover have "(\<lambda>_ :: unit. ms)(k := rest) = (\<lambda>_. rest)" by (simp add: fun_eq_iff)
      ultimately have "dispatched pending sent alive (routed aw chans) c_in c_out ms0 rs [p] (?s x)"
        unfolding dispatched_def using A by (intro exI [of _ rest] exI [of _ f]) simp
      with r show ?thesis by simp
    next
      case False
      with took have "pending (\<lambda>_. ms) x" by (auto simp: took_def split: sum.splits option.splits)
      with A have "?I (?s x)" unfolding dispatched_def by auto
      with False show ?thesis by (auto split: sum.splits option.splits)
    qed
  qed (unfold dispatched_def, auto)
  then show "hoare (\<lambda>x. ?I (?s x)) (pr_receive rx d) (\<lambda>r x. ?Q r (?s x)) (\<lambda>x. ?I (?s x))"
    unfolding pre by (intro hoare_exists)
next
  show "hoare (?Q r) (io_return (case r of Inl (EIo ConnectionReset _) \<Rightarrow> Inl (EIo ConnectionReset ''connection reset'')
      | other \<Rightarrow> other)) ?Q ?I" for r
    by (rule hoare_return) (auto split: sum.splits error.splits io_error_kind.splits option.splits)
qed

lemma forward_dispatched:
  assumes "try_into_signal c_in p = Inr sig"
  shows "hoare (dispatched pending sent alive (routed aw chans) c_in c_out ms0 rs [p] :: ('i, 'o, 'e) relay \<Rightarrow> bool) (forward_local aw c_out tx sig)
    (\<lambda>_. dispatched pending sent alive (routed aw chans) c_in c_out ms0 (rs @ [p]) [])
    (partly_dispatched pending sent alive (routed aw chans) c_in c_out ms0)"
proof -
  let ?w = "from_signal c_out"
  let ?exp = "\<lambda>rs c. map ?w (filter (\<lambda>sig. routed aw chans sig c) (core_signals c_in rs))"
  have exp: "?exp (rs @ [p]) c = ?exp rs c @ (if routed aw chans sig c then [?w sig] else [])" for c
    using assms by (simp add: core_signals_def)
  have ext: "subseq (f' c) (?exp (rs @ [p]) c) \<and> (alive \<longrightarrow> f' c = ?exp rs c \<or> f' c = ?exp (rs @ [p]) c)
      \<and> (alive \<and> full \<longrightarrow> f' c = ?exp (rs @ [p]) c)"
    if "extended full (routed aw chans sig) (?w sig) f f'"
      "\<forall>c. subseq (f c) (?exp rs c) \<and> (alive \<longrightarrow> f c = ?exp rs c)" for full f f' c
  proof -
    from that(1) have "f' c = f c \<or> routed aw chans sig c \<and> f' c = f c @ [?w sig]"
      and "full \<longrightarrow> routed aw chans sig c \<longrightarrow> f' c = f c @ [?w sig]" by (simp_all add: extended_def)
    with that(2) show ?thesis
      unfolding exp by (cases "routed aw chans sig c") (auto intro: list_emb_append_mono list_emb_prefix)
  qed
  have pre: "(dispatched pending sent alive (routed aw chans) c_in c_out ms0 rs [p] :: ('i, 'o, 'e) relay \<Rightarrow> bool)
      = (\<lambda>s. \<exists>ms f. (ms0 = rs @ [p] @ ms \<and> (\<forall>c. subseq (f c) (?exp rs c) \<and> (alive \<longrightarrow> f c = ?exp rs c)))
          \<and> pending (\<lambda>_. ms) (rl_in s) \<and> sent alive f (rl_out s))"
    unfolding dispatched_def by (auto intro!: ext)
  show ?thesis unfolding pre
  proof (intro hoare_exists hoare_assume)
    fix ms f
    assume A: "ms0 = rs @ [p] @ ms \<and> (\<forall>c. subseq (f c) (?exp rs c) \<and> (alive \<longrightarrow> f c = ?exp rs c))"
    show "hoare (\<lambda>s. pending (\<lambda>_. ms) (rl_in s) \<and> sent alive f (rl_out s)) (forward_local aw c_out tx sig)
      (\<lambda>_ s :: ('i, 'o, 'e) relay. dispatched pending sent alive (routed aw chans) c_in c_out ms0 (rs @ [p]) [] s)
      (partly_dispatched pending sent alive (routed aw chans) c_in c_out ms0)"
    proof (rule hoare_conseq [OF forward_local_hoare])
      fix s :: "('i, 'o, 'e) relay"
      assume "pending (\<lambda>_. ms) (rl_in s) \<and> (\<exists>f'. sent alive f' (rl_out s)
        \<and> extended alive (routed aw chans sig) (?w sig) f f')"
      then obtain f' where f': "pending (\<lambda>_. ms) (rl_in s)" "sent alive f' (rl_out s)"
        "extended alive (routed aw chans sig) (?w sig) f f'" by blast
      from f' ext [OF f'(3)] A
      show "dispatched pending sent alive (routed aw chans) c_in c_out ms0 (rs @ [p]) [] s"
        unfolding dispatched_def by (intro exI [of _ ms] exI [of _ f']) simp
    next
      fix s :: "('i, 'o, 'e) relay"
      assume "pending (\<lambda>_. ms) (rl_in s) \<and> (\<exists>f'. sent alive f' (rl_out s)
        \<and> extended False (routed aw chans sig) (?w sig) f f')"
      then obtain f' where f': "pending (\<lambda>_. ms) (rl_in s)" "sent alive f' (rl_out s)"
        "extended False (routed aw chans sig) (?w sig) f f'" by blast
      from f' ext [OF f'(3)] A
      show "partly_dispatched pending sent alive (routed aw chans) c_in c_out ms0 s"
        unfolding partly_dispatched_def Let_def
        by (intro exI [of _ rs] exI [of _ "[p]"] exI [of _ ms] exI [of _ f']) simp
    qed simp
  qed
qed

lemma secondary_receive_dispatches:
  fixes s :: "('i, 'o, 'e) relay"
  assumes "pending (\<lambda>_. ms0) (rl_in s)" "sent alive (\<lambda>_. []) (rl_out s)"
    "relay_loop n (secondary_receive_step aw c_in c_out rx tx timeout) s = (r, s')"
  shows "partly_dispatched pending sent alive (routed aw chans) c_in c_out ms0 s'
    \<and> (r = Ret () \<longrightarrow> (\<exists>rs. dispatched pending sent alive (routed aw chans) c_in c_out ms0 rs [] s'))"
proof -
  define I where "I = (\<lambda>s :: ('i, 'o, 'e) relay. \<exists>rs. dispatched pending sent alive (routed aw chans) c_in c_out ms0 rs [] s)"
  define E where "E = (\<lambda>s :: ('i, 'o, 'e) relay. partly_dispatched pending sent alive (routed aw chans) c_in c_out ms0 s)"
  have IE: "I s \<Longrightarrow> E s" for s by (auto simp: I_def E_def intro: dispatched_partly)
  have "hoare (dispatched pending sent alive (routed aw chans) c_in c_out ms0 rs [])
      (secondary_receive_step aw c_in c_out rx tx timeout) (\<lambda>_. I) E" for rs
    unfolding secondary_receive_step_def
  proof (rule hoare_bind)
    let ?D = "dispatched pending sent alive (routed aw chans) c_in c_out ms0"
    let ?R = "\<lambda>r s :: ('i, 'o, 'e) relay. case r of Inr (Some p) \<Rightarrow> ?D rs [p] s | _ \<Rightarrow> I s"
    show "hoare (?D rs []) (receive_helper rx timeout) ?R E"
      by (rule hoare_conseq [OF receive_helper_dispatched])
        (auto simp: I_def E_def dispatched_partly split: sum.splits option.splits)
    show "hoare (?R r) (case r of Inl e \<Rightarrow> io_return (Some ()) | Inr None \<Rightarrow> io_return None
        | Inr (Some p) \<Rightarrow> case try_into_signal c_in p of Inl _ \<Rightarrow> io_return None
            | Inr sig \<Rightarrow> io_bind (forward_local aw c_out tx sig) (\<lambda>_. io_return None)) (\<lambda>_. I) E" for r
    proof (cases "\<exists>p. r = Inr (Some p)")
      case False
      then show ?thesis by (cases r) (auto intro!: hoare_return split: option.splits)
    next
      case True
      then obtain p where r: "r = Inr (Some p)" ..
      show ?thesis
      proof (cases "try_into_signal c_in p")
        case (Inl e)
        with r show ?thesis by (auto simp: I_def intro!: hoare_return skip_dispatched)
      next
        case (Inr sig)
        have "hoare (?D rs [p]) (io_bind (forward_local aw c_out tx sig) (\<lambda>_. io_return None)) (\<lambda>_. I) E"
          by (rule hoare_bind [OF hoare_conseq [OF forward_dispatched [OF Inr]]], assumption, assumption)
            (auto simp: I_def E_def intro!: hoare_return)
        with r Inr show ?thesis by simp
      qed
    qed
  qed
  then have "hoare I (secondary_receive_step aw c_in c_out rx tx timeout) (\<lambda>_. I) E"
    unfolding I_def by (intro hoare_exists)
  then have loop: "hoare I (relay_loop n (secondary_receive_step aw c_in c_out rx tx timeout)) (\<lambda>_. I) E"
    by (intro relay_loop_hoare [OF hoare_post] IE, assumption) (auto split: option.splits)
  have I: "I s"
    unfolding I_def dispatched_def
    by (rule exI [of _ "[]"], rule exI [of _ ms0], rule exI [of _ "\<lambda>_. []"])
      (use assms(1,2) in \<open>simp add: core_signals_def\<close>)
  from hoare_outcome [OF loop I assms(3)] IE have "E s' \<and> (r = Ret () \<longrightarrow> I s')" by (cases r) simp_all
  then show ?thesis unfolding I_def E_def .
qed

end

end
