(* ===== verification/Feo_Relay_Endpoints.thy ===== *)
theory Feo_Relay_Endpoints
  imports Feo_Relays
begin

text \<open>
  The endpoints of relayed signalling (\<open>relayed/sockets/endpoint.rs\<close>, \<open>relayed/mpsc/endpoint.rs\<close>) and
  the connectors built from them (\<open>relayed/sockets_mpsc.rs\<close>): sockets between processes, channels
  within one. Each endpoint is shown to keep its contract of \<open>Feo_Relays\<close>, which carries the lemmas
  about the relays over to the code's endpoints.
\<close>

section \<open>Conversions of signals\<close>

definition socket_conversion :: "protocol_signal signal_conversion" where
  "socket_conversion =
    \<lparr>from_signal = Core,
     try_into_signal = (\<lambda>p. case p of Core sig \<Rightarrow> Inr sig | _ \<Rightarrow> Inl EUnexpectedProtocolSignal)\<rparr>"

definition mpsc_conversion :: "mpsc_signal signal_conversion" where
  "mpsc_conversion =
    \<lparr>from_signal = MCore,
     try_into_signal = (\<lambda>p. case p of MCore sig \<Rightarrow> Inr sig | MConnect _ \<Rightarrow> Inl EUnexpectedProtocolSignal)\<rparr>"

locale conversion =
  fixes conv :: "'p signal_conversion"
  assumes try_into_from: "try_into_signal conv (from_signal conv sig) = Inr sig"
begin

lemma core_signals_from: "core_signals conv (map (from_signal conv) sigs) = sigs"
  by (induction sigs) (simp_all add: core_signals_def try_into_from)

end

interpretation socket_conv: conversion socket_conversion
  by unfold_locales (simp add: socket_conversion_def)

interpretation mpsc_conv: conversion mpsc_conversion
  by unfold_locales (simp add: mpsc_conversion_def)

section \<open>Socket endpoints\<close>

text \<open>
  \<open>ProtocolEndpoint\<close> is a client with one channel, sender or receiver; \<open>se_attempts\<close> and \<open>se_polls\<close>
  stand for its address.
\<close>

record 'e socket_endpoint =
  se_channel_id :: channel_id
  se_attempts :: "(io_error_kind + stream) list"
  se_polls :: "poll_result list"
  se_client :: "client option"
  se_env :: 'e

definition socket_endpoint_new ::
  "(io_error_kind + stream) list \<Rightarrow> poll_result list \<Rightarrow> channel_id \<Rightarrow> 'e \<Rightarrow> 'e socket_endpoint" where
  "socket_endpoint_new attempts polls channel env =
    \<lparr>se_channel_id = channel, se_attempts = attempts, se_polls = polls, se_client = None, se_env = env\<rparr>"

definition se_io :: "(client, 'a) io \<Rightarrow> ('e socket_endpoint, 'a) io" where
  "se_io m s =
    (case se_client s of
       None \<Rightarrow> (Panic, s)
     | Some c \<Rightarrow> (case m c of (r, c') \<Rightarrow> (r, s\<lparr>se_client := Some c'\<rparr>)))"

definition se_clock :: "('e, 'a) io \<Rightarrow> ('e socket_endpoint, 'a) io" where
  "se_clock = io_zoom se_env (\<lambda>x s. s\<lparr>se_env := x\<rparr>)"

definition endpoint_send :: "protocol_signal \<Rightarrow> ('e socket_endpoint, error + unit) io" where
  "endpoint_send m = se_io (client_send m)"

fun endpoint_receive_loop ::
  "nat \<Rightarrow> 'e platform \<Rightarrow> instant \<Rightarrow> duration \<Rightarrow> duration
    \<Rightarrow> ('e socket_endpoint, error + protocol_signal option) io"
where
  "endpoint_receive_loop 0 pf start timeout elapsed =
    (if timeout < elapsed then io_return (Inr None) else io_hang)"
| "endpoint_receive_loop (Suc n) pf start timeout elapsed =
    (if timeout < elapsed then io_return (Inr None)
     else io_try (se_io client_receive) (\<lambda>r.
       case r of
         Some m \<Rightarrow> io_return (Inr (Some m))
       | None \<Rightarrow> io_bind (se_clock (pf_elapsed pf start)) (\<lambda>e. endpoint_receive_loop n pf start timeout e)))"

definition endpoint_receive ::
  "nat \<Rightarrow> 'e platform \<Rightarrow> duration \<Rightarrow> ('e socket_endpoint, error + protocol_signal option) io" where
  "endpoint_receive n pf timeout =
    io_bind (se_clock (pf_now pf)) (\<lambda>start. endpoint_receive_loop n pf start timeout 0)"

definition endpoint_connect :: "duration \<Rightarrow> ('e socket_endpoint, error + unit) io" where
  "endpoint_connect timeout =
    io_bind io_get (\<lambda>s.
    io_bind (io_lift (client_connect [ChannelHello (se_channel_id s)] (se_attempts s) (se_polls s))) (\<lambda>c.
    io_bind (io_modify (\<lambda>s. s\<lparr>se_client := Some c\<rparr>)) (\<lambda>_. io_return (Inr ()))))"

definition socket_sender :: "('e socket_endpoint, protocol_signal) protocol_send" where
  "socket_sender = \<lparr>ps_send = endpoint_send, ps_connect_receiver = endpoint_connect\<rparr>"

definition socket_receiver :: "nat \<Rightarrow> 'e platform \<Rightarrow> ('e socket_endpoint, protocol_signal) protocol_recv" where
  "socket_receiver n pf = \<lparr>pr_receive = endpoint_receive n pf, pr_connect_sender = endpoint_connect\<rparr>"

text \<open>
  \<open>ProtocolMultiEndpoint\<close> is a server with a channel per peer; \<open>sm_address\<close> is the server that
  binding its address creates.
\<close>

record 'e socket_multi_endpoint =
  sm_channel_ids :: "channel_id list"
  sm_tokens :: "(channel_id \<times> token) list"
  sm_address :: server
  sm_server :: "server option"
  sm_env :: 'e

definition socket_multi_new :: "channel_id list \<Rightarrow> server \<Rightarrow> 'e \<Rightarrow> 'e socket_multi_endpoint" where
  "socket_multi_new ids address env =
    \<lparr>sm_channel_ids = remdups ids, sm_tokens = [], sm_address = address, sm_server = None, sm_env = env\<rparr>"

definition sm_io :: "(server, 'a) io \<Rightarrow> ('e socket_multi_endpoint, 'a) io" where
  "sm_io m s =
    (case sm_server s of
       None \<Rightarrow> (Panic, s)
     | Some sv \<Rightarrow> (case m sv of (r, sv') \<Rightarrow> (r, s\<lparr>sm_server := Some sv'\<rparr>)))"

definition sm_clock :: "('e, 'a) io \<Rightarrow> ('e socket_multi_endpoint, 'a) io" where
  "sm_clock = io_zoom sm_env (\<lambda>x s. s\<lparr>sm_env := x\<rparr>)"

fun multi_connect_loop ::
  "nat \<Rightarrow> 'e platform \<Rightarrow> instant \<Rightarrow> channel_id list \<Rightarrow> ('e socket_multi_endpoint, error + unit) io"
where
  "multi_connect_loop 0 pf deadline missing = (if missing = [] then io_return (Inr ()) else io_hang)"
| "multi_connect_loop (Suc n) pf deadline missing =
    (if missing = [] then io_return (Inr ())
     else io_bind (sm_clock (pf_now pf)) (\<lambda>now.
       if saturating_duration_since deadline now = 0 then io_return (Inl (EIo TimedOut ''CONNECTION_TIMEOUT''))
       else io_bind (sm_io server_receive) (\<lambda>r.
         case r of
           Inr (Some (t, ChannelHello c)) \<Rightarrow>
             io_bind (io_modify (\<lambda>s. s\<lparr>sm_tokens := AList.update c t (sm_tokens s)\<rparr>)) (\<lambda>_.
             multi_connect_loop n pf deadline (removeAll c missing))
         | _ \<Rightarrow> multi_connect_loop n pf deadline missing)))"

definition multi_connect :: "nat \<Rightarrow> 'e platform \<Rightarrow> duration \<Rightarrow> ('e socket_multi_endpoint, error + unit) io" where
  "multi_connect n pf timeout =
    io_bind io_get (\<lambda>s.
    if sm_server s \<noteq> None then io_panic
    else io_bind (io_modify (\<lambda>s. s\<lparr>sm_server := Some (sm_address s)\<rparr>)) (\<lambda>_.
      io_bind (sm_clock (pf_now pf)) (\<lambda>now.
      io_bind (io_lift (instant_add now timeout)) (\<lambda>deadline.
      multi_connect_loop n pf deadline (sm_channel_ids s)))))"

fun multi_receive_loop ::
  "nat \<Rightarrow> 'e platform \<Rightarrow> instant \<Rightarrow> duration \<Rightarrow> duration
    \<Rightarrow> ('e socket_multi_endpoint, error + protocol_signal option) io"
where
  "multi_receive_loop 0 pf start timeout elapsed =
    (if timeout < elapsed then io_return (Inr None) else io_hang)"
| "multi_receive_loop (Suc n) pf start timeout elapsed =
    (if timeout < elapsed then io_return (Inr None)
     else io_try (sm_io server_receive) (\<lambda>r.
       case r of
         Some (t, m) \<Rightarrow> io_return (Inr (Some m))
       | None \<Rightarrow> io_bind (sm_clock (pf_elapsed pf start)) (\<lambda>e. multi_receive_loop n pf start timeout e)))"

definition multi_receive ::
  "nat \<Rightarrow> 'e platform \<Rightarrow> duration \<Rightarrow> ('e socket_multi_endpoint, error + protocol_signal option) io" where
  "multi_receive n pf timeout =
    io_bind (sm_clock (pf_now pf)) (\<lambda>start. multi_receive_loop n pf start timeout 0)"

definition multi_send :: "channel_id \<Rightarrow> protocol_signal \<Rightarrow> ('e socket_multi_endpoint, error + unit) io" where
  "multi_send c m =
    io_bind (io_gets sm_tokens) (\<lambda>tokens.
    io_bind (io_expect (map_of tokens c)) (\<lambda>t.
    io_bind (sm_io (server_send t m)) (\<lambda>r.
    io_return (case r of Inl k \<Rightarrow> Inl (error_from_io k) | Inr u \<Rightarrow> Inr u))))"

definition multi_broadcast :: "protocol_signal \<Rightarrow> ('e socket_multi_endpoint, error + unit) io" where
  "multi_broadcast m =
    io_bind io_get (\<lambda>s.
    if sm_server s = None then io_panic
    else io_bind (io_for (map snd (sm_tokens s)) (\<lambda>t. io_bind (sm_io (server_send t m)) (\<lambda>_. io_return ()))) (\<lambda>_.
      io_return (Inr ())))"

definition socket_multi_receiver ::
  "nat \<Rightarrow> 'e platform \<Rightarrow> ('e socket_multi_endpoint, protocol_signal) protocol_multi_recv" where
  "socket_multi_receiver n pf = \<lparr>mr_receive = multi_receive n pf, mr_connect_senders = multi_connect n pf\<rparr>"

definition socket_multi_sender ::
  "nat \<Rightarrow> 'e platform \<Rightarrow> ('e socket_multi_endpoint, protocol_signal) protocol_multi_send" where
  "socket_multi_sender n pf =
    \<lparr>mx_send = multi_send, mx_broadcast = multi_broadcast, mx_connect_receivers = multi_connect n pf\<rparr>"

section \<open>Channel endpoints\<close>

definition mpsc_sender :: "channel_id \<Rightarrow> (mpsc_signal channel, mpsc_signal) protocol_send" where
  "mpsc_sender self = \<lparr>ps_send = protocol_sender_send, ps_connect_receiver = (\<lambda>_. connect_receiver self)\<rparr>"

record 'e mpsc_multi_receiver =
  mm_channel_ids :: "channel_id list"
  mm_connected :: bool
  mm_channel :: "mpsc_signal channel"
  mm_env :: 'e

definition mpsc_multi_receiver_new :: "channel_id list \<Rightarrow> 'e \<Rightarrow> 'e mpsc_multi_receiver" where
  "mpsc_multi_receiver_new ids env =
    \<lparr>mm_channel_ids = remdups ids, mm_connected = False, mm_channel = new_channel, mm_env = env\<rparr>"

definition mm_io :: "(mpsc_signal channel, 'a) io \<Rightarrow> ('e mpsc_multi_receiver, 'a) io" where
  "mm_io = io_zoom mm_channel (\<lambda>x s. s\<lparr>mm_channel := x\<rparr>)"

definition mm_clock :: "('e, 'a) io \<Rightarrow> ('e mpsc_multi_receiver, 'a) io" where
  "mm_clock = io_zoom mm_env (\<lambda>x s. s\<lparr>mm_env := x\<rparr>)"

definition mpsc_multi_recv ::
  "nat \<Rightarrow> 'e platform \<Rightarrow> ('e mpsc_multi_receiver, mpsc_signal) protocol_multi_recv" where
  "mpsc_multi_recv n pf =
    \<lparr>mr_receive = (\<lambda>d.
       io_bind (io_gets mm_connected) (\<lambda>connected. mm_io (multi_receiver_receive connected d))),
     mr_connect_senders = (\<lambda>timeout.
       io_bind (io_gets mm_channel_ids) (\<lambda>ids.
       io_bind (mm_clock (pf_now pf)) (\<lambda>start.
       io_try (connect_senders n (mm_clock (pf_elapsed pf start)) (\<lambda>d. mm_io (chan_receive d)) ids timeout ids)
         (\<lambda>_. io_bind (io_modify (\<lambda>s. s\<lparr>mm_connected := True\<rparr>)) (\<lambda>_. io_return (Inr ()))))))\<rparr>"

definition mpsc_multi_sender :: "(mpsc_channels, mpsc_signal) protocol_multi_send" where
  "mpsc_multi_sender =
    \<lparr>mx_send = multi_sender_send, mx_broadcast = broadcast, mx_connect_receivers = (\<lambda>_. connect_receivers)\<rparr>"

section \<open>The endpoints keep their contracts\<close>

text \<open>A client with the signals still to come on its connection.\<close>

definition client_pending :: "(unit \<Rightarrow> protocol_signal list) \<Rightarrow> client \<Rightarrow> bool" where
  "client_pending ms c \<longleftrightarrow> frame_inv encode wire_ok (ms ()) (cl_connection c)"

lemma client_read_took:
  "hoare (client_pending ms) client_read (\<lambda>r s. took client_pending ms r s \<and> isl r = False) (client_pending ms)"
proof (rule hoareI)
  fix s :: client
  assume "client_pending ms s"
  then have inv: "frame_inv encode wire_ok (ms ()) (cl_connection s)" by (simp add: client_pending_def)
  show "case client_read s of (Ret r, s') \<Rightarrow> took client_pending ms r s' \<and> isl r = False
      | (Panic, s') \<Rightarrow> client_pending ms s' | (Hang, s') \<Rightarrow> client_pending ms s'"
  proof (cases "is_readable (cl_connection s)")
    case False
    with inv show ?thesis by (simp add: client_read_def io_defs took_def client_pending_def)
  next
    case True
    from inv small_messages show ?thesis
    proof (cases rule: wire.connection_read_frame)
      case (got m rest c')
      with True show ?thesis
        by (auto simp: client_read_def io_defs cl_io_def took_def client_pending_def)
    next
      case (idle c')
      with True show ?thesis
        by (simp add: client_read_def io_defs cl_io_def took_def client_pending_def)
    qed
  qed
qed

lemma took_Inl: "took pending ms (Inl e) s = pending ms s"
  and took_None: "took pending ms (Inr None) s = pending ms s"
  by (simp_all add: took_def)

lemma client_poll_pending: "hoare (client_pending ms) client_poll (\<lambda>_. client_pending ms) (client_pending ms)"
  by (rule hoareI) (auto simp: client_poll_def client_pending_def split: list.split poll_result.split)

lemma client_receive_took:
  "hoare (client_pending ms) client_receive (took client_pending ms) (client_pending ms)"
  unfolding client_receive_def
proof (rule hoare_try)
  show "hoare (client_pending ms) client_read
      (\<lambda>r s. case r of Inl e \<Rightarrow> took client_pending ms (Inl e) s | Inr a \<Rightarrow> took client_pending ms (Inr a) s)
      (client_pending ms)"
    by (rule hoare_post [OF client_read_took]) (auto split: sum.split)
  fix r :: "protocol_signal option"
  have mark: "hoare (client_pending ms) (io_for events (\<lambda>t. io_modify (\<lambda>s.
      if t = client_token then s\<lparr>cl_connection := set_stream_readable (cl_connection s)\<rparr> else s)))
      (\<lambda>_. client_pending ms) (client_pending ms)" for events
    by (intro hoare_for hoare_modify) (auto simp: client_pending_def frame_inv_readable)
  have "hoare (client_pending ms) client_read (took client_pending ms) (client_pending ms)"
    by (rule hoare_post [OF client_read_took]) simp
  with mark have rest: "hoare (client_pending ms) (io_bind client_poll (\<lambda>events.
      io_bind (io_for events (\<lambda>t. io_modify (\<lambda>s.
        if t = client_token then s\<lparr>cl_connection := set_stream_readable (cl_connection s)\<rparr> else s)))
      (\<lambda>_. client_read))) (took client_pending ms) (client_pending ms)"
    by (intro hoare_bind [OF client_poll_pending] hoare_bind [OF mark])
  show "hoare (took client_pending ms (Inr r)) (case r of Some m \<Rightarrow> io_return (Inr (Some m))
      | None \<Rightarrow> io_bind client_poll (\<lambda>events. io_bind (io_for events (\<lambda>t. io_modify (\<lambda>s.
          if t = client_token then s\<lparr>cl_connection := set_stream_readable (cl_connection s)\<rparr> else s)))
        (\<lambda>_. client_read))) (took client_pending ms) (client_pending ms)"
  proof (cases r)
    case None
    with rest show ?thesis by (simp add: took_None [abs_def])
  qed (simp add: hoare_return)
qed

text \<open>A receive loop over a part of the state keeps what one receive of that part promises.\<close>

definition se_pending :: "(unit \<Rightarrow> protocol_signal list) \<Rightarrow> 'e socket_endpoint \<Rightarrow> bool" where
  "se_pending ms s \<longleftrightarrow> (\<exists>c. se_client s = Some c \<and> client_pending ms c)"

definition sm_pending :: "(token \<Rightarrow> protocol_signal list) \<Rightarrow> 'e socket_multi_endpoint \<Rightarrow> bool" where
  "sm_pending ms s \<longleftrightarrow> (\<exists>sv. sm_server s = Some sv \<and> server_inv ms sv)"

lemma se_io_took:
  "hoare (se_pending ms :: 'e socket_endpoint \<Rightarrow> bool) (se_io client_receive) (took se_pending ms) (se_pending ms)"
proof (rule hoareI)
  fix s :: "'e socket_endpoint"
  assume "se_pending ms s"
  then obtain c where c: "se_client s = Some c" "client_pending ms c" by (auto simp: se_pending_def)
  obtain r c' where run: "client_receive c = (r, c')" by fastforce
  from hoare_outcome [OF client_receive_took c(2) run]
  have "case r of Ret a \<Rightarrow> took client_pending ms a c' | Panic \<Rightarrow> client_pending ms c' | Hang \<Rightarrow> client_pending ms c'" .
  with c(1) run show "case se_io client_receive s of (Ret a, s') \<Rightarrow> took se_pending ms a s'
      | (Panic, s') \<Rightarrow> se_pending ms s' | (Hang, s') \<Rightarrow> se_pending ms s'"
    by (auto simp: se_io_def se_pending_def took_def split: outcome.splits sum.splits option.splits)
qed

lemma sm_io_took:
  "hoare (sm_pending ms :: 'e socket_multi_endpoint \<Rightarrow> bool) (sm_io server_receive)
    (\<lambda>r. took sm_pending ms (case r of Inl e \<Rightarrow> Inl e | Inr p \<Rightarrow> Inr (map_option snd p))) (sm_pending ms)"
proof (rule hoareI)
  fix s :: "'e socket_multi_endpoint"
  assume "sm_pending ms s"
  then obtain sv where sv: "sm_server s = Some sv" "server_inv ms sv" by (auto simp: sm_pending_def)
  obtain r sv' where run: "server_receive sv = (r, sv')" by fastforce
  from hoare_outcome [OF server_receive_inv sv(2) run]
  have "case r of Ret a \<Rightarrow> delivered ms a sv' | Panic \<Rightarrow> False | Hang \<Rightarrow> False" .
  with sv(1) run show "case sm_io server_receive s of
        (Ret a, s') \<Rightarrow> took sm_pending ms (case a of Inl e \<Rightarrow> Inl e | Inr p \<Rightarrow> Inr (map_option snd p)) s'
      | (Panic, s') \<Rightarrow> sm_pending ms s' | (Hang, s') \<Rightarrow> sm_pending ms s'"
    by (auto simp: sm_io_def sm_pending_def took_def delivered_def split: outcome.splits sum.splits option.splits)
qed

lemma se_clock_pending: "hoare (se_pending ms) (se_clock m) (\<lambda>_. se_pending ms) (se_pending ms)"
  by (rule hoareI) (auto simp: se_clock_def io_zoom_def se_pending_def split: prod.splits outcome.splits)

lemma sm_clock_pending: "hoare (sm_pending ms) (sm_clock m) (\<lambda>_. sm_pending ms) (sm_pending ms)"
  by (rule hoareI) (auto simp: sm_clock_def io_zoom_def sm_pending_def split: prod.splits outcome.splits)

lemma endpoint_receive_loop_took:
  "hoare (se_pending ms) (endpoint_receive_loop n pf start timeout elapsed) (took se_pending ms) (se_pending ms)"
proof (induction n arbitrary: elapsed)
  case 0
  show ?case unfolding endpoint_receive_loop.simps
    by (intro hoare_if hoare_return hoare_hang) (simp_all add: took_None)
next
  case (Suc n)
  have "hoare (took se_pending ms (Inr r)) (case r of Some m \<Rightarrow> io_return (Inr (Some m))
      | None \<Rightarrow> io_bind (se_clock (pf_elapsed pf start)) (\<lambda>e. endpoint_receive_loop n pf start timeout e))
      (took se_pending ms) (se_pending ms)" for r
    by (cases r) (auto simp: took_None [abs_def] intro: hoare_return hoare_bind [OF se_clock_pending Suc.IH])
  moreover have "hoare (se_pending ms) (se_io client_receive)
      (\<lambda>r s. case r of Inl e \<Rightarrow> took se_pending ms (Inl e) s | Inr a \<Rightarrow> took se_pending ms (Inr a) s) (se_pending ms)"
    by (rule hoare_post [OF se_io_took]) (auto split: sum.split)
  ultimately show ?case unfolding endpoint_receive_loop.simps
    by (intro hoare_if hoare_return hoare_try) (simp_all add: took_None)
qed

lemma multi_receive_loop_took:
  "hoare (sm_pending ms) (multi_receive_loop n pf start timeout elapsed) (took sm_pending ms) (sm_pending ms)"
proof (induction n arbitrary: elapsed)
  case 0
  show ?case unfolding multi_receive_loop.simps
    by (intro hoare_if hoare_return hoare_hang) (simp_all add: took_None)
next
  case (Suc n)
  have "hoare (took sm_pending ms (Inr (map_option snd r))) (case r of Some (t, m) \<Rightarrow> io_return (Inr (Some m))
      | None \<Rightarrow> io_bind (sm_clock (pf_elapsed pf start)) (\<lambda>e. multi_receive_loop n pf start timeout e))
      (took sm_pending ms) (sm_pending ms)" for r :: "(token \<times> protocol_signal) option"
    by (cases r) (auto simp: took_None [abs_def] intro: hoare_return hoare_bind [OF sm_clock_pending Suc.IH])
  moreover have "hoare (sm_pending ms) (sm_io server_receive)
      (\<lambda>r s. case r of Inl e \<Rightarrow> took sm_pending ms (Inl e) s
         | Inr a \<Rightarrow> took sm_pending ms (Inr (map_option snd a)) s) (sm_pending ms)"
    by (rule hoare_post [OF sm_io_took]) (auto split: sum.splits)
  ultimately show ?case unfolding multi_receive_loop.simps
    by (intro hoare_if hoare_return hoare_try) (simp_all add: took_None)
qed

interpretation socket_rx: source "pr_receive (socket_receiver n pf)" se_pending
  for n :: nat and pf :: "'e platform"
proof
  fix ms d
  show "hoare (se_pending ms) (pr_receive (socket_receiver n pf) d) (took se_pending ms) (se_pending ms)"
    unfolding socket_receiver_def endpoint_receive_def protocol_recv.simps
    by (rule hoare_bind [OF se_clock_pending endpoint_receive_loop_took])
qed

interpretation socket_multi_rx: source "mr_receive (socket_multi_receiver n pf)" sm_pending
  for n :: nat and pf :: "'e platform"
proof
  fix ms d
  show "hoare (sm_pending ms) (mr_receive (socket_multi_receiver n pf) d) (took sm_pending ms) (sm_pending ms)"
    unfolding socket_multi_receiver_def multi_receive_def protocol_multi_recv.simps
    by (rule hoare_bind [OF sm_clock_pending multi_receive_loop_took])
qed

definition mm_pending :: "(unit \<Rightarrow> mpsc_signal list) \<Rightarrow> 'e mpsc_multi_receiver \<Rightarrow> bool" where
  "mm_pending ms s \<longleftrightarrow> ch_queue (mm_channel s) = ms ()"

interpretation mpsc_multi_rx: source "mr_receive (mpsc_multi_recv n pf)" mm_pending
  for n :: nat and pf :: "'e platform"
proof
  fix ms d
  show "hoare (mm_pending ms) (mr_receive (mpsc_multi_recv n pf) d) (took mm_pending ms) (mm_pending ms)"
    by (rule hoareI)
      (auto simp: mpsc_multi_recv_def mm_pending_def took_def io_defs mm_io_def multi_receiver_receive_def
        chan_receive_def split: list.splits)
qed

text \<open>What a sink has taken, after what it had when the relay was connected.\<close>

definition mpsc_sent :: "mpsc_signal list \<Rightarrow> mpsc_signal list \<Rightarrow> mpsc_signal channel \<Rightarrow> bool" where
  "mpsc_sent before qs c \<longleftrightarrow> ch_queue c = before @ qs"

definition se_sent :: "u8 list \<Rightarrow> protocol_signal list \<Rightarrow> 'e socket_endpoint \<Rightarrow> bool" where
  "se_sent before qs s \<longleftrightarrow> (\<exists>c. se_client s = Some c
    \<and> st_out (c_stream (cl_connection c)) = before @ concat (map encode qs))"

interpretation mpsc_tx: sink "ps_send (mpsc_sender self)" "mpsc_sent before"
  for self :: channel_id and before :: "mpsc_signal list"
proof
  fix qs m
  show "hoare (mpsc_sent before qs) (ps_send (mpsc_sender self) m)
      (\<lambda>r. mpsc_sent before (case r of Inl e \<Rightarrow> qs | Inr u \<Rightarrow> qs @ [m])) (mpsc_sent before qs)"
    by (rule hoareI)
      (simp add: mpsc_sender_def protocol_sender_send_def mpsc_sent_def io_defs chan_send_def)
qed

lemma connection_send_failed:
  "connection_send enc m c = (Ret (Inl e), c') \<Longrightarrow> st_out (c_stream c') = st_out (c_stream c)"
  by (auto simp: connection_send_def stream_write_all_def Let_def split: if_splits option.splits)

lemma connection_send_returns: "\<exists>r c'. connection_send enc m c = (Ret r, c')"
  by (auto simp: connection_send_def Let_def split: prod.splits)

interpretation socket_tx: sink "ps_send socket_sender" "se_sent before"
  for before :: "u8 list"
proof
  fix qs m
  show "hoare (se_sent before qs :: 'e socket_endpoint \<Rightarrow> bool) (ps_send socket_sender m)
      (\<lambda>r. se_sent before (case r of Inl e \<Rightarrow> qs | Inr u \<Rightarrow> qs @ [m])) (se_sent before qs)"
  proof (rule hoareI)
    fix s :: "'e socket_endpoint"
    assume "se_sent before qs s"
    then obtain c where c: "se_client s = Some c"
      "st_out (c_stream (cl_connection c)) = before @ concat (map encode qs)" by (auto simp: se_sent_def)
    from connection_send_returns [of encode m "cl_connection c"] obtain r c' where
      run: "connection_send encode m (cl_connection c) = (Ret r, c')" by blast
    have "st_out (c_stream c') = before @ concat (map encode (case r of Inl e \<Rightarrow> qs | Inr u \<Rightarrow> qs @ [m]))"
    proof (cases r)
      case (Inl e)
      with run connection_send_failed c(2) show ?thesis by fastforce
    next
      case (Inr u)
      with run connection_send_out c(2) show ?thesis by fastforce
    qed
    with c(1) run show "case ps_send socket_sender m s of
        (Ret a, s') \<Rightarrow> se_sent before (case a of Inl e \<Rightarrow> qs | Inr u \<Rightarrow> qs @ [m]) s'
      | (Panic, s') \<Rightarrow> se_sent before qs s' | (Hang, s') \<Rightarrow> se_sent before qs s'"
      by (auto simp: socket_sender_def endpoint_send_def se_io_def client_send_def cl_io_def io_defs se_sent_def
          split: sum.splits)
  qed
qed

text \<open>The senders to the workers: the queue of each channel, and whether all receivers are alive.\<close>

definition mx_sent ::
  "(channel_id \<Rightarrow> mpsc_signal list) \<Rightarrow> channel_id list \<Rightarrow> bool \<Rightarrow> (channel_id \<Rightarrow> mpsc_signal list)
    \<Rightarrow> mpsc_channels \<Rightarrow> bool"
where
  "mx_sent before ids alive f chs \<longleftrightarrow> map fst chs = ids \<and> distinct ids
    \<and> (\<forall>c ch. map_of chs c = Some ch \<longrightarrow> ch_queue ch = before c @ f c \<and> (alive \<longrightarrow> ch_receiver_alive ch))"

lemma on_channel_mx_sent:
  assumes "mx_sent before ids alive f chs" "map_of chs c = Some ch" "chan_send m ch = (r, ch')"
  shows "mx_sent before ids alive (if r = Ret (Inr ()) then f(c := f c @ [m]) else f) (modify_key c (\<lambda>_. ch') chs)"
    and "alive \<Longrightarrow> r = Ret (Inr ()) \<or> r = Hang" and "r \<noteq> Panic" and "c \<in> set ids"
proof -
  have ch: "ch_queue ch = before c @ f c" "alive \<longrightarrow> ch_receiver_alive ch"
    using assms(1,2) by (auto simp: mx_sent_def)
  show "mx_sent before ids alive (if r = Ret (Inr ()) then f(c := f c @ [m]) else f) (modify_key c (\<lambda>_. ch') chs)"
    using assms ch by (auto simp: mx_sent_def chan_send_def split: if_splits)
  show "alive \<Longrightarrow> r = Ret (Inr ()) \<or> r = Hang" "r \<noteq> Panic"
    using assms(3) ch by (auto simp: chan_send_def split: if_splits)
  have "c \<in> fst ` set chs" using assms(2) by (rule map_of_Some_in)
  with assms(1) show "c \<in> set ids" unfolding mx_sent_def by (metis list.set_map)
qed

lemma multi_sender_send_sent:
  "hoare (mx_sent before ids alive f) (multi_sender_send c m)
    (\<lambda>r s. case r of Inr u \<Rightarrow> c \<in> set ids \<and> mx_sent before ids alive (f(c := f c @ [m])) s
       | Inl e \<Rightarrow> mx_sent before ids alive f s \<and> (alive \<longrightarrow> c \<notin> set ids)) (mx_sent before ids alive f)"
proof (rule hoareI)
  fix chs
  assume sent: "mx_sent before ids alive f chs"
  show "case multi_sender_send c m chs of
      (Ret (Inr u), s') \<Rightarrow> c \<in> set ids \<and> mx_sent before ids alive (f(c := f c @ [m])) s'
    | (Ret (Inl e), s') \<Rightarrow> mx_sent before ids alive f s' \<and> (alive \<longrightarrow> c \<notin> set ids)
    | (Panic, s') \<Rightarrow> mx_sent before ids alive f s' | (Hang, s') \<Rightarrow> mx_sent before ids alive f s'"
  proof (cases "map_of chs c")
    case None
    then have "c \<notin> fst ` set chs" by (simp add: map_of_None_iff)
    with sent have "c \<notin> set ids" unfolding mx_sent_def by (metis list.set_map)
    with None sent show ?thesis by (simp add: multi_sender_send_def)
  next
    case (Some ch)
    obtain r ch' where run: "chan_send m ch = (r, ch')" by fastforce
    from on_channel_mx_sent [OF sent Some run] Some run show ?thesis
      by (cases r) (auto simp: multi_sender_send_def on_channel_def protocol_sender_send_def io_bind_def
          io_return_def split: sum.splits)
  qed
qed

text \<open>The loop of \<open>broadcast\<close> has reached the channels before the first one that is closed or full.\<close>

lemma broadcast_loop_sent:
  assumes "distinct todo" "set todo \<subseteq> set ids"
  shows "hoare (mx_sent before ids alive f)
    (io_try_for todo (\<lambda>c. io_bind (on_channel c (chan_send m)) (\<lambda>r. io_return (case r of
        Inl _ \<Rightarrow> Inl (EChannel ''broadcast failed: a channel was closed'') | Inr u \<Rightarrow> Inr u))))
    (\<lambda>r s. \<exists>cs \<subseteq> set todo. mx_sent before ids alive (\<lambda>c. f c @ (if c \<in> cs then [m] else [])) s
       \<and> (alive \<longrightarrow> cs = set todo))
    (\<lambda>s. \<exists>cs \<subseteq> set todo. mx_sent before ids alive (\<lambda>c. f c @ (if c \<in> cs then [m] else [])) s)"
  using assms
proof (induction todo arbitrary: f)
  case Nil
  then show ?case by (auto intro: hoare_return)
next
  case (Cons c todo)
  let ?body = "\<lambda>c. io_bind (on_channel c (chan_send m)) (\<lambda>r. io_return (case r of
        Inl _ \<Rightarrow> Inl (EChannel ''broadcast failed: a channel was closed'') | Inr u \<Rightarrow> Inr u))"
  let ?f = "f(c := f c @ [m])"
  let ?E = "\<lambda>s. \<exists>cs \<subseteq> set (c # todo). mx_sent before ids alive (\<lambda>c. f c @ (if c \<in> cs then [m] else [])) s"
  let ?Q = "\<lambda>r s. \<exists>cs \<subseteq> set (c # todo). mx_sent before ids alive (\<lambda>c. f c @ (if c \<in> cs then [m] else [])) s
       \<and> (alive \<longrightarrow> cs = set (c # todo))"
  have none: "?E s" if "mx_sent before ids alive f s" for s
    using that by (intro exI [of _ "{}"]) simp
  have more: "(\<lambda>x. ?f x @ (if x \<in> cs then [m] else [])) = (\<lambda>x. f x @ (if x \<in> insert c cs then [m] else []))"
    if "cs \<subseteq> set todo" for cs using that Cons.prems(1) by (auto simp: fun_eq_iff)
  have step: "hoare (mx_sent before ids alive f) (?body c)
      (\<lambda>r s. case r of Inl e \<Rightarrow> ?Q (Inl e) s | Inr a \<Rightarrow> mx_sent before ids alive ?f s) ?E"
  proof (rule hoareI)
    fix chs
    assume sent: "mx_sent before ids alive f chs"
    have "c \<in> fst ` set chs" using sent Cons.prems(2) unfolding mx_sent_def by (metis insert_subset list.set(2) list.set_map)
    then obtain ch where ch: "map_of chs c = Some ch" by (metis map_of_None_iff not_Some_eq)
    obtain r ch' where run: "chan_send m ch = (r, ch')" by fastforce
    note facts = on_channel_mx_sent [OF sent ch run]
    show "case ?body c chs of (Ret a, s') \<Rightarrow> (case a of Inl e \<Rightarrow> ?Q (Inl e) s' | Inr a \<Rightarrow> mx_sent before ids alive ?f s')
        | (Panic, s') \<Rightarrow> ?E s' | (Hang, s') \<Rightarrow> ?E s'"
    proof (cases "\<exists>e. r = Ret (Inl e)")
      case True
      then obtain e where r: "r = Ret (Inl e)" ..
      with facts(2) have "\<not> alive" by auto
      with r facts(1) none show ?thesis
        by (auto simp: on_channel_def ch run io_bind_def io_return_def)
    next
      case False
      with facts(1,3) none show ?thesis
        by (cases r) (auto simp: on_channel_def ch run io_bind_def io_return_def split: sum.splits)
    qed
  qed
  have rest: "hoare (mx_sent before ids alive ?f) (io_try_for todo ?body) ?Q ?E"
  proof (rule hoare_conseq [OF Cons.IH])
    fix s
    assume "\<exists>cs \<subseteq> set todo. mx_sent before ids alive (\<lambda>x. ?f x @ (if x \<in> cs then [m] else [])) s
       \<and> (alive \<longrightarrow> cs = set todo)"
    then obtain cs where cs: "cs \<subseteq> set todo" "alive \<longrightarrow> cs = set todo"
      "mx_sent before ids alive (\<lambda>x. ?f x @ (if x \<in> cs then [m] else [])) s" by blast
    then show "?Q r s" for r unfolding more [OF cs(1)] by (intro exI [of _ "insert c cs"]) auto
  next
    fix s
    assume "\<exists>cs \<subseteq> set todo. mx_sent before ids alive (\<lambda>x. ?f x @ (if x \<in> cs then [m] else [])) s"
    then obtain cs where cs: "cs \<subseteq> set todo"
      "mx_sent before ids alive (\<lambda>x. ?f x @ (if x \<in> cs then [m] else [])) s" by blast
    then show "?E s" unfolding more [OF cs(1)] by (intro exI [of _ "insert c cs"]) auto
  qed (use Cons.prems in \<open>auto simp: fun_upd_def\<close>)
  show ?case unfolding io_try_for.simps by (rule hoare_try [OF step rest])
qed

interpretation mpsc_mtx: multi_sink "mx_send mpsc_multi_sender" "mx_broadcast mpsc_multi_sender" "set ids"
    "mx_sent before ids"
  for before :: "channel_id \<Rightarrow> mpsc_signal list" and ids :: "channel_id list"
proof
  fix alive f c m
  show "hoare (mx_sent before ids alive f) (mx_send mpsc_multi_sender c m)
      (\<lambda>r s. case r of Inr u \<Rightarrow> c \<in> set ids \<and> mx_sent before ids alive (f(c := f c @ [m])) s
         | Inl e \<Rightarrow> mx_sent before ids alive f s \<and> (alive \<longrightarrow> c \<notin> set ids)) (mx_sent before ids alive f)"
    using multi_sender_send_sent by (simp add: mpsc_multi_sender_def)
  show "hoare (mx_sent before ids alive f) (mx_broadcast mpsc_multi_sender m)
      (\<lambda>r s. \<exists>cs \<subseteq> set ids. mx_sent before ids alive (\<lambda>c. f c @ (if c \<in> cs then [m] else [])) s \<and> (alive \<longrightarrow> cs = set ids))
      (\<lambda>s. \<exists>cs \<subseteq> set ids. mx_sent before ids alive (\<lambda>c. f c @ (if c \<in> cs then [m] else [])) s)"
    unfolding mpsc_multi_sender_def protocol_multi_send.simps broadcast_def
  proof (rule hoare_bind_gets)
    fix chs
    assume sent: "mx_sent before ids alive f chs"
    then have ids: "map fst chs = ids" "distinct ids" by (auto simp: mx_sent_def)
    show "hoare (\<lambda>s. s = chs) (io_try_for (map fst chs) (\<lambda>c. io_bind (on_channel c (chan_send m)) (\<lambda>r.
          io_return (case r of Inl _ \<Rightarrow> Inl (EChannel ''broadcast failed: a channel was closed'') | Inr u \<Rightarrow> Inr u))))
        (\<lambda>r s. \<exists>cs \<subseteq> set ids. mx_sent before ids alive (\<lambda>c. f c @ (if c \<in> cs then [m] else [])) s \<and> (alive \<longrightarrow> cs = set ids))
        (\<lambda>s. \<exists>cs \<subseteq> set ids. mx_sent before ids alive (\<lambda>c. f c @ (if c \<in> cs then [m] else [])) s)"
      unfolding ids(1) by (rule hoare_pre [OF broadcast_loop_sent [OF ids(2) subset_refl]]) (simp add: sent)
  qed
qed

end
