(* ===== verification/Feo_Socket_Setup.thy ===== *)
theory Feo_Socket_Setup
  imports Feo_Relay_Endpoints
begin

text \<open>
  How socket servers and clients come about (\<open>common/socket/server.rs\<close>), and the traits over TCP and
  Unix sockets that the endpoints of relayed signalling use (\<open>relayed/sockets/endpoint.rs\<close>). The
  operating system is the set of bound TCP addresses and the file system; a listener has a number,
  which a socket file names.

  The lemmas show the difference between the two kinds of sockets: on a TCP address a second server
  panics, on a Unix path it takes the path away from the first.
\<close>

section \<open>Binding and accepting\<close>

datatype file_kind = SocketFile nat | OtherFile

record socket_os =
  so_bound :: "(string \<times> nat) list"
  so_files :: "string \<rightharpoonup> file_kind"
  so_removable :: "string \<Rightarrow> bool"
  so_listeners :: nat

text \<open>A listener with its number, and the connections it will be given. The kinds of error make no difference here.\<close>

record listener =
  ls_number :: nat
  ls_accepts :: "(io_error_kind + stream) list"

definition tcp_bind :: "string \<Rightarrow> (io_error_kind + stream) list \<Rightarrow> (socket_os, io_error_kind + listener) io" where
  "tcp_bind address accepts os =
    (if map_of (so_bound os) address \<noteq> None then (Ret (Inl IoOther), os)
     else (Ret (Inr \<lparr>ls_number = so_listeners os, ls_accepts = accepts\<rparr>),
       os\<lparr>so_bound := (address, so_listeners os) # so_bound os, so_listeners := Suc (so_listeners os)\<rparr>))"

definition unix_bind :: "string \<Rightarrow> (io_error_kind + stream) list \<Rightarrow> (socket_os, io_error_kind + listener) io" where
  "unix_bind path accepts os =
    (if so_files os path \<noteq> None then (Ret (Inl IoOther), os)
     else (Ret (Inr \<lparr>ls_number = so_listeners os, ls_accepts = accepts\<rparr>),
       os\<lparr>so_files := (so_files os)(path \<mapsto> SocketFile (so_listeners os)), so_listeners := Suc (so_listeners os)\<rparr>))"

definition remove_file :: "string \<Rightarrow> (socket_os, io_error_kind + unit) io" where
  "remove_file path os =
    (if so_files os path = None then (Ret (Inl IoNotFound), os)
     else if \<not> so_removable os path then (Ret (Inl IoOther), os)
     else (Ret (Inr ()), os\<lparr>so_files := (so_files os)(path := None)\<rparr>))"

text \<open>\<open>with_listener\<close> registers the listener for polling.\<close>

definition with_listener :: "listener \<Rightarrow> poll_result list \<Rightarrow> nat \<times> server" where
  "with_listener l polls = (ls_number l, server_new (ls_accepts l) polls)"

definition tcp_server_new ::
  "string \<Rightarrow> (io_error_kind + stream) list \<Rightarrow> poll_result list \<Rightarrow> (socket_os, nat \<times> server) io" where
  "tcp_server_new address accepts polls =
    io_bind (tcp_bind address accepts) (\<lambda>r.
    io_bind (io_unwrap r) (\<lambda>l. io_return (with_listener l polls)))"

definition unix_server_new ::
  "string \<Rightarrow> (io_error_kind + stream) list \<Rightarrow> poll_result list \<Rightarrow> (socket_os, nat \<times> server) io" where
  "unix_server_new path accepts polls =
    io_bind (io_gets (\<lambda>os. so_files os path \<noteq> None)) (\<lambda>exists.
    io_bind (if exists then io_bind (remove_file path) io_unwrap else io_return ()) (\<lambda>_.
    io_bind (unix_bind path accepts) (\<lambda>r.
    io_bind (io_unwrap r) (\<lambda>l. io_return (with_listener l polls)))))"

text \<open>
  \<open>accept_connection\<close>: what the listener gives, made into a connection; over TCP the delay is
  switched off first, which can fail.
\<close>

definition tcp_accept_connection ::
  "(stream \<Rightarrow> io_error_kind option) \<Rightarrow> io_error_kind + stream \<Rightarrow> io_error_kind + connection" where
  "tcp_accept_connection set_nodelay accepted =
    (case accepted of
       Inl k \<Rightarrow> Inl k
     | Inr st \<Rightarrow> (case set_nodelay st of Some k \<Rightarrow> Inl k | None \<Rightarrow> Inr (connection_new st)))"

definition unix_accept_connection :: "io_error_kind + stream \<Rightarrow> io_error_kind + connection" where
  "unix_accept_connection accepted = map_sum id connection_new accepted"

section \<open>The traits of the endpoints\<close>

record 'addr is_server =
  is_create :: "'addr \<Rightarrow> (socket_os, nat \<times> server) io"
  is_send :: "token \<Rightarrow> protocol_signal \<Rightarrow> (server, error + unit) io"
  is_receive :: "(server, error + (token \<times> protocol_signal) option) io"

definition tcp_is_server :: "(io_error_kind + stream) list \<Rightarrow> poll_result list \<Rightarrow> string is_server" where
  "tcp_is_server accepts polls =
    \<lparr>is_create = (\<lambda>address. tcp_server_new address accepts polls),
     is_send = (\<lambda>t m. io_bind (server_send t m) (\<lambda>r. io_return (map_sum error_from_io id r))),
     is_receive = server_receive\<rparr>"

definition unix_is_server :: "(io_error_kind + stream) list \<Rightarrow> poll_result list \<Rightarrow> string is_server" where
  "unix_is_server accepts polls =
    \<lparr>is_create = (\<lambda>path. unix_server_new path accepts polls),
     is_send = (\<lambda>t m. io_bind (server_send t m) (\<lambda>r. io_return (map_sum error_from_io id r))),
     is_receive = server_receive\<rparr>"

text \<open>Connecting announces the channel. The attempts and polls of a connection are given from outside.\<close>

record is_client =
  ic_send :: "protocol_signal \<Rightarrow> (client, error + unit) io"
  ic_receive :: "(client, error + protocol_signal option) io"
  ic_connect :: "(io_error_kind + stream) list \<Rightarrow> poll_result list \<Rightarrow> channel_id \<Rightarrow> client outcome"

definition tcp_is_client :: is_client where
  "tcp_is_client = \<lparr>ic_send = client_send, ic_receive = client_receive,
     ic_connect = (\<lambda>attempts polls channel. client_connect [ChannelHello channel] attempts polls)\<rparr>"

definition unix_is_client :: is_client where
  "unix_is_client = \<lparr>ic_send = client_send, ic_receive = client_receive,
     ic_connect = (\<lambda>attempts polls channel. client_connect [ChannelHello channel] attempts polls)\<rparr>"

text \<open>Whom a client reaches that connects to an address or a path.\<close>

definition tcp_reached :: "string \<Rightarrow> socket_os \<Rightarrow> nat option" where
  "tcp_reached address os = map_of (so_bound os) address"

definition unix_reached :: "string \<Rightarrow> socket_os \<Rightarrow> nat option" where
  "unix_reached path os = (case so_files os path of Some (SocketFile n) \<Rightarrow> Some n | _ \<Rightarrow> None)"

section \<open>A second server\<close>

text \<open>The endpoints use the operations of either client.\<close>

lemma endpoint_is_client:
  "endpoint_connect timeout s =
    (case ic_connect tcp_is_client (se_attempts s) (se_polls s) (se_channel_id s) of
       Ret c \<Rightarrow> (Ret (Inr ()), s\<lparr>se_client := Some c\<rparr>) | Panic \<Rightarrow> (Panic, s) | Hang \<Rightarrow> (Hang, s))"
  "ic_connect unix_is_client = ic_connect tcp_is_client"
  by (simp_all add: endpoint_connect_def tcp_is_client_def unix_is_client_def io_defs split: outcome.split)

lemma unix_server_starts:
  assumes "so_removable os path"
  shows "\<exists>os'. is_create (unix_is_server accepts polls) path os = (Ret (so_listeners os, server_new accepts polls), os')
    \<and> unix_reached path os' = Some (so_listeners os) \<and> so_removable os' = so_removable os
    \<and> so_listeners os' = Suc (so_listeners os) \<and> so_bound os' = so_bound os"
  using assms
  by (cases "so_files os path = None")
    (simp_all add: unix_is_server_def unix_server_new_def remove_file_def unix_bind_def with_listener_def io_defs
      unix_reached_def)

text \<open>
  Starting a server twice: the second TCP server on an address panics and the first is still reached;
  the second Unix server on a path removes the file, whether stale or not, and starts: from then on
  clients reach it, and nobody reaches the first, which goes on listening.
\<close>

theorem second_server:
  assumes "so_removable os path" and "map_of (so_bound os) address = None"
  shows "\<exists>os1 os2. is_create (unix_is_server a1 p1) path os = (Ret (so_listeners os, server_new a1 p1), os1)
      \<and> is_create (unix_is_server a2 p2) path os1 = (Ret (Suc (so_listeners os), server_new a2 p2), os2)
      \<and> unix_reached path os1 = Some (so_listeners os) \<and> unix_reached path os2 = Some (Suc (so_listeners os))"
    and "\<exists>os1. is_create (tcp_is_server a1 p1) address os = (Ret (so_listeners os, server_new a1 p1), os1)
      \<and> is_create (tcp_is_server a2 p2) address os1 = (Panic, os1) \<and> tcp_reached address os1 = Some (so_listeners os)"
proof -
  from unix_server_starts [OF assms(1), of a1 p1] obtain os1 where
    os1: "is_create (unix_is_server a1 p1) path os = (Ret (so_listeners os, server_new a1 p1), os1)"
      "unix_reached path os1 = Some (so_listeners os)" "so_removable os1 path" "so_listeners os1 = Suc (so_listeners os)"
    using assms(1) by auto
  from unix_server_starts [OF os1(3), of a2 p2] obtain os2 where
    "is_create (unix_is_server a2 p2) path os1 = (Ret (so_listeners os1, server_new a2 p2), os2)"
    "unix_reached path os2 = Some (so_listeners os1)" by blast
  with os1 show "\<exists>os1 os2. is_create (unix_is_server a1 p1) path os = (Ret (so_listeners os, server_new a1 p1), os1)
      \<and> is_create (unix_is_server a2 p2) path os1 = (Ret (Suc (so_listeners os), server_new a2 p2), os2)
      \<and> unix_reached path os1 = Some (so_listeners os) \<and> unix_reached path os2 = Some (Suc (so_listeners os))"
    by auto
  show "\<exists>os1. is_create (tcp_is_server a1 p1) address os = (Ret (so_listeners os, server_new a1 p1), os1)
      \<and> is_create (tcp_is_server a2 p2) address os1 = (Panic, os1) \<and> tcp_reached address os1 = Some (so_listeners os)"
    using assms(2) by (simp add: tcp_is_server_def tcp_server_new_def tcp_bind_def with_listener_def io_defs tcp_reached_def)
qed

end
