(* ===== verification/Feo_Shm_Lock.thy ===== *)
theory Feo_Shm_Lock
  imports Feo_Prelude
begin

text \<open>
  The run-time access control of shared topics (\<open>feo-com/src/linux_shm/shared_memory.rs\<close>).

  The lock state is a \<open>u16\<close>: \<open>0\<close> is unlocked, \<open>u16::MAX\<close> locked for writing, anything between the
  number of active readers. Every access to it is one atomic operation, and between any two of them
  the other threads may run, so the threads are a list of program counters and the code a step
  relation whose steps are the atomic operations: the load of a loop, a compare-and-exchange and the
  check in \<open>Drop\<close>. The lemmas are an invariant of the reachable states and what follows from it.
\<close>

section \<open>The atomic operations\<close>

definition u16_max :: u16 where
  "u16_max = - 1"

definition compare_exchange :: "u16 \<Rightarrow> u16 \<Rightarrow> u16 \<Rightarrow> (u16 + u16) \<times> u16" where
  "compare_exchange current new state = (if state = current then (Inr state, new) else (Inl state, state))"

text \<open>One round of the loop of \<open>lock_read\<close>; \<open>Inl\<close> is the value for the next round.\<close>

definition lock_read_round :: "u16 \<Rightarrow> u16 \<Rightarrow> (u16 + unit) outcome \<times> u16" where
  "lock_read_round seen state =
    (if seen = u16_max - 1 then (Panic, state)
     else if seen = u16_max then (Panic, state)
     else case compare_exchange seen (seen + 1) state of
            (Inr _, state') \<Rightarrow> (Ret (Inr ()), state')
          | (Inl actual, state') \<Rightarrow> (Ret (Inl actual), state'))"

definition unlock_read_round :: "u16 \<Rightarrow> u16 \<Rightarrow> (u16 + unit) outcome \<times> u16" where
  "unlock_read_round seen state =
    (if seen = u16_max then (Panic, state)
     else if seen = 0 then (Panic, state)
     else case compare_exchange seen (seen - 1) state of
            (Inr _, state') \<Rightarrow> (Ret (Inr ()), state')
          | (Inl actual, state') \<Rightarrow> (Ret (Inl actual), state'))"

definition lock_write :: "(u16, unit) io" where
  "lock_write state =
    (case compare_exchange 0 u16_max state of (Inr _, state') \<Rightarrow> (Ret (), state') | (Inl _, state') \<Rightarrow> (Panic, state'))"

definition unlock_write :: "(u16, unit) io" where
  "unlock_write state =
    (case compare_exchange u16_max 0 state of (Inr _, state') \<Rightarrow> (Ret (), state') | (Inl _, state') \<Rightarrow> (Panic, state'))"

definition is_locked :: "u16 \<Rightarrow> bool" where
  "is_locked state \<longleftrightarrow> state \<noteq> 0"

section \<open>Threads\<close>

text \<open>
  Where a thread is: outside, in the loop of \<open>lock_read\<close>, holding a read guard, in the loop of
  \<open>unlock_read\<close>, holding a write guard, between the unlock of \<open>send\<close> and the drop of the guard, or
  panicked; \<open>Leaked\<close> has panicked in the drop of a write guard that was never sent.
\<close>

datatype thread = Idle | Locking u16 | Reading | Unlocking u16 | Writing | Sent | Leaked | Panicked

type_synonym lock = "u16 \<times> thread list"

inductive lock_step :: "lock \<Rightarrow> lock \<Rightarrow> bool" where
  read_load: "i < length ts \<Longrightarrow> ts ! i = Idle \<Longrightarrow> lock_step (s, ts) (s, ts[i := Locking s])"
| read_locked: "i < length ts \<Longrightarrow> ts ! i = Locking seen \<Longrightarrow> lock_read_round seen s = (Ret (Inr ()), s')
    \<Longrightarrow> lock_step (s, ts) (s', ts[i := Reading])"
| read_retry: "i < length ts \<Longrightarrow> ts ! i = Locking seen \<Longrightarrow> lock_read_round seen s = (Ret (Inl actual), s')
    \<Longrightarrow> lock_step (s, ts) (s', ts[i := Locking actual])"
| read_panic: "i < length ts \<Longrightarrow> ts ! i = Locking seen \<Longrightarrow> lock_read_round seen s = (Panic, s')
    \<Longrightarrow> lock_step (s, ts) (s', ts[i := Panicked])"
| drop_read_load: "i < length ts \<Longrightarrow> ts ! i = Reading \<Longrightarrow> lock_step (s, ts) (s, ts[i := Unlocking s])"
| drop_read_unlocked: "i < length ts \<Longrightarrow> ts ! i = Unlocking seen \<Longrightarrow> unlock_read_round seen s = (Ret (Inr ()), s')
    \<Longrightarrow> lock_step (s, ts) (s', ts[i := Idle])"
| drop_read_retry: "i < length ts \<Longrightarrow> ts ! i = Unlocking seen \<Longrightarrow> unlock_read_round seen s = (Ret (Inl actual), s')
    \<Longrightarrow> lock_step (s, ts) (s', ts[i := Unlocking actual])"
| drop_read_panic: "i < length ts \<Longrightarrow> ts ! i = Unlocking seen \<Longrightarrow> unlock_read_round seen s = (Panic, s')
    \<Longrightarrow> lock_step (s, ts) (s', ts[i := Panicked])"
| write_locked: "i < length ts \<Longrightarrow> ts ! i = Idle \<Longrightarrow> lock_write s = (Ret (), s')
    \<Longrightarrow> lock_step (s, ts) (s', ts[i := Writing])"
| write_panic: "i < length ts \<Longrightarrow> ts ! i = Idle \<Longrightarrow> lock_write s = (Panic, s')
    \<Longrightarrow> lock_step (s, ts) (s', ts[i := Panicked])"
| send_unlocked: "i < length ts \<Longrightarrow> ts ! i = Writing \<Longrightarrow> unlock_write s = (Ret (), s')
    \<Longrightarrow> lock_step (s, ts) (s', ts[i := Sent])"
| send_panic: "i < length ts \<Longrightarrow> ts ! i = Writing \<Longrightarrow> unlock_write s = (Panic, s')
    \<Longrightarrow> lock_step (s, ts) (s', ts[i := Panicked])"
| drop_sent: "i < length ts \<Longrightarrow> ts ! i = Sent \<Longrightarrow> \<not> is_locked s \<Longrightarrow> lock_step (s, ts) (s, ts[i := Idle])"
| drop_sent_panic: "i < length ts \<Longrightarrow> ts ! i = Sent \<Longrightarrow> is_locked s \<Longrightarrow> lock_step (s, ts) (s, ts[i := Panicked])"
| drop_unsent: "i < length ts \<Longrightarrow> ts ! i = Writing \<Longrightarrow> \<not> is_locked s \<Longrightarrow> lock_step (s, ts) (s, ts[i := Idle])"
| drop_unsent_panic: "i < length ts \<Longrightarrow> ts ! i = Writing \<Longrightarrow> is_locked s \<Longrightarrow> lock_step (s, ts) (s, ts[i := Leaked])"

inductive_cases lock_stepE: "lock_step (s, ts) c"

definition lock_init :: "nat \<Rightarrow> lock" where
  "lock_init n = (0, replicate n Idle)"

definition reachable_lock :: "nat \<Rightarrow> lock \<Rightarrow> bool" where
  "reachable_lock n c \<longleftrightarrow> lock_step\<^sup>*\<^sup>* (lock_init n) c"

section \<open>The invariant\<close>

fun has_read :: "thread \<Rightarrow> bool" where
  "has_read Reading \<longleftrightarrow> True"
| "has_read (Unlocking seen) \<longleftrightarrow> True"
| "has_read _ \<longleftrightarrow> False"

definition has_write :: "thread \<Rightarrow> bool" where
  "has_write t \<longleftrightarrow> t = Writing \<or> t = Leaked"

definition number :: "(thread \<Rightarrow> bool) \<Rightarrow> thread list \<Rightarrow> nat" where
  "number P ts = length (filter P ts)"

definition seen_ok :: "thread \<Rightarrow> bool" where
  "seen_ok t = (case t of Unlocking seen \<Rightarrow> seen \<noteq> 0 \<and> seen \<noteq> u16_max | _ \<Rightarrow> True)"

definition lock_inv :: "lock \<Rightarrow> bool" where
  "lock_inv c = (case c of (s, ts) \<Rightarrow> list_all seen_ok ts
    \<and> (if s = u16_max then number has_write ts = 1 \<and> number has_read ts = 0
       else number has_write ts = 0 \<and> number has_read ts = unat s))"

lemma number_update:
  "i < length ts \<Longrightarrow> number P (ts[i := t]) + (if P (ts ! i) then 1 else 0) = number P ts + (if P t then 1 else 0)"
proof (induction ts arbitrary: i)
  case Nil
  then show ?case by simp
next
  case (Cons x xs)
  then show ?case by (cases i) (auto simp: number_def)
qed

lemma number_member: "i < length ts \<Longrightarrow> P (ts ! i) \<Longrightarrow> 0 < number P ts"
  by (auto simp: number_def length_greater_0_conv filter_empty_conv)

lemma u16_succ: "s \<noteq> u16_max \<Longrightarrow> unat (s + 1) = unat s + 1" for s :: u16
  unfolding u16_max_def by (metis Suc_eq_plus1 add.commute eq_neg_iff_add_eq_0 unat_eq_zero unatSuc)

lemma u16_pred: "s \<noteq> 0 \<Longrightarrow> unat (s - 1) = unat s - 1" for s :: u16
  by (metis unat_minus_one)

lemma u16_max_val: "unat u16_max = 65535"
  by (simp add: u16_max_def unsigned_minus_1_eq_mask mask_eq_exp_minus_1)

lemma u16_max_pos [simp]: "u16_max \<noteq> 0" "0 \<noteq> u16_max"
  by (simp_all add: u16_max_def)

text \<open>One thread moves from \<open>ts ! i\<close> to \<open>t\<close>: the invariant is a matter of the two counts.\<close>

lemma lock_inv_move:
  assumes inv: "lock_inv (s, ts)" and i: "i < length ts" "seen_ok t"
    and count: "\<And>w r. (if s = u16_max then w + (if has_write (ts ! i) then 1 else 0) = 1
          \<and> r + (if has_read (ts ! i) then 1 else 0) = 0
        else w + (if has_write (ts ! i) then 1 else 0) = 0 \<and> r + (if has_read (ts ! i) then 1 else 0) = unat s)
      \<Longrightarrow> (if s' = u16_max then w + (if has_write t then 1 else 0) = 1 \<and> r + (if has_read t then 1 else (0::nat)) = 0
        else w + (if has_write t then 1 else 0) = (0::nat) \<and> r + (if has_read t then 1 else 0) = unat s')"
  shows "lock_inv (s', ts[i := t])"
proof -
  define w where "w = number has_write ts - (if has_write (ts ! i) then 1 else 0)"
  define r where "r = number has_read ts - (if has_read (ts ! i) then 1 else 0)"
  have w: "number has_write ts = w + (if has_write (ts ! i) then 1 else 0)"
    using number_member [OF i(1), of has_write] by (auto simp: w_def)
  have r: "number has_read ts = r + (if has_read (ts ! i) then 1 else 0)"
    using number_member [OF i(1), of has_read] by (auto simp: r_def)
  have "number has_write (ts[i := t]) = w + (if has_write t then 1 else 0)"
    "number has_read (ts[i := t]) = r + (if has_read t then 1 else 0)"
    using number_update [OF i(1), of has_write t] number_update [OF i(1), of has_read t] w r by auto
  moreover have "list_all seen_ok (ts[i := t])"
    using inv i by (auto simp: lock_inv_def list_all_iff dest: set_update_subset_insert [THEN subsetD])
  moreover from inv have "if s = u16_max then number has_write ts = 1 \<and> number has_read ts = 0
      else number has_write ts = 0 \<and> number has_read ts = unat s" by (simp add: lock_inv_def)
  note count [OF this [unfolded w r]]
  ultimately show ?thesis by (simp add: lock_inv_def)
qed

lemma seen_unlocking: "lock_inv (s, ts) \<Longrightarrow> i < length ts \<Longrightarrow> ts ! i = Unlocking seen \<Longrightarrow> seen \<noteq> 0 \<and> seen \<noteq> u16_max"
  by (auto simp: lock_inv_def list_all_length seen_ok_def split: thread.splits)

lemma reading_state:
  assumes "lock_inv (s, ts)" "i < length ts" "has_read (ts ! i)"
  shows "s \<noteq> 0 \<and> s \<noteq> u16_max"
  using assms number_member [where P = has_read, OF assms(2,3)] by (auto simp: lock_inv_def split: if_splits)

lemma writing_state:
  assumes "lock_inv (s, ts)" "i < length ts" "has_write (ts ! i)"
  shows "s = u16_max"
  using assms number_member [where P = has_write, OF assms(2,3)] by (auto simp: lock_inv_def split: if_splits)

lemmas round_defs = lock_read_round_def unlock_read_round_def lock_write_def unlock_write_def compare_exchange_def

lemma lock_step_inv:
  assumes "lock_step c c'" "lock_inv c"
  shows "lock_inv c'"
  using assms
proof (induction rule: lock_step.induct)
  case (read_locked i ts seen s s')
  then have "seen = s" "s \<noteq> u16_max - 1" "s \<noteq> u16_max" "s' = s + 1" by (auto simp: round_defs split: if_splits)
  moreover from this have "s' \<noteq> u16_max" by (metis eq_diff_eq)
  ultimately show ?case using read_locked
    by (intro lock_inv_move [OF read_locked.prems]) (auto simp: seen_ok_def has_write_def u16_succ)
next
  case (drop_read_unlocked i ts seen s s')
  note ok = seen_unlocking [OF drop_read_unlocked.prems drop_read_unlocked.hyps(1,2)]
  then have "seen = s" "s' = s - 1" using drop_read_unlocked by (auto simp: round_defs split: if_splits)
  moreover from this ok have "s' \<noteq> u16_max" by (metis diff_eq_eq add.commute diff_add_cancel u16_max_def add.right_neutral eq_neg_iff_add_eq_0)
  ultimately show ?case using drop_read_unlocked ok
    by (intro lock_inv_move [OF drop_read_unlocked.prems]) (auto simp: seen_ok_def has_write_def u16_pred split: if_splits)
next
  case (drop_read_load i ts s)
  with reading_state [OF drop_read_load.prems drop_read_load.hyps(1)] show ?case
    by (intro lock_inv_move [OF drop_read_load.prems]) (auto simp: seen_ok_def has_write_def)
next
  case (drop_read_retry i ts seen s actual s')
  with reading_state [OF drop_read_retry.prems drop_read_retry.hyps(1)] show ?case
    by (intro lock_inv_move [OF drop_read_retry.prems]) (auto simp: seen_ok_def has_write_def round_defs split: if_splits)
next
  case (drop_read_panic i ts seen s s')
  with seen_unlocking [OF drop_read_panic.prems drop_read_panic.hyps(1,2)] show ?case
    by (auto simp: round_defs split: if_splits)
next
  case (send_panic i ts s s')
  with writing_state [OF send_panic.prems send_panic.hyps(1)] show ?case by (auto simp: round_defs has_write_def)
next
  case (drop_unsent i ts s)
  with writing_state [OF drop_unsent.prems drop_unsent.hyps(1)] show ?case by (auto simp: has_write_def is_locked_def)
next
  case (read_load i ts s)
  then show ?case by (intro lock_inv_move [OF read_load.prems]) (auto simp: seen_ok_def has_write_def)
next
  case (read_retry i ts seen s actual s')
  then show ?case by (intro lock_inv_move [OF read_retry.prems])
    (auto simp: seen_ok_def has_write_def round_defs split: if_splits)
next
  case (read_panic i ts seen s s')
  then show ?case by (intro lock_inv_move [OF read_panic.prems])
    (auto simp: seen_ok_def has_write_def round_defs split: if_splits)
next
  case (write_locked i ts s s')
  then show ?case by (intro lock_inv_move [OF write_locked.prems])
    (auto simp: seen_ok_def has_write_def round_defs split: if_splits)
next
  case (write_panic i ts s s')
  then show ?case by (intro lock_inv_move [OF write_panic.prems])
    (auto simp: seen_ok_def has_write_def round_defs split: if_splits)
next
  case (send_unlocked i ts s s')
  then show ?case by (intro lock_inv_move [OF send_unlocked.prems])
    (auto simp: seen_ok_def has_write_def round_defs split: if_splits)
next
  case (drop_sent i ts s)
  then show ?case by (intro lock_inv_move [OF drop_sent.prems]) (auto simp: seen_ok_def has_write_def)
next
  case (drop_sent_panic i ts s)
  then show ?case by (intro lock_inv_move [OF drop_sent_panic.prems]) (auto simp: seen_ok_def has_write_def)
next
  case (drop_unsent_panic i ts s)
  then show ?case
    by (intro lock_inv_move [OF drop_unsent_panic.prems]) (auto simp: seen_ok_def has_write_def split: if_splits)
qed

lemma lock_init_inv: "lock_inv (lock_init n)"
  by (auto simp: lock_inv_def lock_init_def number_def has_write_def seen_ok_def list_all_iff)

lemma reachable_lock_inv: "reachable_lock n c \<Longrightarrow> lock_inv c"
  unfolding reachable_lock_def
  by (induction rule: rtranclp_induct) (auto intro: lock_init_inv lock_step_inv)

section \<open>Properties\<close>

lemma number_two:
  assumes "i < length ts" "j < length ts" "i \<noteq> j" "P (ts ! i)" "P (ts ! j)" "\<not> P t"
  shows "2 \<le> number P ts"
proof -
  have "0 < number P (ts[i := t])" using assms by (intro number_member [of j]) auto
  with number_update [of i ts P t] assms show ?thesis by auto
qed


lemma write_then_send: "reachable_lock 2 (u16_max, [Writing, Idle]) \<and> reachable_lock 2 (0, [Sent, Idle])"
proof -
  have init: "reachable_lock 2 (0, [Idle, Idle])"
    by (simp add: reachable_lock_def lock_init_def numeral_2_eq_2)
  have "lock_step (0, [Idle, Idle]) (u16_max, [Idle, Idle][0 := Writing])"
    by (rule write_locked) (simp_all add: round_defs)
  with init have writing: "reachable_lock 2 (u16_max, [Writing, Idle])"
    unfolding reachable_lock_def by (simp add: rtranclp.rtrancl_into_rtrancl)
  have "lock_step (u16_max, [Writing, Idle]) (0, [Writing, Idle][0 := Sent])"
    by (rule send_unlocked) (simp_all add: round_defs)
  with writing show ?thesis
    unfolding reachable_lock_def by (simp add: rtranclp.rtrancl_into_rtrancl)
qed


lemma read_zero: "lock_read_round 0 0 = (Ret (Inr ()), 1)"
proof -
  have "u16_max - 1 \<noteq> 0"
  proof
    assume "u16_max - 1 = 0"
    then have "u16_max = 1" by simp
    then have "unat u16_max = 1" by simp
    then show False by (simp add: u16_max_val)
  qed
  then show ?thesis by (auto simp: round_defs)
qed

lemma sent_then_read: "reachable_lock 2 (1, [Sent, Reading])"
proof -
  have "lock_step (0, [Sent, Idle]) (0, [Sent, Idle][1 := Locking 0])" by (rule read_load) simp_all
  with write_then_send have "reachable_lock 2 (0, [Sent, Locking 0])"
    unfolding reachable_lock_def by (auto intro: rtranclp.rtrancl_into_rtrancl)
  moreover have "lock_step (0, [Sent, Locking 0]) (1, [Sent, Locking 0][1 := Reading])"
    by (rule read_locked [where seen = 0]) (simp_all add: read_zero)
  ultimately show ?thesis
    unfolding reachable_lock_def by (auto intro: rtranclp.rtrancl_into_rtrancl)
qed

text \<open>
  A write guard can panic although it has been sent: \<open>send\<close> unlocks first and drops the guard
  afterwards, and the drop takes any lock it finds for its own. A reader that locks in between, which
  it may, makes the writer panic; there is such a run of two threads.
\<close>

theorem sent_guard_can_panic:
  "reachable_lock 2 (1, [Sent, Reading]) \<and> lock_step (1, [Sent, Reading]) (1, [Panicked, Reading])"
proof
  show "reachable_lock 2 (1, [Sent, Reading])" by (rule sent_then_read)
  have "lock_step (1, [Sent, Reading]) (1, [Sent, Reading][0 := Panicked])"
    by (rule drop_sent_panic) (simp_all add: is_locked_def)
  then show "lock_step (1, [Sent, Reading]) (1, [Panicked, Reading])" by simp
qed

lemma leaked_step:
  assumes "lock_step c c'" "lock_inv c" "c = (s, ts)" "c' = (s', ts')" "i < length ts" "ts ! i = Leaked"
  shows "i < length ts' \<and> ts' ! i = Leaked"
  using assms by (induction rule: lock_step.induct) (auto simp: nth_list_update)

text \<open>
  A write guard dropped without \<open>send\<close> is never silent: the drop panics in every reachable state,
  and from then on the topic stays locked: no thread gets a guard again, and every attempt to write
  panics.
\<close>

theorem unsent_guard_blocks:
  assumes "reachable_lock n (s, ts)" and "i < length ts" and "ts ! i = Leaked"
    and "lock_step\<^sup>*\<^sup>* (s, ts) (s', ts')"
  shows "s' = u16_max \<and> (\<forall>j < length ts'. ts' ! j \<noteq> Reading \<and> ts' ! j \<noteq> Writing)
    \<and> lock_write s' = (Panic, s')"
proof -
  have "lock_inv (s', ts') \<and> i < length ts' \<and> ts' ! i = Leaked"
    using assms(4)
  proof (induction rule: rtranclp_induct2)
    case refl
    with assms show ?case by (auto dest: reachable_lock_inv)
  next
    case (step s1 ts1 s2 ts2)
    with leaked_step [OF step.hyps(2)] lock_step_inv [OF step.hyps(2)] show ?case by blast
  qed
  then have inv: "lock_inv (s', ts')" and i: "i < length ts'" "ts' ! i = Leaked" by blast+
  then have s': "s' = u16_max" using writing_state [OF inv i(1)] by (simp add: has_write_def)
  have "ts' ! j \<noteq> Reading" if "j < length ts'" for j
    using reading_state [OF inv that] s' by auto
  moreover have "ts' ! j \<noteq> Writing" if j: "j < length ts'" for j
  proof
    assume w: "ts' ! j = Writing"
    with i(2) have "i \<noteq> j" by auto
    from number_two [OF i(1) j this, of has_write Idle] i(2) w inv s' show False
      by (auto simp: has_write_def lock_inv_def)
  qed
  ultimately show ?thesis using s' by (simp add: round_defs)
qed

theorem unsent_guard_blocks_witness:
  "lock_step\<^sup>*\<^sup>* (u16_max, [Leaked, Idle]) (u16_max, [Leaked, Panicked])
    \<and> lock_write u16_max = (Panic, u16_max)"
proof -
  have "lock_step (u16_max, [Writing, Idle]) (u16_max, [Writing, Idle][0 := Leaked])"
    by (rule drop_unsent_panic) (simp_all add: is_locked_def)
  with write_then_send have leaked: "reachable_lock 2 (u16_max, [Leaked, Idle])"
    unfolding reachable_lock_def by (auto intro: rtranclp.rtrancl_into_rtrancl)
  have "lock_step (u16_max, [Leaked, Idle]) (u16_max, [Leaked, Idle][1 := Panicked])"
    by (rule write_panic) (simp_all add: round_defs)
  then have steps: "lock_step\<^sup>*\<^sup>* (u16_max, [Leaked, Idle]) (u16_max, [Leaked, Panicked])" by simp
  from unsent_guard_blocks [OF leaked _ _ this, of 0] steps show ?thesis by simp
qed

end
