(* ===== verification/Feo_Shm_Runtime.thy ===== *)
theory Feo_Shm_Runtime
  imports Feo_Shm_Lock Feo_Ids
begin

text \<open>
  The shared-memory backend of \<open>feo-com\<close> (\<open>linux_shm/mod.rs\<close> and the pointers of
  \<open>linux_shm/shared_memory.rs\<close>): the registry of topics of a process, the service by which the
  primary agent tells other processes where a topic is, and reading and writing a topic.

  A shared object is a value in the kernel's map from mapping ids; a type is its \<open>TypeId\<close>, its size
  and its default. Each process has its own registry and its own lock per topic: the lock state is not
  in the shared memory. The system calls succeed; what the code checks itself is modelled.
\<close>

section \<open>Pointers with access control\<close>

record 'v type_info =
  ty_id :: nat
  ty_size :: nat
  ty_default :: 'v

datatype mapping_mode = MapRead | MapWrite

datatype agent_role = RolePrimary bool | RoleSecondary

record access_ptr =
  ap_type :: nat
  ap_size :: nat
  ap_lock :: u16
  ap_mapped :: "string option"
  ap_writable :: bool

definition new_unmapped :: "'v type_info \<Rightarrow> mapping_mode \<Rightarrow> access_ptr" where
  "new_unmapped ty mode =
    \<lparr>ap_type = ty_id ty, ap_size = ty_size ty, ap_lock = 0, ap_mapped = None, ap_writable = (mode = MapWrite)\<rparr>"

definition ap_map :: "string \<Rightarrow> access_ptr \<Rightarrow> access_ptr outcome" where
  "ap_map mid p =
    (if ap_mapped p \<noteq> None then Panic
     else if ap_size p = 0 then Panic
     else Ret (p\<lparr>ap_mapped := Some mid\<rparr>))"

definition on_lock :: "(u16, 'a) io \<Rightarrow> (access_ptr, 'a) io" where
  "on_lock = io_zoom ap_lock (\<lambda>l p. p\<lparr>ap_lock := l\<rparr>)"

text \<open>Without interference the loops of the lock take one round.\<close>

definition round_once :: "(u16 \<Rightarrow> u16 \<Rightarrow> (u16 + unit) outcome \<times> u16) \<Rightarrow> (u16, unit) io" where
  "round_once round l =
    (case round l l of (Ret (Inr u), l') \<Rightarrow> (Ret (), l') | (Ret (Inl _), l') \<Rightarrow> (Hang, l')
     | (Panic, l') \<Rightarrow> (Panic, l') | (Hang, l') \<Rightarrow> (Hang, l'))"

definition ap_get :: "'v type_info \<Rightarrow> (access_ptr, string) io" where
  "ap_get ty =
    io_bind io_get (\<lambda>p.
    io_bind (io_expect (ap_mapped p)) (\<lambda>mid.
    if ty_id ty \<noteq> ap_type p then io_panic
    else io_bind (on_lock (round_once lock_read_round)) (\<lambda>_. io_return mid)))"

definition ap_drop_read :: "(access_ptr, unit) io" where
  "ap_drop_read = on_lock (round_once unlock_read_round)"

definition ap_get_mut :: "'v type_info \<Rightarrow> (access_ptr, string) io" where
  "ap_get_mut ty =
    io_bind io_get (\<lambda>p.
    io_bind (io_expect (ap_mapped p)) (\<lambda>mid.
    if ty_id ty \<noteq> ap_type p then io_panic
    else if \<not> ap_writable p then io_panic
    else io_bind (on_lock lock_write) (\<lambda>_. io_return mid)))"

definition ap_drop_write :: "(access_ptr, unit) io" where
  "ap_drop_write = io_bind (io_gets (\<lambda>p. is_locked (ap_lock p))) (\<lambda>locked. if locked then io_panic else io_return ())"

definition ap_send :: "(access_ptr, unit) io" where
  "ap_send = io_bind (on_lock unlock_write) (\<lambda>_. ap_drop_write)"

section \<open>The runtime of a process\<close>

record topic_mapping =
  tm_ptr :: access_ptr
  tm_mapping_id :: string

record 'v process =
  pc_topics :: "string \<Rightarrow> topic_mapping option"
  pc_shm :: "string \<Rightarrow> 'v option"
  pc_random :: "u64 list"

definition hex_digit :: "nat \<Rightarrow> char" where
  "hex_digit n = char_of (if n < 10 then 48 + n else 55 + n)"

fun hex_upper :: "nat \<Rightarrow> string" where
  "hex_upper n = (if n < 16 then [hex_digit n] else hex_upper (n div 16) @ [hex_digit (n mod 16)])"

declare hex_upper.simps [simp del]

definition unique_mapping_id :: "('v process, string) io" where
  "unique_mapping_id p =
    (case pc_random p of
       [] \<Rightarrow> (Hang, p)
     | x # xs \<Rightarrow> (Ret (''score_feo_'' @ hex_upper (unat x)), p\<lparr>pc_random := xs\<rparr>))"

text \<open>\<open>shm_open\<close> with \<open>O_EXCL\<close> fails on an existing object.\<close>

definition shm_create :: "string \<Rightarrow> 'v \<Rightarrow> ('v process, unit) io" where
  "shm_create mid v =
    io_bind (io_gets (\<lambda>p. pc_shm p mid)) (\<lambda>x.
    if x \<noteq> None then io_panic else io_modify (\<lambda>p. p\<lparr>pc_shm := (pc_shm p)(mid \<mapsto> v)\<rparr>))"

definition shm_open :: "string \<Rightarrow> ('v process, unit) io" where
  "shm_open mid = io_bind (io_gets (\<lambda>p. pc_shm p mid)) (\<lambda>x. if x = None then io_panic else io_return ())"

text \<open>\<open>insert\<close> happens before the check that the topic is new.\<close>

definition register_topic :: "string \<Rightarrow> topic_mapping \<Rightarrow> ('v process, unit) io" where
  "register_topic topic m =
    io_bind (io_gets (\<lambda>p. pc_topics p topic)) (\<lambda>old.
    io_bind (io_modify (\<lambda>p. p\<lparr>pc_topics := (pc_topics p)(topic \<mapsto> m)\<rparr>)) (\<lambda>_.
    if old \<noteq> None then io_panic else io_return ()))"

definition init_topic_primary :: "'v type_info \<Rightarrow> string \<Rightarrow> mapping_mode \<Rightarrow> bool \<Rightarrow> ('v process, unit) io" where
  "init_topic_primary ty topic mode also_map =
    io_bind unique_mapping_id (\<lambda>mid.
    io_bind (shm_create mid (ty_default ty)) (\<lambda>_.
    io_bind (io_lift (if also_map then ap_map mid (new_unmapped ty mode) else Ret (new_unmapped ty mode))) (\<lambda>ptr.
    register_topic topic \<lparr>tm_ptr = ptr, tm_mapping_id = mid\<rparr>)))"

text \<open>The service: the answer to a request and whether it counts as served.\<close>

definition newline :: char where
  "newline = CHR 0x0A"

definition serve_connection :: "'v process \<Rightarrow> string \<Rightarrow> bool \<Rightarrow> string \<times> bool" where
  "serve_connection p request write_ok =
    (case pc_topics p request of
       Some m \<Rightarrow> (''ok'' @ [newline] @ decimal (ap_size (tm_ptr m)) @ [newline] @ tm_mapping_id m, write_ok)
     | None \<Rightarrow> (''error'' @ [newline] @ ''topic not found'', False))"

text \<open>The loop of \<open>service_main\<close> over what \<open>accept\<close> yields: failures, and requests with the fate of the answer.\<close>

fun service_main :: "'v process \<Rightarrow> nat \<Rightarrow> (unit + string \<times> bool) list \<Rightarrow> string list \<times> nat" where
  "service_main p n [] = ([], n)"
| "service_main p n (a # as) =
    (if n < 1 then ([], n)
     else case a of
            Inl _ \<Rightarrow> service_main p n as
          | Inr (request, write_ok) \<Rightarrow>
              (case serve_connection p request write_ok of (answer, served) \<Rightarrow>
               (case service_main p (if served then n - 1 else n) as of (answers, rest) \<Rightarrow> (answer # answers, rest))))"

fun split_on :: "char \<Rightarrow> string \<Rightarrow> string list" where
  "split_on d [] = [[]]"
| "split_on d (c # cs) =
    (if c = d then [] # split_on d cs
     else case split_on d cs of [] \<Rightarrow> [[c]] | w # ws \<Rightarrow> (c # w) # ws)"

definition parse_usize :: "string \<Rightarrow> nat option" where
  "parse_usize cs =
    (let ds = (case cs of [] \<Rightarrow> [] | c # rest \<Rightarrow> if c = CHR ''+'' then rest else cs)
     in if ds \<noteq> [] \<and> list_all (\<lambda>c. 48 \<le> (of_char c :: nat) \<and> (of_char c :: nat) < 58) ds \<and> undecimal 0 ds < 2 ^ 64
        then Some (undecimal 0 ds) else None)"

definition parse_response :: "string \<Rightarrow> (nat \<times> string) outcome" where
  "parse_response response =
    (case split_on newline response of
       [status, sz, mid] \<Rightarrow>
         if status = ''ok'' then obind (case parse_usize sz of None \<Rightarrow> Panic | Some n \<Rightarrow> Ret n) (\<lambda>n. Ret (n, mid))
         else Panic
     | _ \<Rightarrow> Panic)"

text \<open>\<open>init_topic_secondary\<close>, given the answer of the primary.\<close>

definition init_topic_secondary ::
  "'v type_info \<Rightarrow> string \<Rightarrow> mapping_mode \<Rightarrow> string \<Rightarrow> ('v process, unit) io" where
  "init_topic_secondary ty topic mode response =
    io_bind (io_lift (parse_response response)) (\<lambda>(sz, mid).
    if ty_size ty \<noteq> sz then io_panic
    else io_bind (shm_open mid) (\<lambda>_.
      io_bind (io_lift (ap_map mid (new_unmapped ty mode))) (\<lambda>ptr.
      register_topic topic \<lparr>tm_ptr = ptr, tm_mapping_id = mid\<rparr>)))"

definition init_topic ::
  "'v type_info \<Rightarrow> string \<Rightarrow> mapping_mode \<Rightarrow> agent_role \<Rightarrow> string \<Rightarrow> ('v process, unit) io" where
  "init_topic ty topic mode role response =
    (case role of
       RolePrimary also_map \<Rightarrow> init_topic_primary ty topic mode also_map
     | RoleSecondary \<Rightarrow> init_topic_secondary ty topic mode response)"

definition topic_mapping_of :: "string \<Rightarrow> mapping_mode \<Rightarrow> ('v process, unit) io" where
  "topic_mapping_of topic mode =
    io_bind (io_gets (\<lambda>p. pc_topics p topic)) (\<lambda>m.
    io_bind (io_expect m) (\<lambda>m.
    if mode = MapWrite \<and> \<not> ap_writable (tm_ptr m) then io_panic else io_return ()))"

section \<open>Inputs and outputs\<close>

text \<open>The pointer is shared, so an input or an output is the topic; its operations work on the pointer.\<close>

definition on_ptr :: "string \<Rightarrow> (access_ptr, 'a) io \<Rightarrow> ('v process, 'a) io" where
  "on_ptr topic m p =
    (case pc_topics p topic of
       None \<Rightarrow> (Panic, p)
     | Some t \<Rightarrow>
         (case m (tm_ptr t) of (r, ptr) \<Rightarrow> (r, p\<lparr>pc_topics := (pc_topics p)(topic \<mapsto> t\<lparr>tm_ptr := ptr\<rparr>)\<rparr>)))"

definition input_new :: "string \<Rightarrow> ('v process, unit) io" where
  "input_new topic = topic_mapping_of topic MapRead"

definition output_new :: "string \<Rightarrow> ('v process, unit) io" where
  "output_new topic = topic_mapping_of topic MapWrite"

text \<open>\<open>read\<close> gives a guard; dereferencing it reads the shared object; dropping it unlocks.\<close>

definition input_read :: "'v type_info \<Rightarrow> string \<Rightarrow> ('v process, string) io" where
  "input_read ty topic = on_ptr topic (ap_get ty)"

definition guard_deref :: "string \<Rightarrow> ('v process, 'v) io" where
  "guard_deref mid = io_bind (io_gets (\<lambda>p. pc_shm p mid)) io_expect"

definition input_drop :: "string \<Rightarrow> ('v process, unit) io" where
  "input_drop topic = on_ptr topic ap_drop_read"

definition guard_store :: "string \<Rightarrow> 'v \<Rightarrow> ('v process, unit) io" where
  "guard_store mid v = io_modify (\<lambda>p. p\<lparr>pc_shm := (pc_shm p)(mid \<mapsto> v)\<rparr>)"

definition write_uninit :: "'v type_info \<Rightarrow> string \<Rightarrow> ('v process, string) io" where
  "write_uninit ty topic = on_ptr topic (ap_get_mut ty)"

definition write_payload :: "string \<Rightarrow> 'v \<Rightarrow> ('v process, string) io" where
  "write_payload mid v = io_bind (guard_store mid v) (\<lambda>_. io_return mid)"

definition guard_assume_init :: "string \<Rightarrow> ('v process, string) io" where
  "guard_assume_init mid = io_return mid"

definition guard_init :: "'v type_info \<Rightarrow> string \<Rightarrow> ('v process, string) io" where
  "guard_init ty mid = io_bind (guard_store mid (ty_default ty)) (\<lambda>_. io_return mid)"

definition write_init :: "'v type_info \<Rightarrow> string \<Rightarrow> ('v process, string) io" where
  "write_init ty topic =
    io_bind (on_ptr topic (ap_get_mut ty)) (\<lambda>mid.
    io_bind (guard_store mid (ty_default ty)) (\<lambda>_. io_return mid))"

definition output_send :: "string \<Rightarrow> ('v process, unit) io" where
  "output_send topic = on_ptr topic ap_send"

section \<open>The request of a topic\<close>

lemma split_on_none: "d \<notin> set cs \<Longrightarrow> split_on d cs = [cs]"
  by (induction cs) auto

lemma split_on_sep: "d \<notin> set cs \<Longrightarrow> split_on d (cs @ d # rest) = cs # split_on d rest"
  by (induction cs) auto

lemma decimal_code: "c \<in> set (decimal n) \<Longrightarrow> 48 \<le> (of_char c :: nat) \<and> (of_char c :: nat) < 58"
  using decimal_digits [of n] by (auto simp: digit_chars_def)

lemma newline_decimal: "newline \<notin> set (decimal n)"
proof
  assume "newline \<in> set (decimal n)"
  from decimal_code [OF this] show False by (simp add: newline_def)
qed

lemma parse_decimal: "n < 2 ^ 64 \<Longrightarrow> parse_usize (decimal n) = Some n"
proof -
  assume n: "n < 2 ^ 64"
  obtain c cs where c: "decimal n = c # cs" using decimal_nonempty [of n] by (cases "decimal n") auto
  have "c \<noteq> CHR ''+''"
  proof
    assume "c = CHR ''+''"
    with decimal_code [of c n] c show False by simp
  qed
  moreover have "list_all (\<lambda>c. 48 \<le> (of_char c :: nat) \<and> (of_char c :: nat) < 58) (c # cs)"
    using decimal_code [of _ n] c by (auto simp: list_all_iff)
  moreover have "undecimal 0 (c # cs) = n" using undecimal_decimal [of n] c by simp
  ultimately show "parse_usize (decimal n) = Some n" using n c by (simp add: parse_usize_def)
qed

lemma served_response:
  assumes "pc_topics p topic = Some m" "ap_size (tm_ptr m) < 2 ^ 64" "newline \<notin> set (tm_mapping_id m)"
  shows "parse_response (fst (serve_connection p topic ok)) = Ret (ap_size (tm_ptr m), tm_mapping_id m)"
proof -
  have ok: "newline \<notin> set ''ok''" by (simp add: newline_def)
  have "split_on newline (''ok'' @ newline # decimal (ap_size (tm_ptr m)) @ newline # tm_mapping_id m)
      = [''ok'', decimal (ap_size (tm_ptr m)), tm_mapping_id m]"
    using split_on_sep [OF ok] split_on_sep [OF newline_decimal] split_on_none [OF assms(3)] by simp
  with assms show ?thesis by (simp add: serve_connection_def parse_response_def parse_decimal)
qed

text \<open>
  What the primary answers to a request is read back exactly by the process that asked: the size
  and the mapping id of the topic; a request for an unknown topic makes it panic. The sizes are those
  of Rust types, and a mapping id has no newline.
\<close>

theorem topic_request_roundtrip:
  assumes "\<And>m. pc_topics p topic = Some m \<Longrightarrow> ap_size (tm_ptr m) < 2 ^ 64 \<and> newline \<notin> set (tm_mapping_id m)"
  shows "parse_response (fst (serve_connection p topic write_ok))
    = (case pc_topics p topic of None \<Rightarrow> Panic | Some m \<Rightarrow> Ret (ap_size (tm_ptr m), tm_mapping_id m))"
proof (cases "pc_topics p topic")
  case None
  then show ?thesis by (simp add: serve_connection_def parse_response_def newline_def)
next
  case (Some m)
  with assms [OF Some] served_response [OF Some] show ?thesis by simp
qed

lemma hex_no_newline: "newline \<notin> set (hex_upper n)"
proof (induction n rule: hex_upper.induct)
  case (1 n)
  have digit: "newline \<noteq> hex_digit k" if "k < 16" for k
  proof
    assume "newline = hex_digit k"
    then have "(of_char newline :: nat) = of_char (hex_digit k)" by simp
    with that show False by (simp add: newline_def hex_digit_def split: if_splits)
  qed
  from 1 digit [of n] digit [of "n mod 16"] show ?case by (subst hex_upper.simps) auto
qed

lemma prefix_no_newline: "newline \<notin> set ''score_feo_''"
  by (simp add: newline_def)

text \<open>
  The service of the primary counts down with every request it has answered for a known topic and
  with nothing else: failed accepts, unknown topics and failed writes do not use up a request; and it
  never serves more than the given number.
\<close>

theorem service_counts:
  "snd (service_main p n as)
      = n - length (filter (\<lambda>a. \<exists>t. a = Inr (t, True) \<and> pc_topics p t \<noteq> None) as)
    \<and> length (filter (\<lambda>answer. take 2 answer = ''ok'') (fst (service_main p n as)))
      \<le> n + length (filter (\<lambda>a. \<exists>t. a = Inr (t, False)) as)"
proof (induction p n as rule: service_main.induct)
  case (1 p n)
  then show ?case by simp
next
  case (2 p n a as)
  show ?case
  proof (cases "n < 1")
    case True
    then show ?thesis by simp
  next
    case n: False
    show ?thesis
    proof (cases a)
      case (Inl u)
      with n "2.IH"(1) [OF n Inl] show ?thesis by simp
    next
      case (Inr x)
      obtain t ok where x: "x = (t, ok)" by fastforce
      obtain answer served where sc: "serve_connection p t ok = (answer, served)" by fastforce
      obtain answers rest where sm: "service_main p (if served then n - 1 else n) as = (answers, rest)" by fastforce
      have run: "service_main p n (a # as) = (answer # answers, rest)"
        using n Inr x sc sm by simp
      note IH = "2.IH"(2) [OF n Inr x [symmetric] sc [symmetric], simplified sm fst_conv snd_conv]
      show ?thesis
      proof (cases "pc_topics p t")
        case None
        with sc have "\<not> served" "take 2 answer \<noteq> ''ok''" by (auto simp: serve_connection_def)
        with IH None Inr x show ?thesis unfolding run by auto
      next
        case (Some m)
        with sc have "served = ok" "take 2 answer = ''ok''" by (auto simp: serve_connection_def)
        with IH Some Inr x n show ?thesis unfolding run by (cases ok) auto
      qed
    qed
  qed
qed

section \<open>Access checks\<close>


section \<open>Writing in one process and reading in another\<close>

definition publish :: "'v type_info \<Rightarrow> string \<Rightarrow> 'v \<Rightarrow> ('v process, unit) io" where
  "publish ty topic v =
    io_bind (output_new topic) (\<lambda>_.
    io_bind (write_uninit ty topic) (\<lambda>g.
    io_bind (write_payload g v) (\<lambda>_. output_send topic)))"

definition fetch :: "'v type_info \<Rightarrow> string \<Rightarrow> ('v process, 'v) io" where
  "fetch ty topic =
    io_bind (input_new topic) (\<lambda>_.
    io_bind (input_read ty topic) (\<lambda>g.
    io_bind (guard_deref g) (\<lambda>v.
    io_bind (input_drop topic) (\<lambda>_. io_return v))))"

definition topic_ready :: "'v type_info \<Rightarrow> string \<Rightarrow> string \<Rightarrow> 'v process \<Rightarrow> bool" where
  "topic_ready ty topic mid p \<longleftrightarrow> (\<exists>m. pc_topics p topic = Some m \<and> tm_mapping_id m = mid
    \<and> ap_type (tm_ptr m) = ty_id ty \<and> ap_size (tm_ptr m) = ty_size ty \<and> ap_mapped (tm_ptr m) = Some mid
    \<and> ap_lock (tm_ptr m) = 0)"

definition topic_writable :: "string \<Rightarrow> 'v process \<Rightarrow> bool" where
  "topic_writable topic p \<longleftrightarrow> (\<exists>m. pc_topics p topic = Some m \<and> ap_writable (tm_ptr m))"

lemma publish_ready:
  assumes "topic_ready ty topic mid p" "topic_writable topic p"
  shows "\<exists>p'. publish ty topic v p = (Ret (), p') \<and> topic_ready ty topic mid p' \<and> topic_writable topic p'
    \<and> pc_shm p' = (pc_shm p)(mid \<mapsto> v)"
proof -
  from assms obtain m where m: "pc_topics p topic = Some m" "tm_mapping_id m = mid"
    "ap_type (tm_ptr m) = ty_id ty" "ap_size (tm_ptr m) = ty_size ty" "ap_mapped (tm_ptr m) = Some mid"
    "ap_lock (tm_ptr m) = 0" "ap_writable (tm_ptr m)"
    by (auto simp: topic_ready_def topic_writable_def)
  have get: "ap_get_mut ty (tm_ptr m) = (Ret mid, (tm_ptr m)\<lparr>ap_lock := u16_max\<rparr>)"
    using m by (simp add: ap_get_mut_def io_defs on_lock_def lock_write_def compare_exchange_def)
  have send: "ap_send ((tm_ptr m)\<lparr>ap_lock := u16_max\<rparr>) = (Ret (), (tm_ptr m)\<lparr>ap_lock := 0\<rparr>)"
    by (simp add: ap_send_def ap_drop_write_def is_locked_def io_defs on_lock_def unlock_write_def compare_exchange_def)
  have unlocked: "(tm_ptr m)\<lparr>ap_lock := 0\<rparr> = tm_ptr m" using m(6) by simp
  show ?thesis
    using m by (simp add: publish_def output_new_def topic_mapping_of_def write_uninit_def write_payload_def
        guard_store_def output_send_def on_ptr_def io_defs get send topic_ready_def topic_writable_def)
qed

lemma fetch_ready:
  assumes "topic_ready ty topic mid p" "pc_shm p mid = Some v"
  shows "\<exists>p'. fetch ty topic p = (Ret v, p') \<and> topic_ready ty topic mid p' \<and> pc_shm p' = pc_shm p
    \<and> topic_writable topic p' = topic_writable topic p"
proof -
  from assms obtain m where m: "pc_topics p topic = Some m" "tm_mapping_id m = mid"
    "ap_type (tm_ptr m) = ty_id ty" "ap_size (tm_ptr m) = ty_size ty" "ap_mapped (tm_ptr m) = Some mid"
    "ap_lock (tm_ptr m) = 0"
    by (auto simp: topic_ready_def)
  have get: "ap_get ty (tm_ptr m) = (Ret mid, (tm_ptr m)\<lparr>ap_lock := 1\<rparr>)"
    using m read_zero by (simp add: ap_get_def io_defs on_lock_def round_once_def)
  have "unlock_read_round 1 1 = (Ret (Inr ()), 0)"
    using u16_max_val by (auto simp: round_defs)
  then have drop: "ap_drop_read ((tm_ptr m)\<lparr>ap_lock := 1\<rparr>) = (Ret (), (tm_ptr m)\<lparr>ap_lock := 0\<rparr>)"
    by (simp add: ap_drop_read_def on_lock_def io_zoom_def round_once_def)
  show ?thesis
    using m assms(2) by (simp add: fetch_def input_new_def topic_mapping_of_def input_read_def guard_deref_def
        input_drop_def on_ptr_def io_defs get drop topic_ready_def topic_writable_def)
qed

lemma init_primary_ready:
  assumes "pc_topics p topic = None" "pc_random p = x # xs" "0 < ty_size ty"
    "pc_shm p (''score_feo_'' @ hex_upper (unat x)) = None"
  shows "\<exists>p'. init_topic_primary ty topic MapWrite True p = (Ret (), p')
    \<and> topic_ready ty topic (''score_feo_'' @ hex_upper (unat x)) p' \<and> topic_writable topic p'
    \<and> pc_shm p' = (pc_shm p)(''score_feo_'' @ hex_upper (unat x) \<mapsto> ty_default ty)"
  using assms
  by (simp add: init_topic_primary_def unique_mapping_id_def shm_create_def ap_map_def new_unmapped_def
      register_topic_def io_defs topic_ready_def topic_writable_def)

lemma init_secondary_ready:
  assumes "parse_response response = Ret (ty_size ty, mid)" "pc_topics q topic = None" "pc_shm q mid \<noteq> None"
    "0 < ty_size ty"
  shows "\<exists>q'. init_topic_secondary ty topic mode response q = (Ret (), q')
    \<and> topic_ready ty topic mid q' \<and> pc_shm q' = pc_shm q
    \<and> (mode = MapWrite \<longrightarrow> topic_writable topic q')
    \<and> (\<forall>t. t \<noteq> topic \<longrightarrow> pc_topics q' t = pc_topics q t)"
  using assms
  by (simp add: init_topic_secondary_def shm_open_def ap_map_def new_unmapped_def register_topic_def io_defs
      topic_ready_def topic_writable_def)

lemma ready_response:
  assumes "topic_ready ty topic mid p" "ty_size ty < 2 ^ 64" "newline \<notin> set mid"
  shows "parse_response (fst (serve_connection p topic ok)) = Ret (ty_size ty, mid)"
proof -
  from assms(1) obtain m where m: "pc_topics p topic = Some m" "tm_mapping_id m = mid" "ap_size (tm_ptr m) = ty_size ty"
    by (auto simp: topic_ready_def)
  with served_response [OF m(1), of ok] assms(2,3) show ?thesis by simp
qed

text \<open>
  A topic works across processes: the primary initialises it, another process asks the primary
  for it and maps it, the primary publishes a value, and what the other process reads is that value;
  afterwards neither process holds its lock.
\<close>

theorem shared_topic_transfers:
  assumes "pc_topics p topic = None" and "pc_random p = x # xs"
    and "pc_shm p (''score_feo_'' @ hex_upper (unat x)) = None" and "0 < ty_size ty" and "ty_size ty < 2 ^ 64"
    and "pc_topics q topic = None"
  shows "\<exists>p1 q1 p2 q2. init_topic_primary ty topic MapWrite True p = (Ret (), p1)
    \<and> init_topic_secondary ty topic MapRead (fst (serve_connection p1 topic True)) (q\<lparr>pc_shm := pc_shm p1\<rparr>) = (Ret (), q1)
    \<and> publish ty topic v p1 = (Ret (), p2)
    \<and> fetch ty topic (q1\<lparr>pc_shm := pc_shm p2\<rparr>) = (Ret v, q2)
    \<and> topic_ready ty topic (''score_feo_'' @ hex_upper (unat x)) p2
    \<and> topic_ready ty topic (''score_feo_'' @ hex_upper (unat x)) q2"
proof -
  let ?mid = "''score_feo_'' @ hex_upper (unat x)"
  have nl: "newline \<notin> set ?mid" using hex_no_newline prefix_no_newline by simp
  from init_primary_ready [OF assms(1,2,4,3)] obtain p1 where
    p1: "init_topic_primary ty topic MapWrite True p = (Ret (), p1)" "topic_ready ty topic ?mid p1"
      "topic_writable topic p1" "pc_shm p1 = (pc_shm p)(?mid \<mapsto> ty_default ty)" by blast
  from init_secondary_ready [OF ready_response [where ok = True, OF p1(2) assms(5) nl],
      of "q\<lparr>pc_shm := pc_shm p1\<rparr>" topic MapRead] assms(4,6) p1(4)
  obtain q1 where q1: "init_topic_secondary ty topic MapRead (fst (serve_connection p1 topic True))
      (q\<lparr>pc_shm := pc_shm p1\<rparr>) = (Ret (), q1)" "topic_ready ty topic ?mid q1" by auto
  from publish_ready [OF p1(2,3), of v] obtain p2 where
    p2: "publish ty topic v p1 = (Ret (), p2)" "topic_ready ty topic ?mid p2"
      "pc_shm p2 = (pc_shm p1)(?mid \<mapsto> v)" by blast
  have "topic_ready ty topic ?mid (q1\<lparr>pc_shm := pc_shm p2\<rparr>)" using q1(2) by (simp add: topic_ready_def)
  from fetch_ready [OF this, of v] p2(3) obtain q2 where
    "fetch ty topic (q1\<lparr>pc_shm := pc_shm p2\<rparr>) = (Ret v, q2)" "topic_ready ty topic ?mid q2" by auto
  with p1(1) q1(1) p2(1,2) show ?thesis by blast
qed

definition demo_type :: "nat type_info" where
  "demo_type = \<lparr>ty_id = 1, ty_size = 8, ty_default = 0\<rparr>"

definition fresh_process :: "u64 list \<Rightarrow> nat process" where
  "fresh_process random = \<lparr>pc_topics = (\<lambda>_. None), pc_shm = (\<lambda>_. None), pc_random = random\<rparr>"

theorem shared_topic_transfers_witness:
  "\<exists>p1 q1 p2 q2. init_topic_primary demo_type ''t'' MapWrite True (fresh_process [3]) = (Ret (), p1)
    \<and> init_topic_secondary demo_type ''t'' MapRead (fst (serve_connection p1 ''t'' True))
        ((fresh_process [])\<lparr>pc_shm := pc_shm p1\<rparr>) = (Ret (), q1)
    \<and> publish demo_type ''t'' 42 p1 = (Ret (), p2)
    \<and> fetch demo_type ''t'' (q1\<lparr>pc_shm := pc_shm p2\<rparr>) = (Ret 42, q2)"
  using shared_topic_transfers [of "fresh_process [3]" "''t''" 3 "[]" demo_type "fresh_process []" 42]
  by (auto simp: fresh_process_def demo_type_def)

definition demo_topics :: "nat process" where
  "demo_topics = (fresh_process [])\<lparr>pc_topics := [''t'' \<mapsto>
    \<lparr>tm_ptr = new_unmapped demo_type MapRead, tm_mapping_id = ''score_feo_3''\<rparr>]\<rparr>"

theorem topic_request_roundtrip_witness:
  "parse_response (fst (serve_connection demo_topics ''t'' True)) = Ret (8, ''score_feo_3'')"
proof -
  have "ap_size (tm_ptr m) < 2 ^ 64 \<and> newline \<notin> set (tm_mapping_id m)"
    if "pc_topics demo_topics ''t'' = Some m" for m
    using that by (auto simp: demo_topics_def new_unmapped_def demo_type_def newline_def)
  from topic_request_roundtrip [where p = demo_topics and topic = "''t''" and write_ok = True, OF this] show ?thesis
    by (simp add: demo_topics_def new_unmapped_def demo_type_def)
qed

end
