(* ===== verification/Feo_Com_Init.thy ===== *)
theory Feo_Com_Init
  imports Feo_Shm_Runtime "HOL-Library.Multiset" "HOL-Library.Disjoint_Sets"
begin

text \<open>
  The initialisation of the topics (\<open>feo/src/agent/com_init.rs\<close>, \<open>feo/src/topicspec.rs\<close>) and the
  choice of the backend (\<open>feo-com/src/interface.rs\<close>). The two functions of a topic specification are
  those of its type, so a specification holds the type. \<open>iox2_init\<close> is the initialisation of the
  iceoryx2 backend, which is not modelled.

  The lemmas show which topics a process has afterwards and how they are mapped, and that the service
  of the primary is started with enough requests for the secondaries.
\<close>

section \<open>Topic specifications\<close>

datatype direction = Incoming | Outgoing

record 'v topic_spec =
  ts_topic :: string
  ts_peers :: "(activity_id \<times> direction) list"
  ts_type :: "'v type_info"

type_synonym agent_table = "(agent_id \<times> (worker_id \<times> activity_id list) list) list"

section \<open>Backends\<close>

datatype com_backend = Iox2 | LinuxShm | MwCom

record primary_init =
  pi_topic :: string
  pi_backend :: com_backend
  pi_readers :: nat
  pi_writers :: nat
  pi_map_locally :: bool
  pi_local_write :: bool

record secondary_init =
  si_topic :: string
  si_backend :: com_backend
  si_local_write :: bool

type_synonym 'v iox2 = "string \<Rightarrow> nat \<Rightarrow> nat \<Rightarrow> ('v process, unit) io"

definition backend_init_primary ::
  "'v iox2 \<Rightarrow> 'v type_info \<Rightarrow> primary_init \<Rightarrow> ('v process, unit) io" where
  "backend_init_primary iox2_init ty p =
    (case pi_backend p of
       Iox2 \<Rightarrow> iox2_init (pi_topic p) (pi_writers p) (pi_readers p)
     | LinuxShm \<Rightarrow>
         init_topic ty (pi_topic p) (if pi_local_write p then MapWrite else MapRead) (RolePrimary (pi_map_locally p)) []
     | MwCom \<Rightarrow> io_return ())"

text \<open>\<open>ask\<close> is the answer of the primary to a request for a topic.\<close>

definition backend_init_secondary ::
  "(string \<Rightarrow> string) \<Rightarrow> 'v type_info \<Rightarrow> secondary_init \<Rightarrow> ('v process, unit) io" where
  "backend_init_secondary ask ty p =
    (case si_backend p of
       Iox2 \<Rightarrow> io_return ()
     | LinuxShm \<Rightarrow>
         init_topic ty (si_topic p) (if si_local_write p then MapWrite else MapRead) RoleSecondary (ask (si_topic p))
     | MwCom \<Rightarrow> io_return ())"

text \<open>The number of requests the service is started for, if there is one.\<close>

definition run_backend :: "com_backend \<Rightarrow> nat \<Rightarrow> nat \<Rightarrow> nat option" where
  "run_backend backend local remote = (case backend of LinuxShm \<Rightarrow> Some remote | _ \<Rightarrow> None)"

section \<open>Initialisation\<close>

definition local_activities :: "agent_table \<Rightarrow> agent_id \<Rightarrow> activity_id set outcome" where
  "local_activities as agent =
    (case map_of as agent of None \<Rightarrow> Panic | Some ws \<Rightarrow> Ret (set (concat (map snd ws))))"

definition remote_activities :: "agent_table \<Rightarrow> agent_id \<Rightarrow> activity_id set" where
  "remote_activities as agent =
    set (concat (map (\<lambda>(_, ws). concat (map snd ws)) (filter (\<lambda>(a, _). a \<noteq> agent) as)))"

definition peers_among :: "activity_id set \<Rightarrow> 'v topic_spec list \<Rightarrow> nat" where
  "peers_among acts specs = length (concat (map (\<lambda>ts. filter (\<lambda>a. a \<in> acts) (map fst (ts_peers ts))) specs))"

definition local_requests :: "agent_table \<Rightarrow> agent_id \<Rightarrow> 'v topic_spec list \<Rightarrow> nat outcome" where
  "local_requests as agent specs = obind (local_activities as agent) (\<lambda>acts. Ret (peers_among acts specs))"

definition remote_requests :: "agent_table \<Rightarrow> agent_id \<Rightarrow> 'v topic_spec list \<Rightarrow> nat \<Rightarrow> nat" where
  "remote_requests as agent specs additional =
    peers_among (remote_activities as agent) specs + length specs * additional"

definition is_write :: "activity_id set \<Rightarrow> 'v topic_spec \<Rightarrow> bool" where
  "is_write acts ts = list_ex (\<lambda>(_, d). d = Outgoing) (filter (\<lambda>(a, _). a \<in> acts) (ts_peers ts))"

definition is_local_write :: "agent_table \<Rightarrow> agent_id \<Rightarrow> 'v topic_spec \<Rightarrow> bool outcome" where
  "is_local_write as agent ts = obind (local_activities as agent) (\<lambda>acts. Ret (is_write acts ts))"

definition primary_params :: "com_backend \<Rightarrow> activity_id set \<Rightarrow> nat \<Rightarrow> bool \<Rightarrow> 'v topic_spec \<Rightarrow> primary_init" where
  "primary_params backend acts additional write ts =
    \<lparr>pi_topic = ts_topic ts, pi_backend = backend,
     pi_readers = length (filter (\<lambda>(_, d). d = Incoming) (ts_peers ts)) + additional,
     pi_writers = length (filter (\<lambda>(_, d). d = Outgoing) (ts_peers ts)),
     pi_map_locally = list_ex (\<lambda>(a, _). a \<in> acts) (ts_peers ts),
     pi_local_write = write\<rparr>"

text \<open>The result is the number of handles and what \<open>run_backend\<close> starts.\<close>

definition initialize_com_primary ::
  "'v iox2 \<Rightarrow> com_backend \<Rightarrow> agent_id \<Rightarrow> 'v topic_spec list \<Rightarrow> agent_table \<Rightarrow> nat \<Rightarrow>
    ('v process, nat \<times> nat option) io" where
  "initialize_com_primary iox2_init backend agent specs as additional =
    io_bind (io_lift (local_requests as agent specs)) (\<lambda>local.
    let remote = remote_requests as agent specs additional in
    io_bind (io_lift (local_activities as agent)) (\<lambda>acts.
    io_bind
      (io_for specs (\<lambda>ts.
        io_bind (io_lift (is_local_write as agent ts)) (\<lambda>write.
        backend_init_primary iox2_init (ts_type ts) (primary_params backend acts additional write ts))))
      (\<lambda>_. io_return (length specs, run_backend backend local remote))))"

definition initialize_com_secondary ::
  "(string \<Rightarrow> string) \<Rightarrow> com_backend \<Rightarrow> 'v topic_spec list \<Rightarrow> activity_id set \<Rightarrow> ('v process, nat) io" where
  "initialize_com_secondary ask backend specs acts =
    io_bind
      (io_for specs (\<lambda>ts.
        backend_init_secondary ask (ts_type ts)
          \<lparr>si_topic = ts_topic ts, si_backend = backend, si_local_write = is_write acts ts\<rparr>))
      (\<lambda>_. io_return (length specs))"

section \<open>The service has requests enough\<close>

definition uses_topic :: "activity_id set \<Rightarrow> 'v topic_spec \<Rightarrow> bool" where
  "uses_topic acts ts \<longleftrightarrow> list_ex (\<lambda>(a, _). a \<in> acts) (ts_peers ts)"

definition agent_activities :: "agent_id \<times> (worker_id \<times> activity_id list) list \<Rightarrow> activity_id set" where
  "agent_activities e = set (concat (map snd (snd e)))"

definition secondaries :: "agent_table \<Rightarrow> agent_id \<Rightarrow> agent_table" where
  "secondaries as agent = filter (\<lambda>(a, _). a \<noteq> agent) as"

text \<open>What the secondaries ask for when each initialises the topics its activities use.\<close>

definition secondary_requests :: "agent_table \<Rightarrow> agent_id \<Rightarrow> 'v topic_spec list \<Rightarrow> string list" where
  "secondary_requests as agent specs =
    concat (map (\<lambda>e. map ts_topic (filter (uses_topic (agent_activities e)) specs)) (secondaries as agent))"

definition requests_in :: "(unit + string \<times> bool) list \<Rightarrow> (string \<times> bool) list" where
  "requests_in accepts = List.map_filter (\<lambda>a. case a of Inl _ \<Rightarrow> None | Inr r \<Rightarrow> Some r) accepts"

lemma requests_in_simps [simp]:
  "requests_in [] = []" "requests_in (Inl u # as) = requests_in as" "requests_in (Inr r # as) = r # requests_in as"
  by (simp_all add: requests_in_def List.map_filter_def)

lemma service_answers_all:
  "length (requests_in accepts) \<le> n \<Longrightarrow>
    fst (service_main p n accepts) = map (\<lambda>(t, ok). fst (serve_connection p t ok)) (requests_in accepts)"
proof (induction accepts arbitrary: n)
  case Nil
  then show ?case by simp
next
  case (Cons a accepts)
  show ?case
  proof (cases a)
    case (Inl u)
    then show ?thesis
    proof (cases "n < 1")
      case True
      with Cons.prems Inl show ?thesis by simp
    next
      case False
      with Cons Inl show ?thesis by simp
    qed
  next
    case (Inr r)
    obtain t ok where r: "r = (t, ok)" by fastforce
    obtain answer served where sc: "serve_connection p t ok = (answer, served)" by fastforce
    have "length (requests_in accepts) \<le> (if served then n - 1 else n)" "\<not> n < 1"
      using Cons.prems Inr by (cases served; simp)+
    with Cons.IH [of "if served then n - 1 else n"] sc show ?thesis
      by (simp add: Inr r case_prod_beta split del: if_split)
  qed
qed

lemma peers_among_union:
  "A \<inter> B = {} \<Longrightarrow> peers_among (A \<union> B) specs = peers_among A specs + peers_among B specs"
proof -
  assume disj: "A \<inter> B = {}"
  have "length (filter (\<lambda>a. a \<in> A \<union> B) xs) = length (filter (\<lambda>a. a \<in> A) xs) + length (filter (\<lambda>a. a \<in> B) xs)" for xs
    using disj by (induction xs) auto
  then show ?thesis by (induction specs) (simp_all add: peers_among_def)
qed

lemma peers_among_uses: "length (filter (uses_topic A) specs) \<le> peers_among A specs"
proof -
  have "1 \<le> length (filter (\<lambda>a. a \<in> A) (map fst (ts_peers ts)))" if used: "uses_topic A ts" for ts :: "'v topic_spec"
  proof -
    from used have "filter (\<lambda>a. a \<in> A) (map fst (ts_peers ts)) \<noteq> []"
      by (force simp: uses_topic_def list_ex_iff filter_empty_conv)
    then have "0 < length (filter (\<lambda>a. a \<in> A) (map fst (ts_peers ts)))" by blast
    then show ?thesis by linarith
  qed
  then show ?thesis
    by (induction specs) (force simp: peers_among_def)+
qed

lemma requests_bounded:
  assumes "disjoint_family_on (\<lambda>i. agent_activities (es ! i)) {..<length es}"
  shows "length (concat (map (\<lambda>e. map ts_topic (filter (uses_topic (agent_activities e)) specs)) es))
    \<le> peers_among (\<Union>e \<in> set es. agent_activities e) specs"
  using assms
proof (induction es)
  case Nil
  then show ?case by simp
next
  case (Cons e es)
  have "disjoint_family_on (\<lambda>i. agent_activities (es ! i)) {..<length es}"
    unfolding disjoint_family_on_def
  proof (intro ballI impI)
    fix m n
    assume "m \<in> {..<length es}" "n \<in> {..<length es}" "m \<noteq> n"
    then show "agent_activities (es ! m) \<inter> agent_activities (es ! n) = {}"
      using disjoint_family_onD [OF Cons.prems, of "Suc m" "Suc n"] by simp
  qed
  moreover have "agent_activities e \<inter> (\<Union>e \<in> set es. agent_activities e) = {}"
  proof -
    have "agent_activities e \<inter> agent_activities (es ! n) = {}" if "n < length es" for n
      using disjoint_family_onD [OF Cons.prems, of 0 "Suc n"] that by simp
    then have "agent_activities e \<inter> agent_activities x = {}" if "x \<in> set es" for x
      using that by (metis in_set_conv_nth)
    then show ?thesis by blast
  qed
  ultimately show ?case using Cons.IH peers_among_uses [of "agent_activities e" specs]
    by (simp add: peers_among_union)
qed

text \<open>
  C18: the service of the primary is started for enough requests. When no activity belongs to two
  agents and every secondary initialises the topics its activities use, then however the requests of
  all secondaries interleave, with failed accepts among them, every one of them is answered before
  the service ends, and none by an error if the primary has initialised all topics.
\<close>

theorem secondary_requests_served:
  assumes "disjoint_family_on (\<lambda>i. agent_activities (secondaries as agent ! i)) {..<length (secondaries as agent)}"
    and "mset (map fst (requests_in accepts)) = mset (secondary_requests as agent specs)"
    and "\<And>ts. ts \<in> set specs \<Longrightarrow> pc_topics p (ts_topic ts) \<noteq> None"
  shows "fst (service_main p (remote_requests as agent specs additional) accepts)
      = map (\<lambda>(t, ok). fst (serve_connection p t ok)) (requests_in accepts)
    \<and> (\<forall>answer \<in> set (fst (service_main p (remote_requests as agent specs additional) accepts)). take 2 answer = ''ok'')"
proof -
  have "remote_activities as agent = (\<Union>e \<in> set (secondaries as agent). agent_activities e)"
    by (force simp: remote_activities_def secondaries_def agent_activities_def)
  with requests_bounded [OF assms(1), of specs]
  have "length (secondary_requests as agent specs) \<le> peers_among (remote_activities as agent) specs"
    by (simp add: secondary_requests_def)
  moreover have "length (requests_in accepts) = length (secondary_requests as agent specs)"
    using arg_cong [OF assms(2), of size] by simp
  ultimately have all: "fst (service_main p (remote_requests as agent specs additional) accepts)
      = map (\<lambda>(t, ok). fst (serve_connection p t ok)) (requests_in accepts)"
    by (intro service_answers_all) (simp add: remote_requests_def)
  have "take 2 (fst (serve_connection p t ok)) = ''ok''" if r: "(t, ok) \<in> set (requests_in accepts)" for t ok
  proof -
    from r have "t \<in> set (secondary_requests as agent specs)"
      using arg_cong [OF assms(2), of set_mset] by force
    then obtain ts where "ts \<in> set specs" "ts_topic ts = t" by (auto simp: secondary_requests_def)
    with assms(3) obtain m where "pc_topics p t = Some m" by fastforce
    then show ?thesis by (simp add: serve_connection_def)
  qed
  with all show ?thesis by auto
qed

section \<open>The topics of the primary\<close>

text \<open>Printed mapping ids determine the random number, so distinct numbers give distinct objects.\<close>

definition unhex_digit :: "char \<Rightarrow> nat" where
  "unhex_digit c = (if (of_char c :: nat) < 58 then of_char c - 48 else of_char c - 55)"

definition unhex :: "string \<Rightarrow> nat" where
  "unhex cs = foldl (\<lambda>n c. 16 * n + unhex_digit c) 0 cs"

lemma unhex_hex_digit: "n < 16 \<Longrightarrow> unhex_digit (hex_digit n) = n"
  by (auto simp: unhex_digit_def hex_digit_def)

lemma unhex_hex_upper: "unhex (hex_upper n) = n"
proof (induction n rule: hex_upper.induct)
  case (1 n)
  show ?case
  proof (cases "n < 16")
    case True
    then show ?thesis by (subst hex_upper.simps) (simp add: unhex_def unhex_hex_digit)
  next
    case False
    with 1 show ?thesis by (subst hex_upper.simps) (simp add: unhex_def unhex_hex_digit)
  qed
qed

definition mapping_id :: "u64 \<Rightarrow> string" where
  "mapping_id x = ''score_feo_'' @ hex_upper (unat x)"

lemma mapping_id_inj: "mapping_id x = mapping_id y \<longleftrightarrow> x = y"
  unfolding mapping_id_def by (metis unhex_hex_upper word_unat_eq_iff append_same_eq same_append_eq)

text \<open>A topic after its initialisation by the primary.\<close>

definition topic_initialized :: "activity_id set \<Rightarrow> 'v topic_spec \<Rightarrow> string \<Rightarrow> 'v process \<Rightarrow> bool" where
  "topic_initialized acts ts mid p \<longleftrightarrow>
    pc_topics p (ts_topic ts) = Some \<lparr>tm_ptr =
      \<lparr>ap_type = ty_id (ts_type ts), ap_size = ty_size (ts_type ts), ap_lock = 0,
       ap_mapped = (if uses_topic acts ts then Some mid else None), ap_writable = is_write acts ts\<rparr>,
      tm_mapping_id = mid\<rparr>
    \<and> pc_shm p mid = Some (ty_default (ts_type ts))"

definition primary_step ::
  "'v iox2 \<Rightarrow> agent_table \<Rightarrow> agent_id \<Rightarrow> activity_id set \<Rightarrow> nat \<Rightarrow> 'v topic_spec \<Rightarrow> ('v process, unit) io" where
  "primary_step iox2_init as agent acts additional ts =
    io_bind (io_lift (is_local_write as agent ts)) (\<lambda>write.
    backend_init_primary iox2_init (ts_type ts) (primary_params LinuxShm acts additional write ts))"

lemma primary_step_initializes:
  fixes p :: "'v process"
  assumes "local_activities as agent = Ret acts" "0 < ty_size (ts_type ts)"
    and "pc_topics p (ts_topic ts) = None" "pc_random p = x # xs" "pc_shm p (mapping_id x) = None"
  shows "\<exists>p'. primary_step iox2_init as agent acts additional ts p = (Ret (), p')
    \<and> topic_initialized acts ts (mapping_id x) p' \<and> pc_random p' = xs
    \<and> (\<forall>t. t \<noteq> ts_topic ts \<longrightarrow> pc_topics p' t = pc_topics p t)
    \<and> (\<forall>m. m \<noteq> mapping_id x \<longrightarrow> pc_shm p' m = pc_shm p m)"
  using assms
  by (cases "uses_topic acts ts")
    (auto simp: primary_step_def is_local_write_def backend_init_primary_def primary_params_def init_topic_def
      init_topic_primary_def unique_mapping_id_def shm_create_def ap_map_def new_unmapped_def register_topic_def
      io_defs topic_initialized_def mapping_id_def uses_topic_def)

lemma list_all2_some: "list_all2 R xs ys \<Longrightarrow> x \<in> set xs \<Longrightarrow> \<exists>y \<in> set ys. R x y"
  by (metis in_set_conv_nth list_all2_conv_all_nth)

lemma primary_loop_initializes:
  fixes p :: "'v process"
  assumes "local_activities as agent = Ret acts" "\<And>ts. ts \<in> set specs \<Longrightarrow> 0 < ty_size (ts_type ts)"
    and "distinct (map ts_topic specs)" "\<And>ts. ts \<in> set specs \<Longrightarrow> pc_topics p (ts_topic ts) = None"
    and "pc_random p = xs @ ys" "length xs = length specs" "distinct xs" "\<And>x. x \<in> set xs \<Longrightarrow> pc_shm p (mapping_id x) = None"
  shows "\<exists>p'. io_for specs (primary_step iox2_init as agent acts additional) p = (Ret (), p') \<and> pc_random p' = ys
    \<and> list_all2 (\<lambda>ts x. topic_initialized acts ts (mapping_id x) p') specs xs
    \<and> (\<forall>t. t \<notin> ts_topic ` set specs \<longrightarrow> pc_topics p' t = pc_topics p t)
    \<and> (\<forall>m. m \<notin> mapping_id ` set xs \<longrightarrow> pc_shm p' m = pc_shm p m)"
  using assms
proof (induction specs arbitrary: p xs)
  case Nil
  then show ?case by (simp add: io_defs)
next
  case (Cons ts specs)
  then obtain x xs' where xs: "xs = x # xs'" by (cases xs) auto
  from primary_step_initializes [of as agent acts ts p x "xs' @ ys" iox2_init additional] Cons.prems xs
  obtain p1 where p1: "primary_step iox2_init as agent acts additional ts p = (Ret (), p1)"
    "topic_initialized acts ts (mapping_id x) p1" "pc_random p1 = xs' @ ys"
    "\<forall>t. t \<noteq> ts_topic ts \<longrightarrow> pc_topics p1 t = pc_topics p t"
    "\<forall>m. m \<noteq> mapping_id x \<longrightarrow> pc_shm p1 m = pc_shm p m" by auto
  have fresh: "pc_topics p1 (ts_topic u) = None" if "u \<in> set specs" for u
    using that Cons.prems(3,4) p1(4) by (metis distinct.simps(2) image_eqI list.set_intros(2) list.set_map list.simps(9))
  have free: "pc_shm p1 (mapping_id y) = None" if "y \<in> set xs'" for y
    using that Cons.prems(7,8) p1(5) xs mapping_id_inj by (metis distinct.simps(2) list.set_intros(2))
  from Cons.IH [of p1 xs'] Cons.prems xs p1(3) fresh free obtain p' where
    p': "io_for specs (primary_step iox2_init as agent acts additional) p1 = (Ret (), p')" "pc_random p' = ys"
      "list_all2 (\<lambda>ts x. topic_initialized acts ts (mapping_id x) p') specs xs'"
      "\<forall>t. t \<notin> ts_topic ` set specs \<longrightarrow> pc_topics p' t = pc_topics p1 t"
      "\<forall>m. m \<notin> mapping_id ` set xs' \<longrightarrow> pc_shm p' m = pc_shm p1 m" by auto
  have "ts_topic ts \<notin> ts_topic ` set specs" "mapping_id x \<notin> mapping_id ` set xs'"
    using Cons.prems(3,7) xs mapping_id_inj by auto
  with p1(2) p'(4,5) have "topic_initialized acts ts (mapping_id x) p'"
    by (simp add: topic_initialized_def)
  moreover have "io_for (ts # specs) (primary_step iox2_init as agent acts additional) p = (Ret (), p')"
    using p1(1) p'(1) by (simp add: io_bind_def)
  ultimately show ?case using p' p1(4,5) xs by (intro exI [of _ p']) auto
qed

text \<open>
  C17: after the primary has initialised the topics over shared memory, every activity of the primary
  finds its topics usable: each topic it takes part in is registered with its type, mapped and
  unlocked, its object holds the default value, and it is writable if an activity of the primary
  writes it; the service is started for exactly the computed number of requests. The topics are new
  and the random numbers are fresh.
\<close>

theorem com_init_grants_access:
  assumes "map_of as agent = Some ws" and "\<And>ts. ts \<in> set specs \<Longrightarrow> 0 < ty_size (ts_type ts)"
    and "distinct (map ts_topic specs)" and "\<And>ts. ts \<in> set specs \<Longrightarrow> pc_topics p (ts_topic ts) = None"
    and "pc_random p = xs @ ys" and "length xs = length specs" and "distinct xs"
    and "\<And>x. x \<in> set xs \<Longrightarrow> pc_shm p (mapping_id x) = None"
  shows "\<exists>p'. initialize_com_primary iox2_init LinuxShm agent specs as additional p
      = (Ret (length specs, Some (remote_requests as agent specs additional)), p')
    \<and> (\<forall>ts \<in> set specs. \<forall>(i, d) \<in> set (ts_peers ts). i \<in> agent_activities (agent, ws) \<longrightarrow>
        (\<exists>mid. topic_ready (ts_type ts) (ts_topic ts) mid p' \<and> pc_shm p' mid = Some (ty_default (ts_type ts)))
        \<and> (d = Outgoing \<longrightarrow> topic_writable (ts_topic ts) p'))"
proof -
  have acts: "local_activities as agent = Ret (agent_activities (agent, ws))"
    using assms(1) by (simp add: local_activities_def agent_activities_def)
  from primary_loop_initializes [OF acts assms(2-8)] obtain p' where
    p': "io_for specs (primary_step iox2_init as agent (agent_activities (agent, ws)) additional) p = (Ret (), p')"
      "list_all2 (\<lambda>ts x. topic_initialized (agent_activities (agent, ws)) ts (mapping_id x) p') specs xs" by blast
  have run: "initialize_com_primary iox2_init LinuxShm agent specs as additional p
      = (Ret (length specs, Some (remote_requests as agent specs additional)), p')"
    using p'(1) by (simp add: initialize_com_primary_def local_requests_def acts io_defs run_backend_def
        primary_step_def [abs_def])
  have "(\<exists>mid. topic_ready (ts_type ts) (ts_topic ts) mid p' \<and> pc_shm p' mid = Some (ty_default (ts_type ts)))
      \<and> (d = Outgoing \<longrightarrow> topic_writable (ts_topic ts) p')"
    if ts: "ts \<in> set specs" "(i, d) \<in> set (ts_peers ts)" "i \<in> agent_activities (agent, ws)" for ts i d
  proof -
    from list_all2_some [OF p'(2) ts(1)] obtain x where "topic_initialized (agent_activities (agent, ws)) ts (mapping_id x) p'"
      by blast
    moreover have "uses_topic (agent_activities (agent, ws)) ts" using ts(2,3) by (auto simp: uses_topic_def list_ex_iff)
    moreover have "d = Outgoing \<Longrightarrow> is_write (agent_activities (agent, ws)) ts"
      using ts(2,3) by (auto simp: is_write_def list_ex_iff)
    ultimately show ?thesis by (auto simp: topic_initialized_def topic_ready_def topic_writable_def)
  qed
  with run show ?thesis by blast
qed

section \<open>The topics of a secondary\<close>

definition secondary_step ::
  "(string \<Rightarrow> string) \<Rightarrow> activity_id set \<Rightarrow> 'v topic_spec \<Rightarrow> ('v process, unit) io" where
  "secondary_step ask acts ts = backend_init_secondary ask (ts_type ts)
    \<lparr>si_topic = ts_topic ts, si_backend = LinuxShm, si_local_write = is_write acts ts\<rparr>"

definition topic_answered :: "(string \<Rightarrow> string) \<Rightarrow> 'v topic_spec \<Rightarrow> string \<Rightarrow> 'v process \<Rightarrow> bool" where
  "topic_answered ask ts mid q \<longleftrightarrow>
    parse_response (ask (ts_topic ts)) = Ret (ty_size (ts_type ts), mid) \<and> pc_shm q mid \<noteq> None \<and> 0 < ty_size (ts_type ts)"

lemma secondary_loop_ready:
  fixes q :: "'v process"
  assumes "\<And>ts. ts \<in> set specs \<Longrightarrow> topic_answered ask ts (mid ts) q"
    and "distinct (map ts_topic specs)" "\<And>ts. ts \<in> set specs \<Longrightarrow> pc_topics q (ts_topic ts) = None"
  shows "\<exists>q'. io_for specs (secondary_step ask acts) q = (Ret (), q') \<and> pc_shm q' = pc_shm q
    \<and> (\<forall>ts \<in> set specs. topic_ready (ts_type ts) (ts_topic ts) (mid ts) q' \<and> (is_write acts ts \<longrightarrow> topic_writable (ts_topic ts) q'))
    \<and> (\<forall>t. t \<notin> ts_topic ` set specs \<longrightarrow> pc_topics q' t = pc_topics q t)"
  using assms
proof (induction specs arbitrary: q)
  case Nil
  then show ?case by (simp add: io_defs)
next
  case (Cons ts specs)
  let ?mode = "if is_write acts ts then MapWrite else MapRead"
  from init_secondary_ready [of "ask (ts_topic ts)" "ts_type ts" "mid ts" q "ts_topic ts" ?mode] Cons.prems(1,3) [of ts]
  obtain q1 where q1: "init_topic_secondary (ts_type ts) (ts_topic ts) ?mode (ask (ts_topic ts)) q = (Ret (), q1)"
    "topic_ready (ts_type ts) (ts_topic ts) (mid ts) q1" "pc_shm q1 = pc_shm q"
    "is_write acts ts \<longrightarrow> topic_writable (ts_topic ts) q1"
    "\<forall>t. t \<noteq> ts_topic ts \<longrightarrow> pc_topics q1 t = pc_topics q t"
    by (auto simp: topic_answered_def split: if_splits)
  have step: "secondary_step ask acts ts q = (Ret (), q1)"
    using q1(1) by (simp add: secondary_step_def backend_init_secondary_def init_topic_def)
  have other: "ts_topic u \<noteq> ts_topic ts" if "u \<in> set specs" for u
    using Cons.prems(2) that by (auto simp: image_iff)
  from Cons.IH [of q1] Cons.prems q1(3,5) other obtain q' where
    q': "io_for specs (secondary_step ask acts) q1 = (Ret (), q')" "pc_shm q' = pc_shm q1"
      "\<forall>ts \<in> set specs. topic_ready (ts_type ts) (ts_topic ts) (mid ts) q' \<and> (is_write acts ts \<longrightarrow> topic_writable (ts_topic ts) q')"
      "\<forall>t. t \<notin> ts_topic ` set specs \<longrightarrow> pc_topics q' t = pc_topics q1 t"
    by (auto simp: topic_answered_def)
  have "pc_topics q' (ts_topic ts) = pc_topics q1 (ts_topic ts)" using q'(4) Cons.prems(2) by auto
  with q1(2,4) have "topic_ready (ts_type ts) (ts_topic ts) (mid ts) q'" "is_write acts ts \<longrightarrow> topic_writable (ts_topic ts) q'"
    by (simp_all add: topic_ready_def topic_writable_def)
  then show ?case using step q' q1(3,5) by (intro exI [of _ q']) (auto simp: io_bind_def)
qed

lemma is_write_uses: "is_write acts ts \<Longrightarrow> uses_topic acts ts"
  by (auto simp: is_write_def uses_topic_def list_ex_iff)

lemma mapping_id_no_newline: "newline \<notin> set (mapping_id x)"
  using hex_no_newline prefix_no_newline by (simp add: mapping_id_def)

text \<open>
  C12: the topics connect the agents. After the primary has initialised the topics over shared memory,
  a secondary that initialises some of them with the primary's answers has each of them registered
  with its type, mapped, unlocked and writable if one of its activities writes it; and what such an
  activity publishes is what an activity of the primary that takes part in the topic reads next, and
  the other way round.
\<close>

theorem topics_connect_agents:
  assumes "map_of as agent = Some ws" and "\<And>ts. ts \<in> set specs \<Longrightarrow> 0 < ty_size (ts_type ts) \<and> ty_size (ts_type ts) < 2 ^ 64"
    and "distinct (map ts_topic specs)" and "\<And>ts. ts \<in> set specs \<Longrightarrow> pc_topics p (ts_topic ts) = None"
    and "pc_random p = xs @ ys" and "length xs = length specs" and "distinct xs"
    and "\<And>x. x \<in> set xs \<Longrightarrow> pc_shm p (mapping_id x) = None"
    and "set used \<subseteq> set specs" and "distinct (map ts_topic used)" and "\<And>ts. ts \<in> set used \<Longrightarrow> pc_topics q (ts_topic ts) = None"
  shows "\<exists>r p' q'. initialize_com_primary iox2_init LinuxShm agent specs as additional p = (Ret r, p')
    \<and> initialize_com_secondary (\<lambda>t. fst (serve_connection p' t True)) LinuxShm used acts (q\<lparr>pc_shm := pc_shm p'\<rparr>)
      = (Ret (length used), q')
    \<and> (\<forall>ts \<in> set used. \<exists>mid. topic_ready (ts_type ts) (ts_topic ts) mid q'
        \<and> (is_write acts ts \<and> uses_topic (agent_activities (agent, ws)) ts \<longrightarrow>
            (\<exists>q2 p2. publish (ts_type ts) (ts_topic ts) v q' = (Ret (), q2)
              \<and> fetch (ts_type ts) (ts_topic ts) (p'\<lparr>pc_shm := pc_shm q2\<rparr>) = (Ret v, p2)))
        \<and> (is_write (agent_activities (agent, ws)) ts \<longrightarrow>
            (\<exists>p2 q2. publish (ts_type ts) (ts_topic ts) v p' = (Ret (), p2)
              \<and> fetch (ts_type ts) (ts_topic ts) (q'\<lparr>pc_shm := pc_shm p2\<rparr>) = (Ret v, q2))))"
proof -
  let ?acts = "agent_activities (agent, ws)"
  have acts: "local_activities as agent = Ret ?acts"
    using assms(1) by (simp add: local_activities_def agent_activities_def)
  from primary_loop_initializes [OF acts _ assms(3-8)] assms(2) obtain p' where
    p': "io_for specs (primary_step iox2_init as agent ?acts additional) p = (Ret (), p')"
      "list_all2 (\<lambda>ts x. topic_initialized ?acts ts (mapping_id x) p') specs xs" by blast
  have run1: "\<exists>r. initialize_com_primary iox2_init LinuxShm agent specs as additional p = (Ret r, p')"
    using p'(1) by (simp add: initialize_com_primary_def local_requests_def acts io_defs primary_step_def [abs_def])
  have "\<forall>ts \<in> set specs. \<exists>y. topic_initialized ?acts ts (mapping_id y) p'" using list_all2_some [OF p'(2)] by blast
  from bchoice [OF this] obtain x where x: "\<forall>ts \<in> set specs. topic_initialized ?acts ts (mapping_id (x ts)) p'" by blast
  let ?ask = "\<lambda>t. fst (serve_connection p' t True)"
  let ?q = "q\<lparr>pc_shm := pc_shm p'\<rparr>"
  have answered: "topic_answered ?ask ts (mapping_id (x ts)) ?q" if "ts \<in> set used" for ts
  proof -
    from that assms(9) x have "topic_initialized ?acts ts (mapping_id (x ts)) p'" by blast
    with served_response [of p' "ts_topic ts" _ True] mapping_id_no_newline assms(2) [of ts] that assms(9)
    show ?thesis by (auto simp: topic_initialized_def topic_answered_def)
  qed
  from secondary_loop_ready [OF answered assms(10), of acts] assms(11) obtain q' where
    q': "io_for used (secondary_step ?ask acts) ?q = (Ret (), q')" "pc_shm q' = pc_shm p'"
      "\<forall>ts \<in> set used. topic_ready (ts_type ts) (ts_topic ts) (mapping_id (x ts)) q'
        \<and> (is_write acts ts \<longrightarrow> topic_writable (ts_topic ts) q')" by auto
  have run2: "initialize_com_secondary ?ask LinuxShm used acts ?q = (Ret (length used), q')"
    using q'(1) by (simp add: initialize_com_secondary_def io_defs secondary_step_def [abs_def])
  have exchange: "\<exists>q2 p2. publish (ts_type ts) (ts_topic ts) v q' = (Ret (), q2)
      \<and> fetch (ts_type ts) (ts_topic ts) (p'\<lparr>pc_shm := pc_shm q2\<rparr>) = (Ret v, p2)"
    if ts: "ts \<in> set used" "is_write acts ts" "uses_topic ?acts ts" for ts
  proof -
    from ts(1) assms(9) x have "topic_initialized ?acts ts (mapping_id (x ts)) p'" by blast
    with ts(3) have ready: "topic_ready (ts_type ts) (ts_topic ts) (mapping_id (x ts)) (p'\<lparr>pc_shm := m\<rparr>)" for m
      by (simp add: topic_initialized_def topic_ready_def)
    from q'(3) ts(1,2) have out: "topic_ready (ts_type ts) (ts_topic ts) (mapping_id (x ts)) q'"
      "topic_writable (ts_topic ts) q'" by simp_all
    from publish_ready [OF out, of v] obtain q2 where
      "publish (ts_type ts) (ts_topic ts) v q' = (Ret (), q2)" "pc_shm q2 = (pc_shm q')(mapping_id (x ts) \<mapsto> v)" by blast
    moreover from this(2) fetch_ready [OF ready, of "pc_shm q2" v] obtain p2 where
      "fetch (ts_type ts) (ts_topic ts) (p'\<lparr>pc_shm := pc_shm q2\<rparr>) = (Ret v, p2)" by auto
    ultimately show ?thesis by blast
  qed
  have reverse: "\<exists>p2 q2. publish (ts_type ts) (ts_topic ts) v p' = (Ret (), p2)
      \<and> fetch (ts_type ts) (ts_topic ts) (q'\<lparr>pc_shm := pc_shm p2\<rparr>) = (Ret v, q2)"
    if ts: "ts \<in> set used" "is_write ?acts ts" for ts
  proof -
    from ts(1) assms(9) x have "topic_initialized ?acts ts (mapping_id (x ts)) p'" by blast
    with ts(2) is_write_uses [OF ts(2)] have out: "topic_ready (ts_type ts) (ts_topic ts) (mapping_id (x ts)) p'"
      "topic_writable (ts_topic ts) p'" by (simp_all add: topic_initialized_def topic_ready_def topic_writable_def)
    from publish_ready [OF out, of v] obtain p2 where
      "publish (ts_type ts) (ts_topic ts) v p' = (Ret (), p2)" "pc_shm p2 = (pc_shm p')(mapping_id (x ts) \<mapsto> v)" by blast
    moreover have "topic_ready (ts_type ts) (ts_topic ts) (mapping_id (x ts)) (q'\<lparr>pc_shm := pc_shm p2\<rparr>)"
      using q'(3) ts(1) by (simp add: topic_ready_def)
    from fetch_ready [OF this, of v] calculation(2) obtain q2 where
      "fetch (ts_type ts) (ts_topic ts) (q'\<lparr>pc_shm := pc_shm p2\<rparr>) = (Ret v, q2)" by auto
    ultimately show ?thesis by blast
  qed
  from run1 obtain r where r: "initialize_com_primary iox2_init LinuxShm agent specs as additional p = (Ret r, p')" ..
  show ?thesis
  proof (rule exI [of _ r], rule exI [of _ p'], rule exI [of _ q'], intro conjI ballI)
    show "initialize_com_primary iox2_init LinuxShm agent specs as additional p = (Ret r, p')" by (rule r)
    show "initialize_com_secondary ?ask LinuxShm used acts ?q = (Ret (length used), q')" by (rule run2)
    fix ts
    assume "ts \<in> set used"
    with q'(3) exchange [of ts] show "\<exists>mid. topic_ready (ts_type ts) (ts_topic ts) mid q'
        \<and> (is_write acts ts \<and> uses_topic ?acts ts \<longrightarrow>
            (\<exists>q2 p2. publish (ts_type ts) (ts_topic ts) v q' = (Ret (), q2)
              \<and> fetch (ts_type ts) (ts_topic ts) (p'\<lparr>pc_shm := pc_shm q2\<rparr>) = (Ret v, p2)))
        \<and> (is_write ?acts ts \<longrightarrow>
            (\<exists>p2 q2. publish (ts_type ts) (ts_topic ts) v p' = (Ret (), p2)
              \<and> fetch (ts_type ts) (ts_topic ts) (q'\<lparr>pc_shm := pc_shm p2\<rparr>) = (Ret v, q2)))"
      using reverse [of ts] by (intro exI [of _ "mapping_id (x ts)"]) simp
  qed
qed

end
