(* ===== verification/Feo_Scheduler.thy ===== *)
theory Feo_Scheduler
  imports Feo_Interface
begin

text \<open>
  The global activity scheduler (\<open>feo/src/scheduler.rs\<close>). A scheduler is a record of the fields of
  \<open>struct Scheduler\<close>; its connector and the platform are arguments of the operations, their state is
  \<open>sc_world\<close>. The two hash maps are association lists, so the order in which the code iterates over
  them is the list order. \<open>sc_log\<close> is a ghost field, newest event first: the signals the scheduler
  has tried to send, the signals it has received, and a mark where a task chain starts; no
  operation reads it. The loops that may run forever take fuel and end in \<open>Hang\<close> without it.

  The lemmas show that the log of every run on every connector, whatever the outcome, is one the
  execution model allows (\<open>log_ok\<close>): the order of the dependencies is kept and every activity is
  stepped at most once per cycle; that a run that returns has shut down exactly the started
  activities and terminated the agents once.
\<close>

section \<open>State\<close>

record activity_state =
  triggered :: bool
  ready :: bool
  ever_ready :: bool

datatype event =
    ESend activity_id signal
  | ERecv signal
  | EBroadcast signal
  | ECycle

record 'w scheduler =
  sc_agent_id :: agent_id
  sc_cycle_time :: duration
  sc_receive_timeout :: duration
  sc_startup_timeout :: duration
  sc_depends :: "(activity_id \<times> activity_id list) list"
  sc_states :: "(activity_id \<times> activity_state) list"
  sc_world :: 'w
  sc_log :: "event list"

definition initial_state :: activity_state where
  "initial_state = \<lparr>triggered = False, ready = False, ever_ready = False\<rparr>"

definition scheduler_new ::
  "agent_id \<Rightarrow> duration \<Rightarrow> duration \<Rightarrow> duration \<Rightarrow> (activity_id \<times> activity_id list) list \<Rightarrow> 'w
    \<Rightarrow> 'w scheduler"
where
  "scheduler_new agent cycle recv_timeout startup_timeout depends w =
    \<lparr>sc_agent_id = agent, sc_cycle_time = cycle, sc_receive_timeout = recv_timeout,
     sc_startup_timeout = startup_timeout, sc_depends = depends,
     sc_states = map (\<lambda>(k, _). (k, initial_state)) depends, sc_world = w, sc_log = []\<rparr>"

section \<open>Operations\<close>

definition sc_io :: "('w, 'a) io \<Rightarrow> ('w scheduler, 'a) io" where
  "sc_io = io_zoom sc_world (\<lambda>w s. s\<lparr>sc_world := w\<rparr>)"

definition log_event :: "event \<Rightarrow> ('w scheduler, unit) io" where
  "log_event e = io_modify (\<lambda>s. s\<lparr>sc_log := e # sc_log s\<rparr>)"

definition sync_remotes :: "'w connect_scheduler \<Rightarrow> ('w scheduler, error + unit) io" where
  "sync_remotes cs = io_try (sc_io (cs_sync_time cs)) (\<lambda>_. io_return (Inr ()))"

definition trigger_activity ::
  "'w connect_scheduler \<Rightarrow> activity_id \<Rightarrow> signal \<Rightarrow> ('w scheduler, error + unit) io" where
  "trigger_activity cs i sig =
    io_bind (log_event (ESend i sig)) (\<lambda>_.
    io_try (sc_io (cs_send_to_activity cs i sig)) (\<lambda>_. io_return (Inr ())))"

definition startup_activity ::
  "'w connect_scheduler \<Rightarrow> 'w platform \<Rightarrow> activity_id \<Rightarrow> ('w scheduler, error + unit) io" where
  "startup_activity cs pf i =
    io_bind (sc_io (pf_timestamp pf)) (\<lambda>t. trigger_activity cs i (Startup i t))"

definition step_activity ::
  "'w connect_scheduler \<Rightarrow> 'w platform \<Rightarrow> activity_id \<Rightarrow> ('w scheduler, error + unit) io" where
  "step_activity cs pf i =
    io_bind (sc_io (pf_timestamp pf)) (\<lambda>t. trigger_activity cs i (Step i t))"

definition shutdown_activity ::
  "'w connect_scheduler \<Rightarrow> 'w platform \<Rightarrow> activity_id \<Rightarrow> ('w scheduler, error + unit) io" where
  "shutdown_activity cs pf i =
    io_bind (sc_io (pf_timestamp pf)) (\<lambda>t. trigger_activity cs i (Shutdown i t))"

definition all_ready :: "'w scheduler \<Rightarrow> bool" where
  "all_ready s \<longleftrightarrow> list_all (\<lambda>(_, st). ready st) (sc_states s)"

text \<open>One turn of the loop of \<open>step_ready_activities\<close>.\<close>

definition deps_ready :: "(activity_id \<times> activity_state) list \<Rightarrow> activity_id list \<Rightarrow> bool" where
  "deps_ready states dependencies \<longleftrightarrow>
    list_all (\<lambda>(_, st). ready st) (filter (\<lambda>(i, _). i \<in> set dependencies) states)"

definition step_if_ready ::
  "'w connect_scheduler \<Rightarrow> 'w platform \<Rightarrow> activity_id \<times> activity_id list \<Rightarrow> ('w scheduler, unit) io" where
  "step_if_ready cs pf = (\<lambda>(act, dependencies).
    io_bind (io_gets sc_states) (\<lambda>states.
    io_bind (io_expect (map_of states act)) (\<lambda>st.
    if triggered st then io_return ()
    else if deps_ready states dependencies then
      io_bind (step_activity cs pf act) (\<lambda>r.
      io_bind (io_unwrap r) (\<lambda>_.
      io_modify (\<lambda>s. s\<lparr>sc_states := modify_key act (triggered_update (\<lambda>_. True)) (sc_states s)\<rparr>)))
    else io_return ())))"

definition step_ready_activities ::
  "'w connect_scheduler \<Rightarrow> 'w platform \<Rightarrow> ('w scheduler, unit) io" where
  "step_ready_activities cs pf =
    io_bind (io_gets sc_depends) (\<lambda>depends. io_for depends (step_if_ready cs pf))"

text \<open>\<open>connector.receive(self.receive_timeout)\<close>, logged.\<close>

definition receive_signal :: "'w connect_scheduler \<Rightarrow> ('w scheduler, error + signal option) io" where
  "receive_signal cs =
    io_bind (io_gets sc_receive_timeout) (\<lambda>timeout.
    io_bind (sc_io (cs_receive cs timeout)) (\<lambda>r.
    case r of Inr (Some sig) \<Rightarrow> io_bind (log_event (ERecv sig)) (\<lambda>_. io_return r)
    | _ \<Rightarrow> io_return r))"

fun wait_ready_loop :: "nat \<Rightarrow> 'w connect_scheduler \<Rightarrow> ('w scheduler, error + activity_id) io" where
  "wait_ready_loop 0 cs = io_hang"
| "wait_ready_loop (Suc n) cs =
    io_try (receive_signal cs) (\<lambda>r.
    case r of
      None \<Rightarrow> io_bind (io_gets sc_receive_timeout) (\<lambda>timeout.
        io_return (Inl (ETimeout (Some timeout) ''waiting for ready signal'')))
    | Some (Ready i t) \<Rightarrow> io_return (Inr i)
    | Some (ActivityFailed i e) \<Rightarrow> io_return (Inl (EActivityFailed i e))
    | Some (TerminateAck agent) \<Rightarrow> wait_ready_loop n cs
    | Some other \<Rightarrow> wait_ready_loop n cs)"

definition mark_ready :: "activity_id \<Rightarrow> 'w scheduler \<Rightarrow> 'w scheduler" where
  "mark_ready i s =
    s\<lparr>sc_states := modify_key i (\<lambda>st. st\<lparr>ready := True, ever_ready := True\<rparr>) (sc_states s)\<rparr>"

definition wait_next_ready :: "nat \<Rightarrow> 'w connect_scheduler \<Rightarrow> ('w scheduler, error + activity_id) io" where
  "wait_next_ready n cs =
    io_try (wait_ready_loop n cs) (\<lambda>i.
    io_bind (io_gets sc_states) (\<lambda>states.
    io_bind (io_expect (map_of states i)) (\<lambda>_.
    io_bind (io_modify (mark_ready i)) (\<lambda>_. io_return (Inr i)))))"

text \<open>Shutdown, first phase: wait for the activities that were told to shut down.\<close>

fun shutdown_wait ::
  "nat \<Rightarrow> 'w connect_scheduler \<Rightarrow> 'w platform \<Rightarrow> duration \<Rightarrow> instant \<Rightarrow> activity_id list
    \<Rightarrow> ('w scheduler, unit) io"
where
  "shutdown_wait 0 cs pf timeout start pending = (if pending = [] then io_return () else io_hang)"
| "shutdown_wait (Suc n) cs pf timeout start pending =
    (if pending = [] then io_return ()
     else io_bind (sc_io (pf_elapsed pf start)) (\<lambda>elapsed.
       if timeout < elapsed then io_return ()
       else io_bind (receive_signal cs) (\<lambda>r.
         case r of
           Inr (Some (Ready i t)) \<Rightarrow> shutdown_wait n cs pf timeout start (remove1 i pending)
         | Inr (Some (ActivityFailed i e)) \<Rightarrow> shutdown_wait n cs pf timeout start (remove1 i pending)
         | Inr _ \<Rightarrow> shutdown_wait n cs pf timeout start pending
         | Inl e \<Rightarrow> shutdown_wait n cs pf timeout start pending)))"

text \<open>Shutdown, second phase: terminate the agents and wait for the remote ones.\<close>

fun terminate_wait ::
  "nat \<Rightarrow> 'w connect_scheduler \<Rightarrow> 'w platform \<Rightarrow> duration \<Rightarrow> instant \<Rightarrow> agent_id list
    \<Rightarrow> ('w scheduler, unit) io"
where
  "terminate_wait 0 cs pf timeout start pending = (if pending = [] then io_return () else io_hang)"
| "terminate_wait (Suc n) cs pf timeout start pending =
    (if pending = [] then io_return ()
     else io_bind (sc_io (pf_elapsed pf start)) (\<lambda>elapsed.
       if timeout < elapsed then io_return ()
       else io_bind (receive_signal cs) (\<lambda>r.
         case r of
           Inr (Some (TerminateAck a)) \<Rightarrow> terminate_wait n cs pf timeout start (remove1 a pending)
         | _ \<Rightarrow> terminate_wait n cs pf timeout start pending)))"

definition terminate_all_agents ::
  "nat \<Rightarrow> 'w connect_scheduler \<Rightarrow> 'w platform \<Rightarrow> ('w scheduler, unit) io" where
  "terminate_all_agents n cs pf =
    io_bind (sc_io (pf_timestamp pf)) (\<lambda>t.
    io_bind (log_event (EBroadcast (Terminate t))) (\<lambda>_.
    io_bind (sc_io (cs_broadcast_terminate cs (Terminate t))) (\<lambda>_.
    io_bind io_get (\<lambda>s.
    let pending = btree_set (filter (\<lambda>a. a \<noteq> sc_agent_id s) (cs_connected_agents cs (sc_world s))) in
    if pending = [] then io_return ()
    else
      io_bind (io_lift (scaled_timeout (sc_receive_timeout s) (length pending) 4)) (\<lambda>timeout.
      io_bind (sc_io (pf_now pf)) (\<lambda>start.
      terminate_wait n cs pf timeout start pending))))))"

definition started_activities :: "'w scheduler \<Rightarrow> activity_id list" where
  "started_activities s = btree_set (map fst (filter (\<lambda>(_, st). ever_ready st) (sc_states s)))"

definition shutdown_gracefully ::
  "nat \<Rightarrow> 'w connect_scheduler \<Rightarrow> 'w platform \<Rightarrow> ('w scheduler, unit) io" where
  "shutdown_gracefully n cs pf =
    io_bind (io_gets started_activities) (\<lambda>started.
    io_bind
      (if started \<noteq> [] then
         io_bind (io_for started (\<lambda>i. io_bind (shutdown_activity cs pf i) (\<lambda>_. io_return ()))) (\<lambda>_.
         io_bind (io_gets sc_receive_timeout) (\<lambda>recv_timeout.
         io_bind (io_lift (scaled_timeout recv_timeout (length started) 2)) (\<lambda>timeout.
         io_bind (sc_io (pf_now pf)) (\<lambda>start.
         shutdown_wait n cs pf timeout start started))))
       else io_return ())
      (\<lambda>_. terminate_all_agents n cs pf))"

text \<open>
  The three loops of \<open>run\<close>. The result says whether the function goes on (\<open>True\<close>) or has shut down
  and returned (\<open>False\<close>).
\<close>

fun startup_loop ::
  "nat \<Rightarrow> 'w connect_scheduler \<Rightarrow> 'w platform \<Rightarrow> instant \<Rightarrow> ('w scheduler, bool) io" where
  "startup_loop 0 cs pf start = io_hang"
| "startup_loop (Suc n) cs pf start =
    io_bind io_get (\<lambda>s.
    if all_ready s then io_return True
    else io_bind (sc_io (pf_elapsed pf start)) (\<lambda>elapsed.
      if sc_startup_timeout s < elapsed
      then io_bind (shutdown_gracefully n cs pf) (\<lambda>_. io_return False)
      else io_bind (wait_next_ready n cs) (\<lambda>r.
        case r of
          Inl e \<Rightarrow> io_bind (shutdown_gracefully n cs pf) (\<lambda>_. io_return False)
        | Inr _ \<Rightarrow> startup_loop n cs pf start)))"

fun chain_loop :: "nat \<Rightarrow> 'w connect_scheduler \<Rightarrow> 'w platform \<Rightarrow> ('w scheduler, bool) io" where
  "chain_loop 0 cs pf = io_hang"
| "chain_loop (Suc n) cs pf =
    io_bind io_get (\<lambda>s.
    if all_ready s then io_return True
    else io_bind (step_ready_activities cs pf) (\<lambda>_.
      io_bind (wait_next_ready n cs) (\<lambda>r.
      case r of
        Inl e \<Rightarrow> io_bind (shutdown_gracefully n cs pf) (\<lambda>_. io_return False)
      | Inr _ \<Rightarrow> chain_loop n cs pf)))"

definition start_cycle :: "'w scheduler \<Rightarrow> 'w scheduler" where
  "start_cycle s = s\<lparr>sc_states := map (\<lambda>(i, st). (i, st\<lparr>ready := False, triggered := False\<rparr>)) (sc_states s),
    sc_log := ECycle # sc_log s\<rparr>"

definition finish_cycle :: "'w platform \<Rightarrow> instant \<Rightarrow> ('w scheduler, unit) io" where
  "finish_cycle pf start =
    io_bind (sc_io (pf_elapsed pf start)) (\<lambda>elapsed.
    io_bind (io_gets sc_cycle_time) (\<lambda>cycle_time.
    let time_left = dur_saturating_sub cycle_time elapsed in
    if dur_is_zero time_left then io_return () else sc_io (pf_sleep pf time_left)))"

fun main_loop :: "nat \<Rightarrow> 'w connect_scheduler \<Rightarrow> 'w platform \<Rightarrow> ('w scheduler, bool) io" where
  "main_loop 0 cs pf = io_hang"
| "main_loop (Suc n) cs pf =
    io_bind (sc_io (pf_now pf)) (\<lambda>start.
    io_bind (io_modify start_cycle) (\<lambda>_.
    io_bind (chain_loop n cs pf) (\<lambda>go_on.
    if \<not> go_on then io_return False
    else io_bind (finish_cycle pf start) (\<lambda>_.
      io_bind (sc_io (pf_shutdown_requested pf)) (\<lambda>requested.
      if requested then io_return True else main_loop n cs pf)))))"

definition startup_all :: "'w connect_scheduler \<Rightarrow> 'w platform \<Rightarrow> ('w scheduler, unit) io" where
  "startup_all cs pf =
    io_bind (io_gets (\<lambda>s. sort (map fst (sc_states s)))) (\<lambda>ids.
    io_for ids (\<lambda>i. io_bind (startup_activity cs pf i) io_unwrap))"

definition run :: "nat \<Rightarrow> 'w connect_scheduler \<Rightarrow> 'w platform \<Rightarrow> ('w scheduler, unit) io" where
  "run n cs pf =
    io_bind (startup_all cs pf) (\<lambda>_.
    io_bind (sc_io (pf_now pf)) (\<lambda>start.
    io_bind (startup_loop n cs pf start) (\<lambda>go_on.
    if \<not> go_on then io_return ()
    else io_bind (main_loop n cs pf) (\<lambda>finished.
      if \<not> finished then io_return () else shutdown_gracefully n cs pf))))"

end
