(* ===== verification/Feo_Scheduler_Log.thy ===== *)
theory Feo_Scheduler_Log
  imports Feo_Scheduler
begin

text \<open>
  The execution model of the scheduler as a predicate on its log, and the proof that every run on
  every connector keeps to it. \<open>log_ok\<close> is the abstract specification: what may be sent when, in
  terms of what was sent and received before. \<open>running\<close> relates the flags the scheduler keeps per
  activity to its log.
\<close>

section \<open>What a log says\<close>

fun ready_of :: "event \<Rightarrow> activity_id option" where
  "ready_of (ERecv (Ready i t)) = Some i"
| "ready_of _ = None"

fun step_of :: "event \<Rightarrow> activity_id option" where
  "step_of (ESend i (Step j t)) = Some i"
| "step_of _ = None"

fun startup_of :: "event \<Rightarrow> activity_id option" where
  "startup_of (ESend i (Startup j t)) = Some i"
| "startup_of _ = None"

fun shutdown_of :: "event \<Rightarrow> activity_id option" where
  "shutdown_of (ESend i (Shutdown j t)) = Some i"
| "shutdown_of _ = None"

fun is_broadcast :: "event \<Rightarrow> bool" where
  "is_broadcast (EBroadcast sig) \<longleftrightarrow> True"
| "is_broadcast _ \<longleftrightarrow> False"

fun is_output :: "event \<Rightarrow> bool" where
  "is_output (ERecv sig) \<longleftrightarrow> False"
| "is_output _ \<longleftrightarrow> True"

abbreviation readied :: "event list \<Rightarrow> activity_id list" where
  "readied \<equiv> List.map_filter ready_of"

abbreviation stepped :: "event list \<Rightarrow> activity_id list" where
  "stepped \<equiv> List.map_filter step_of"

abbreviation started_up :: "event list \<Rightarrow> activity_id list" where
  "started_up \<equiv> List.map_filter startup_of"

abbreviation shut_down :: "event list \<Rightarrow> activity_id list" where
  "shut_down \<equiv> List.map_filter shutdown_of"

definition quiet :: "event list \<Rightarrow> bool" where
  "quiet log \<longleftrightarrow> shut_down log = [] \<and> filter is_broadcast log = []"

text \<open>The events since the last task chain started.\<close>

definition cycle_part :: "event list \<Rightarrow> event list" where
  "cycle_part log = takeWhile (\<lambda>e. e \<noteq> ECycle) log"

text \<open>
  The events the execution model allows after a log, for a dependency map: startup once per activity
  before the first task chain; a task chain once all activities are ready; a step once per chain and
  only when the dependencies have become ready in the chain; shutdown once, and only of an activity
  that has become ready before; one terminate, and nothing but shutdowns before it once the
  shutdown has begun.
\<close>

fun event_ok :: "(activity_id \<times> activity_id list) list \<Rightarrow> event \<Rightarrow> event list \<Rightarrow> bool" where
  "event_ok D (ESend i (Startup j t)) log \<longleftrightarrow>
     i = j \<and> i \<in> fst ` set D \<and> ECycle \<notin> set log \<and> i \<notin> set (started_up log) \<and> quiet log"
| "event_ok D (ESend i (Step j t)) log \<longleftrightarrow>
     i = j \<and> ECycle \<in> set log \<and> i \<notin> set (stepped (cycle_part log)) \<and> quiet log
     \<and> (case map_of D i of
          None \<Rightarrow> False
        | Some ds \<Rightarrow> set ds \<inter> fst ` set D \<subseteq> set (readied (cycle_part log)))"
| "event_ok D (ESend i (Shutdown j t)) log \<longleftrightarrow>
     i = j \<and> i \<in> fst ` set D \<and> i \<in> set (readied log) \<and> i \<notin> set (shut_down log)
     \<and> filter is_broadcast log = []"
| "event_ok D (ESend i sig) log \<longleftrightarrow> False"
| "event_ok D (ERecv sig) log \<longleftrightarrow> True"
| "event_ok D (EBroadcast (Terminate t)) log \<longleftrightarrow> filter is_broadcast log = []"
| "event_ok D (EBroadcast sig) log \<longleftrightarrow> False"
| "event_ok D ECycle log \<longleftrightarrow> fst ` set D \<subseteq> set (readied (cycle_part log)) \<and> quiet log"

fun log_ok :: "(activity_id \<times> activity_id list) list \<Rightarrow> event list \<Rightarrow> bool" where
  "log_ok D [] \<longleftrightarrow> True"
| "log_ok D (e # log) \<longleftrightarrow> event_ok D e log \<and> log_ok D log"

lemma map_filter_Cons [simp]:
  "List.map_filter f (x # xs) = (case f x of None \<Rightarrow> [] | Some y \<Rightarrow> [y]) @ List.map_filter f xs"
  by (simp add: List.map_filter_def split: option.split)

lemma map_filter_Nil [simp]: "List.map_filter f [] = []"
  by (simp add: List.map_filter_def)

lemma map_filter_append [simp]:
  "List.map_filter f (xs @ ys) = List.map_filter f xs @ List.map_filter f ys"
  by (simp add: List.map_filter_def)

lemma cycle_part_Cons [simp]:
  "cycle_part (e # log) = (if e = ECycle then [] else e # cycle_part log)"
  by (simp add: cycle_part_def)

lemma cycle_part_Nil [simp]: "cycle_part [] = []"
  by (simp add: cycle_part_def)

lemma quiet_Cons: "quiet (e # log) \<longleftrightarrow> shutdown_of e = None \<and> \<not> is_broadcast e \<and> quiet log"
  by (auto simp: quiet_def split: option.split)

lemma quiet_Nil [simp]: "quiet []"
  by (simp add: quiet_def)

section \<open>The invariant of a running scheduler\<close>

definition flags_ok :: "event list \<Rightarrow> activity_id \<times> activity_state \<Rightarrow> bool" where
  "flags_ok log = (\<lambda>(i, st). (ready st \<longleftrightarrow> i \<in> set (readied (cycle_part log)))
    \<and> (triggered st \<longleftrightarrow> i \<in> set (stepped (cycle_part log)))
    \<and> (ever_ready st \<longleftrightarrow> i \<in> set (readied log)))"

definition running :: "(activity_id \<times> activity_id list) list \<Rightarrow> 'w scheduler \<Rightarrow> bool" where
  "running D s \<longleftrightarrow> sc_depends s = D \<and> distinct (map fst D) \<and> map fst (sc_states s) = map fst D
    \<and> list_all (flags_ok (sc_log s)) (sc_states s) \<and> log_ok D (sc_log s) \<and> quiet (sc_log s)"

definition logged :: "(activity_id \<times> activity_id list) list \<Rightarrow> 'w scheduler \<Rightarrow> bool" where
  "logged D s \<longleftrightarrow> sc_depends s = D \<and> log_ok D (sc_log s)"

lemma running_logged: "running D s \<Longrightarrow> logged D s"
  by (simp add: running_def logged_def)

lemma world_update [simp]:
  "running D (s\<lparr>sc_world := w\<rparr>) = running D s" "logged D (s\<lparr>sc_world := w\<rparr>) = logged D s"
  by (simp_all add: running_def logged_def)

text \<open>Calls of the connector and the platform change the world only.\<close>

lemma hoare_sc_io:
  assumes "\<And>s w. P s \<Longrightarrow> P (s\<lparr>sc_world := w\<rparr>)" and "\<And>s. P s \<Longrightarrow> E s"
  shows "hoare P (sc_io m) (\<lambda>_. P) E"
  unfolding hoare_def
proof (intro allI impI)
  fix s
  assume "P s"
  moreover obtain r w where "m (sc_world s) = (r, w)" by fastforce
  ultimately show "case sc_io m s of (Ret a, s') \<Rightarrow> P s' | (Panic, s') \<Rightarrow> E s' | (Hang, s') \<Rightarrow> E s'"
    using assms by (cases r) (auto simp: sc_io_def io_zoom_def)
qed

lemma hoare_log_event: "(\<And>s. P s \<Longrightarrow> Q () (s\<lparr>sc_log := e # sc_log s\<rparr>)) \<Longrightarrow> hoare P (log_event e) Q E"
  unfolding log_event_def by (rule hoare_modify)

text \<open>Sending: the attempt is logged first, whatever then becomes of it.\<close>

lemma hoare_trigger:
  assumes "\<And>s. P s \<Longrightarrow> R (s\<lparr>sc_log := ESend i sig # sc_log s\<rparr>)"
    and "\<And>s w. R s \<Longrightarrow> R (s\<lparr>sc_world := w\<rparr>)" and "\<And>s. R s \<Longrightarrow> E s"
  shows "hoare P (trigger_activity cs i sig) (\<lambda>_. R) E"
  unfolding trigger_activity_def
proof (rule hoare_bind)
  show "hoare P (log_event (ESend i sig)) (\<lambda>_. R) E" by (rule hoare_log_event) (rule assms(1))
  show "hoare R (io_try (sc_io (cs_send_to_activity cs i sig)) (\<lambda>_. io_return (Inr ()))) (\<lambda>_. R) E"
    by (rule hoare_try [where R = "\<lambda>_. R"])
      (auto intro!: hoare_return hoare_post [OF hoare_sc_io [of R E]] assms(2,3) split: sum.splits)
qed

text \<open>Receiving: a received signal is logged.\<close>

lemma hoare_receive:
  assumes "\<And>s w. P s \<Longrightarrow> P (s\<lparr>sc_world := w\<rparr>)" and "\<And>s. P s \<Longrightarrow> E s"
    and "\<And>s sig. P s \<Longrightarrow> Q (Inr (Some sig)) (s\<lparr>sc_log := ERecv sig # sc_log s\<rparr>)"
    and "\<And>s. P s \<Longrightarrow> Q (Inr None) s" and "\<And>s e. P s \<Longrightarrow> Q (Inl e) s"
  shows "hoare P (receive_signal cs) Q E"
  unfolding receive_signal_def
proof (rule hoare_bind)
  show "hoare P (io_gets sc_receive_timeout) (\<lambda>_. P) E" by (rule hoare_gets)
  fix timeout
  have "hoare P (case r of Inr (Some sig) \<Rightarrow> io_bind (log_event (ERecv sig)) (\<lambda>_. io_return r)
      | _ \<Rightarrow> io_return r) Q E" for r
  proof (cases r)
    case (Inl e)
    then show ?thesis by (auto intro: hoare_return assms(5))
  next
    case (Inr m)
    then show ?thesis
    proof (cases m)
      case None
      with Inr show ?thesis by (auto intro: hoare_return assms(4))
    next
      case (Some sig)
      have "hoare P (io_bind (log_event (ERecv sig)) (\<lambda>_. io_return (Inr (Some sig)))) Q E"
        by (rule hoare_bind [OF hoare_log_event hoare_return]) (rule assms(3))
      with Inr Some show ?thesis by simp
    qed
  qed
  then show "hoare P (io_bind (sc_io (cs_receive cs timeout))
      (\<lambda>r. case r of Inr (Some sig) \<Rightarrow> io_bind (log_event (ERecv sig)) (\<lambda>_. io_return r)
        | _ \<Rightarrow> io_return r)) Q E"
    by (intro hoare_bind [where R = "\<lambda>_. P"] hoare_sc_io) (simp_all add: assms(1,2))
qed

section \<open>The operations keep the invariant\<close>

text \<open>
  Between the two halves of an operation, when the log already has the event and the flag is not yet
  set, the state is described by its predecessor.
\<close>

definition just_logged ::
  "(activity_id \<times> activity_id list) list \<Rightarrow> event \<Rightarrow> 'w scheduler \<Rightarrow> bool" where
  "just_logged D e s \<longleftrightarrow> (\<exists>log. sc_log s = e # log \<and> event_ok D e log \<and> running D (s\<lparr>sc_log := log\<rparr>))"

lemma just_logged_world [simp]: "just_logged D e (s\<lparr>sc_world := w\<rparr>) = just_logged D e s"
  by (simp add: just_logged_def running_def)

lemma just_logged_logged: "just_logged D e s \<Longrightarrow> logged D s"
  by (auto simp: just_logged_def logged_def running_def)

lemma just_loggedI:
  "running D s \<Longrightarrow> event_ok D e (sc_log s) \<Longrightarrow> just_logged D e (s\<lparr>sc_log := e # sc_log s\<rparr>)"
  by (simp add: just_logged_def)

text \<open>An event that no flag speaks of.\<close>

lemma running_neutral:
  assumes "running D s" "ready_of e = None" "step_of e = None" "e \<noteq> ECycle" "shutdown_of e = None"
    "\<not> is_broadcast e" "event_ok D e (sc_log s)"
  shows "running D (s\<lparr>sc_log := e # sc_log s\<rparr>)"
  using assms by (auto simp: running_def flags_ok_def quiet_Cons list_all_iff)

lemma running_recv:
  "running D s \<Longrightarrow> ready_of (ERecv sig) = None \<Longrightarrow> running D (s\<lparr>sc_log := ERecv sig # sc_log s\<rparr>)"
  by (rule running_neutral) (cases sig; simp)+

lemma running_mark_ready:
  assumes "just_logged D (ERecv (Ready i t)) s"
  shows "running D (mark_ready i s)"
  using assms
  by (auto simp: just_logged_def running_def mark_ready_def flags_ok_def quiet_Cons
      set_modify_key list_all_iff split: prod.splits if_splits)

lemma running_mark_triggered:
  assumes "just_logged D (ESend i (Step i t)) s"
  shows "running D (s\<lparr>sc_states := modify_key i (triggered_update (\<lambda>_. True)) (sc_states s)\<rparr>)"
  using assms
  by (auto simp: just_logged_def running_def flags_ok_def quiet_Cons
      set_modify_key list_all_iff split: prod.splits if_splits)

lemma running_start_cycle:
  assumes "running D s" "all_ready s"
  shows "running D (start_cycle s)"
proof -
  have "i \<in> set (readied (cycle_part (sc_log s)))" if "i \<in> fst ` set D" for i
  proof -
    from assms(1) that have "i \<in> fst ` set (sc_states s)" by (metis running_def list.set_map)
    then obtain st where "(i, st) \<in> set (sc_states s)" by force
    with assms show ?thesis by (auto simp: running_def flags_ok_def all_ready_def list_all_iff)
  qed
  with assms show ?thesis
    by (auto simp: running_def start_cycle_def flags_ok_def quiet_Cons list_all_iff comp_def case_prod_beta)
qed

text \<open>The guard of a step is the guard of the execution model.\<close>

lemma step_event_ok:
  assumes "running D s" "(i, ds) \<in> set D" "map_of (sc_states s) i = Some st" "\<not> triggered st"
    "deps_ready (sc_states s) ds" "ECycle \<in> set (sc_log s)"
  shows "event_ok D (ESend i (Step i t)) (sc_log s)"
proof -
  have "d \<in> set (readied (cycle_part (sc_log s)))" if "d \<in> set ds" "d \<in> fst ` set D" for d
  proof -
    from assms(1) that(2) have "d \<in> fst ` set (sc_states s)" by (metis running_def list.set_map)
    then obtain st where "(d, st) \<in> set (sc_states s)" by force
    with assms(1,5) that(1) show ?thesis
      by (force simp: running_def flags_ok_def deps_ready_def list_all_iff)
  qed
  moreover have "map_of D i = Some ds" using assms(1,2) by (simp add: running_def)
  moreover have "i \<notin> set (stepped (cycle_part (sc_log s)))"
    using assms(1,3,4) by (auto simp: running_def flags_ok_def list_all_iff dest!: map_of_SomeD)
  ultimately show ?thesis using assms(1,6) by (auto simp: running_def)
qed

text \<open>Before the first task chain (\<open>False\<close>) and inside one (\<open>True\<close>).\<close>

definition phase :: "(activity_id \<times> activity_id list) list \<Rightarrow> bool \<Rightarrow> 'w scheduler \<Rightarrow> bool" where
  "phase D c s \<longleftrightarrow> running D s \<and> (ECycle \<in> set (sc_log s) \<longleftrightarrow> c)"

abbreviation in_chain :: "(activity_id \<times> activity_id list) list \<Rightarrow> 'w scheduler \<Rightarrow> bool" where
  "in_chain D \<equiv> phase D True"

lemma phase_simps [simp]:
  "phase D c (s\<lparr>sc_world := w\<rparr>) = phase D c s"
  by (simp add: phase_def)

lemma phase_running: "phase D c s \<Longrightarrow> running D s"
  by (simp add: phase_def)

lemma phase_logged: "phase D c s \<Longrightarrow> logged D s"
  by (simp add: phase_def running_logged)

lemma hoare_step_if_ready:
  assumes "x \<in> set D"
  shows "hoare (in_chain D) (step_if_ready cs pf x) (\<lambda>_. in_chain D) (logged D)"
proof -
  obtain i ds where x: "x = (i, ds)" by fastforce
  let ?J = "\<lambda>s st. in_chain D s \<and> map_of (sc_states s) i = Some st"
  let ?mid = "\<lambda>s. \<exists>t. just_logged D (ESend i (Step i t)) s \<and> ECycle \<in> set (sc_log s)"
  have send: "hoare (\<lambda>s. ?J s st \<and> \<not> triggered st \<and> deps_ready (sc_states s) ds)
      (step_activity cs pf i) (\<lambda>_. ?mid) (logged D)" for st
    unfolding step_activity_def
  proof (rule hoare_bind [OF hoare_sc_io])
    fix t
    show "hoare (\<lambda>s. ?J s st \<and> \<not> triggered st \<and> deps_ready (sc_states s) ds)
        (trigger_activity cs i (Step i t)) (\<lambda>_. ?mid) (logged D)"
    proof (rule hoare_trigger)
      fix s :: "'a scheduler"
      assume "?J s st \<and> \<not> triggered st \<and> deps_ready (sc_states s) ds"
      then have "running D s" "event_ok D (ESend i (Step i t)) (sc_log s)" "ECycle \<in> set (sc_log s)"
        using step_event_ok [of D s i ds st t] assms x by (simp_all add: phase_def)
      then show "?mid (s\<lparr>sc_log := ESend i (Step i t) # sc_log s\<rparr>)"
        by (intro exI [of _ t]) (simp add: just_loggedI)
    qed (auto intro: just_logged_logged)
  qed (auto intro: phase_logged)
  have finish: "hoare ?mid (io_bind (io_unwrap r) (\<lambda>_. io_modify (\<lambda>s.
      s\<lparr>sc_states := modify_key i (triggered_update (\<lambda>_. True)) (sc_states s)\<rparr>)))
      (\<lambda>_. in_chain D) (logged D)" for r :: "error + unit"
    by (rule hoare_bind [where R = "\<lambda>_. ?mid"])
      (auto intro!: hoare_unwrap hoare_modify running_mark_triggered intro: just_logged_logged
        simp: phase_def)
  show ?thesis
    unfolding x step_if_ready_def prod.case
  proof (rule hoare_bind_gets)
    fix s :: "'a scheduler"
    assume s: "in_chain D s"
    show "hoare (\<lambda>s'. s' = s) (io_bind (io_expect (map_of (sc_states s) i)) (\<lambda>st.
        if triggered st then io_return ()
        else if deps_ready (sc_states s) ds then io_bind (step_activity cs pf i) (\<lambda>r.
          io_bind (io_unwrap r) (\<lambda>_. io_modify (\<lambda>s.
            s\<lparr>sc_states := modify_key i (triggered_update (\<lambda>_. True)) (sc_states s)\<rparr>)))
        else io_return ())) (\<lambda>_. in_chain D) (logged D)"
    proof (rule hoare_bind)
      show "hoare (\<lambda>s'. s' = s) (io_expect (map_of (sc_states s) i)) (\<lambda>st s'. s' = s \<and> ?J s st) (logged D)"
        by (rule hoare_expect) (use s in \<open>auto intro: phase_logged\<close>)
      fix st
      show "hoare (\<lambda>s'. s' = s \<and> ?J s st) (if triggered st then io_return ()
          else if deps_ready (sc_states s) ds then io_bind (step_activity cs pf i) (\<lambda>r.
            io_bind (io_unwrap r) (\<lambda>_. io_modify (\<lambda>s.
              s\<lparr>sc_states := modify_key i (triggered_update (\<lambda>_. True)) (sc_states s)\<rparr>)))
          else io_return ()) (\<lambda>_. in_chain D) (logged D)"
        by (intro hoare_if hoare_return hoare_pre [OF hoare_bind [OF send finish]]) auto
    qed
  qed
qed

lemma hoare_step_ready_activities:
  "hoare (in_chain D) (step_ready_activities cs pf) (\<lambda>_. in_chain D) (logged D)"
  unfolding step_ready_activities_def
proof (rule hoare_bind)
  show "hoare (in_chain D) (io_gets sc_depends) (\<lambda>ds s. ds = D \<and> in_chain D s) (logged D)"
    by (rule hoare_gets) (simp add: phase_def running_def)
  show "hoare (\<lambda>s. ds = D \<and> in_chain D s) (io_for ds (step_if_ready cs pf)) (\<lambda>_. in_chain D) (logged D)" for ds
    by (rule hoare_assume) (auto intro!: hoare_for hoare_step_if_ready)
qed

section \<open>Waiting for a ready signal\<close>

definition got_ready ::
  "(activity_id \<times> activity_id list) list \<Rightarrow> bool \<Rightarrow> activity_id \<Rightarrow> 'w scheduler \<Rightarrow> bool" where
  "got_ready D c i s \<longleftrightarrow>
    (\<exists>t. just_logged D (ERecv (Ready i t)) s) \<and> (ECycle \<in> set (sc_log s) \<longleftrightarrow> c)"

lemma got_ready_logged: "got_ready D c i s \<Longrightarrow> logged D s"
  by (auto simp: got_ready_def intro: just_logged_logged)

lemma phase_recv:
  "phase D c s \<Longrightarrow> ready_of (ERecv sig) = None \<Longrightarrow> phase D c (s\<lparr>sc_log := ERecv sig # sc_log s\<rparr>)"
  by (simp add: phase_def running_recv)

lemma hoare_wait_ready_loop:
  "hoare (phase D c) (wait_ready_loop n cs)
    (\<lambda>r s. case r of Inl e \<Rightarrow> phase D c s | Inr i \<Rightarrow> got_ready D c i s) (logged D)"
proof (induction n)
  case 0
  show ?case by (auto intro: hoare_hang phase_logged)
next
  case (Suc n)
  let ?Q = "\<lambda>r s. case r of Inl e \<Rightarrow> phase D c s | Inr i \<Rightarrow> got_ready D c i s"
  let ?R = "\<lambda>r s. case r of Some (Ready i t) \<Rightarrow> got_ready D c i s | _ \<Rightarrow> phase D c s"
  show ?case
    unfolding wait_ready_loop.simps
  proof (rule hoare_try)
    show "hoare (phase D c) (receive_signal cs)
        (\<lambda>r s. case r of Inl e \<Rightarrow> ?Q (Inl e) s | Inr a \<Rightarrow> ?R a s) (logged D)"
    proof (rule hoare_receive)
      fix s :: "'a scheduler" and sig
      assume s: "phase D c s"
      show "case Inr (Some sig) of Inl e \<Rightarrow> ?Q (Inl e) (s\<lparr>sc_log := ERecv sig # sc_log s\<rparr>)
        | Inr a \<Rightarrow> ?R a (s\<lparr>sc_log := ERecv sig # sc_log s\<rparr>)"
        using s phase_recv [OF s, of sig]
        by (cases sig) (auto simp: got_ready_def phase_def just_logged_def)
    qed (auto intro: phase_logged)
    fix r :: "signal option"
    show "hoare (?R r) (case r of
        None \<Rightarrow> io_bind (io_gets sc_receive_timeout) (\<lambda>timeout.
          io_return (Inl (ETimeout (Some timeout) ''waiting for ready signal'')))
      | Some (Ready i t) \<Rightarrow> io_return (Inr i)
      | Some (ActivityFailed i e) \<Rightarrow> io_return (Inl (EActivityFailed i e))
      | Some (TerminateAck agent) \<Rightarrow> wait_ready_loop n cs
      | Some other \<Rightarrow> wait_ready_loop n cs) ?Q (logged D)"
      by (cases r; cases "the r")
        (auto intro!: hoare_return hoare_bind [OF hoare_gets, where R = "\<lambda>_. phase D c"] Suc.IH)
  qed
qed

lemma hoare_wait_next_ready:
  "hoare (phase D c) (wait_next_ready n cs) (\<lambda>_. phase D c) (logged D)"
  unfolding wait_next_ready_def
proof (rule hoare_try)
  show "hoare (phase D c) (wait_ready_loop n cs)
      (\<lambda>r s. case r of Inl e \<Rightarrow> phase D c s | Inr i \<Rightarrow> got_ready D c i s) (logged D)"
    by (rule hoare_wait_ready_loop)
  fix i
  let ?mark = "io_bind (io_modify (mark_ready i)) (\<lambda>_. io_return (Inr i)) :: ('a scheduler, error + activity_id) io"
  have mark: "phase D c (mark_ready i s)" if "got_ready D c i s" for s :: "'a scheduler"
    using that running_mark_ready [of D i _ s] by (auto simp: got_ready_def phase_def mark_ready_def)
  have m: "hoare (got_ready D c i) ?mark (\<lambda>_. phase D c) (logged D)"
    by (rule hoare_bind [where R = "\<lambda>_. phase D c"]) (auto intro!: hoare_modify hoare_return mark)
  have e: "hoare (got_ready D c i) (io_bind (io_expect x) (\<lambda>_. ?mark)) (\<lambda>_. phase D c) (logged D)"
    for x :: "activity_state option"
    by (rule hoare_bind [where R = "\<lambda>_. got_ready D c i"]) (auto intro!: hoare_expect m intro: got_ready_logged)
  show "hoare (got_ready D c i) (io_bind (io_gets sc_states) (\<lambda>states.
      io_bind (io_expect (map_of states i)) (\<lambda>_. ?mark))) (\<lambda>_. phase D c) (logged D)"
    by (rule hoare_bind [where R = "\<lambda>_. got_ready D c i"]) (auto intro!: hoare_gets e)
qed

section \<open>Shutting down\<close>

definition shutdowns :: "activity_id list \<Rightarrow> timestamp list \<Rightarrow> event list" where
  "shutdowns is ts = rev (map2 (\<lambda>i t. ESend i (Shutdown i t)) is ts)"

text \<open>The activities that were ready at some time, in the order of their ids.\<close>

definition started_ids :: "(activity_id \<times> activity_id list) list \<Rightarrow> event list \<Rightarrow> activity_id list" where
  "started_ids D log = btree_set (filter (\<lambda>i. i \<in> set (readied log)) (map fst D))"

text \<open>The log since \<open>base\<close> has the given outputs, among any received signals.\<close>

definition after ::
  "(activity_id \<times> activity_id list) list \<Rightarrow> event list \<Rightarrow> event list \<Rightarrow> 'w scheduler \<Rightarrow> bool" where
  "after D base outs s \<longleftrightarrow>
    logged D s \<and> (\<exists>pre. sc_log s = pre @ base \<and> filter is_output pre = outs)"

lemma after_world [simp]: "after D base outs (s\<lparr>sc_world := w\<rparr>) = after D base outs s"
  by (simp add: after_def)

lemma after_logged: "after D base outs s \<Longrightarrow> logged D s"
  by (simp add: after_def)

lemma after_start: "logged D s \<Longrightarrow> after D (sc_log s) [] s"
  by (simp add: after_def)

lemma after_recv: "after D base outs s \<Longrightarrow> after D base outs (s\<lparr>sc_log := ERecv sig # sc_log s\<rparr>)"
  by (auto simp: after_def logged_def intro: exI [of _ "ERecv sig # _"])

lemma after_output:
  assumes "after D base outs s" "is_output e" "event_ok D e (sc_log s)"
  shows "after D base (e # outs) (s\<lparr>sc_log := e # sc_log s\<rparr>)"
proof -
  from assms(1) obtain pre where "sc_log s = pre @ base" "filter is_output pre = outs"
    by (auto simp: after_def)
  with assms show ?thesis by (auto simp: after_def logged_def intro!: exI [of _ "e # pre"])
qed

lemma started_activities_log:
  assumes "running D s"
  shows "started_activities s = started_ids D (sc_log s)"
proof -
  have "fst ` {x \<in> set (sc_states s). ever_ready (snd x)} = {i \<in> fst ` set D. i \<in> set (readied (sc_log s))}"
  proof -
    have keys: "fst ` set (sc_states s) = fst ` set D" using assms by (metis running_def list.set_map)
    have "\<And>i st. (i, st) \<in> set (sc_states s) \<Longrightarrow> ever_ready st \<longleftrightarrow> i \<in> set (readied (sc_log s))"
      using assms by (auto simp: running_def flags_ok_def list_all_iff)
    then show ?thesis unfolding keys [symmetric] by force
  qed
  then have "set (map fst (filter (\<lambda>(_, st). ever_ready st) (sc_states s)))
      = set (filter (\<lambda>i. i \<in> set (readied (sc_log s))) (map fst D))"
    by (simp add: case_prod_beta)
  then show ?thesis
    unfolding started_activities_def started_ids_def by (metis btree_set_props btree_set_unique)
qed

lemma shutdown_is_output: "shutdown_of e = Some i \<Longrightarrow> is_output e"
  by (erule shutdown_of.elims) auto

lemma map_filter_shutdown_outputs: "shut_down (filter is_output pre) = shut_down pre"
  by (induction pre) (auto dest: shutdown_is_output split: option.split)

lemma filter_broadcast_outputs: "filter is_broadcast (filter is_output pre) = filter is_broadcast pre"
  by (induction pre) (auto elim: is_output.elims)

lemma shutdowns_snoc:
  "length is = length ts \<Longrightarrow> shutdowns (is @ [i]) (ts @ [t]) = ESend i (Shutdown i t) # shutdowns is ts"
  by (simp add: shutdowns_def)

lemma shutdowns_props:
  "length is = length ts \<Longrightarrow> shut_down (shutdowns is ts) = rev is"
  "filter is_broadcast (shutdowns is ts) = []"
proof -
  show "shut_down (shutdowns is ts) = rev is" if "length is = length ts"
    using that by (induction "is" ts rule: list_induct2) (simp_all add: shutdowns_def)
  show "filter is_broadcast (shutdowns is ts) = []"
    by (auto simp: shutdowns_def filter_empty_conv)
qed

text \<open>The send loop.\<close>

definition sent_shutdowns ::
  "(activity_id \<times> activity_id list) list \<Rightarrow> event list \<Rightarrow> activity_id list \<Rightarrow> 'w scheduler \<Rightarrow> bool" where
  "sent_shutdowns D base is s \<longleftrightarrow> (\<exists>ts. length ts = length is \<and> after D base (shutdowns is ts) s)"

lemma sent_shutdowns_world [simp]:
  "sent_shutdowns D base is (s\<lparr>sc_world := w\<rparr>) = sent_shutdowns D base is s"
  by (simp add: sent_shutdowns_def)

lemma sent_shutdowns_logged: "sent_shutdowns D base is s \<Longrightarrow> logged D s"
  by (auto simp: sent_shutdowns_def after_logged)

lemma sent_shutdowns_snoc:
  assumes "sent_shutdowns D base is s" "quiet base" "i \<in> fst ` set D" "i \<in> set (readied base)" "i \<notin> set is"
  shows "sent_shutdowns D base (is @ [i]) (s\<lparr>sc_log := ESend i (Shutdown i t) # sc_log s\<rparr>)"
proof -
  from assms(1) obtain ts pre where ts: "length ts = length is" "after D base (shutdowns is ts) s"
    and pre: "sc_log s = pre @ base" "filter is_output pre = shutdowns is ts"
    by (auto simp: sent_shutdowns_def after_def)
  have "shut_down pre = rev is" "filter is_broadcast pre = []"
    using shutdowns_props [of "is" ts] ts(1) map_filter_shutdown_outputs [of pre]
      filter_broadcast_outputs [of pre] pre(2) by auto
  with assms(2-5) pre(1) have "event_ok D (ESend i (Shutdown i t)) (sc_log s)"
    by (simp add: quiet_def)
  from after_output [OF ts(2) _ this] ts(1) show ?thesis
    unfolding sent_shutdowns_def by (intro exI [of _ "ts @ [t]"]) (simp add: shutdowns_snoc)
qed

lemma hoare_shutdown_activity:
  assumes "quiet base" "i \<in> fst ` set D" "i \<in> set (readied base)" "i \<notin> set is"
  shows "hoare (sent_shutdowns D base is) (shutdown_activity cs pf i)
    (\<lambda>_. sent_shutdowns D base (is @ [i])) (logged D)"
  unfolding shutdown_activity_def
  by (intro hoare_bind [where R = "\<lambda>_. sent_shutdowns D base is"] hoare_sc_io hoare_trigger
      sent_shutdowns_snoc assms) (auto intro: sent_shutdowns_logged)

lemma hoare_send_shutdowns:
  assumes "quiet base"
  shows "hoare (\<lambda>s. after D base [] s)
    (io_for (started_ids D base) (\<lambda>i. io_bind (shutdown_activity cs pf i) (\<lambda>_. io_return ())))
    (\<lambda>_. sent_shutdowns D base (started_ids D base)) (logged D)"
proof (rule hoare_pre [OF hoare_for_prefix])
  fix xs x ys
  assume split: "started_ids D base = xs @ x # ys"
  have "distinct (xs @ x # ys)" unfolding split [symmetric] by (simp add: started_ids_def)
  moreover have "x \<in> set (started_ids D base)" by (simp add: split)
  ultimately show "hoare (sent_shutdowns D base xs)
      (io_bind (shutdown_activity cs pf x) (\<lambda>_. io_return ()))
      (\<lambda>_. sent_shutdowns D base (xs @ [x])) (logged D)"
    by (intro hoare_bind [OF hoare_shutdown_activity] hoare_return assms) (auto simp: started_ids_def)
qed (simp add: sent_shutdowns_def shutdowns_def)

text \<open>The waiting loops receive and send nothing.\<close>

lemma hoare_after_io: "hoare (after D base outs) (sc_io m) (\<lambda>_. after D base outs) (logged D)"
  by (rule hoare_sc_io) (auto intro: after_logged)

lemma hoare_after_receive:
  "hoare (after D base outs) (receive_signal cs) (\<lambda>_. after D base outs) (logged D)"
  by (rule hoare_receive) (auto intro: after_logged after_recv)

lemma hoare_shutdown_wait:
  "hoare (after D base outs) (shutdown_wait n cs pf timeout start pending) (\<lambda>_. after D base outs) (logged D)"
proof (induction n arbitrary: pending)
  case 0
  show ?case by (auto intro!: hoare_return hoare_hang intro: after_logged)
next
  case (Suc n)
  show ?case
    unfolding shutdown_wait.simps
    by (intro hoare_if hoare_return hoare_bind [OF hoare_after_io] hoare_bind [OF hoare_after_receive])
      (auto intro: Suc.IH split: sum.split option.split signal.split)
qed

lemma hoare_terminate_wait:
  "hoare (after D base outs) (terminate_wait n cs pf timeout start pending) (\<lambda>_. after D base outs) (logged D)"
proof (induction n arbitrary: pending)
  case 0
  show ?case by (auto intro!: hoare_return hoare_hang intro: after_logged)
next
  case (Suc n)
  show ?case
    unfolding terminate_wait.simps
    by (intro hoare_if hoare_return hoare_bind [OF hoare_after_io] hoare_bind [OF hoare_after_receive])
      (auto intro: Suc.IH split: sum.split option.split signal.split)
qed

lemma hoare_terminate_all_agents:
  assumes "filter is_broadcast (outs @ base) = []"
  shows "hoare (after D base outs) (terminate_all_agents n cs pf)
    (\<lambda>_ s. \<exists>t. after D base (EBroadcast (Terminate t) # outs) s) (logged D)"
proof -
  let ?Q = "\<lambda>_ s. \<exists>t. after D base (EBroadcast (Terminate t) # outs) s"
  have log: "hoare (after D base outs) (log_event (EBroadcast (Terminate t)))
      (\<lambda>_. after D base (EBroadcast (Terminate t) # outs)) (logged D)" for t
  proof (rule hoare_log_event)
    fix s
    assume s: "after D base outs s"
    then obtain pre where "sc_log s = pre @ base" "filter is_output pre = outs" by (auto simp: after_def)
    with assms filter_broadcast_outputs [of pre] have "filter is_broadcast (sc_log s) = []" by simp
    then show "after D base (EBroadcast (Terminate t) # outs)
        (s\<lparr>sc_log := EBroadcast (Terminate t) # sc_log s\<rparr>)"
      by (intro after_output [OF s]) simp_all
  qed
  let ?A = "\<lambda>t. after D base (EBroadcast (Terminate t) # outs)"
  have wait: "hoare (?A t) (if pending = [] then io_return ()
      else io_bind (io_lift timeout) (\<lambda>timeout. io_bind (sc_io (pf_now pf)) (\<lambda>start.
        terminate_wait n cs pf timeout start pending))) ?Q (logged D)" for t timeout pending
    by (intro hoare_if hoare_return hoare_bind [OF hoare_lift [where Q = "\<lambda>_. ?A t"]]
        hoare_bind [OF hoare_after_io] hoare_post [OF hoare_terminate_wait]) (auto intro: after_logged)
  show ?thesis
    unfolding terminate_all_agents_def Let_def
    by (intro hoare_bind [OF hoare_after_io] hoare_bind [OF log] hoare_bind_get hoare_pre [OF wait]) auto
qed

definition finished :: "(activity_id \<times> activity_id list) list \<Rightarrow> event list \<Rightarrow> bool" where
  "finished D log \<longleftrightarrow> (\<exists>base pre ts t. log = pre @ base \<and> quiet base
    \<and> length ts = length (started_ids D base)
    \<and> filter is_output pre = EBroadcast (Terminate t) # shutdowns (started_ids D base) ts)"

lemma hoare_shutdown_gracefully:
  "hoare (running D) (shutdown_gracefully n cs pf) (\<lambda>_ s. logged D s \<and> finished D (sc_log s)) (logged D)"
  unfolding shutdown_gracefully_def
proof (rule hoare_bind_gets)
  fix s :: "'a scheduler"
  assume s: "running D s"
  let ?base = "sc_log s" and ?ids = "started_ids D (sc_log s)"
  have quiet: "quiet ?base" using s by (simp add: running_def)
  let ?wait = "\<lambda>k pending. io_bind (io_gets sc_receive_timeout) (\<lambda>recv_timeout.
      io_bind (io_lift (scaled_timeout recv_timeout k 2)) (\<lambda>timeout. io_bind (sc_io (pf_now pf)) (\<lambda>start.
      shutdown_wait n cs pf timeout start pending)))"
  have "hoare (after D ?base outs) (?wait k pending) (\<lambda>_. after D ?base outs) (logged D)" for k pending outs
    by (intro hoare_bind [OF hoare_gets [where Q = "\<lambda>_. after D ?base outs"]]
        hoare_bind [OF hoare_lift [where Q = "\<lambda>_. after D ?base outs"]]
        hoare_bind [OF hoare_after_io] hoare_shutdown_wait) (auto intro: after_logged)
  then have wait: "hoare (sent_shutdowns D ?base ?ids) (?wait k pending)
      (\<lambda>_. sent_shutdowns D ?base ?ids) (logged D)" for k pending
    unfolding sent_shutdowns_def
    by (intro hoare_exists hoare_assume) (rule hoare_post, assumption, blast)
  have phase1: "hoare (\<lambda>s'. s' = s)
      (if started_activities s \<noteq> [] then
         io_bind (io_for (started_activities s) (\<lambda>i. io_bind (shutdown_activity cs pf i) (\<lambda>_. io_return ()))) (\<lambda>_.
         io_bind (io_gets sc_receive_timeout) (\<lambda>recv_timeout.
         io_bind (io_lift (scaled_timeout recv_timeout (length (started_activities s)) 2)) (\<lambda>timeout.
         io_bind (sc_io (pf_now pf)) (\<lambda>start.
         shutdown_wait n cs pf timeout start (started_activities s)))))
       else io_return ()) (\<lambda>_. sent_shutdowns D ?base ?ids) (logged D)"
    unfolding started_activities_log [OF s]
  proof (rule hoare_if)
    show "hoare (\<lambda>s'. s' = s) (io_bind (io_for ?ids (\<lambda>i. io_bind (shutdown_activity cs pf i) (\<lambda>_. io_return ())))
        (\<lambda>_. io_bind (io_gets sc_receive_timeout) (\<lambda>recv_timeout.
         io_bind (io_lift (scaled_timeout recv_timeout (length ?ids) 2)) (\<lambda>timeout.
         io_bind (sc_io (pf_now pf)) (\<lambda>start. shutdown_wait n cs pf timeout start ?ids)))))
        (\<lambda>_. sent_shutdowns D ?base ?ids) (logged D)"
      by (rule hoare_bind [OF hoare_pre [OF hoare_send_shutdowns [OF quiet]] wait])
        (use s in \<open>auto intro: after_start running_logged\<close>)
    assume "\<not> ?ids \<noteq> []"
    then show "hoare (\<lambda>s'. s' = s) (io_return ()) (\<lambda>_. sent_shutdowns D ?base ?ids) (logged D)"
      using s by (intro hoare_return)
        (auto simp: sent_shutdowns_def shutdowns_def intro: after_start running_logged)
  qed
  have phase2: "hoare (sent_shutdowns D ?base ?ids) (terminate_all_agents n cs pf)
      (\<lambda>_ s. logged D s \<and> finished D (sc_log s)) (logged D)"
    unfolding sent_shutdowns_def
  proof (rule hoare_exists, rule hoare_assume)
    fix ts :: "timestamp list"
    assume ts: "length ts = length ?ids"
    then have "filter is_broadcast (shutdowns ?ids ts @ ?base) = []"
      using shutdowns_props(2) quiet by (simp add: quiet_def)
    from hoare_terminate_all_agents [OF this]
    show "hoare (after D ?base (shutdowns ?ids ts)) (terminate_all_agents n cs pf)
        (\<lambda>_ s. logged D s \<and> finished D (sc_log s)) (logged D)"
    proof (rule hoare_post)
      fix s' :: "'a scheduler"
      assume "\<exists>t. after D ?base (EBroadcast (Terminate t) # shutdowns ?ids ts) s'"
      then show "logged D s' \<and> finished D (sc_log s')"
        using ts quiet unfolding after_def finished_def by metis
    qed
  qed
  show "hoare (\<lambda>s'. s' = s) (io_bind
      (if started_activities s \<noteq> [] then
         io_bind (io_for (started_activities s) (\<lambda>i. io_bind (shutdown_activity cs pf i) (\<lambda>_. io_return ()))) (\<lambda>_.
         io_bind (io_gets sc_receive_timeout) (\<lambda>recv_timeout.
         io_bind (io_lift (scaled_timeout recv_timeout (length (started_activities s)) 2)) (\<lambda>timeout.
         io_bind (sc_io (pf_now pf)) (\<lambda>start.
         shutdown_wait n cs pf timeout start (started_activities s)))))
       else io_return ()) (\<lambda>_. terminate_all_agents n cs pf))
      (\<lambda>_ s. logged D s \<and> finished D (sc_log s)) (logged D)"
    by (rule hoare_bind [OF phase1 phase2])
qed

section \<open>A whole run\<close>

definition fresh ::
  "(activity_id \<times> activity_id list) list \<Rightarrow> activity_id list \<Rightarrow> 'w scheduler \<Rightarrow> bool" where
  "fresh D is s \<longleftrightarrow> phase D False s \<and> set (started_up (sc_log s)) = set is"

lemma fresh_world [simp]: "fresh D is (s\<lparr>sc_world := w\<rparr>) = fresh D is s"
  by (simp add: fresh_def)

lemma fresh_phase: "fresh D is s \<Longrightarrow> phase D False s"
  by (simp add: fresh_def)

lemma fresh_logged: "fresh D is s \<Longrightarrow> logged D s"
  by (rule phase_logged) (rule fresh_phase)

lemma fresh_new:
  "distinct (map fst D) \<Longrightarrow> fresh D [] (scheduler_new a c r st D w)"
  by (auto simp: fresh_def phase_def running_def scheduler_new_def flags_ok_def initial_state_def
      list_all_iff comp_def case_prod_beta)

lemma fresh_snoc:
  assumes "fresh D is s" "i \<in> fst ` set D" "i \<notin> set is"
  shows "fresh D (is @ [i]) (s\<lparr>sc_log := ESend i (Startup i t) # sc_log s\<rparr>)"
proof -
  from assms have "event_ok D (ESend i (Startup i t)) (sc_log s)" "running D s"
    by (auto simp: fresh_def phase_def running_def)
  then have "running D (s\<lparr>sc_log := ESend i (Startup i t) # sc_log s\<rparr>)"
    by (intro running_neutral) simp_all
  with assms(1) show ?thesis by (simp add: fresh_def phase_def)
qed

lemma hoare_startup_all:
  "hoare (fresh D []) (startup_all cs pf) (\<lambda>_. phase D False) (logged D)"
  unfolding startup_all_def
proof (rule hoare_bind_gets)
  fix s :: "'a scheduler"
  assume s: "fresh D [] s"
  let ?ids = "sort (map fst (sc_states s))"
  from s have keys: "distinct (map fst D)" "map fst (sc_states s) = map fst D"
    by (simp_all add: fresh_def phase_def running_def)
  then have ids: "distinct ?ids" "set ?ids = fst ` set D" by simp_all
  have "hoare (fresh D []) (io_for ?ids (\<lambda>i. io_bind (startup_activity cs pf i) io_unwrap))
      (\<lambda>_. fresh D ?ids) (logged D)"
  proof (rule hoare_for_prefix)
    fix xs x ys
    assume split: "?ids = xs @ x # ys"
    have "distinct (xs @ x # ys)" "x \<in> set ?ids" using ids(1) by (simp_all only: split) simp
    then have x: "x \<in> fst ` set D" "x \<notin> set xs" using ids(2) by auto
    show "hoare (fresh D xs) (io_bind (startup_activity cs pf x) io_unwrap)
        (\<lambda>_. fresh D (xs @ [x])) (logged D)"
      unfolding startup_activity_def
      by (intro hoare_bind [where R = "\<lambda>_. fresh D (xs @ [x])"] hoare_bind [where R = "\<lambda>_. fresh D xs"]
          hoare_sc_io hoare_trigger hoare_unwrap fresh_snoc x) (auto intro: fresh_logged)
  qed
  then show "hoare (\<lambda>s'. s' = s) (io_for ?ids (\<lambda>i. io_bind (startup_activity cs pf i) io_unwrap))
      (\<lambda>_. phase D False) (logged D)"
    by (rule hoare_conseq) (use s in \<open>auto simp: fresh_phase\<close>)
qed

text \<open>
  The result of a loop of \<open>run\<close>: it goes on with every activity ready, or the shutdown is complete.
\<close>

definition loop_post ::
  "(activity_id \<times> activity_id list) list \<Rightarrow> bool \<Rightarrow> bool \<Rightarrow> 'w scheduler \<Rightarrow> bool" where
  "loop_post D c go_on s \<longleftrightarrow>
    (if go_on then phase D c s \<and> all_ready s else logged D s \<and> finished D (sc_log s))"

lemma loop_post_simps:
  "loop_post D c True = (\<lambda>s. phase D c s \<and> all_ready s)"
  "loop_post D c False = (\<lambda>s. logged D s \<and> finished D (sc_log s))"
  by (simp_all add: loop_post_def fun_eq_iff)

lemma all_ready_world [simp]: "all_ready (s\<lparr>sc_world := w\<rparr>) = all_ready s"
  by (simp add: all_ready_def)

lemma hoare_phase_io: "hoare (phase D c) (sc_io m) (\<lambda>_. phase D c) (logged D)"
  by (rule hoare_sc_io) (auto intro: phase_logged)

lemma hoare_stop:
  "hoare (phase D c) (io_bind (shutdown_gracefully n cs pf) (\<lambda>_. io_return False)) (loop_post D c') (logged D)"
  by (rule hoare_bind [OF hoare_pre [OF hoare_shutdown_gracefully]])
    (auto intro: phase_running hoare_return simp: loop_post_def)

lemma hoare_startup_loop:
  "hoare (phase D False) (startup_loop n cs pf start) (loop_post D False) (logged D)"
proof (induction n)
  case 0
  show ?case by (auto intro: hoare_hang phase_logged)
next
  case (Suc n)
  let ?P = "phase D False"
  have rest: "hoare ?P (case r of Inl e \<Rightarrow> io_bind (shutdown_gracefully n cs pf) (\<lambda>_. io_return False)
      | Inr _ \<Rightarrow> startup_loop n cs pf start) (loop_post D False) (logged D)" for r :: "error + activity_id"
    by (cases r) (simp_all add: hoare_stop Suc.IH)
  have body: "hoare ?P (io_bind (sc_io (pf_elapsed pf start)) (\<lambda>elapsed.
      if limit < elapsed then io_bind (shutdown_gracefully n cs pf) (\<lambda>_. io_return False)
      else io_bind (wait_next_ready n cs) (\<lambda>r. case r of
          Inl e \<Rightarrow> io_bind (shutdown_gracefully n cs pf) (\<lambda>_. io_return False)
        | Inr _ \<Rightarrow> startup_loop n cs pf start))) (loop_post D False) (logged D)" for limit
    by (intro hoare_bind [OF hoare_phase_io] hoare_if hoare_stop hoare_bind [OF hoare_wait_next_ready] rest)
  show ?case
    unfolding startup_loop.simps
    by (intro hoare_bind_get hoare_if hoare_return hoare_pre [OF body]) (auto simp: loop_post_def)
qed

lemma hoare_chain_loop:
  "hoare (in_chain D) (chain_loop n cs pf) (loop_post D True) (logged D)"
proof (induction n)
  case 0
  show ?case by (auto intro: hoare_hang phase_logged)
next
  case (Suc n)
  have rest: "hoare (in_chain D) (case r of Inl e \<Rightarrow> io_bind (shutdown_gracefully n cs pf) (\<lambda>_. io_return False)
      | Inr _ \<Rightarrow> chain_loop n cs pf) (loop_post D True) (logged D)" for r :: "error + activity_id"
    by (cases r) (simp_all add: hoare_stop Suc.IH)
  have body: "hoare (in_chain D) (io_bind (step_ready_activities cs pf) (\<lambda>_.
      io_bind (wait_next_ready n cs) (\<lambda>r. case r of
          Inl e \<Rightarrow> io_bind (shutdown_gracefully n cs pf) (\<lambda>_. io_return False)
        | Inr _ \<Rightarrow> chain_loop n cs pf))) (loop_post D True) (logged D)"
    by (intro hoare_bind [OF hoare_step_ready_activities] hoare_bind [OF hoare_wait_next_ready] rest)
  show ?case
    unfolding chain_loop.simps
    by (intro hoare_bind_get hoare_if hoare_return hoare_pre [OF body]) (auto simp: loop_post_def)
qed

lemma hoare_finish_cycle: "hoare (phase D c) (finish_cycle pf start) (\<lambda>_. phase D c) (logged D)"
  unfolding finish_cycle_def Let_def
  by (intro hoare_bind [OF hoare_phase_io] hoare_bind [OF hoare_gets [where Q = "\<lambda>_. phase D c"]]
      hoare_if hoare_return hoare_phase_io)

lemma start_cycle_mark: "ECycle \<in> set (sc_log (start_cycle s))"
  by (simp add: start_cycle_def)

lemma hoare_main_loop:
  "hoare (\<lambda>s. phase D c s \<and> all_ready s) (main_loop n cs pf)
    (\<lambda>r s. if r then running D s else logged D s \<and> finished D (sc_log s)) (logged D)"
proof (induction n arbitrary: c)
  case 0
  show ?case by (auto intro: hoare_hang phase_logged)
next
  case (Suc n)
  let ?Q = "\<lambda>r s. if r then running D s else logged D s \<and> finished D (sc_log s)"
  let ?ready = "\<lambda>s. in_chain D s \<and> all_ready s"
  have ready_io: "hoare (\<lambda>s. phase D c s \<and> all_ready s) (sc_io m)
      (\<lambda>_ s. phase D c s \<and> all_ready s) (logged D)" for m :: "('a, 'b) io" and c
    by (rule hoare_sc_io) (auto intro: phase_logged)
  have finish: "hoare ?ready (finish_cycle pf start) (\<lambda>_. ?ready) (logged D)" for start
    unfolding finish_cycle_def Let_def
    by (intro hoare_bind [where R = "\<lambda>_. ?ready"] hoare_if hoare_return hoare_gets hoare_sc_io)
      (auto intro: phase_logged)
  have last: "hoare ?ready (io_bind (sc_io (pf_shutdown_requested pf)) (\<lambda>requested.
      if requested then io_return True else main_loop n cs pf)) ?Q (logged D)"
    by (intro hoare_bind [where R = "\<lambda>_. ?ready"] hoare_sc_io hoare_if hoare_return Suc.IH)
      (auto intro: phase_logged phase_running)
  have go: "hoare (loop_post D True go_on) (if \<not> go_on then io_return False
      else io_bind (finish_cycle pf start) (\<lambda>_. io_bind (sc_io (pf_shutdown_requested pf)) (\<lambda>requested.
        if requested then io_return True else main_loop n cs pf))) ?Q (logged D)" for go_on start
    by (cases go_on)
      (simp_all only: loop_post_simps not_True_eq_False not_False_eq_True if_True if_False,
        rule hoare_bind [OF finish last], auto intro: hoare_return)
  have start: "hoare (\<lambda>s. phase D c s \<and> all_ready s) (io_modify start_cycle) (\<lambda>_. in_chain D) (logged D)"
    for c by (rule hoare_modify) (simp add: phase_def running_start_cycle start_cycle_mark)
  show ?case
    unfolding main_loop.simps
    by (intro hoare_bind [OF ready_io] hoare_bind [OF start] hoare_bind [OF hoare_chain_loop] go)
qed

lemma hoare_run:
  "hoare (fresh D []) (run n cs pf) (\<lambda>_ s. logged D s \<and> finished D (sc_log s)) (logged D)"
proof -
  let ?Q = "\<lambda>_ s. logged D s \<and> finished D (sc_log s)"
  have last: "hoare (\<lambda>s. if r then running D s else logged D s \<and> finished D (sc_log s))
      (if \<not> r then io_return () else shutdown_gracefully n cs pf) ?Q (logged D)" for r
    by (cases r) (auto intro: hoare_return hoare_shutdown_gracefully)
  have go: "hoare (loop_post D False go_on) (if \<not> go_on then io_return ()
      else io_bind (main_loop n cs pf) (\<lambda>finished.
        if \<not> finished then io_return () else shutdown_gracefully n cs pf)) ?Q (logged D)" for go_on
    by (cases go_on) (auto simp: loop_post_simps intro: hoare_return hoare_bind [OF hoare_main_loop last])
  show ?thesis
    unfolding run_def
    by (intro hoare_bind [OF hoare_startup_all] hoare_bind [OF hoare_phase_io]
        hoare_bind [OF hoare_startup_loop] go)
qed

section \<open>Properties\<close>

text \<open>
  C1: the execution order is safe on every connector and platform and in every outcome, also while
  the run goes on, blocks or panics: an activity is stepped only inside a task chain, at most once
  per chain and only after every activity it depends on has reported ready in that chain; a chain
  starts only when all activities have reported ready since the last one; startup comes first and
  once; shutdown is sent once and only to activities that have been ready; one terminate ends it.
\<close>

theorem run_log_ok:
  assumes "distinct (map fst D)"
  shows "log_ok D (sc_log (snd (run n cs pf (scheduler_new agent cycle recv_timeout startup_timeout D w))))"
proof -
  have "hoare (fresh D []) (run n cs pf) (\<lambda>_. logged D) (logged D)"
    by (rule hoare_post [OF hoare_run]) simp
  from hoare_snd [OF this fresh_new [OF assms]] show ?thesis by (auto simp: logged_def)
qed

text \<open>
  C3: every return of \<open>run\<close> is a complete graceful shutdown: whatever ended the run (a startup
  timeout, a failed activity, a receive error, the external request), what the scheduler sent last is
  a shutdown to each activity that was ever ready, in the order of the ids and to no other, and then
  one terminate to all agents; before that it sent neither.
\<close>

theorem run_return_shut_down:
  assumes "distinct (map fst D)"
    and "run n cs pf (scheduler_new agent cycle recv_timeout startup_timeout D w) = (Ret (), s)"
  shows "\<exists>base pre ts t. sc_log s = pre @ base \<and> quiet base \<and> length ts = length (started_ids D base)
    \<and> filter is_output pre = EBroadcast (Terminate t) # shutdowns (started_ids D base) ts"
  using hoare_Ret [OF hoare_run fresh_new [OF assms(1)] assms(2)] by (simp add: finished_def)

end
