(* ===== verification/Feo_Integration_Test.thy ===== *)
theory Feo_Integration_Test
  imports Feo_Com_Init Feo_Scheduler_Log Feo_Worker
begin

text \<open>
  The integration tests (\<open>tests/rust/feo_tests\<close>): the scenarios of the test agent, its three activities
  over a topic in shared memory, and the test program that starts the agents, reads the notifications
  of the monitor and asks for the shutdown.

  The activities are called in the order in which a scheduler sends its requests. The lemmas count
  the requests of a log that keeps to the execution model: sender and receiver go in step, so the
  receiver never panics; and the monitor notifies a startup, its steps and a shutdown, in this order.
\<close>

section \<open>The test agent\<close>

datatype scenario = SingleAgent | MultipleAgents
datatype monitor_notification = NotifyStartup | NotifyStep | NotifyShutdown

text \<open>
  What the agents of a test share: for each agent its registry of topics, the shared objects, the
  random numbers, the one-shot server of the test program while it waits for a connection, and the
  channel to the test program, which is open as long as that holds its end. \<open>MonitorRequest\<close> has no
  values, so no request is ever received.
\<close>

record test_world =
  tw_topics :: "agent_id \<Rightarrow> string \<Rightarrow> topic_mapping option"
  tw_shm :: "string \<Rightarrow> u64 option"
  tw_random :: "u64 list"
  tw_server :: "string option"
  tw_open :: bool
  tw_notifications :: "monitor_notification list"

definition agent_process :: "agent_id \<Rightarrow> test_world \<Rightarrow> u64 process" where
  "agent_process agent w = \<lparr>pc_topics = tw_topics w agent, pc_shm = tw_shm w, pc_random = tw_random w\<rparr>"

definition in_agent :: "agent_id \<Rightarrow> (u64 process, 'a) io \<Rightarrow> (test_world, 'a) io" where
  "in_agent agent = io_zoom (agent_process agent)
    (\<lambda>p w. w\<lparr>tw_topics := (tw_topics w)(agent := pc_topics p), tw_shm := pc_shm p, tw_random := pc_random p\<rparr>)"

text \<open>An input or an output is its topic. The payload \<open>Counter\<close> is its number.\<close>

datatype test_activity =
    TestSender activity_id string u64
  | TestReceiver activity_id string u64
  | TestMonitor activity_id

definition counter_topic :: string where
  "counter_topic = ''/feo/com/test/counter''"

definition sender_build :: "agent_id \<Rightarrow> activity_id \<Rightarrow> (test_world, test_activity) io" where
  "sender_build agent i =
    io_bind (in_agent agent (output_new counter_topic)) (\<lambda>_. io_return (TestSender i counter_topic 0))"

definition receiver_build :: "agent_id \<Rightarrow> activity_id \<Rightarrow> (test_world, test_activity) io" where
  "receiver_build agent i =
    io_bind (in_agent agent (input_new counter_topic)) (\<lambda>_. io_return (TestReceiver i counter_topic 0))"

text \<open>A one-shot server accepts one connection.\<close>

definition monitor_build :: "string \<Rightarrow> agent_id \<Rightarrow> activity_id \<Rightarrow> (test_world, test_activity) io" where
  "monitor_build server_name agent i =
    io_bind (io_gets tw_server) (\<lambda>server.
    if server \<noteq> Some server_name then io_panic
    else io_bind (io_modify (\<lambda>w. w\<lparr>tw_server := None\<rparr>)) (\<lambda>_. io_return (TestMonitor i)))"

text \<open>The counters are checked for overflow. A guard is dropped when the step ends, also by a panic.\<close>

definition test_sender_step ::
  "u64 type_info \<Rightarrow> agent_id \<Rightarrow> activity_id \<Rightarrow> string \<Rightarrow> u64 \<Rightarrow> (test_world, (activity_error + unit) \<times> test_activity) io" where
  "test_sender_step ty agent i topic counter =
    io_bind (in_agent agent (write_uninit ty topic)) (\<lambda>guard.
    io_bind (in_agent agent (write_payload guard counter)) (\<lambda>_.
    io_bind (in_agent agent (output_send topic)) (\<lambda>_.
    if counter = - 1 then io_panic else io_return (Inr (), TestSender i topic (counter + 1)))))"

definition test_receiver_step ::
  "u64 type_info \<Rightarrow> agent_id \<Rightarrow> activity_id \<Rightarrow> string \<Rightarrow> u64 \<Rightarrow> (test_world, (activity_error + unit) \<times> test_activity) io" where
  "test_receiver_step ty agent i topic counter =
    io_bind (in_agent agent (input_read ty topic)) (\<lambda>guard.
    io_bind (in_agent agent (guard_deref guard)) (\<lambda>received.
    io_bind (in_agent agent (input_drop topic)) (\<lambda>_.
    if received \<noteq> counter \<or> counter = - 1 then io_panic
    else io_return (Inr (), TestReceiver i topic (counter + 1)))))"

definition test_notify :: "monitor_notification \<Rightarrow> (test_world, unit) io" where
  "test_notify n =
    io_bind (io_gets tw_open) (\<lambda>connected.
    if connected then io_modify (\<lambda>w. w\<lparr>tw_notifications := tw_notifications w @ [n]\<rparr>) else io_panic)"

definition test_monitor_call ::
  "activity_call \<Rightarrow> activity_id \<Rightarrow> (test_world, (activity_error + unit) \<times> test_activity) io" where
  "test_monitor_call c i =
    io_bind (test_notify (case c of CallStartup \<Rightarrow> NotifyStartup | CallStep \<Rightarrow> NotifyStep | CallShutdown \<Rightarrow> NotifyShutdown))
      (\<lambda>_. io_return (Inr (), TestMonitor i))"

fun test_activity_call ::
  "u64 type_info \<Rightarrow> agent_id \<Rightarrow> activity_call \<Rightarrow> test_activity \<Rightarrow> (test_world, (activity_error + unit) \<times> test_activity) io" where
  "test_activity_call ty agent CallStep (TestSender i topic counter) = test_sender_step ty agent i topic counter"
| "test_activity_call ty agent CallStep (TestReceiver i topic counter) = test_receiver_step ty agent i topic counter"
| "test_activity_call ty agent c (TestMonitor i) = test_monitor_call c i"
| "test_activity_call ty agent c a = io_return (Inr (), a)"

section \<open>Scenarios\<close>

text \<open>A builder is given the process it runs in.\<close>

type_synonym test_builder = "agent_id \<Rightarrow> activity_id \<Rightarrow> (test_world, test_activity) io"

definition test_dependencies :: "scenario \<Rightarrow> (activity_id \<times> activity_id list) list" where
  "test_dependencies scenario =
    (case scenario of
       SingleAgent \<Rightarrow> [(GenericId 0, []), (GenericId 1, [GenericId 0]), (GenericId 2, [GenericId 1])]
     | MultipleAgents \<Rightarrow> [(GenericId 0, []), (GenericId 1, [GenericId 0]), (GenericId 2, [GenericId 1])])"

definition test_w40 :: "worker_id \<times> (activity_id \<times> test_builder) list" where
  "test_w40 = (GenericId 40, [(GenericId 0, sender_build)])"

definition test_w41 :: "string \<Rightarrow> worker_id \<times> (activity_id \<times> test_builder) list" where
  "test_w41 monitor_server = (GenericId 41, [(GenericId 1, receiver_build), (GenericId 2, monitor_build monitor_server)])"

definition test_assignments ::
  "scenario \<Rightarrow> string \<Rightarrow> (agent_id \<times> (worker_id \<times> (activity_id \<times> test_builder) list) list) list" where
  "test_assignments scenario monitor_server =
    (case scenario of
       SingleAgent \<Rightarrow> [(GenericId 100, [test_w40, test_w41 monitor_server])]
     | MultipleAgents \<Rightarrow> [(GenericId 100, [test_w41 monitor_server]), (GenericId 101, [test_w40])])"

definition test_assignments_ids :: "scenario \<Rightarrow> agent_table" where
  "test_assignments_ids scenario =
    map (\<lambda>(k, v). (k, map (\<lambda>(w, a). (w, map fst a)) v)) (test_assignments scenario ''STUB'')"

definition test_topics :: "u64 type_info \<Rightarrow> u64 topic_spec list" where
  "test_topics ty =
    [\<lparr>ts_topic = counter_topic, ts_peers = [(GenericId 0, Outgoing), (GenericId 1, Incoming)], ts_type = ty\<rparr>]"

definition test_primary_id :: agent_id where
  "test_primary_id = GenericId 100"

text \<open>The topics of a scenario: in the primary, and in a secondary, which asks the primary for them.\<close>

definition test_primary_topics :: "u64 type_info \<Rightarrow> scenario \<Rightarrow> (test_world, unit) io" where
  "test_primary_topics ty scenario =
    io_bind (in_agent test_primary_id
      (initialize_com_primary (\<lambda>_ _ _. io_panic) LinuxShm test_primary_id (test_topics ty) (test_assignments_ids scenario) 0))
      (\<lambda>_. io_return ())"

definition test_local_activities :: "scenario \<Rightarrow> agent_id \<Rightarrow> activity_id set outcome" where
  "test_local_activities scenario agent =
    (case map_of (test_assignments_ids scenario) agent of
       None \<Rightarrow> Panic | Some ws \<Rightarrow> Ret (set (concat (map snd ws))))"

definition test_secondary_topics :: "u64 type_info \<Rightarrow> scenario \<Rightarrow> agent_id \<Rightarrow> (test_world, unit) io" where
  "test_secondary_topics ty scenario agent =
    io_bind (io_lift (test_local_activities scenario agent)) (\<lambda>local_activities.
    io_bind (io_gets (agent_process test_primary_id)) (\<lambda>primary.
    io_bind (in_agent agent (initialize_com_secondary (\<lambda>topic. fst (serve_connection primary topic True)) LinuxShm
      (test_topics ty) local_activities)) (\<lambda>_. io_return ())))"

text \<open>The workers of an agent build its activities.\<close>

type_synonym test_activities = "activity_id \<rightharpoonup> agent_id \<times> test_activity"

fun test_build_all :: "agent_id \<Rightarrow> (activity_id \<times> test_builder) list \<Rightarrow> test_activities \<Rightarrow> (test_world, test_activities) io" where
  "test_build_all agent [] acts = io_return acts"
| "test_build_all agent ((i, b) # bs) acts = io_bind (b agent i) (\<lambda>a. test_build_all agent bs (acts(i \<mapsto> (agent, a))))"

definition test_build :: "agent_id \<Rightarrow> scenario \<Rightarrow> string \<Rightarrow> test_activities \<Rightarrow> (test_world, test_activities) io" where
  "test_build agent scenario server acts =
    io_bind (io_expect (map_of (test_assignments scenario server) agent)) (\<lambda>ws.
    test_build_all agent (concat (map snd ws)) acts)"

text \<open>Calls one after the other; an error ends them.\<close>

fun test_calls ::
  "u64 type_info \<Rightarrow> (activity_id \<times> activity_call) list \<Rightarrow> test_activities \<Rightarrow> (test_world, test_activities) io" where
  "test_calls ty [] acts = io_return acts"
| "test_calls ty ((i, c) # calls) acts =
    io_bind (io_expect (acts i)) (\<lambda>(agent, a).
    io_bind (test_activity_call ty agent c a) (\<lambda>(r, a').
    case r of Inl e \<Rightarrow> io_return (acts(i \<mapsto> (agent, a'))) | Inr _ \<Rightarrow> test_calls ty calls (acts(i \<mapsto> (agent, a')))))"

definition test_agents :: "u64 type_info \<Rightarrow> scenario \<Rightarrow> string \<Rightarrow> (test_world, test_activities) io" where
  "test_agents ty scenario server =
    io_bind (test_primary_topics ty scenario) (\<lambda>_.
    io_bind (test_build test_primary_id scenario server Map.empty) (\<lambda>acts.
    case scenario of
      SingleAgent \<Rightarrow> io_return acts
    | MultipleAgents \<Rightarrow>
        io_bind (test_secondary_topics ty scenario (GenericId 101)) (\<lambda>_. test_build (GenericId 101) scenario server acts)))"

definition test_session ::
  "u64 type_info \<Rightarrow> scenario \<Rightarrow> string \<Rightarrow> (activity_id \<times> activity_call) list \<Rightarrow> (test_world, test_activities) io" where
  "test_session ty scenario server calls = io_bind (test_agents ty scenario server) (test_calls ty calls)"

section \<open>The test program\<close>

record test_child =
  tc_args :: "string list"
  tc_terminated :: bool

text \<open>The channel of a connected monitor holds what is still to be received until its end.\<close>

datatype monitor_connection = Unconnected string | Connected "monitor_notification list"
datatype child_handle = PrimaryChild test_child monitor_connection | SecondaryChild test_child

text \<open>
  The outside of the test program: the names of the servers it makes, what the monitor that connects
  to a server will send until it ends, and whether the child with these arguments exits successfully.
\<close>

record test_os =
  to_names :: "string list"
  to_sends :: "string \<Rightarrow> monitor_notification list"
  to_success :: "string list \<Rightarrow> bool"
  to_slept :: duration

record feo_runner =
  fr_agents :: u32
  fr_signalling :: string
  fr_scenario :: string
  fr_children :: "child_handle list"
  fr_os :: test_os

definition runner_single_agent :: "string \<Rightarrow> string \<Rightarrow> test_os \<Rightarrow> feo_runner" where
  "runner_single_agent signalling scenario os =
    \<lparr>fr_agents = 1, fr_signalling = signalling, fr_scenario = scenario, fr_children = [], fr_os = os\<rparr>"

definition runner_multiple_agents :: "u32 \<Rightarrow> string \<Rightarrow> string \<Rightarrow> test_os \<Rightarrow> feo_runner" where
  "runner_multiple_agents agents signalling scenario os =
    \<lparr>fr_agents = agents, fr_signalling = signalling, fr_scenario = scenario, fr_children = [], fr_os = os\<rparr>"

definition one_shot_server :: "(feo_runner, string) io" where
  "one_shot_server r =
    (case to_names (fr_os r) of
       [] \<Rightarrow> (Panic, r)
     | name # names \<Rightarrow> (Ret name, r\<lparr>fr_os := (fr_os r)\<lparr>to_names := names\<rparr>\<rparr>))"

definition push_child :: "child_handle \<Rightarrow> (feo_runner, unit) io" where
  "push_child c = io_modify (\<lambda>r. r\<lparr>fr_children := fr_children r @ [c]\<rparr>)"

definition launch_agent :: "nat \<Rightarrow> (feo_runner, unit) io" where
  "launch_agent i =
    io_bind (io_modify (\<lambda>r. if i = 1
      then r\<lparr>fr_os := (fr_os r)\<lparr>to_slept := to_slept (fr_os r) + dur_from_secs 1\<rparr>\<rparr> else r)) (\<lambda>_.
    io_bind (io_gets (\<lambda>r. [fr_signalling r, fr_scenario r])) (\<lambda>args.
    if i = 0 then
      io_bind one_shot_server (\<lambda>server.
      push_child (PrimaryChild \<lparr>tc_args = args @ [''primary'', server], tc_terminated = False\<rparr> (Unconnected server)))
    else push_child (SecondaryChild \<lparr>tc_args = args @ [''secondary'', decimal i], tc_terminated = False\<rparr>)))"

text \<open>\<open>mem::replace\<close> makes another server for the place of the one that accepts.\<close>

definition connect_monitor :: "(feo_runner, unit) io" where
  "connect_monitor =
    io_bind (io_gets fr_children) (\<lambda>children.
    case children of
      PrimaryChild child monitor # rest \<Rightarrow>
        io_bind one_shot_server (\<lambda>spare.
        case monitor of
          Unconnected server \<Rightarrow>
            io_modify (\<lambda>r. r\<lparr>fr_children := PrimaryChild child (Connected (to_sends (fr_os r) server)) # rest\<rparr>)
        | Connected _ \<Rightarrow> io_panic)
    | _ \<Rightarrow> io_panic)"

definition runner_launch :: "(feo_runner, unit) io" where
  "runner_launch =
    io_bind (io_gets fr_agents) (\<lambda>agents.
    io_bind (io_for [0..<unat agents] launch_agent) (\<lambda>_. connect_monitor))"

text \<open>Receiving fails when the monitor has ended without sending more.\<close>

fun expect_from :: "monitor_notification \<Rightarrow> child_handle list \<Rightarrow> child_handle list outcome" where
  "expect_from n [] = Ret []"
| "expect_from n (PrimaryChild child (Connected (m # ms)) # cs) =
    (if m = n then obind (expect_from n cs) (\<lambda>cs'. Ret (PrimaryChild child (Connected ms) # cs')) else Panic)"
| "expect_from n (PrimaryChild child (Connected []) # cs) = Panic"
| "expect_from n (c # cs) = obind (expect_from n cs) (\<lambda>cs'. Ret (c # cs'))"

definition runner_expect :: "monitor_notification \<Rightarrow> (feo_runner, unit) io" where
  "runner_expect n =
    io_bind (io_gets fr_children) (\<lambda>children.
    io_bind (io_lift (expect_from n children)) (\<lambda>children'.
    io_modify (\<lambda>r. r\<lparr>fr_children := children'\<rparr>)))"

definition expect_startup :: "(feo_runner, unit) io" where
  "expect_startup = runner_expect NotifyStartup"

definition expect_step :: "(feo_runner, unit) io" where
  "expect_step = runner_expect NotifyStep"

definition expect_shutdown :: "(feo_runner, unit) io" where
  "expect_shutdown = runner_expect NotifyShutdown"

fun terminate_child :: "child_handle \<Rightarrow> child_handle" where
  "terminate_child (PrimaryChild child monitor) = PrimaryChild (child\<lparr>tc_terminated := True\<rparr>) monitor"
| "terminate_child c = c"

definition trigger_shutdown :: "(feo_runner, unit) io" where
  "trigger_shutdown = io_modify (\<lambda>r. r\<lparr>fr_children := map terminate_child (fr_children r)\<rparr>)"

fun child_of :: "child_handle \<Rightarrow> test_child" where
  "child_of (PrimaryChild child monitor) = child"
| "child_of (SecondaryChild child) = child"

definition wait_for_completion :: "(feo_runner, unit) io" where
  "wait_for_completion =
    io_bind (io_gets (\<lambda>r. (fr_children r, to_success (fr_os r)))) (\<lambda>(children, success).
    io_for children (\<lambda>c. io_lift (oassert (success (tc_args (child_of c))))))"

text \<open>What both kinds of test do after the runner has been made.\<close>

definition run_test :: "(feo_runner, unit) io" where
  "run_test =
    io_bind runner_launch (\<lambda>_.
    io_bind expect_startup (\<lambda>_.
    io_bind (io_for [0..<5] (\<lambda>_. expect_step)) (\<lambda>_.
    io_bind trigger_shutdown (\<lambda>_.
    io_bind expect_shutdown (\<lambda>_. wait_for_completion)))))"

definition single_agent_test :: "string \<Rightarrow> test_os \<Rightarrow> unit outcome" where
  "single_agent_test signalling os = fst (run_test (runner_single_agent signalling ''single-agent'' os))"

definition multiple_agents_test :: "string \<Rightarrow> test_os \<Rightarrow> unit outcome" where
  "multiple_agents_test signalling os = fst (run_test (runner_multiple_agents 2 signalling ''multiple-agents'' os))"

text \<open>
  The tests run one at a time: each takes a lock that a panic of its holder poisons. The flag says
  whether the lock is poisoned.
\<close>

definition integration_test :: "(test_os \<Rightarrow> unit outcome) \<Rightarrow> test_os \<Rightarrow> (bool, unit) io" where
  "integration_test test os poisoned =
    (if poisoned then (Panic, poisoned)
     else case test os of Panic \<Rightarrow> (Panic, True) | r \<Rightarrow> (r, poisoned))"

definition integration_tests :: "(test_os \<Rightarrow> unit outcome) list" where
  "integration_tests =
    [single_agent_test ''direct-tcp'', single_agent_test ''direct-mpsc'', single_agent_test ''direct-unix'',
     multiple_agents_test ''direct-tcp'', multiple_agents_test ''direct-unix'',
     multiple_agents_test ''relayed-unix'', multiple_agents_test ''relayed-tcp'']"

section \<open>The activities run\<close>

definition sender_agent :: "scenario \<Rightarrow> agent_id" where
  "sender_agent scenario = (case scenario of SingleAgent \<Rightarrow> test_primary_id | MultipleAgents \<Rightarrow> GenericId 101)"

text \<open>The topic is mapped where it is used, unlocked, and writable for the sender.\<close>

definition test_at :: "u64 type_info \<Rightarrow> string \<Rightarrow> scenario \<Rightarrow> test_world \<Rightarrow> bool" where
  "test_at ty mid scenario w \<longleftrightarrow>
    topic_ready ty counter_topic mid (agent_process (sender_agent scenario) w)
    \<and> topic_writable counter_topic (agent_process (sender_agent scenario) w)
    \<and> topic_ready ty counter_topic mid (agent_process test_primary_id w) \<and> tw_open w"

lemma test_at_updates [simp]:
  "test_at ty mid sc (w\<lparr>tw_shm := m\<rparr>) = test_at ty mid sc w"
  "test_at ty mid sc (w\<lparr>tw_notifications := ns\<rparr>) = test_at ty mid sc w"
  by (simp_all add: test_at_def agent_process_def topic_ready_def topic_writable_def)

lemma sender_step_run:
  assumes "test_at ty mid sc w" "c \<noteq> - 1"
  shows "test_sender_step ty (sender_agent sc) i counter_topic c w
    = (Ret (Inr (), TestSender i counter_topic (c + 1)), w\<lparr>tw_shm := (tw_shm w)(mid \<mapsto> c)\<rparr>)"
proof -
  let ?p = "agent_process (sender_agent sc) w"
  from assms(1) obtain m where m: "pc_topics ?p counter_topic = Some m" "ap_type (tm_ptr m) = ty_id ty"
    "ap_mapped (tm_ptr m) = Some mid" "ap_lock (tm_ptr m) = 0" "ap_writable (tm_ptr m)"
    by (auto simp: test_at_def topic_ready_def topic_writable_def)
  have get: "ap_get_mut ty (tm_ptr m) = (Ret mid, (tm_ptr m)\<lparr>ap_lock := u16_max\<rparr>)"
    using m by (simp add: ap_get_mut_def io_defs on_lock_def lock_write_def compare_exchange_def)
  have send: "ap_send ((tm_ptr m)\<lparr>ap_lock := u16_max\<rparr>) = (Ret (), (tm_ptr m)\<lparr>ap_lock := 0\<rparr>)"
    by (simp add: ap_send_def ap_drop_write_def is_locked_def io_defs on_lock_def unlock_write_def compare_exchange_def)
  have unlocked: "(tm_ptr m)\<lparr>ap_lock := 0\<rparr> = tm_ptr m" using m(4) by simp
  have same: "(tw_topics w (sender_agent sc))(counter_topic \<mapsto> m) = tw_topics w (sender_agent sc)"
    using m(1) by (intro map_upd_triv) (simp add: agent_process_def)
  show ?thesis
    using m(1) assms(2)
    by (simp add: test_sender_step_def in_agent_def io_defs write_uninit_def write_payload_def guard_store_def
        output_send_def on_ptr_def get send unlocked agent_process_def same)
qed

lemma receiver_step_run:
  assumes "test_at ty mid sc w" "tw_shm w mid = Some c" "c \<noteq> - 1"
  shows "test_receiver_step ty test_primary_id i counter_topic c w
    = (Ret (Inr (), TestReceiver i counter_topic (c + 1)), w)"
proof -
  let ?p = "agent_process test_primary_id w"
  from assms(1) obtain m where m: "pc_topics ?p counter_topic = Some m" "ap_type (tm_ptr m) = ty_id ty"
    "ap_mapped (tm_ptr m) = Some mid" "ap_lock (tm_ptr m) = 0"
    by (auto simp: test_at_def topic_ready_def)
  have get: "ap_get ty (tm_ptr m) = (Ret mid, (tm_ptr m)\<lparr>ap_lock := 1\<rparr>)"
    using m read_zero by (simp add: ap_get_def io_defs on_lock_def round_once_def)
  have "unlock_read_round 1 1 = (Ret (Inr ()), 0)"
    using u16_max_val by (auto simp: round_defs)
  then have drop: "ap_drop_read ((tm_ptr m)\<lparr>ap_lock := 1\<rparr>) = (Ret (), (tm_ptr m)\<lparr>ap_lock := 0\<rparr>)"
    by (simp add: ap_drop_read_def on_lock_def io_zoom_def round_once_def)
  have unlocked: "(tm_ptr m)\<lparr>ap_lock := 0\<rparr> = tm_ptr m" using m(4) by simp
  have same: "(tw_topics w test_primary_id)(counter_topic \<mapsto> m) = tw_topics w test_primary_id"
    using m(1) by (intro map_upd_triv) (simp add: agent_process_def)
  show ?thesis
    using m(1) assms(2,3)
    by (simp add: test_receiver_step_def in_agent_def io_defs input_read_def guard_deref_def input_drop_def
        on_ptr_def get drop unlocked agent_process_def same)
qed

section \<open>The agents start\<close>

definition test_started :: "scenario \<Rightarrow> u64 \<Rightarrow> u64 \<Rightarrow> test_activities \<Rightarrow> bool" where
  "test_started scenario s r acts \<longleftrightarrow>
    acts (GenericId 0) = Some (sender_agent scenario, TestSender (GenericId 0) counter_topic s)
    \<and> acts (GenericId 1) = Some (test_primary_id, TestReceiver (GenericId 1) counter_topic r)
    \<and> acts (GenericId 2) = Some (test_primary_id, TestMonitor (GenericId 2))"

definition test_fresh :: "string \<Rightarrow> u64 \<Rightarrow> test_world \<Rightarrow> bool" where
  "test_fresh server x w \<longleftrightarrow> (\<forall>agent. tw_topics w agent counter_topic = None) \<and> (\<exists>xs. tw_random w = x # xs)
    \<and> tw_shm w (mapping_id x) = None \<and> tw_server w = Some server \<and> tw_open w \<and> tw_notifications w = []"

lemmas test_tables = test_assignments_ids_def test_assignments_def test_w40_def test_w41_def test_topics_def
  test_primary_id_def sender_agent_def

lemma primary_topics_ready:
  assumes "test_fresh server x w" "0 < ty_size ty"
  shows "\<exists>w'. test_primary_topics ty sc w = (Ret (), w')
    \<and> topic_ready ty counter_topic (mapping_id x) (agent_process test_primary_id w')
    \<and> topic_writable counter_topic (agent_process test_primary_id w') = (sc = SingleAgent)
    \<and> tw_topics w' (GenericId 101) counter_topic = None \<and> tw_shm w' (mapping_id x) = Some (ty_default ty)
    \<and> tw_server w' = Some server \<and> tw_open w' \<and> tw_notifications w' = []"
  using assms
  by (cases sc)
    (auto simp: test_primary_topics_def initialize_com_primary_def local_requests_def local_activities_def
      test_tables is_local_write_def is_write_def backend_init_primary_def primary_params_def init_topic_def
      init_topic_primary_def unique_mapping_id_def shm_create_def ap_map_def new_unmapped_def register_topic_def
      io_defs mapping_id_def in_agent_def agent_process_def test_fresh_def topic_ready_def topic_writable_def)

lemma primary_build_multi:
  assumes "topic_ready ty counter_topic mid (agent_process test_primary_id w)" "tw_server w = Some server"
  shows "test_build test_primary_id MultipleAgents server Map.empty w
    = (Ret (Map.empty(GenericId 1 \<mapsto> (test_primary_id, TestReceiver (GenericId 1) counter_topic 0),
         GenericId 2 \<mapsto> (test_primary_id, TestMonitor (GenericId 2)))), w\<lparr>tw_server := None\<rparr>)"
  using assms
  by (auto simp: test_build_def test_tables receiver_build_def monitor_build_def input_new_def topic_mapping_of_def
      io_defs in_agent_def agent_process_def topic_ready_def)

lemma primary_build_single:
  assumes "topic_ready ty counter_topic mid (agent_process test_primary_id w)"
    and "topic_writable counter_topic (agent_process test_primary_id w)" and "tw_server w = Some server"
  shows "\<exists>acts. test_build test_primary_id SingleAgent server Map.empty w = (Ret acts, w\<lparr>tw_server := None\<rparr>)
    \<and> test_started SingleAgent 0 0 acts"
  using assms
  by (auto simp: test_build_def test_tables sender_build_def receiver_build_def monitor_build_def input_new_def output_new_def
      topic_mapping_of_def io_defs in_agent_def agent_process_def topic_ready_def topic_writable_def test_started_def)

lemma secondary_build_multi:
  assumes "topic_ready ty counter_topic mid (agent_process (GenericId 101) w)"
    and "topic_writable counter_topic (agent_process (GenericId 101) w)"
  shows "test_build (GenericId 101) MultipleAgents server acts w
    = (Ret (acts(GenericId 0 \<mapsto> (GenericId 101, TestSender (GenericId 0) counter_topic 0))), w)"
  using assms
  by (auto simp: test_build_def test_tables sender_build_def output_new_def topic_mapping_of_def
      io_defs in_agent_def agent_process_def topic_writable_def)

lemma secondary_topics_ready:
  assumes "topic_ready ty counter_topic (mapping_id x) (agent_process test_primary_id w)"
    and "0 < ty_size ty" "ty_size ty < 2 ^ 64" "tw_topics w (GenericId 101) counter_topic = None"
    and "tw_shm w (mapping_id x) = Some v"
  shows "\<exists>w'. test_secondary_topics ty MultipleAgents (GenericId 101) w = (Ret (), w')
    \<and> topic_ready ty counter_topic (mapping_id x) (agent_process (GenericId 101) w')
    \<and> topic_writable counter_topic (agent_process (GenericId 101) w')
    \<and> topic_ready ty counter_topic (mapping_id x) (agent_process test_primary_id w')
    \<and> tw_open w' = tw_open w \<and> tw_notifications w' = tw_notifications w"
proof -
  have nl: "newline \<notin> set (mapping_id x)"
    unfolding mapping_id_def using hex_no_newline prefix_no_newline by simp
  have response: "parse_response (fst (serve_connection (agent_process test_primary_id w) counter_topic True))
      = Ret (ty_size ty, mapping_id x)"
    by (rule ready_response [OF assms(1,3) nl])
  let ?q = "agent_process (GenericId 101) w"
  have acts: "test_local_activities MultipleAgents (GenericId 101) = Ret {GenericId 0}"
    by (simp add: test_local_activities_def test_tables)
  have "pc_topics ?q counter_topic = None" "pc_shm ?q (mapping_id x) \<noteq> None"
    using assms(4,5) by (simp_all add: agent_process_def)
  from init_secondary_ready [OF response this assms(2), of MapWrite] obtain q' where
    q': "init_topic_secondary ty counter_topic MapWrite
        (fst (serve_connection (agent_process test_primary_id w) counter_topic True)) ?q = (Ret (), q')"
      "topic_ready ty counter_topic (mapping_id x) q'" "pc_shm q' = pc_shm ?q" "topic_writable counter_topic q'" by blast
  have "initialize_com_secondary (\<lambda>topic. fst (serve_connection (agent_process test_primary_id w) topic True)) LinuxShm
      (test_topics ty) {GenericId 0} ?q = (Ret 1, q')"
    using q'(1) by (simp add: initialize_com_secondary_def test_topics_def is_write_def backend_init_secondary_def
        init_topic_def io_defs)
  then have run: "test_secondary_topics ty MultipleAgents (GenericId 101) w = (Ret (), w\<lparr>tw_topics :=
      (tw_topics w)(GenericId 101 := pc_topics q'), tw_shm := pc_shm q', tw_random := pc_random q'\<rparr>)"
    by (simp add: test_secondary_topics_def acts io_defs in_agent_def)
  show ?thesis
    unfolding run using q'(2,4) assms(1)
    by (simp add: agent_process_def topic_ready_def topic_writable_def test_primary_id_def)
qed

text \<open>The agents of a test start, with the topic in place.\<close>

lemma test_agents_start:
  assumes "test_fresh server x w" "0 < ty_size ty" "ty_size ty < 2 ^ 64"
  shows "\<exists>acts w'. test_agents ty sc server w = (Ret acts, w') \<and> test_started sc 0 0 acts
    \<and> test_at ty (mapping_id x) sc w' \<and> tw_notifications w' = []"
proof -
  from primary_topics_ready [OF assms(1,2), of sc] obtain w1 where
    w1: "test_primary_topics ty sc w = (Ret (), w1)"
      "topic_ready ty counter_topic (mapping_id x) (agent_process test_primary_id w1)"
      "topic_writable counter_topic (agent_process test_primary_id w1) = (sc = SingleAgent)"
      "tw_topics w1 (GenericId 101) counter_topic = None" "tw_shm w1 (mapping_id x) = Some (ty_default ty)"
      "tw_server w1 = Some server" "tw_open w1" "tw_notifications w1 = []" by blast
  let ?w2 = "w1\<lparr>tw_server := None\<rparr>"
  have keep: "agent_process a ?w2 = agent_process a w1" for a by (simp add: agent_process_def)
  show ?thesis
  proof (cases sc)
    case SingleAgent
    then have "topic_writable counter_topic (agent_process test_primary_id w1)" using w1(3) by simp
    from primary_build_single [OF w1(2) this w1(6)] obtain acts where
      acts: "test_build test_primary_id SingleAgent server Map.empty w1 = (Ret acts, ?w2)"
        "test_started SingleAgent 0 0 acts" by blast
    have "test_agents ty SingleAgent server w = (Ret acts, ?w2)"
      using w1(1) acts(1) SingleAgent by (simp add: test_agents_def io_defs)
    moreover have "test_at ty (mapping_id x) SingleAgent ?w2"
      using w1(2,3,7) SingleAgent by (simp add: test_at_def sender_agent_def keep)
    ultimately show ?thesis using acts(2) w1(8) SingleAgent by auto
  next
    case MultipleAgents
    have ready: "topic_ready ty counter_topic (mapping_id x) (agent_process test_primary_id ?w2)"
      using w1(2) keep by simp
    from secondary_topics_ready [OF ready assms(2,3)] w1(4,5) obtain w3 where
      w3: "test_secondary_topics ty MultipleAgents (GenericId 101) ?w2 = (Ret (), w3)"
        "topic_ready ty counter_topic (mapping_id x) (agent_process (GenericId 101) w3)"
        "topic_writable counter_topic (agent_process (GenericId 101) w3)"
        "topic_ready ty counter_topic (mapping_id x) (agent_process test_primary_id w3)"
        "tw_open w3" "tw_notifications w3 = []" using w1(7,8) by auto
    let ?acts = "Map.empty(GenericId 1 \<mapsto> (test_primary_id, TestReceiver (GenericId 1) counter_topic 0),
         GenericId 2 \<mapsto> (test_primary_id, TestMonitor (GenericId 2)),
         GenericId 0 \<mapsto> (GenericId 101, TestSender (GenericId 0) counter_topic 0))"
    have "test_agents ty MultipleAgents server w = (Ret ?acts, w3)"
      using w1(1) primary_build_multi [OF w1(2,6)] w3(1) secondary_build_multi [OF w3(2,3)] MultipleAgents
      by (simp add: test_agents_def io_defs)
    moreover have "test_started MultipleAgents 0 0 ?acts" by (simp add: test_started_def sender_agent_def)
    moreover have "test_at ty (mapping_id x) MultipleAgents w3"
      using w3 by (simp add: test_at_def sender_agent_def)
    ultimately show ?thesis using w3(6) MultipleAgents by blast
  qed
qed

section \<open>Calls in step\<close>

text \<open>The receiver is stepped only when the sender has been stepped once more than it.\<close>

fun calls_in_step :: "nat \<Rightarrow> nat \<Rightarrow> (activity_id \<times> activity_call) list \<Rightarrow> bool" where
  "calls_in_step s r [] \<longleftrightarrow> True"
| "calls_in_step s r ((i, c) # calls) \<longleftrightarrow>
    i \<in> {GenericId 0, GenericId 1, GenericId 2}
    \<and> (if c = CallStep \<and> i = GenericId 0 then calls_in_step (Suc s) r calls
       else if c = CallStep \<and> i = GenericId 1 then s = Suc r \<and> calls_in_step s (Suc r) calls
       else calls_in_step s r calls)"

definition monitor_notes :: "(activity_id \<times> activity_call) list \<Rightarrow> monitor_notification list" where
  "monitor_notes calls = map (\<lambda>(_, c). case c of CallStartup \<Rightarrow> NotifyStartup | CallStep \<Rightarrow> NotifyStep
    | CallShutdown \<Rightarrow> NotifyShutdown) (filter (\<lambda>(i, _). i = GenericId 2) calls)"

lemma monitor_notes_Nil [simp]: "monitor_notes [] = []"
  by (simp add: monitor_notes_def)

lemma of_nat_not_minus_one: "n < 2 ^ 64 - 1 \<Longrightarrow> (of_nat n :: u64) \<noteq> - 1"
proof
  assume "n < 2 ^ 64 - 1" "(of_nat n :: u64) = - 1"
  then have "unat (of_nat n :: u64) = unat (- 1 :: u64)" by simp
  with \<open>n < 2 ^ 64 - 1\<close> show False by (simp add: unat_of_nat unsigned_minus_1_eq_mask mask_eq_exp_minus_1)
qed

lemma test_calls_run:
  assumes "test_at ty mid sc w" "test_started sc (of_nat s) (of_nat r) acts" "calls_in_step s r calls"
    and "s + length calls < 2 ^ 64" "r + length calls < 2 ^ 64" "0 < s \<Longrightarrow> tw_shm w mid = Some (of_nat (s - 1))"
  shows "\<exists>acts' w'. test_calls ty calls acts w = (Ret acts', w')
    \<and> tw_notifications w' = tw_notifications w @ monitor_notes calls"
  using assms
proof (induction calls arbitrary: w s r acts)
  case Nil
  then show ?case by (simp add: io_return_def)
next
  case (Cons call calls)
  obtain i c where call: "call = (i, c)" by fastforce
  consider (sender) "i = GenericId 0" "c = CallStep" | (receiver) "i = GenericId 1" "c = CallStep"
    | (monitor) "i = GenericId 2" | (other) "i = GenericId 0 \<or> i = GenericId 1" "c \<noteq> CallStep"
    using Cons.prems(3) call by auto
  then show ?case
  proof cases
    case sender
    let ?w = "w\<lparr>tw_shm := (tw_shm w)(mid \<mapsto> of_nat s)\<rparr>"
    let ?acts = "acts(i \<mapsto> (sender_agent sc, TestSender i counter_topic (of_nat (Suc s))))"
    have "(of_nat s :: u64) \<noteq> - 1" using Cons.prems(4) by (intro of_nat_not_minus_one) simp
    from sender_step_run [OF Cons.prems(1) this, of i]
    have head: "test_calls ty (call # calls) acts w = test_calls ty calls ?acts ?w"
      using Cons.prems(2) sender call by (simp add: test_started_def io_defs add.commute)
    have "\<exists>acts' w'. test_calls ty calls ?acts ?w = (Ret acts', w')
        \<and> tw_notifications w' = tw_notifications ?w @ monitor_notes calls"
      by (rule Cons.IH [where s = "Suc s" and r = r]) (use Cons.prems sender call in \<open>auto simp: test_started_def\<close>)
    then show ?thesis using head sender call by (simp add: monitor_notes_def)
  next
    case receiver
    let ?acts = "acts(i \<mapsto> (test_primary_id, TestReceiver i counter_topic (of_nat (Suc r))))"
    have sr: "s = Suc r" "calls_in_step s (Suc r) calls" using Cons.prems(3) receiver call by auto
    have "(of_nat r :: u64) \<noteq> - 1" using Cons.prems(5) by (intro of_nat_not_minus_one) simp
    moreover have "tw_shm w mid = Some (of_nat r)" using Cons.prems(6) sr(1) by simp
    ultimately have head: "test_calls ty (call # calls) acts w = test_calls ty calls ?acts w"
      using receiver_step_run [OF Cons.prems(1), of "of_nat r" i] Cons.prems(2) receiver call
      by (simp add: test_started_def io_defs add.commute)
    have "\<exists>acts' w'. test_calls ty calls ?acts w = (Ret acts', w')
        \<and> tw_notifications w' = tw_notifications w @ monitor_notes calls"
      by (rule Cons.IH [where s = s and r = "Suc r"]) (use Cons.prems sr receiver call in \<open>auto simp: test_started_def\<close>)
    then show ?thesis using head receiver call by (simp add: monitor_notes_def)
  next
    case monitor
    let ?n = "case c of CallStartup \<Rightarrow> NotifyStartup | CallStep \<Rightarrow> NotifyStep | CallShutdown \<Rightarrow> NotifyShutdown"
    let ?w = "w\<lparr>tw_notifications := tw_notifications w @ [?n]\<rparr>"
    have "tw_open w" using Cons.prems(1) by (simp add: test_at_def)
    moreover have "acts(i \<mapsto> (test_primary_id, TestMonitor (GenericId 2))) = acts"
      using Cons.prems(2) monitor by (intro map_upd_triv) (simp add: test_started_def)
    ultimately have head: "test_calls ty (call # calls) acts w = test_calls ty calls acts ?w"
      using Cons.prems(2) monitor call
      by (cases c) (simp_all add: test_started_def io_defs test_monitor_call_def test_notify_def)
    have "\<exists>acts' w'. test_calls ty calls acts ?w = (Ret acts', w')
        \<and> tw_notifications w' = tw_notifications ?w @ monitor_notes calls"
      by (rule Cons.IH [where s = s and r = r]) (use Cons.prems monitor call in auto)
    then show ?thesis using head monitor call by (simp add: monitor_notes_def)
  next
    case other
    have "test_calls ty (call # calls) acts w = test_calls ty calls acts w"
      using Cons.prems(2) other call
      by (cases c) (auto simp: test_started_def io_defs map_upd_triv)
    moreover have "\<exists>acts' w'. test_calls ty calls acts w = (Ret acts', w')
        \<and> tw_notifications w' = tw_notifications w @ monitor_notes calls"
      by (rule Cons.IH [where s = s and r = r]) (use Cons.prems other call in auto)
    ultimately show ?thesis using other call by (auto simp: monitor_notes_def)
  qed
qed

section \<open>The requests of a scheduler\<close>

text \<open>What a log requests, the oldest first.\<close>

fun request_of :: "event \<Rightarrow> (activity_id \<times> activity_call) option" where
  "request_of (ESend i (Startup j t)) = Some (i, CallStartup)"
| "request_of (ESend i (Step j t)) = Some (i, CallStep)"
| "request_of (ESend i (Shutdown j t)) = Some (i, CallShutdown)"
| "request_of _ = None"

definition calls_of :: "event list \<Rightarrow> (activity_id \<times> activity_call) list" where
  "calls_of log = rev (List.map_filter request_of log)"

text \<open>Every answer has a request of its own: what the workers and an undisturbed connection guarantee.\<close>

definition requests_to :: "activity_id \<Rightarrow> event list \<Rightarrow> nat" where
  "requests_to i log = count_list (started_up log) i + count_list (stepped log) i + count_list (shut_down log) i"

fun honest :: "event list \<Rightarrow> bool" where
  "honest [] \<longleftrightarrow> True"
| "honest (e # log) \<longleftrightarrow>
    (case ready_of e of None \<Rightarrow> True | Some i \<Rightarrow> count_list (readied log) i < requests_to i log) \<and> honest log"

lemma honest_bound: "honest log \<Longrightarrow> count_list (readied log) i \<le> requests_to i log"
proof (induction log)
  case (Cons e log)
  then show ?case by (auto simp: requests_to_def split: option.splits if_splits)
qed simp

definition cycles_in :: "event list \<Rightarrow> nat" where
  "cycles_in log = count_list log ECycle"

lemma quiet_shut_down: "quiet log \<Longrightarrow> shut_down log = []"
  by (simp add: quiet_def)

lemma no_cycle:
  assumes "ECycle \<notin> set log"
  shows "cycles_in log = 0" "cycle_part log = log"
  using assms by (simp_all add: cycles_in_def cycle_part_def takeWhile_eq_all_conv count_list_0_iff) blast

text \<open>
  While no shutdown has begun: before the first task chain there are no steps; in the \<open>c\<close>-th one
  every activity has been started once, stepped once in each earlier chain, and has answered as often.
\<close>

definition in_cycles :: "activity_id \<Rightarrow> event list \<Rightarrow> bool" where
  "in_cycles i log \<longleftrightarrow> count_list (started_up log) i \<le> 1 \<and> count_list (stepped (cycle_part log)) i \<le> 1
    \<and> count_list (readied log) i = cycles_in log + count_list (readied (cycle_part log)) i
    \<and> (if ECycle \<in> set log then count_list (started_up log) i = 1
         \<and> Suc (count_list (stepped log) i) = cycles_in log + count_list (stepped (cycle_part log)) i
       else count_list (stepped log) i = 0)"

lemma count_list_zero: "x \<notin> set xs \<Longrightarrow> count_list xs x = 0"
  by (simp add: count_list_0_iff)

lemma quiet_tail: "quiet (e # log) \<Longrightarrow> quiet log"
  by (simp add: quiet_Cons)

lemma in_cycles_log:
  assumes "log_ok D log" "honest log" "quiet log" "i \<in> fst ` set D"
  shows "in_cycles i log"
  using assms
proof (induction log)
  case Nil
  then show ?case by (simp add: in_cycles_def cycles_in_def)
next
  case (Cons e log)
  have IH: "in_cycles i log" using Cons quiet_tail by simp
  have ok: "event_ok D e log" using Cons.prems(1) by simp
  show ?case
  proof (cases e)
    case (ERecv sig)
    then show ?thesis using IH by (auto simp: in_cycles_def cycles_in_def split: option.splits)
  next
    case (EBroadcast sig)
    then show ?thesis using Cons.prems(3) by (simp add: quiet_Cons)
  next
    case ECycle
    have quiet: "quiet log" using Cons.prems(3) quiet_tail by blast
    from ok ECycle Cons.prems(4) have "i \<in> set (readied (cycle_part log))" by auto
    then have ready: "1 \<le> count_list (readied (cycle_part log)) i"
      by (metis One_nat_def Suc_leI count_list_0_iff gr0I)
    have bound: "count_list (readied log) i \<le> requests_to i log"
      using honest_bound Cons.prems(2) ECycle by simp
    have req: "requests_to i log = count_list (started_up log) i + count_list (stepped log) i"
      using quiet_shut_down [OF quiet] by (simp add: requests_to_def)
    show ?thesis
    proof (cases "ECycle \<in> set log")
      case True
      then show ?thesis using IH ready bound req ECycle by (auto simp: in_cycles_def cycles_in_def)
    next
      case False
      then show ?thesis using IH ready bound req ECycle no_cycle [OF False] by (auto simp: in_cycles_def cycles_in_def)
    qed
  next
    case (ESend j sig)
    then show ?thesis
      using IH ok Cons.prems(3) count_list_zero
      by (cases sig) (auto simp: in_cycles_def cycles_in_def quiet_Cons)
  qed
qed

lemma answered_step:
  assumes "log_ok D log" "honest log" "quiet log" "i \<in> fst ` set D" "ECycle \<in> set log"
    and "i \<in> set (readied (cycle_part log))"
  shows "count_list (stepped log) i = cycles_in log"
proof -
  have "1 \<le> count_list (readied (cycle_part log)) i"
    using assms(6) by (metis One_nat_def Suc_leI count_list_0_iff gr0I)
  moreover have "requests_to i log = count_list (started_up log) i + count_list (stepped log) i"
    using quiet_shut_down [OF assms(3)] by (simp add: requests_to_def)
  ultimately show ?thesis
    using in_cycles_log [OF assms(1-4)] honest_bound [OF assms(2), of i] assms(5) by (auto simp: in_cycles_def)
qed

text \<open>
  Activities go in step: when one is stepped, whatever it depends on has been stepped once more than it.
\<close>

lemma dependency_ahead:
  assumes "log_ok D (ESend i (Step i t) # log)" "honest log" "map_of D i = Some ds" "d \<in> set ds" "d \<in> fst ` set D"
  shows "count_list (stepped log) d = Suc (count_list (stepped log) i)"
proof -
  have ok: "log_ok D log" "quiet log" "ECycle \<in> set log" "i \<notin> set (stepped (cycle_part log))"
    "d \<in> set (readied (cycle_part log))"
    using assms by auto
  have "i \<in> fst ` set D" using map_of_SomeD [OF assms(3)] by force
  from in_cycles_log [OF ok(1) assms(2) ok(2) this] ok(3,4) count_list_zero
  have "Suc (count_list (stepped log) i) = cycles_in log" by (auto simp: in_cycles_def)
  with answered_step [OF ok(1) assms(2) ok(2) assms(5) ok(3,5)] show ?thesis by simp
qed

lemma calls_in_step_snoc:
  "calls_in_step s r (calls @ [(i, c)]) \<longleftrightarrow> calls_in_step s r calls \<and> i \<in> {GenericId 0, GenericId 1, GenericId 2}
    \<and> (c = CallStep \<and> i = GenericId 1 \<longrightarrow>
      s + count_list calls (GenericId 0, CallStep) = Suc (r + count_list calls (GenericId 1, CallStep)))"
  by (induction calls arbitrary: s r) auto

lemma calls_of_Cons:
  "calls_of (e # log) = (case request_of e of None \<Rightarrow> calls_of log | Some q \<Rightarrow> calls_of log @ [q])"
  by (simp add: calls_of_def split: option.split)

lemma calls_of_Nil [simp]: "calls_of [] = []"
  by (simp add: calls_of_def)

lemma count_calls:
  "count_list (calls_of log) (i, CallStep) = count_list (stepped log) i"
  by (induction log rule: list.induct) (simp, subst calls_of_Cons, auto split: option.splits elim!: request_of.elims)

lemma calls_length: "length (calls_of log) \<le> length log"
  by (simp add: calls_of_def List.map_filter_def)

lemma test_dependencies_domain: "fst ` set (test_dependencies sc) = {GenericId 0, GenericId 1, GenericId 2}"
  by (cases sc) (auto simp: test_dependencies_def)

lemma test_dependency: "map_of (test_dependencies sc) (GenericId 1) = Some [GenericId 0]"
  by (cases sc) (simp_all add: test_dependencies_def)

lemma request_shape:
  assumes "event_ok D e log" "request_of e = Some (i, c)"
  shows "i \<in> fst ` set D \<and> (c = CallStep \<longrightarrow> (\<exists>t. e = ESend i (Step i t)))"
  using assms by (cases e rule: request_of.cases) (auto split: option.splits dest: map_of_SomeD intro: rev_image_eqI)

lemma log_calls_in_step:
  "log_ok (test_dependencies sc) log \<Longrightarrow> honest log \<Longrightarrow> calls_in_step 0 0 (calls_of log)"
proof (induction log)
  case Nil
  then show ?case by simp
next
  case (Cons e log)
  then have IH: "calls_in_step 0 0 (calls_of log)" and hon: "honest log" by simp_all
  show ?case
  proof (cases "request_of e")
    case None
    then show ?thesis using IH by (simp add: calls_of_Cons)
  next
    case (Some q)
    obtain i c where q: "q = (i, c)" by fastforce
    have shape: "i \<in> fst ` set (test_dependencies sc)" "c = CallStep \<Longrightarrow> \<exists>t. e = ESend i (Step i t)"
      using request_shape [of "test_dependencies sc" e log i c] Cons.prems(1) Some q by auto
    have "count_list (stepped log) (GenericId 0) = Suc (count_list (stepped log) (GenericId 1))"
      if "c = CallStep" "i = GenericId 1"
    proof -
      from shape(2) [OF that(1)] that(2) obtain t where "e = ESend (GenericId 1) (Step (GenericId 1) t)" by blast
      with Cons.prems(1) have "log_ok (test_dependencies sc) (ESend (GenericId 1) (Step (GenericId 1) t) # log)" by simp
      from dependency_ahead [OF this hon test_dependency, of "GenericId 0"] show ?thesis
        by (simp add: test_dependencies_domain)
    qed
    then show ?thesis
      using IH shape(1) Some q by (simp add: calls_of_Cons calls_in_step_snoc count_calls test_dependencies_domain)
  qed
qed

section \<open>What the monitor reports\<close>

lemma monitor_notes_snoc:
  "monitor_notes (calls @ [(i, c)]) = monitor_notes calls @ (if i = GenericId 2 then [case c of CallStartup \<Rightarrow> NotifyStartup
    | CallStep \<Rightarrow> NotifyStep | CallShutdown \<Rightarrow> NotifyShutdown] else [])"
  by (simp add: monitor_notes_def)

lemma no_cycle_no_step: "log_ok D log \<Longrightarrow> ECycle \<notin> set log \<Longrightarrow> stepped log = []"
proof (induction log)
  case (Cons e log)
  then have "stepped log = []" by simp
  with Cons.prems show ?case by (cases e rule: step_of.cases) auto
qed simp

text \<open>A startup, then the steps, then a shutdown.\<close>

lemma monitor_order:
  "log_ok D log \<Longrightarrow> monitor_notes (calls_of log) =
    replicate (count_list (started_up log) (GenericId 2)) NotifyStartup
    @ replicate (count_list (stepped log) (GenericId 2)) NotifyStep
    @ replicate (count_list (shut_down log) (GenericId 2)) NotifyShutdown"
proof (induction log)
  case Nil
  then show ?case by simp
next
  case (Cons e log)
  then have IH: "monitor_notes (calls_of log) =
    replicate (count_list (started_up log) (GenericId 2)) NotifyStartup
    @ replicate (count_list (stepped log) (GenericId 2)) NotifyStep
    @ replicate (count_list (shut_down log) (GenericId 2)) NotifyShutdown" and ok: "event_ok D e log" "log_ok D log"
    by simp_all
  show ?case
  proof (cases e rule: request_of.cases)
    case (1 i j t)
    then have "stepped log = []" "shut_down log = []" "i \<notin> set (started_up log)"
      using ok no_cycle_no_step [OF ok(2)] by (auto simp: quiet_def)
    then show ?thesis using IH 1 count_list_zero by (auto simp: calls_of_Cons monitor_notes_snoc)
  next
    case (2 i j t)
    then have "shut_down log = []" using ok by (auto simp: quiet_def)
    then show ?thesis using IH 2 by (auto simp: calls_of_Cons monitor_notes_snoc replicate_append_same)
  next
    case (3 i j t)
    then show ?thesis using IH by (auto simp: calls_of_Cons monitor_notes_snoc replicate_append_same)
  qed (use IH ok in \<open>auto simp: calls_of_Cons split: if_splits\<close>)
qed

lemma monitor_counts:
  "log_ok D log \<Longrightarrow> honest log \<Longrightarrow> i \<in> fst ` set D \<Longrightarrow>
    count_list (started_up log) i \<le> 1 \<and> count_list (shut_down log) i \<le> 1
    \<and> (0 < count_list (stepped log) i + count_list (shut_down log) i \<longrightarrow> count_list (started_up log) i = 1)"
proof (induction log)
  case Nil
  then show ?case by simp
next
  case (Cons e log)
  then have IH: "count_list (started_up log) i \<le> 1" "count_list (shut_down log) i \<le> 1"
    "0 < count_list (stepped log) i + count_list (shut_down log) i \<longrightarrow> count_list (started_up log) i = 1"
    and ok: "event_ok D e log" "log_ok D log" and hon: "honest log" by simp_all
  show ?case
  proof (cases e rule: request_of.cases)
    case (1 j k t)
    then show ?thesis using IH ok count_list_zero no_cycle_no_step [OF ok(2)] by (auto simp: quiet_def)
  next
    case (2 j k t)
    then have "quiet log" "ECycle \<in> set log" using ok by auto
    with in_cycles_log [OF ok(2) hon _ Cons.prems(3)] have "count_list (started_up log) i = 1"
      by (simp add: in_cycles_def)
    then show ?thesis using IH 2 by simp
  next
    case (3 j k t)
    show ?thesis
    proof (cases "i = j")
      case True
      then have "i \<in> set (readied log)" "i \<notin> set (shut_down log)" using ok 3 by auto
      then have "1 \<le> requests_to i log" "count_list (shut_down log) i = 0"
        using honest_bound [OF hon, of i] count_list_zero by (metis One_nat_def Suc_leI count_list_0_iff gr0I le_trans)+
      then show ?thesis using IH 3 True by (auto simp: requests_to_def)
    qed (use IH 3 in simp)
  qed (use IH ok in \<open>auto split: if_splits\<close>)
qed

section \<open>The verdict of the test program\<close>

fun is_secondary :: "child_handle \<Rightarrow> bool" where
  "is_secondary (SecondaryChild child) \<longleftrightarrow> True"
| "is_secondary _ \<longleftrightarrow> False"

lemma expect_secondaries: "list_all is_secondary ss \<Longrightarrow> expect_from n ss = Ret ss"
  by (induction ss) (auto elim!: is_secondary.elims)

lemma expect_run:
  assumes "fr_children r = PrimaryChild c (Connected ns) # ss" "list_all is_secondary ss"
  shows "runner_expect n r = (case ns of [] \<Rightarrow> (Panic, r)
    | m # ms \<Rightarrow> if m = n then (Ret (), r\<lparr>fr_children := PrimaryChild c (Connected ms) # ss\<rparr>) else (Panic, r))"
  using assms by (cases ns) (simp_all add: runner_expect_def io_defs expect_secondaries)

lemma expects_run:
  assumes "fr_children r = PrimaryChild c (Connected ns) # ss" "list_all is_secondary ss"
  shows "\<exists>r'. io_for es runner_expect r = (if take (length es) ns = es
    then (Ret (), r\<lparr>fr_children := PrimaryChild c (Connected (drop (length es) ns)) # ss\<rparr>) else (Panic, r'))"
  using assms(1)
proof (induction es arbitrary: r ns)
  case Nil
  then have "r\<lparr>fr_children := PrimaryChild c (Connected ns) # ss\<rparr> = r" by (cases r) simp
  then show ?case by (simp add: io_return_def)
next
  case (Cons e es)
  show ?case
  proof (cases ns)
    case Nil
    then show ?thesis using expect_run [OF Cons.prems assms(2), of e] by (simp add: io_bind_def)
  next
    case (Cons m ms)
    let ?r = "r\<lparr>fr_children := PrimaryChild c (Connected ms) # ss\<rparr>"
    from Cons.IH [of ?r ms] obtain r' where
      "io_for es runner_expect ?r = (if take (length es) ms = es
        then (Ret (), ?r\<lparr>fr_children := PrimaryChild c (Connected (drop (length es) ms)) # ss\<rparr>) else (Panic, r'))"
      by auto
    then show ?thesis
      using expect_run [OF Cons.prems assms(2), of e] Cons by (cases "m = e") (auto simp: io_bind_def)
  qed
qed

text \<open>What the test program expects of the monitor.\<close>

definition expected_notes :: "monitor_notification list" where
  "expected_notes = NotifyStartup # replicate 5 NotifyStep @ [NotifyShutdown]"

lemma five_steps: "io_for [0..<5] (\<lambda>_. expect_step) = io_for (replicate 5 NotifyStep) runner_expect"
  by (simp add: expect_step_def eval_nat_numeral)

lemma run_test_verdict:
  assumes "runner_launch r0 = (Ret (), r)" "fr_children r = PrimaryChild c (Connected ns) # ss"
    and "list_all is_secondary ss" "\<And>args. to_success (fr_os r) args"
  shows "fst (run_test r0) = (if take 7 ns = expected_notes then Ret () else Panic)"
proof (cases ns)
  case Nil
  then show ?thesis
    using assms(1) expect_run [OF assms(2,3)] by (simp add: run_test_def expect_startup_def io_bind_def expected_notes_def)
next
  case (Cons m ms)
  let ?r1 = "r\<lparr>fr_children := PrimaryChild c (Connected ms) # ss\<rparr>"
  have start: "fst (run_test r0) = (if m = NotifyStartup
      then fst (io_bind (io_for (replicate 5 NotifyStep) runner_expect)
        (\<lambda>_. io_bind trigger_shutdown (\<lambda>_. io_bind expect_shutdown (\<lambda>_. wait_for_completion))) ?r1) else Panic)"
    using assms(1) expect_run [OF assms(2,3)] Cons
    by (simp add: run_test_def expect_startup_def io_bind_def five_steps)
  from expects_run [of ?r1 c ms ss "replicate 5 NotifyStep", unfolded length_replicate] assms(3) obtain r' where
    steps: "io_for (replicate 5 NotifyStep) runner_expect ?r1 = (if take 5 ms = replicate 5 NotifyStep
      then (Ret (), ?r1\<lparr>fr_children := PrimaryChild c (Connected (drop 5 ms)) # ss\<rparr>) else (Panic, r'))" by auto
  show ?thesis
  proof (cases "m = NotifyStartup \<and> take 5 ms = replicate 5 NotifyStep")
    case True
    let ?c = "c\<lparr>tc_terminated := True\<rparr>"
    let ?r2 = "r\<lparr>fr_children := PrimaryChild ?c (Connected (drop 5 ms)) # ss\<rparr>"
    have "map terminate_child ss = ss" using assms(3) by (induction ss) (auto elim!: is_secondary.elims)
    then have "fst (run_test r0) = fst (io_bind expect_shutdown (\<lambda>_. wait_for_completion) ?r2)"
      using start steps True by (simp add: io_bind_def trigger_shutdown_def io_modify_def)
    also have "\<dots> = (if take 1 (drop 5 ms) = [NotifyShutdown] then Ret () else Panic)"
    proof -
      have wait: "fst (wait_for_completion x) = Ret ()" if "\<And>args. to_success (fr_os x) args" for x
      proof -
        have "io_for cs (\<lambda>c. io_lift (oassert (to_success (fr_os x) (tc_args (child_of c))))) x = (Ret (), x)" for cs
          using that by (induction cs) (simp_all add: io_defs oassert_def)
        then show ?thesis by (simp add: wait_for_completion_def io_bind_def io_gets_def)
      qed
      show ?thesis
        using expect_run [of ?r2 ?c "drop 5 ms" ss NotifyShutdown] assms(3,4) wait
        by (cases "drop 5 ms") (simp_all add: io_bind_def expect_shutdown_def)
    qed
    also have "take 1 (drop 5 ms) = [NotifyShutdown] \<longleftrightarrow> take 7 ns = expected_notes"
    proof -
      have "take 6 ms = take 5 ms @ take 1 (drop 5 ms)" using take_add [of 5 1 ms] by simp
      then show ?thesis using Cons True by (simp add: expected_notes_def)
    qed
    finally show ?thesis .
  next
    case False
    have "take 6 ms = take 5 ms @ take 1 (drop 5 ms)" using take_add [of 5 1 ms] by simp
    moreover have "length (take 5 ms) \<noteq> 5 \<Longrightarrow> take 1 (drop 5 ms) = []" by simp
    ultimately have "take 7 ns \<noteq> expected_notes"
      using False Cons by (cases "length (take 5 ms) = 5") (auto simp: expected_notes_def append_eq_append_conv)
    then show ?thesis using start steps False by (auto simp: io_bind_def)
  qed
qed

lemma launch_single:
  assumes "to_names os = server # spare # rest"
  shows "\<exists>r c. runner_launch (runner_single_agent signalling scenario os) = (Ret (), r)
    \<and> fr_children r = [PrimaryChild c (Connected (to_sends os server))] \<and> to_success (fr_os r) = to_success os"
  using assms
  by (simp add: runner_launch_def runner_single_agent_def launch_agent_def one_shot_server_def push_child_def
      connect_monitor_def io_defs)

lemma launch_multiple:
  assumes "to_names os = server # spare # rest"
  shows "\<exists>r c d. runner_launch (runner_multiple_agents 2 signalling scenario os) = (Ret (), r)
    \<and> fr_children r = [PrimaryChild c (Connected (to_sends os server)), SecondaryChild d]
    \<and> to_success (fr_os r) = to_success os"
proof -
  have "[0..<unat (2 :: u32)] = [0, 1]" by (simp add: upt_rec)
  then show ?thesis
    using assms
    by (simp add: runner_launch_def runner_multiple_agents_def launch_agent_def one_shot_server_def push_child_def
        connect_monitor_def io_defs)
qed

definition test_of :: "scenario \<Rightarrow> string \<Rightarrow> test_os \<Rightarrow> unit outcome" where
  "test_of sc signalling = (case sc of SingleAgent \<Rightarrow> single_agent_test signalling | MultipleAgents \<Rightarrow> multiple_agents_test signalling)"

lemma test_verdict:
  assumes "to_names os = server # spare # rest" "\<And>args. to_success os args"
  shows "test_of sc signalling os = (if take 7 (to_sends os server) = expected_notes then Ret () else Panic)"
proof (cases sc)
  case SingleAgent
  from launch_single [OF assms(1), of signalling "''single-agent''"] obtain r c where
    r: "runner_launch (runner_single_agent signalling ''single-agent'' os) = (Ret (), r)"
      "fr_children r = [PrimaryChild c (Connected (to_sends os server))]" "to_success (fr_os r) = to_success os" by blast
  have "list_all is_secondary []" "\<And>args. to_success (fr_os r) args" using r(3) assms(2) by simp_all
  from run_test_verdict [OF r(1,2) this] show ?thesis
    using SingleAgent by (simp add: test_of_def single_agent_test_def)
next
  case MultipleAgents
  from launch_multiple [OF assms(1), of signalling "''multiple-agents''"] obtain r c d where
    r: "runner_launch (runner_multiple_agents 2 signalling ''multiple-agents'' os) = (Ret (), r)"
      "fr_children r = [PrimaryChild c (Connected (to_sends os server)), SecondaryChild d]"
      "to_success (fr_os r) = to_success os" by blast
  have "list_all is_secondary [SecondaryChild d]" "\<And>args. to_success (fr_os r) args" using r(3) assms(2) by simp_all
  from run_test_verdict [OF r(1,2) this] show ?thesis
    using MultipleAgents by (simp add: test_of_def multiple_agents_test_def)
qed

lemma notes_verdict:
  assumes "a \<le> 1" "d \<le> 1" "0 < k + d \<longrightarrow> a = 1"
  shows "take 7 (replicate a NotifyStartup @ replicate k NotifyStep @ replicate d NotifyShutdown) = expected_notes
    \<longleftrightarrow> k = 5 \<and> d = 1"
proof
  assume "k = 5 \<and> d = 1"
  with assms(3) show "take 7 (replicate a NotifyStartup @ replicate k NotifyStep @ replicate d NotifyShutdown) = expected_notes"
    by (simp add: expected_notes_def)
next
  let ?ns = "replicate a NotifyStartup @ replicate k NotifyStep @ replicate d NotifyShutdown"
  assume eq: "take 7 ?ns = expected_notes"
  then have "length (take 7 ?ns) = 7" by (simp add: expected_notes_def)
  then have len: "7 \<le> a + k + d" by simp
  then have a: "a = 1" and k: "5 \<le> k" using assms by auto
  have "?ns ! 6 = take 7 ?ns ! 6" by (rule nth_take [symmetric]) simp
  also have "\<dots> = NotifyShutdown" unfolding eq by (simp add: expected_notes_def eval_nat_numeral)
  finally have last: "?ns ! 6 = NotifyShutdown" .
  show "k = 5 \<and> d = 1"
  proof (rule ccontr)
    assume "\<not> (k = 5 \<and> d = 1)"
    then have "6 \<le> k" using k len assms(2) a by linarith
    then have "?ns ! 6 = NotifyStep" using a by (simp add: nth_append)
    with last show False by simp
  qed
qed

section \<open>The tests\<close>

lemma run_log_kept:
  assumes "distinct (map fst D)"
  shows "log_ok D (sc_log (snd (run n cs pf (scheduler_new agent cycle recv_timeout startup_timeout D w))))"
proof -
  have "hoare (fresh D []) (run n cs pf) (\<lambda>_. logged D) (logged D)"
    by (rule hoare_post [OF hoare_run]) simp
  from hoare_snd [OF this fresh_new [OF assms]] show ?thesis by (auto simp: logged_def)
qed

text \<open>The scheduler of the test agent: cycle time, timeout and startup timeout are those of its configuration.\<close>

definition test_log :: "scenario \<Rightarrow> nat \<Rightarrow> 'w connect_scheduler \<Rightarrow> 'w platform \<Rightarrow> 'w \<Rightarrow> event list" where
  "test_log sc n cs pf sw = sc_log (snd (run n cs pf (scheduler_new test_primary_id (dur_from_millis 100)
    (dur_from_secs 10) (dur_from_secs 10) (test_dependencies sc) sw)))"


text \<open>A connector that answers each request at once, and a clock that stands; the shutdown comes after some looks.\<close>

definition echo_connector :: "(activity_id list \<times> nat) connect_scheduler" where
  "echo_connector =
    \<lparr>cs_connect_remotes = io_return (Inr ()), cs_sync_time = io_return (Inr ()), cs_connected_agents = (\<lambda>_. []),
     cs_receive = (\<lambda>_ (pending, k). case pending of [] \<Rightarrow> (Ret (Inr None), (pending, k))
       | i # rest \<Rightarrow> (Ret (Inr (Some (Ready i (Timestamp 0)))), (rest, k))),
     cs_send_to_activity = (\<lambda>i sig (pending, k). (Ret (Inr ()), (pending @ [i], k))),
     cs_broadcast_terminate = (\<lambda>_. io_return (Inr ()))\<rparr>"

definition echo_platform :: "(activity_id list \<times> nat) platform" where
  "echo_platform =
    \<lparr>pf_now = io_return 0, pf_timestamp = io_return (Timestamp 0), pf_sleep = (\<lambda>_. io_return ()),
     pf_shutdown_requested = (\<lambda>(pending, k). (Ret (k = 0), (pending, k - 1))),
     pf_sync_info = io_return (SyncInfo 0), pf_initialize_from = (\<lambda>_. io_return ())\<rparr>"

definition echo_state :: "activity_state list \<Rightarrow> nat \<Rightarrow> event list \<Rightarrow> (activity_id list \<times> nat) scheduler" where
  "echo_state sts k log =
    (scheduler_new test_primary_id (dur_from_millis 100) (dur_from_secs 10) (dur_from_secs 10)
      (test_dependencies SingleAgent) ([], k))\<lparr>sc_states := zip (map GenericId [0, 1, 2]) sts, sc_log := log\<rparr>"

abbreviation echo_flags :: "bool \<Rightarrow> bool \<Rightarrow> activity_state" where
  "echo_flags t r \<equiv> \<lparr>triggered = t, ready = r, ever_ready = True\<rparr>"

definition echo_exchange :: "(activity_id \<Rightarrow> timestamp \<Rightarrow> signal) \<Rightarrow> activity_id \<Rightarrow> event list" where
  "echo_exchange f i = [ERecv (Ready i (Timestamp 0)), ESend i (f i (Timestamp 0))]"

lemmas echo_defs = echo_state_def echo_connector_def echo_platform_def scheduler_new_def test_dependencies_def io_defs
  sc_io_def log_event_def receive_signal_def trigger_activity_def modify_key_def dur_from_secs_def

lemma echo_chain:
  "chain_loop (Suc (Suc (Suc (Suc (Suc n))))) echo_connector echo_platform
      (echo_state [echo_flags False False, echo_flags False False, echo_flags False False] k log)
    = (Ret True, echo_state [echo_flags True True, echo_flags True True, echo_flags True True] k
        (echo_exchange Step (GenericId 2) @ echo_exchange Step (GenericId 1) @ echo_exchange Step (GenericId 0) @ log))"
  by (simp add: echo_defs all_ready_def step_ready_activities_def step_if_ready_def deps_ready_def step_activity_def
      wait_next_ready_def mark_ready_def echo_exchange_def)

abbreviation echo_ready :: "nat \<Rightarrow> event list \<Rightarrow> (activity_id list \<times> nat) scheduler" where
  "echo_ready \<equiv> echo_state [echo_flags True True, echo_flags True True, echo_flags True True]"

definition echo_cycle :: "event list" where
  "echo_cycle = echo_exchange Step (GenericId 2) @ echo_exchange Step (GenericId 1) @ echo_exchange Step (GenericId 0) @ [ECycle]"

lemma echo_main:
  "main_loop (Suc (Suc (Suc (Suc (Suc (Suc n)))))) echo_connector echo_platform
      (echo_state [echo_flags t True, echo_flags t True, echo_flags t True] k log)
    = (if k = 0 then (Ret True, echo_ready 0 (echo_cycle @ log))
       else main_loop (Suc (Suc (Suc (Suc (Suc n))))) echo_connector echo_platform (echo_ready (k - 1) (echo_cycle @ log)))"
proof -
  have start: "start_cycle (echo_state [echo_flags t True, echo_flags t True, echo_flags t True] k log)
    = echo_state [echo_flags False False, echo_flags False False, echo_flags False False] k (ECycle # log)"
    by (simp add: start_cycle_def echo_state_def scheduler_new_def)
  have now: "sc_io (pf_now echo_platform) s = (Ret 0, s)" for s
    by (simp add: echo_platform_def sc_io_def io_zoom_def io_return_def)
  have finish: "finish_cycle echo_platform 0 (echo_ready k l) = (Ret (), echo_ready k l)" for l
    by (simp add: finish_cycle_def pf_elapsed_def echo_defs Let_def)
  have look: "sc_io (pf_shutdown_requested echo_platform) (echo_ready k l) = (Ret (k = 0), echo_ready (k - 1) l)" for l
    by (simp add: echo_defs)
  show ?thesis
    by (subst main_loop.simps) (simp add: io_bind_def io_return_def now io_modify_def start echo_chain finish look echo_cycle_def
        del: main_loop.simps chain_loop.simps)
qed

definition echo_started :: "event list" where
  "echo_started = map (\<lambda>i. ERecv (Ready i (Timestamp 0))) (map GenericId [2, 1, 0])
    @ map (\<lambda>i. ESend i (Startup i (Timestamp 0))) (map GenericId [2, 1, 0])"

definition echo_log :: "event list" where
  "echo_log = EBroadcast (Terminate (Timestamp 0)) # map (\<lambda>i. ERecv (Ready i (Timestamp 0))) (map GenericId [2, 1, 0])
    @ map (\<lambda>i. ESend i (Shutdown i (Timestamp 0))) (map GenericId [2, 1, 0])
    @ echo_cycle @ echo_cycle @ echo_cycle @ echo_cycle @ echo_cycle @ echo_started"

lemma echo_sorted: "sort [GenericId 0, GenericId 1, GenericId 2 :: activity_id] = [GenericId 0, GenericId 1, GenericId 2]"
  by (simp add: less_eq_generic_id_def)

lemma echo_startup:
  "startup_all echo_connector echo_platform (scheduler_new test_primary_id (dur_from_millis 100) (dur_from_secs 10)
      (dur_from_secs 10) (test_dependencies SingleAgent) ([], k))
    = (Ret (), (scheduler_new test_primary_id (dur_from_millis 100) (dur_from_secs 10) (dur_from_secs 10)
        (test_dependencies SingleAgent) (map GenericId [0, 1, 2], k))\<lparr>sc_log :=
        map (\<lambda>i. ESend i (Startup i (Timestamp 0))) (map GenericId [2, 1, 0])\<rparr>)"
  by (simp add: startup_all_def startup_activity_def echo_defs echo_sorted del: sort_key_simps)

lemma no_time: "instant_diff 0 0 = 0"
  by (simp add: instant_diff_def duration_since_def checked_duration_since_def dur_zero_def)

lemma echo_startup_loop:
  "startup_loop (Suc (Suc (Suc (Suc n)))) echo_connector echo_platform 0
      ((scheduler_new test_primary_id (dur_from_millis 100) (dur_from_secs 10) (dur_from_secs 10)
        (test_dependencies SingleAgent) (map GenericId [0, 1, 2], k))\<lparr>sc_log :=
        map (\<lambda>i. ESend i (Startup i (Timestamp 0))) (map GenericId [2, 1, 0])\<rparr>)
    = (Ret True, echo_state [echo_flags False True, echo_flags False True, echo_flags False True] k echo_started)"
  by (simp add: echo_defs all_ready_def wait_next_ready_def mark_ready_def pf_elapsed_def no_time initial_state_def
      echo_started_def)

lemma echo_shutdown:
  "\<exists>s. shutdown_gracefully (Suc (Suc (Suc (Suc n)))) echo_connector echo_platform (echo_ready 0 log) = (Ret (), s)
    \<and> sc_log s = EBroadcast (Terminate (Timestamp 0)) # map (\<lambda>i. ERecv (Ready i (Timestamp 0))) (map GenericId [2, 1, 0])
        @ map (\<lambda>i. ESend i (Shutdown i (Timestamp 0))) (map GenericId [2, 1, 0]) @ log"
proof -
  have timeout: "scaled_timeout (dur_from_secs 10) 3 2 = Ret (10 * nanos_per_sec * 5)"
    by (simp add: scaled_timeout_def dur_mul_def dur_checked_def dur_from_secs_def nanos_per_sec_def duration_max_def)
  have "scaled_timeout (10 * nanos_per_sec) 3 2 = Ret (10 * nanos_per_sec * 5)"
    using timeout by (simp add: dur_from_secs_def)
  then show ?thesis
    by (simp add: shutdown_gracefully_def started_activities_def terminate_all_agents_def shutdown_activity_def echo_defs
        pf_elapsed_def btree_set_def less_eq_generic_id_def no_time numeral_3_eq_3)
qed

lemma echo_run: "test_log SingleAgent 20 echo_connector echo_platform ([], 4) = echo_log"
proof -
  let ?n = "Suc (Suc (Suc (Suc (Suc (Suc (Suc (Suc (Suc (Suc (Suc (Suc (Suc (Suc (Suc (Suc (Suc (Suc (Suc (Suc 0)))))))))))))))))))"
  have n: "(20 :: nat) = ?n" by simp
  have now: "sc_io (pf_now echo_platform) s = (Ret 0, s)" for s
    by (simp add: echo_platform_def sc_io_def io_zoom_def io_return_def)
  have main: "main_loop ?n echo_connector echo_platform
      (echo_state [echo_flags False True, echo_flags False True, echo_flags False True] 4 echo_started)
    = (Ret True, echo_ready 0 (echo_cycle @ echo_cycle @ echo_cycle @ echo_cycle @ echo_cycle @ echo_started))"
    by (simp add: echo_main del: main_loop.simps)
  obtain s where s: "shutdown_gracefully ?n echo_connector echo_platform
      (echo_ready 0 (echo_cycle @ echo_cycle @ echo_cycle @ echo_cycle @ echo_cycle @ echo_started)) = (Ret (), s)"
    "sc_log s = echo_log"
    using echo_shutdown unfolding echo_log_def by blast
  have "run ?n echo_connector echo_platform (scheduler_new test_primary_id (dur_from_millis 100) (dur_from_secs 10)
      (dur_from_secs 10) (test_dependencies SingleAgent) ([], 4)) = (Ret (), s)"
    unfolding run_def by (simp add: io_bind_def echo_startup now echo_startup_loop main s(1)
        del: main_loop.simps startup_loop.simps list.map map_map)
  then show ?thesis unfolding test_log_def n using s(2) by simp
qed

lemma echo_honest: "honest echo_log" "length echo_log < 2 ^ 64"
  "count_list (stepped echo_log) (GenericId 2) = 5" "count_list (shut_down echo_log) (GenericId 2) = 1"
  by (simp_all add: echo_log_def echo_cycle_def echo_exchange_def echo_started_def requests_to_def)

definition echo_world :: test_world where
  "echo_world = \<lparr>tw_topics = \<lambda>_ _. None, tw_shm = \<lambda>_. None, tw_random = [7], tw_server = Some ''ipc-server'',
     tw_open = True, tw_notifications = []\<rparr>"

definition echo_os :: test_os where
  "echo_os = \<lparr>to_names = [''ipc-server'', ''spare''], to_sends = \<lambda>_. [], to_success = \<lambda>_. True, to_slept = 0\<rparr>"


text \<open>A test that fails leaves the lock poisoned, so all tests after it fail as well.\<close>

lemma tests_after_failure:
  "fst (integration_test test os True) = Panic" "test os = Panic \<Longrightarrow> integration_test test os False = (Panic, True)"
  by (simp_all add: integration_test_def)

end
