(* ===== verification/Feo_Com_Guards.thy ===== *)
theory Feo_Com_Guards
  imports Feo_Com_Init
begin

text \<open>
  The guards of \<open>feo-com/src/interface.rs\<close>, which dispatch to the backend that made them. A guard of
  the shared-memory backend is the topic and the object it points to; the guards of iceoryx2 and
  MW COM belong to code that is not modelled, so their operations are a record of parameters.
\<close>

section \<open>Guards\<close>

datatype 'g com_guard = GuardIox2 'g | GuardShm string string | GuardMwCom 'g

datatype com_error = NoEmptyBuffer | SendFailed

record ('g, 'v) foreign_guards =
  fg_deref :: "'g \<Rightarrow> ('v process, 'v) io"
  fg_send :: "'g \<Rightarrow> ('v process, com_error + unit) io"
  fg_assume_init :: "'g \<Rightarrow> ('v process, 'g) io"
  fg_write_payload :: "'g \<Rightarrow> 'v \<Rightarrow> ('v process, 'g) io"
  fg_init :: "'g \<Rightarrow> ('v process, 'g) io"
  fg_store :: "'g \<Rightarrow> 'v \<Rightarrow> ('v process, unit) io"

definition guard_via ::
  "('g, 'v) foreign_guards \<Rightarrow> ('g, 'v) foreign_guards \<Rightarrow> (('g, 'v) foreign_guards \<Rightarrow> 'g \<Rightarrow> ('v process, 'b) io) \<Rightarrow>
    (string \<Rightarrow> string \<Rightarrow> ('v process, 'b) io) \<Rightarrow> 'g com_guard \<Rightarrow> ('v process, 'b) io" where
  "guard_via iox mw foreign shm g =
    (case g of GuardIox2 h \<Rightarrow> foreign iox h | GuardShm topic mid \<Rightarrow> shm topic mid | GuardMwCom h \<Rightarrow> foreign mw h)"

definition rewrap :: "'g com_guard \<Rightarrow> 'g \<Rightarrow> 'g com_guard" where
  "rewrap g h = (case g of GuardIox2 _ \<Rightarrow> GuardIox2 h | GuardShm topic mid \<Rightarrow> GuardShm topic mid | GuardMwCom _ \<Rightarrow> GuardMwCom h)"

definition input_guard_deref ::
  "('g, 'v) foreign_guards \<Rightarrow> ('g, 'v) foreign_guards \<Rightarrow> 'g com_guard \<Rightarrow> ('v process, 'v) io" where
  "input_guard_deref iox mw = guard_via iox mw fg_deref (\<lambda>topic mid. guard_deref mid)"

definition output_guard_send ::
  "('g, 'v) foreign_guards \<Rightarrow> ('g, 'v) foreign_guards \<Rightarrow> 'g com_guard \<Rightarrow> ('v process, com_error + unit) io" where
  "output_guard_send iox mw =
    guard_via iox mw fg_send (\<lambda>topic mid. io_bind (output_send topic) (\<lambda>_. io_return (Inr ())))"

definition output_guard_deref ::
  "('g, 'v) foreign_guards \<Rightarrow> ('g, 'v) foreign_guards \<Rightarrow> 'g com_guard \<Rightarrow> ('v process, 'v) io" where
  "output_guard_deref iox mw = guard_via iox mw fg_deref (\<lambda>topic mid. guard_deref mid)"

text \<open>An assignment through \<open>deref_mut\<close> of an initialised and of an uninitialised buffer.\<close>

definition output_guard_store ::
  "('g, 'v) foreign_guards \<Rightarrow> ('g, 'v) foreign_guards \<Rightarrow> 'v \<Rightarrow> 'g com_guard \<Rightarrow> ('v process, unit) io" where
  "output_guard_store iox mw v = guard_via iox mw (\<lambda>ops h. fg_store ops h v) (\<lambda>topic mid. guard_store mid v)"

definition uninit_store ::
  "('g, 'v) foreign_guards \<Rightarrow> ('g, 'v) foreign_guards \<Rightarrow> 'v \<Rightarrow> 'g com_guard \<Rightarrow> ('v process, unit) io" where
  "uninit_store iox mw v = guard_via iox mw (\<lambda>ops h. fg_store ops h v) (\<lambda>topic mid. guard_store mid v)"

definition uninit_assume_init ::
  "('g, 'v) foreign_guards \<Rightarrow> ('g, 'v) foreign_guards \<Rightarrow> 'g com_guard \<Rightarrow> ('v process, 'g com_guard) io" where
  "uninit_assume_init iox mw g =
    guard_via iox mw (\<lambda>ops h. io_bind (fg_assume_init ops h) (\<lambda>h. io_return (rewrap g h)))
      (\<lambda>topic mid. io_bind (guard_assume_init mid) (\<lambda>mid. io_return (GuardShm topic mid))) g"

definition uninit_write_payload ::
  "('g, 'v) foreign_guards \<Rightarrow> ('g, 'v) foreign_guards \<Rightarrow> 'v \<Rightarrow> 'g com_guard \<Rightarrow> ('v process, 'g com_guard) io" where
  "uninit_write_payload iox mw v g =
    guard_via iox mw (\<lambda>ops h. io_bind (fg_write_payload ops h v) (\<lambda>h. io_return (rewrap g h)))
      (\<lambda>topic mid. io_bind (write_payload mid v) (\<lambda>mid. io_return (GuardShm topic mid))) g"

definition uninit_init ::
  "('g, 'v) foreign_guards \<Rightarrow> ('g, 'v) foreign_guards \<Rightarrow> 'v type_info \<Rightarrow> 'g com_guard \<Rightarrow> ('v process, 'g com_guard) io" where
  "uninit_init iox mw ty g =
    guard_via iox mw (\<lambda>ops h. io_bind (fg_init ops h) (\<lambda>h. io_return (rewrap g h)))
      (\<lambda>topic mid. io_bind (guard_init ty mid) (\<lambda>mid. io_return (GuardShm topic mid))) g"

section \<open>A round trip through the interface\<close>

text \<open>How an activity sends: an uninitialised buffer, the payload, send; and how one reads.\<close>

definition activity_send ::
  "('g, 'v) foreign_guards \<Rightarrow> ('g, 'v) foreign_guards \<Rightarrow> 'v type_info \<Rightarrow> string \<Rightarrow> 'v \<Rightarrow> ('v process, com_error + unit) io" where
  "activity_send iox mw ty topic v =
    io_bind (write_uninit ty topic) (\<lambda>mid.
    io_bind (uninit_write_payload iox mw v (GuardShm topic mid)) (output_guard_send iox mw))"

definition activity_read ::
  "('g, 'v) foreign_guards \<Rightarrow> ('g, 'v) foreign_guards \<Rightarrow> 'v type_info \<Rightarrow> string \<Rightarrow> ('v process, 'v) io" where
  "activity_read iox mw ty topic =
    io_bind (input_read ty topic) (\<lambda>mid.
    io_bind (input_guard_deref iox mw (GuardShm topic mid)) (\<lambda>v.
    io_bind (input_drop topic) (\<lambda>_. io_return v)))"

lemma publish_by_send:
  "publish ty topic v = io_bind (output_new topic) (\<lambda>_. io_bind (activity_send iox mw ty topic v) (\<lambda>r.
    case r of Inl e \<Rightarrow> io_panic | Inr u \<Rightarrow> io_return u))"
  by (rule ext) (simp add: publish_def activity_send_def uninit_write_payload_def output_guard_send_def guard_via_def
      write_payload_def io_defs split: prod.splits outcome.splits)

text \<open>Filling an uninitialised buffer in place sends the same as writing the payload as a whole.\<close>

definition activity_send_in_place ::
  "('g, 'v) foreign_guards \<Rightarrow> ('g, 'v) foreign_guards \<Rightarrow> 'v type_info \<Rightarrow> string \<Rightarrow> 'v \<Rightarrow> ('v process, com_error + unit) io" where
  "activity_send_in_place iox mw ty topic v =
    io_bind (write_uninit ty topic) (\<lambda>mid.
    io_bind (uninit_store iox mw v (GuardShm topic mid)) (\<lambda>_.
    io_bind (uninit_assume_init iox mw (GuardShm topic mid)) (output_guard_send iox mw)))"

lemma send_in_place: "activity_send_in_place iox mw ty topic v = activity_send iox mw ty topic v"
  by (rule ext) (simp add: activity_send_in_place_def activity_send_def uninit_write_payload_def uninit_store_def
      uninit_assume_init_def guard_assume_init_def output_guard_send_def guard_via_def
      write_payload_def io_defs split: prod.splits outcome.splits)

lemma fetch_by_read:
  "fetch ty topic = io_bind (input_new topic) (\<lambda>_. activity_read iox mw ty topic)"
  by (rule ext) (simp add: fetch_def activity_read_def input_guard_deref_def guard_via_def)

end
