(* ===== verification/Feo_Mini_Adas_Topics.thy ===== *)
theory Feo_Mini_Adas_Topics
  imports Feo_Com_Guards
begin

text \<open>
  The topics of the mini-adas example and its assignments for sockets and relays
  (\<open>examples/rust/mini-adas/src/config.rs\<close>), as an instance of the initialisation of the topics and
  as the witness of its properties. The types of the payloads are left open: \<open>ty\<close> gives them.
\<close>

datatype adas_payload = CameraImage | RadarScan | Scene | BrakeInstruction | Steering

definition adas_peers :: "(u64 \<times> direction) list \<Rightarrow> (activity_id \<times> direction) list" where
  "adas_peers = map (\<lambda>(i, d). (GenericId i, d))"

definition topic_dependencies :: "(adas_payload \<Rightarrow> 'v type_info) \<Rightarrow> 'v topic_spec list" where
  "topic_dependencies ty =
    [\<lparr>ts_topic = ''/feo/com/MiniAdasCamera'', ts_peers = adas_peers [(0, Outgoing), (2, Incoming)], ts_type = ty CameraImage\<rparr>,
     \<lparr>ts_topic = ''/feo/com/MiniAdasRadar'', ts_peers = adas_peers [(1, Outgoing), (2, Incoming)], ts_type = ty RadarScan\<rparr>,
     \<lparr>ts_topic = ''/feo/com/MiniAdasNeuralNet'',
      ts_peers = adas_peers [(2, Outgoing), (3, Incoming), (4, Incoming), (5, Incoming)], ts_type = ty Scene\<rparr>,
     \<lparr>ts_topic = ''/feo/com/MiniAdasBrakeController'', ts_peers = adas_peers [(4, Outgoing), (6, Incoming)],
      ts_type = ty BrakeInstruction\<rparr>,
     \<lparr>ts_topic = ''/feo/com/MiniAdasSteeringController'', ts_peers = adas_peers [(5, Outgoing), (7, Incoming)],
      ts_type = ty Steering\<rparr>]"

definition agent_assignments_ids :: agent_table where
  "agent_assignments_ids =
    map (\<lambda>(a, ws). (GenericId a, map (\<lambda>(w, is). (GenericId w, map GenericId is)) ws))
      [(100, [(40, [0]), (41, [1])]), (101, [(42, [2, 3])]), (102, [(43, [4, 6]), (44, [5, 7, 8])])]"

lemmas adas_topic_defs = topic_dependencies_def agent_assignments_ids_def adas_peers_def

text \<open>
  The secondaries of the example initialise all topics, not only those they use, and the number of
  their requests is just what the service of the primary waits for.
\<close>

lemma adas_requests_exact:
  "remote_requests agent_assignments_ids (GenericId 100) (topic_dependencies ty) 0
    = length (secondaries agent_assignments_ids (GenericId 100)) * length (topic_dependencies ty)"
  by (simp add: remote_requests_def peers_among_def remote_activities_def secondaries_def adas_topic_defs)

definition adas_accepts :: "(unit + string \<times> bool) list" where
  "adas_accepts =
    [Inr (''/feo/com/MiniAdasCamera'', True), Inl (), Inr (''/feo/com/MiniAdasNeuralNet'', True),
     Inr (''/feo/com/MiniAdasNeuralNet'', True), Inr (''/feo/com/MiniAdasRadar'', True),
     Inr (''/feo/com/MiniAdasBrakeController'', True), Inr (''/feo/com/MiniAdasSteeringController'', True)]"

theorem com_init_grants_access_witness:
  "\<exists>p'. initialize_com_primary (\<lambda>_ _ _. io_panic) LinuxShm (GenericId 100) (topic_dependencies (\<lambda>_. demo_type))
      agent_assignments_ids 0 (fresh_process [5, 4, 3, 2, 1]) = (Ret (5, Some 10), p')
    \<and> topic_writable ''/feo/com/MiniAdasCamera'' p'"
proof -
  let ?ty = "\<lambda>_. demo_type"
  let ?acts = "agent_activities (GenericId 100, [(GenericId 40, [GenericId 0]), (GenericId 41, [GenericId 1])])"
  have "\<exists>p'. initialize_com_primary (\<lambda>_ _ _. io_panic) LinuxShm (GenericId 100) (topic_dependencies ?ty)
      agent_assignments_ids 0 (fresh_process [5, 4, 3, 2, 1])
      = (Ret (length (topic_dependencies ?ty),
          Some (remote_requests agent_assignments_ids (GenericId 100) (topic_dependencies ?ty) 0)), p')
    \<and> (\<forall>ts \<in> set (topic_dependencies ?ty). \<forall>(i, d) \<in> set (ts_peers ts). i \<in> ?acts \<longrightarrow>
        (\<exists>mid. topic_ready (ts_type ts) (ts_topic ts) mid p' \<and> pc_shm p' mid = Some (ty_default (ts_type ts)))
        \<and> (d = Outgoing \<longrightarrow> topic_writable (ts_topic ts) p'))"
    by (rule com_init_grants_access [where xs = "[5, 4, 3, 2, 1]" and ys = "[]"])
      (auto simp: adas_topic_defs fresh_process_def demo_type_def)
  moreover have "remote_requests agent_assignments_ids (GenericId 100) (topic_dependencies ?ty) 0 = 10"
    by (simp add: remote_requests_def peers_among_def remote_activities_def adas_topic_defs)
  ultimately show ?thesis by (auto simp: adas_topic_defs agent_activities_def)
qed

theorem secondary_requests_served_witness:
  "\<exists>p :: nat process. length (fst (service_main p
    (remote_requests agent_assignments_ids (GenericId 100) (topic_dependencies (\<lambda>_. demo_type)) 0) adas_accepts)) = 6"
proof -
  define p :: "nat process" where
    "p = (fresh_process [])\<lparr>pc_topics := (\<lambda>_. Some \<lparr>tm_ptr = new_unmapped demo_type MapRead, tm_mapping_id = ''m''\<rparr>)\<rparr>"
  have "fst (service_main p
      (remote_requests agent_assignments_ids (GenericId 100) (topic_dependencies (\<lambda>_. demo_type)) 0) adas_accepts)
    = map (\<lambda>(t, ok). fst (serve_connection p t ok)) (requests_in adas_accepts)"
  proof (rule secondary_requests_served [THEN conjunct1])
    show "disjoint_family_on (\<lambda>i. agent_activities (secondaries agent_assignments_ids (GenericId 100) ! i))
        {..<length (secondaries agent_assignments_ids (GenericId 100))}"
      by (auto simp: disjoint_family_on_def secondaries_def adas_topic_defs agent_activities_def less_Suc_eq)
    show "mset (map fst (requests_in adas_accepts))
        = mset (secondary_requests agent_assignments_ids (GenericId 100) (topic_dependencies (\<lambda>_. demo_type)))"
      by (simp add: adas_accepts_def secondary_requests_def secondaries_def uses_topic_def agent_activities_def adas_topic_defs)
    show "pc_topics p (ts_topic ts) \<noteq> None" for ts :: "nat topic_spec"
      by (simp add: p_def)
  qed
  then have "length (fst (service_main p
    (remote_requests agent_assignments_ids (GenericId 100) (topic_dependencies (\<lambda>_. demo_type)) 0) adas_accepts)) = 6"
    by (simp add: adas_accepts_def)
  then show ?thesis by blast
qed

text \<open>Agent 101, which takes part in three of the topics, reads what the camera of the primary publishes.\<close>

theorem topics_connect_agents_witness:
  "\<exists>r p' q' p2 q2. initialize_com_primary (\<lambda>_ _ _. io_panic) LinuxShm (GenericId 100) (topic_dependencies (\<lambda>_. demo_type))
      agent_assignments_ids 0 (fresh_process [5, 4, 3, 2, 1]) = (Ret r, p')
    \<and> initialize_com_secondary (\<lambda>t. fst (serve_connection p' t True)) LinuxShm (take 3 (topic_dependencies (\<lambda>_. demo_type)))
        {GenericId 2, GenericId 3} ((fresh_process [])\<lparr>pc_shm := pc_shm p'\<rparr>) = (Ret 3, q')
    \<and> publish demo_type ''/feo/com/MiniAdasCamera'' 42 p' = (Ret (), p2)
    \<and> fetch demo_type ''/feo/com/MiniAdasCamera'' (q'\<lparr>pc_shm := pc_shm p2\<rparr>) = (Ret 42, q2)"
proof -
  let ?specs = "topic_dependencies (\<lambda>_. demo_type)"
  let ?ws = "[(GenericId 40, [GenericId 0]), (GenericId 41, [GenericId 1])]"
  have "\<exists>r p' q'. initialize_com_primary (\<lambda>_ _ _. io_panic) LinuxShm (GenericId 100) ?specs agent_assignments_ids 0
        (fresh_process [5, 4, 3, 2, 1]) = (Ret r, p')
    \<and> initialize_com_secondary (\<lambda>t. fst (serve_connection p' t True)) LinuxShm (take 3 ?specs) {GenericId 2, GenericId 3}
        ((fresh_process [])\<lparr>pc_shm := pc_shm p'\<rparr>) = (Ret (length (take 3 ?specs)), q')
    \<and> (\<forall>ts \<in> set (take 3 ?specs). \<exists>mid. topic_ready (ts_type ts) (ts_topic ts) mid q'
        \<and> (is_write {GenericId 2, GenericId 3} ts \<and> uses_topic (agent_activities (GenericId 100, ?ws)) ts \<longrightarrow>
            (\<exists>q2 p2. publish (ts_type ts) (ts_topic ts) 42 q' = (Ret (), q2)
              \<and> fetch (ts_type ts) (ts_topic ts) (p'\<lparr>pc_shm := pc_shm q2\<rparr>) = (Ret 42, p2)))
        \<and> (is_write (agent_activities (GenericId 100, ?ws)) ts \<longrightarrow>
            (\<exists>p2 q2. publish (ts_type ts) (ts_topic ts) 42 p' = (Ret (), p2)
              \<and> fetch (ts_type ts) (ts_topic ts) (q'\<lparr>pc_shm := pc_shm p2\<rparr>) = (Ret 42, q2))))"
    by (rule topics_connect_agents [where xs = "[5, 4, 3, 2, 1]" and ys = "[]"])
      (auto simp: adas_topic_defs fresh_process_def demo_type_def)
  then obtain r p' q' where run: "initialize_com_primary (\<lambda>_ _ _. io_panic) LinuxShm (GenericId 100) ?specs agent_assignments_ids 0
        (fresh_process [5, 4, 3, 2, 1]) = (Ret r, p')"
    "initialize_com_secondary (\<lambda>t. fst (serve_connection p' t True)) LinuxShm (take 3 ?specs) {GenericId 2, GenericId 3}
        ((fresh_process [])\<lparr>pc_shm := pc_shm p'\<rparr>) = (Ret (length (take 3 ?specs)), q')"
    and reverse: "\<And>ts. ts \<in> set (take 3 ?specs) \<Longrightarrow> is_write (agent_activities (GenericId 100, ?ws)) ts \<Longrightarrow>
            \<exists>p2 q2. publish (ts_type ts) (ts_topic ts) 42 p' = (Ret (), p2)
              \<and> fetch (ts_type ts) (ts_topic ts) (q'\<lparr>pc_shm := pc_shm p2\<rparr>) = (Ret 42, q2)"
    by blast
  have "hd ?specs \<in> set (take 3 ?specs)" "is_write (agent_activities (GenericId 100, ?ws)) (hd ?specs)"
    "ts_type (hd ?specs) = demo_type" "ts_topic (hd ?specs) = ''/feo/com/MiniAdasCamera''" "length (take 3 ?specs) = 3"
    by (simp_all add: adas_topic_defs is_write_def agent_activities_def)
  with reverse [of "hd ?specs"] run show ?thesis by auto
qed

end
