(* ===== verification/Feo_Adas_Activities.thy ===== *)
theory Feo_Adas_Activities
  imports Complex_Main Feo_Mini_Adas_Topics
begin

text \<open>
  The activities of the mini-adas example (\<open>examples/rust/mini-adas/src/activities/components.rs\<close>) over
  topics in shared memory. The world holds the process, the hashes that the pseudo-random numbers
  are drawn from, and the sleeps taken. A finite \<open>f64\<close> is the rational number it stands for, and every
  operation on it rounds its exact result with \<open>rnd\<close>, which is an argument; no operation here leaves
  the finite numbers. The lemmas run a step of each activity symbolically, on the values of the
  topics and the states of their locks.
\<close>

section \<open>Payloads\<close>

record camera_image =
  ci_num_people :: u64
  ci_num_cars :: u64
  ci_distance_obstacle :: rat

record radar_scan =
  rs_distance_obstacle :: rat
  rs_error_margin :: rat

record adas_scene =
  sn_num_people :: u64
  sn_num_cars :: u64
  sn_distance_obstacle :: rat
  sn_distance_left_lane :: rat
  sn_distance_right_lane :: rat

record brake_instruction =
  bi_active :: bool
  bi_level :: rat

record steering = st_angle :: rat

datatype adas_value =
    VImage camera_image
  | VScan radar_scan
  | VScene adas_scene
  | VBrake brake_instruction
  | VSteering steering

fun payload_of :: "adas_value \<Rightarrow> adas_payload" where
  "payload_of (VImage _) = CameraImage"
| "payload_of (VScan _) = RadarScan"
| "payload_of (VScene _) = Scene"
| "payload_of (VBrake _) = BrakeInstruction"
| "payload_of (VSteering _) = Steering"

text \<open>The default values, as \<open>placement_default\<close> writes them.\<close>

definition camera_image_default :: camera_image where
  "camera_image_default = \<lparr>ci_num_people = 0, ci_num_cars = 0, ci_distance_obstacle = 0\<rparr>"

definition radar_scan_default :: radar_scan where
  "radar_scan_default = \<lparr>rs_distance_obstacle = 0, rs_error_margin = 0\<rparr>"

definition scene_default :: adas_scene where
  "scene_default = \<lparr>sn_num_people = 0, sn_num_cars = 0, sn_distance_obstacle = 0, sn_distance_left_lane = 0,
    sn_distance_right_lane = 0\<rparr>"

definition brake_instruction_default :: brake_instruction where
  "brake_instruction_default = \<lparr>bi_active = False, bi_level = 0\<rparr>"

definition steering_default :: steering where
  "steering_default = \<lparr>st_angle = 0\<rparr>"

fun payload_default :: "adas_payload \<Rightarrow> adas_value" where
  "payload_default CameraImage = VImage camera_image_default"
| "payload_default RadarScan = VScan radar_scan_default"
| "payload_default Scene = VScene scene_default"
| "payload_default BrakeInstruction = VBrake brake_instruction_default"
| "payload_default Steering = VSteering steering_default"

lemma payload_of_default: "payload_of (payload_default x) = x"
  by (cases x) simp_all

text \<open>The payload of a typed guard; a value of another type cannot be behind it.\<close>

fun as_image :: "adas_value \<Rightarrow> camera_image option" where
  "as_image (VImage x) = Some x" | "as_image _ = None"

fun as_scan :: "adas_value \<Rightarrow> radar_scan option" where
  "as_scan (VScan x) = Some x" | "as_scan _ = None"

fun as_scene :: "adas_value \<Rightarrow> adas_scene option" where
  "as_scene (VScene x) = Some x" | "as_scene _ = None"

fun as_brake :: "adas_value \<Rightarrow> brake_instruction option" where
  "as_brake (VBrake x) = Some x" | "as_brake _ = None"

fun as_steering :: "adas_value \<Rightarrow> steering option" where
  "as_steering (VSteering x) = Some x" | "as_steering _ = None"

section \<open>The world\<close>

record adas_world =
  aw_process :: "adas_value process"
  aw_hashes :: "nat \<Rightarrow> u64"
  aw_drawn :: nat
  aw_slept :: "int list"

definition adw_io :: "(adas_value process, 'a) io \<Rightarrow> (adas_world, 'a) io" where
  "adw_io = io_zoom aw_process (\<lambda>p w. w\<lparr>aw_process := p\<rparr>)"

section \<open>Pseudo-random numbers\<close>

text \<open>\<open>RandomState::new().build_hasher().finish()\<close>\<close>

definition random_hash :: "(adas_world, u64) io" where
  "random_hash w = (Ret (aw_hashes w (aw_drawn w)), w\<lparr>aw_drawn := aw_drawn w + 1\<rparr>)"

definition in_range :: "int \<Rightarrow> int \<Rightarrow> u64 \<Rightarrow> int" where
  "in_range a b h = (int (unat h) mod (2 ^ 63 - 1)) mod \<bar>b - a + 1\<bar> + a"

definition is_i64 :: "int \<Rightarrow> bool" where
  "is_i64 i \<longleftrightarrow> - (2 ^ 63) \<le> i \<and> i < 2 ^ 63"

text \<open>The arithmetic is checked for overflow, and the remainder for a divisor of zero.\<close>

definition gen_random_in_range :: "int \<Rightarrow> int \<Rightarrow> (adas_world, int) io" where
  "gen_random_in_range a b =
    io_bind random_hash (\<lambda>h.
    if is_i64 (b - a) \<and> is_i64 (b - a + 1) \<and> b - a + 1 \<noteq> 0 \<and> is_i64 (in_range a b h)
    then io_return (in_range a b h) else io_panic)"

definition f64_of_int :: "(rat \<Rightarrow> rat) \<Rightarrow> int \<Rightarrow> rat" where
  "f64_of_int rnd i = rnd (of_int i)"

text \<open>\<open>as i64\<close> truncates towards zero and saturates.\<close>

definition i64_of_f64 :: "rat \<Rightarrow> int" where
  "i64_of_f64 x = max (- (2 ^ 63)) (min (2 ^ 63 - 1) (if x < 0 then \<lceil>x\<rceil> else \<lfloor>x\<rfloor>))"

definition f64_clamp :: "rat \<Rightarrow> rat \<Rightarrow> rat \<Rightarrow> rat" where
  "f64_clamp lo hi x = (if x < lo then lo else if hi < x then hi else x)"

definition change_drawn :: "(rat \<Rightarrow> rat) \<Rightarrow> rat \<Rightarrow> (adas_world, bool) io" where
  "change_drawn rnd change_prop =
    io_bind (gen_random_in_range 0 100) (\<lambda>r.
    io_return (rnd (f64_of_int rnd r / 100) < change_prop))"

definition random_walk_float :: "(rat \<Rightarrow> rat) \<Rightarrow> rat \<Rightarrow> rat \<Rightarrow> rat \<Rightarrow> (adas_world, rat) io" where
  "random_walk_float rnd previous change_prop max_delta =
    io_bind (change_drawn rnd change_prop) (\<lambda>change.
    if change then
      (let scaled_max_delta = i64_of_f64 (rnd (max_delta * 1000)) in
       io_bind (gen_random_in_range (- scaled_max_delta) scaled_max_delta) (\<lambda>d.
       io_return (rnd (previous + rnd (f64_of_int rnd d / 1000)))))
    else io_return previous)"

text \<open>\<open>previous as i64 + delta\<close> is checked for overflow.\<close>

definition random_walk_integer :: "(rat \<Rightarrow> rat) \<Rightarrow> u64 \<Rightarrow> rat \<Rightarrow> u64 \<Rightarrow> (adas_world, u64) io" where
  "random_walk_integer rnd previous change_prop max_delta =
    io_bind (change_drawn rnd change_prop) (\<lambda>change.
    if change then
      io_bind (gen_random_in_range (- sint max_delta) (sint max_delta)) (\<lambda>delta.
      let i = sint previous + delta in
      if is_i64 i then io_return (word_of_int (max 0 i)) else io_panic)
    else io_return previous)"

definition sleep_random :: "(adas_world, unit) io" where
  "sleep_random =
    io_bind (gen_random_in_range 10 45) (\<lambda>ms. io_modify (\<lambda>w. w\<lparr>aw_slept := ms # aw_slept w\<rparr>))"

section \<open>The activities\<close>

text \<open>An input or an output is its topic.\<close>

datatype adas_activity =
    Camera activity_id string u64 u64 rat
  | Radar activity_id string rat
  | NeuralNet activity_id string string string
  | EmergencyBraking activity_id string string
  | BrakeController activity_id string
  | EnvironmentRenderer activity_id string
  | SteeringController activity_id string
  | LaneAssist activity_id string
  | TrajectoryVisualizer activity_id

definition camera_build :: "activity_id \<Rightarrow> string \<Rightarrow> (adas_world, adas_activity) io" where
  "camera_build i image_topic = io_bind (adw_io (output_new image_topic)) (\<lambda>_. io_return (Camera i image_topic 4 10 40))"

definition radar_build :: "activity_id \<Rightarrow> string \<Rightarrow> (adas_world, adas_activity) io" where
  "radar_build i radar_topic = io_bind (adw_io (output_new radar_topic)) (\<lambda>_. io_return (Radar i radar_topic 40))"

definition neural_net_build :: "activity_id \<Rightarrow> string \<Rightarrow> string \<Rightarrow> string \<Rightarrow> (adas_world, adas_activity) io" where
  "neural_net_build i image_topic scan_topic scene_topic =
    io_bind (adw_io (output_new scene_topic)) (\<lambda>_.
    io_bind (adw_io (input_new image_topic)) (\<lambda>_.
    io_bind (adw_io (input_new scan_topic)) (\<lambda>_. io_return (NeuralNet i image_topic scan_topic scene_topic))))"

definition emergency_braking_build :: "activity_id \<Rightarrow> string \<Rightarrow> string \<Rightarrow> (adas_world, adas_activity) io" where
  "emergency_braking_build i scene_topic brake_topic =
    io_bind (adw_io (output_new brake_topic)) (\<lambda>_.
    io_bind (adw_io (input_new scene_topic)) (\<lambda>_. io_return (EmergencyBraking i scene_topic brake_topic)))"

definition brake_controller_build :: "activity_id \<Rightarrow> string \<Rightarrow> (adas_world, adas_activity) io" where
  "brake_controller_build i topic = io_bind (adw_io (input_new topic)) (\<lambda>_. io_return (BrakeController i topic))"

definition environment_renderer_build :: "activity_id \<Rightarrow> string \<Rightarrow> (adas_world, adas_activity) io" where
  "environment_renderer_build i topic = io_bind (adw_io (input_new topic)) (\<lambda>_. io_return (EnvironmentRenderer i topic))"

definition steering_controller_build :: "activity_id \<Rightarrow> string \<Rightarrow> (adas_world, adas_activity) io" where
  "steering_controller_build i topic = io_bind (adw_io (input_new topic)) (\<lambda>_. io_return (SteeringController i topic))"

definition lane_assist_build :: "activity_id \<Rightarrow> string \<Rightarrow> (adas_world, adas_activity) io" where
  "lane_assist_build i topic = io_bind (adw_io (output_new topic)) (\<lambda>_. io_return (LaneAssist i topic))"

definition trajectory_visualizer_build :: "activity_id \<Rightarrow> (adas_world, adas_activity) io" where
  "trajectory_visualizer_build i = io_return (TrajectoryVisualizer i)"

section \<open>Steps\<close>

text \<open>\<open>Camera::get_image\<close>: the walk of the cars starts from the people.\<close>

definition get_image :: "(rat \<Rightarrow> rat) \<Rightarrow> u64 \<Rightarrow> u64 \<Rightarrow> rat \<Rightarrow> (adas_world, camera_image) io" where
  "get_image rnd num_people num_cars distance_obstacle =
    io_bind (random_walk_integer rnd num_people (rnd (8 / 10)) 1) (\<lambda>num_people.
    io_bind (random_walk_integer rnd num_people (rnd (8 / 10)) 2) (\<lambda>num_cars.
    io_bind (random_walk_float rnd distance_obstacle 1 5) (\<lambda>sample.
    io_return \<lparr>ci_num_people = num_people, ci_num_cars = num_cars, ci_distance_obstacle = f64_clamp 20 50 sample\<rparr>)))"

definition get_scan :: "(rat \<Rightarrow> rat) \<Rightarrow> rat \<Rightarrow> (adas_world, radar_scan) io" where
  "get_scan rnd distance_obstacle =
    io_bind (random_walk_float rnd distance_obstacle 1 6) (\<lambda>sample.
    io_bind (gen_random_in_range (- 10) 10) (\<lambda>r.
    io_return \<lparr>rs_distance_obstacle = f64_clamp 16 60 sample, rs_error_margin = rnd (f64_of_int rnd r / 10)\<rparr>))"

text \<open>\<open>write_uninit\<close>, \<open>write_payload\<close> and \<open>send\<close> in one expression.\<close>

definition write_value :: "(adas_payload \<Rightarrow> adas_value type_info) \<Rightarrow> adas_payload \<Rightarrow> string \<Rightarrow> adas_value \<Rightarrow> (adas_world, unit) io" where
  "write_value ty x topic v =
    io_bind (adw_io (write_uninit (ty x) topic)) (\<lambda>mid.
    io_bind (adw_io (write_payload mid v)) (\<lambda>_. adw_io (output_send topic)))"

definition infer :: "(rat \<Rightarrow> rat) \<Rightarrow> camera_image \<Rightarrow> radar_scan \<Rightarrow> (adas_world, adas_scene) io" where
  "infer rnd camera radar =
    io_bind (gen_random_in_range 5 10) (\<lambda>l.
    io_bind (gen_random_in_range 5 10) (\<lambda>r.
    io_return \<lparr>sn_num_people = ci_num_people camera, sn_num_cars = ci_num_cars camera,
      sn_distance_obstacle = min (ci_distance_obstacle camera) (rs_distance_obstacle radar),
      sn_distance_left_lane = rnd (f64_of_int rnd l / 10), sn_distance_right_lane = rnd (f64_of_int rnd r / 10)\<rparr>))"

definition brake_for :: "(rat \<Rightarrow> rat) \<Rightarrow> rat \<Rightarrow> brake_instruction" where
  "brake_for rnd distance_obstacle =
    (let engage_distance = 30; max_brake_distance = 15 in
     if distance_obstacle < engage_distance then
       \<lparr>bi_active = True,
        bi_level = min 1 (rnd (rnd (engage_distance - distance_obstacle) / rnd (engage_distance - max_brake_distance)))\<rparr>
     else \<lparr>bi_active = False, bi_level = 0\<rparr>)"

definition camera_step ::
  "(rat \<Rightarrow> rat) \<Rightarrow> (adas_payload \<Rightarrow> adas_value type_info) \<Rightarrow> activity_id \<Rightarrow> string \<Rightarrow> u64 \<Rightarrow> u64 \<Rightarrow> rat \<Rightarrow>
    (adas_world, adas_activity) io" where
  "camera_step rnd ty i topic num_people num_cars distance =
    io_bind sleep_random (\<lambda>_.
    io_bind (get_image rnd num_people num_cars distance) (\<lambda>img.
    io_bind (write_value ty CameraImage topic (VImage img)) (\<lambda>_.
    io_return (Camera i topic (ci_num_people img) (ci_num_cars img) (ci_distance_obstacle img)))))"

definition radar_step ::
  "(rat \<Rightarrow> rat) \<Rightarrow> (adas_payload \<Rightarrow> adas_value type_info) \<Rightarrow> activity_id \<Rightarrow> string \<Rightarrow> rat \<Rightarrow> (adas_world, adas_activity) io" where
  "radar_step rnd ty i topic distance =
    io_bind sleep_random (\<lambda>_.
    io_bind (get_scan rnd distance) (\<lambda>scan.
    io_bind (write_value ty RadarScan topic (VScan scan)) (\<lambda>_.
    io_return (Radar i topic (rs_distance_obstacle scan)))))"

text \<open>A guard is held until the end of the step, unless it is sent.\<close>

definition with_input ::
  "(adas_payload \<Rightarrow> adas_value type_info) \<Rightarrow> adas_payload \<Rightarrow> string \<Rightarrow> (string \<Rightarrow> (adas_world, 'a) io) \<Rightarrow> (adas_world, 'a) io" where
  "with_input ty x topic body =
    io_bind (adw_io (input_read (ty x) topic)) (\<lambda>mid.
    io_bind (body mid) (\<lambda>r.
    io_bind (adw_io (input_drop topic)) (\<lambda>_. io_return r)))"

definition deref_as :: "(adas_value \<Rightarrow> 'b option) \<Rightarrow> string \<Rightarrow> (adas_world, 'b) io" where
  "deref_as sel mid = io_bind (adw_io (guard_deref mid)) (\<lambda>v. io_expect (sel v))"

definition neural_net_step ::
  "(rat \<Rightarrow> rat) \<Rightarrow> (adas_payload \<Rightarrow> adas_value type_info) \<Rightarrow> string \<Rightarrow> string \<Rightarrow> string \<Rightarrow> (adas_world, unit) io" where
  "neural_net_step rnd ty image_topic scan_topic scene_topic =
    io_bind sleep_random (\<lambda>_.
    with_input ty CameraImage image_topic (\<lambda>camera.
    with_input ty RadarScan scan_topic (\<lambda>radar.
    io_bind (adw_io (write_uninit (ty Scene) scene_topic)) (\<lambda>out.
    io_bind (deref_as as_image camera) (\<lambda>img.
    io_bind (deref_as as_scan radar) (\<lambda>scan.
    io_bind (infer rnd img scan) (\<lambda>scene.
    io_bind (adw_io (guard_store out (VScene scene))) (\<lambda>_.
    io_bind (adw_io (guard_assume_init out)) (\<lambda>_. adw_io (output_send scene_topic))))))))))"

definition emergency_braking_step ::
  "(rat \<Rightarrow> rat) \<Rightarrow> (adas_payload \<Rightarrow> adas_value type_info) \<Rightarrow> string \<Rightarrow> string \<Rightarrow> (adas_world, unit) io" where
  "emergency_braking_step rnd ty scene_topic brake_topic =
    io_bind sleep_random (\<lambda>_.
    with_input ty Scene scene_topic (\<lambda>scene.
    io_bind (adw_io (write_uninit (ty BrakeInstruction) brake_topic)) (\<lambda>out.
    io_bind (deref_as as_scene scene) (\<lambda>sc.
    io_bind (adw_io (write_payload out (VBrake (brake_for rnd (sn_distance_obstacle sc))))) (\<lambda>_.
    adw_io (output_send brake_topic))))))"

definition brake_controller_step :: "(adas_payload \<Rightarrow> adas_value type_info) \<Rightarrow> string \<Rightarrow> (adas_world, unit) io" where
  "brake_controller_step ty topic =
    io_bind sleep_random (\<lambda>_.
    with_input ty BrakeInstruction topic (\<lambda>brake. io_bind (deref_as as_brake brake) (\<lambda>_. io_return ())))"

definition environment_renderer_step :: "(adas_payload \<Rightarrow> adas_value type_info) \<Rightarrow> string \<Rightarrow> (adas_world, unit) io" where
  "environment_renderer_step ty topic =
    io_bind sleep_random (\<lambda>_. with_input ty Scene topic (\<lambda>_. io_return ()))"

definition steering_controller_step :: "(adas_payload \<Rightarrow> adas_value type_info) \<Rightarrow> string \<Rightarrow> (adas_world, unit) io" where
  "steering_controller_step ty topic =
    io_bind sleep_random (\<lambda>_.
    with_input ty Steering topic (\<lambda>st. io_bind (deref_as as_steering st) (\<lambda>_. io_return ())))"

definition lane_assist_step ::
  "(rat \<Rightarrow> rat) \<Rightarrow> (adas_payload \<Rightarrow> adas_value type_info) \<Rightarrow> string \<Rightarrow> (adas_world, unit) io" where
  "lane_assist_step rnd ty topic =
    io_bind sleep_random (\<lambda>_. write_value ty Steering topic (VSteering \<lparr>st_angle = rnd (234 / 100)\<rparr>))"

text \<open>
  \<open>impl Activity\<close> for each of them; a step gives the activity after it. Every step that returns
  returns \<open>Ok\<close>, and starting up and shutting down only log.
\<close>

record adas_impl =
  ai_id :: activity_id
  ai_startup :: "(adas_world, activity_error + unit) io"
  ai_step :: "(adas_world, (activity_error + unit) \<times> adas_activity) io"
  ai_shutdown :: "(adas_world, activity_error + unit) io"

definition camera_impl ::
  "(rat \<Rightarrow> rat) \<Rightarrow> (adas_payload \<Rightarrow> adas_value type_info) \<Rightarrow> activity_id \<Rightarrow> string \<Rightarrow> u64 \<Rightarrow> u64 \<Rightarrow> rat \<Rightarrow> adas_impl" where
  "camera_impl rnd ty i topic people cars distance =
    \<lparr>ai_id = i, ai_startup = io_return (Inr ()),
     ai_step = io_bind (camera_step rnd ty i topic people cars distance) (\<lambda>a. io_return (Inr (), a)),
     ai_shutdown = io_return (Inr ())\<rparr>"

definition radar_impl ::
  "(rat \<Rightarrow> rat) \<Rightarrow> (adas_payload \<Rightarrow> adas_value type_info) \<Rightarrow> activity_id \<Rightarrow> string \<Rightarrow> rat \<Rightarrow> adas_impl" where
  "radar_impl rnd ty i topic distance =
    \<lparr>ai_id = i, ai_startup = io_return (Inr ()),
     ai_step = io_bind (radar_step rnd ty i topic distance) (\<lambda>a. io_return (Inr (), a)),
     ai_shutdown = io_return (Inr ())\<rparr>"

definition neural_net_impl ::
  "(rat \<Rightarrow> rat) \<Rightarrow> (adas_payload \<Rightarrow> adas_value type_info) \<Rightarrow> activity_id \<Rightarrow> string \<Rightarrow> string \<Rightarrow> string \<Rightarrow> adas_impl" where
  "neural_net_impl rnd ty i image_topic scan_topic scene_topic =
    \<lparr>ai_id = i, ai_startup = io_return (Inr ()),
     ai_step = io_bind (neural_net_step rnd ty image_topic scan_topic scene_topic) (\<lambda>_. io_return (Inr (), NeuralNet i image_topic scan_topic scene_topic)),
     ai_shutdown = io_return (Inr ())\<rparr>"

definition emergency_braking_impl ::
  "(rat \<Rightarrow> rat) \<Rightarrow> (adas_payload \<Rightarrow> adas_value type_info) \<Rightarrow> activity_id \<Rightarrow> string \<Rightarrow> string \<Rightarrow> adas_impl" where
  "emergency_braking_impl rnd ty i scene_topic brake_topic =
    \<lparr>ai_id = i, ai_startup = io_return (Inr ()),
     ai_step = io_bind (emergency_braking_step rnd ty scene_topic brake_topic) (\<lambda>_. io_return (Inr (), EmergencyBraking i scene_topic brake_topic)),
     ai_shutdown = io_return (Inr ())\<rparr>"

definition brake_controller_impl ::
  "(adas_payload \<Rightarrow> adas_value type_info) \<Rightarrow> activity_id \<Rightarrow> string \<Rightarrow> adas_impl" where
  "brake_controller_impl ty i topic =
    \<lparr>ai_id = i, ai_startup = io_return (Inr ()),
     ai_step = io_bind (brake_controller_step ty topic) (\<lambda>_. io_return (Inr (), BrakeController i topic)),
     ai_shutdown = io_return (Inr ())\<rparr>"

definition environment_renderer_impl ::
  "(adas_payload \<Rightarrow> adas_value type_info) \<Rightarrow> activity_id \<Rightarrow> string \<Rightarrow> adas_impl" where
  "environment_renderer_impl ty i topic =
    \<lparr>ai_id = i, ai_startup = io_return (Inr ()),
     ai_step = io_bind (environment_renderer_step ty topic) (\<lambda>_. io_return (Inr (), EnvironmentRenderer i topic)),
     ai_shutdown = io_return (Inr ())\<rparr>"

definition steering_controller_impl ::
  "(adas_payload \<Rightarrow> adas_value type_info) \<Rightarrow> activity_id \<Rightarrow> string \<Rightarrow> adas_impl" where
  "steering_controller_impl ty i topic =
    \<lparr>ai_id = i, ai_startup = io_return (Inr ()),
     ai_step = io_bind (steering_controller_step ty topic) (\<lambda>_. io_return (Inr (), SteeringController i topic)),
     ai_shutdown = io_return (Inr ())\<rparr>"

definition lane_assist_impl ::
  "(rat \<Rightarrow> rat) \<Rightarrow> (adas_payload \<Rightarrow> adas_value type_info) \<Rightarrow> activity_id \<Rightarrow> string \<Rightarrow> adas_impl" where
  "lane_assist_impl rnd ty i topic =
    \<lparr>ai_id = i, ai_startup = io_return (Inr ()),
     ai_step = io_bind (lane_assist_step rnd ty topic) (\<lambda>_. io_return (Inr (), LaneAssist i topic)),
     ai_shutdown = io_return (Inr ())\<rparr>"

definition trajectory_visualizer_impl ::
  "activity_id \<Rightarrow> adas_impl" where
  "trajectory_visualizer_impl i =
    \<lparr>ai_id = i, ai_startup = io_return (Inr ()),
     ai_step = io_bind (sleep_random) (\<lambda>_. io_return (Inr (), TrajectoryVisualizer i)),
     ai_shutdown = io_return (Inr ())\<rparr>"

fun adas_impl_of :: "(rat \<Rightarrow> rat) \<Rightarrow> (adas_payload \<Rightarrow> adas_value type_info) \<Rightarrow> adas_activity \<Rightarrow> adas_impl" where
  "adas_impl_of rnd ty (Camera i topic people cars distance) = camera_impl rnd ty i topic people cars distance"
| "adas_impl_of rnd ty (Radar i topic distance) = radar_impl rnd ty i topic distance"
| "adas_impl_of rnd ty (NeuralNet i image_topic scan_topic scene_topic) =
    neural_net_impl rnd ty i image_topic scan_topic scene_topic"
| "adas_impl_of rnd ty (EmergencyBraking i scene_topic brake_topic) = emergency_braking_impl rnd ty i scene_topic brake_topic"
| "adas_impl_of rnd ty (BrakeController i topic) = brake_controller_impl ty i topic"
| "adas_impl_of rnd ty (EnvironmentRenderer i topic) = environment_renderer_impl ty i topic"
| "adas_impl_of rnd ty (SteeringController i topic) = steering_controller_impl ty i topic"
| "adas_impl_of rnd ty (LaneAssist i topic) = lane_assist_impl rnd ty i topic"
| "adas_impl_of rnd ty (TrajectoryVisualizer i) = trajectory_visualizer_impl i"

abbreviation adas_step ::
  "(rat \<Rightarrow> rat) \<Rightarrow> (adas_payload \<Rightarrow> adas_value type_info) \<Rightarrow> adas_activity \<Rightarrow>
    (adas_world, (activity_error + unit) \<times> adas_activity) io" where
  "adas_step rnd ty a \<equiv> ai_step (adas_impl_of rnd ty a)"

lemmas adas_impl_defs = camera_impl_def radar_impl_def neural_net_impl_def emergency_braking_impl_def
  brake_controller_impl_def environment_renderer_impl_def steering_controller_impl_def lane_assist_impl_def
  trajectory_visualizer_impl_def

text \<open>The topics and the builders of the configuration.\<close>

fun adas_topic :: "adas_payload \<Rightarrow> string" where
  "adas_topic CameraImage = ''/feo/com/MiniAdasCamera''"
| "adas_topic RadarScan = ''/feo/com/MiniAdasRadar''"
| "adas_topic Scene = ''/feo/com/MiniAdasNeuralNet''"
| "adas_topic BrakeInstruction = ''/feo/com/MiniAdasBrakeController''"
| "adas_topic Steering = ''/feo/com/MiniAdasSteeringController''"

type_synonym adas_builder = "activity_id \<Rightarrow> (adas_world, adas_activity) io"

definition adas_workers :: "(worker_id \<times> (activity_id \<times> adas_builder) list) list" where
  "adas_workers =
    [(GenericId 40, [(GenericId 0, \<lambda>i. camera_build i (adas_topic CameraImage))]),
     (GenericId 41, [(GenericId 1, \<lambda>i. radar_build i (adas_topic RadarScan))]),
     (GenericId 42,
       [(GenericId 2, \<lambda>i. neural_net_build i (adas_topic CameraImage) (adas_topic RadarScan) (adas_topic Scene)),
        (GenericId 3, \<lambda>i. environment_renderer_build i (adas_topic Scene))]),
     (GenericId 43,
       [(GenericId 4, \<lambda>i. emergency_braking_build i (adas_topic Scene) (adas_topic BrakeInstruction)),
        (GenericId 6, \<lambda>i. brake_controller_build i (adas_topic BrakeInstruction))]),
     (GenericId 44,
       [(GenericId 5, \<lambda>i. lane_assist_build i (adas_topic Steering)),
        (GenericId 7, \<lambda>i. steering_controller_build i (adas_topic Steering)),
        (GenericId 8, \<lambda>i. trajectory_visualizer_build i)])]"

definition adas_builders :: "(activity_id \<times> adas_builder) list" where
  "adas_builders = concat (map snd adas_workers)"

section \<open>The process as values and locks\<close>

definition all_payloads :: "adas_payload list" where
  "all_payloads = [CameraImage, RadarScan, Scene, BrakeInstruction, Steering]"

lemma set_all_payloads: "set all_payloads = UNIV"
proof -
  have "x \<in> set all_payloads" for x by (cases x) (simp_all add: all_payloads_def)
  then show ?thesis by blast
qed

definition adas_mapping ::
  "(adas_payload \<Rightarrow> adas_value type_info) \<Rightarrow> (adas_payload \<Rightarrow> string) \<Rightarrow> adas_payload \<Rightarrow> u16 \<Rightarrow> topic_mapping" where
  "adas_mapping ty mids x l =
    \<lparr>tm_ptr = \<lparr>ap_type = ty_id (ty x), ap_size = ty_size (ty x), ap_lock = l, ap_mapped = Some (mids x), ap_writable = True\<rparr>,
     tm_mapping_id = mids x\<rparr>"

text \<open>The process in which the topics have these values and locks, and are as in \<open>p\<close> otherwise.\<close>

definition adas_process ::
  "(adas_payload \<Rightarrow> adas_value type_info) \<Rightarrow> (adas_payload \<Rightarrow> string) \<Rightarrow> adas_value process \<Rightarrow>
    (adas_payload \<Rightarrow> u16) \<Rightarrow> (adas_payload \<Rightarrow> adas_value) \<Rightarrow> adas_value process" where
  "adas_process ty mids p locks vals =
    p\<lparr>pc_topics := pc_topics p ++ map_of (map (\<lambda>x. (adas_topic x, adas_mapping ty mids x (locks x))) all_payloads),
      pc_shm := pc_shm p ++ map_of (map (\<lambda>x. (mids x, vals x)) all_payloads)\<rparr>"

lemma inj_adas_topic: "inj adas_topic"
proof (rule injI)
  show "adas_topic x = adas_topic y \<Longrightarrow> x = y" for x y by (cases x; cases y) simp_all
qed

lemma map_of_all:
  assumes "inj f"
  shows "map_of (map (\<lambda>x. (f x, g x)) all_payloads) (f y) = Some (g y)"
    and "(map_of (map (\<lambda>x. (f x, g x)) all_payloads))(f y \<mapsto> v) = map_of (map (\<lambda>x. (f x, (g(y := v)) x)) all_payloads)"
proof -
  have d: "distinct (map fst (map (\<lambda>x. (f x, g x)) all_payloads))" for g :: "adas_payload \<Rightarrow> 'b"
    using assms by (simp add: comp_def distinct_map inj_on_def) (simp add: all_payloads_def inj_def)
  have some: "map_of (map (\<lambda>x. (f x, g x)) all_payloads) (f y) = Some (g y)" for g :: "adas_payload \<Rightarrow> 'b" and y
    by (rule map_of_is_SomeI [OF d]) (auto simp: set_all_payloads)
  show "map_of (map (\<lambda>x. (f x, g x)) all_payloads) (f y) = Some (g y)" by (rule some)
  show "(map_of (map (\<lambda>x. (f x, g x)) all_payloads))(f y \<mapsto> v) = map_of (map (\<lambda>x. (f x, (g(y := v)) x)) all_payloads)"
  proof
    fix k
    show "((map_of (map (\<lambda>x. (f x, g x)) all_payloads))(f y \<mapsto> v)) k = map_of (map (\<lambda>x. (f x, (g(y := v)) x)) all_payloads) k"
    proof (cases "k \<in> range f")
      case True
      then obtain z where "k = f z" by blast
      then show ?thesis using some [of g z] some [of "g(y := v)" z] inj_eq [OF assms] by auto
    next
      case False
      then have "map_of (map (\<lambda>x. (f x, g x)) all_payloads) k = None" for g :: "adas_payload \<Rightarrow> 'b"
        by (auto simp: map_of_eq_None_iff)
      then show ?thesis using False by auto
    qed
  qed
qed

text \<open>The operations on the process, as equations.\<close>

lemma map_add_upd_cong: "M (k \<mapsto> v) = M' \<Longrightarrow> (N ++ M)(k \<mapsto> v) = N ++ M'"
  by (auto simp: map_add_upd)

lemma topics_lookup: "pc_topics (adas_process ty mids p locks vals) (adas_topic x) = Some (adas_mapping ty mids x (locks x))"
  using map_of_all(1) [OF inj_adas_topic, of "\<lambda>x. adas_mapping ty mids x (locks x)" x]
  by (simp add: adas_process_def map_add_Some_iff)

lemma shm_lookup: "inj mids \<Longrightarrow> pc_shm (adas_process ty mids p locks vals) (mids x) = Some (vals x)"
  using map_of_all(1) [of mids vals x] by (simp add: adas_process_def map_add_Some_iff)

lemma topics_update:
  "(adas_process ty mids p locks vals)\<lparr>pc_topics :=
      (pc_topics (adas_process ty mids p locks vals))(adas_topic x \<mapsto> adas_mapping ty mids x l)\<rparr>
    = adas_process ty mids p (locks(x := l)) vals"
proof -
  have "(map_of (map (\<lambda>x. (adas_topic x, adas_mapping ty mids x (locks x))) all_payloads))(adas_topic x \<mapsto> adas_mapping ty mids x l)
    = map_of (map (\<lambda>y. (adas_topic y, adas_mapping ty mids y ((locks(x := l)) y))) all_payloads)"
    unfolding map_of_all(2) [OF inj_adas_topic]
    by (rule arg_cong [where f = map_of], rule map_cong) auto
  from map_add_upd_cong [OF this] show ?thesis by (simp add: adas_process_def)
qed

lemma shm_update:
  assumes "inj mids"
  shows "(adas_process ty mids p locks vals)\<lparr>pc_shm := (pc_shm (adas_process ty mids p locks vals))(mids x \<mapsto> v)\<rparr>
    = adas_process ty mids p locks (vals(x := v))"
  using map_add_upd_cong [OF map_of_all(2) [OF assms, of vals x v]] by (simp add: adas_process_def)

lemma on_ptr_adas:
  assumes "m (tm_ptr (adas_mapping ty mids x (locks x))) = (r, tm_ptr (adas_mapping ty mids x l))"
  shows "on_ptr (adas_topic x) m (adas_process ty mids p locks vals) = (r, adas_process ty mids p (locks(x := l)) vals)"
proof -
  have "(adas_mapping ty mids x (locks x))\<lparr>tm_ptr := tm_ptr (adas_mapping ty mids x l)\<rparr> = adas_mapping ty mids x l"
    by (simp add: adas_mapping_def)
  then show ?thesis using assms by (simp add: on_ptr_def topics_lookup topics_update)
qed

named_theorems adas_run "symbolic execution of the steps"

lemma adas_input_read [adas_run]:
  "locks x = 0 \<Longrightarrow> input_read (ty x) (adas_topic x) (adas_process ty mids p locks vals)
    = (Ret (mids x), adas_process ty mids p (locks(x := 1)) vals)"
  unfolding input_read_def
  by (rule on_ptr_adas) (simp add: adas_mapping_def ap_get_def io_defs on_lock_def round_once_def read_zero)

lemma adas_input_drop [adas_run]:
  "locks x = 1 \<Longrightarrow> input_drop (adas_topic x) (adas_process ty mids p locks vals)
    = (Ret (), adas_process ty mids p (locks(x := 0)) vals)"
proof -
  assume l: "locks x = 1"
  have "unlock_read_round 1 1 = (Ret (Inr ()), 0)"
    using u16_max_val by (auto simp: round_defs)
  with l show ?thesis unfolding input_drop_def
    by (intro on_ptr_adas) (simp add: adas_mapping_def ap_drop_read_def on_lock_def io_zoom_def round_once_def)
qed

lemma adas_write_uninit [adas_run]:
  "locks x = 0 \<Longrightarrow> write_uninit (ty x) (adas_topic x) (adas_process ty mids p locks vals)
    = (Ret (mids x), adas_process ty mids p (locks(x := u16_max)) vals)"
  unfolding write_uninit_def
  by (rule on_ptr_adas) (simp add: adas_mapping_def ap_get_mut_def io_defs on_lock_def lock_write_def compare_exchange_def)

lemma adas_output_send [adas_run]:
  "locks x = u16_max \<Longrightarrow> output_send (adas_topic x) (adas_process ty mids p locks vals)
    = (Ret (), adas_process ty mids p (locks(x := 0)) vals)"
  unfolding output_send_def
  by (rule on_ptr_adas)
    (simp add: adas_mapping_def ap_send_def ap_drop_write_def is_locked_def io_defs on_lock_def unlock_write_def compare_exchange_def)

lemma adas_guard_store [adas_run]:
  "inj mids \<Longrightarrow> guard_store (mids x) v (adas_process ty mids p locks vals)
    = (Ret (), adas_process ty mids p locks (vals(x := v)))"
  by (simp add: guard_store_def io_modify_def shm_update)

lemma adas_guard_deref [adas_run]:
  "inj mids \<Longrightarrow> guard_deref (mids x) (adas_process ty mids p locks vals) = (Ret (vals x), adas_process ty mids p locks vals)"
  by (simp add: guard_deref_def io_defs shm_lookup)

section \<open>Steps that cannot fail\<close>

text \<open>
  \<open>steps P m Q\<close>: from a state with \<open>P\<close> the computation returns, neither panicking nor hanging, with
  \<open>Q\<close>. \<open>adas_at\<close> fixes the values and the locks of the topics.
\<close>

definition steps :: "('s \<Rightarrow> bool) \<Rightarrow> ('s, 'a) io \<Rightarrow> ('a \<Rightarrow> 's \<Rightarrow> bool) \<Rightarrow> bool" where
  "steps P m Q \<longleftrightarrow> hoare P m Q (\<lambda>_. False)"

lemma steps_bind: "steps P m R \<Longrightarrow> (\<And>a. steps (R a) (f a) Q) \<Longrightarrow> steps P (io_bind m f) Q"
  unfolding steps_def by (rule hoare_bind)

lemma steps_return: "(\<And>s. P s \<Longrightarrow> Q a s) \<Longrightarrow> steps P (io_return a) Q"
  unfolding steps_def by (rule hoare_return)

lemma steps_post: "steps P m R \<Longrightarrow> (\<And>a s. R a s \<Longrightarrow> Q a s) \<Longrightarrow> steps P m Q"
  unfolding steps_def by (rule hoare_post)

lemma steps_assume: "(A \<Longrightarrow> steps P m Q) \<Longrightarrow> steps (\<lambda>s. A \<and> P s) m Q"
  unfolding steps_def by (rule hoare_assume)

lemma steps_exists: "(\<And>x. steps (P x) m Q) \<Longrightarrow> steps (\<lambda>s. \<exists>x. P x s) m Q"
  unfolding steps_def by (rule hoare_exists)

lemma steps_run: "steps P m Q \<Longrightarrow> P s \<Longrightarrow> \<exists>a s'. m s = (Ret a, s') \<and> Q a s'"
proof -
  assume "steps P m Q" "P s"
  moreover obtain r s' where "m s = (r, s')" by fastforce
  ultimately show ?thesis
    using hoare_outcome [of P m Q "\<lambda>_. False" s r s'] by (cases r) (auto simp: steps_def)
qed

definition adas_at ::
  "(adas_payload \<Rightarrow> adas_value type_info) \<Rightarrow> (adas_payload \<Rightarrow> string) \<Rightarrow> adas_value process \<Rightarrow>
    (adas_payload \<Rightarrow> u16) \<Rightarrow> (adas_payload \<Rightarrow> adas_value) \<Rightarrow> adas_world \<Rightarrow> bool" where
  "adas_at ty mids p locks vals w \<longleftrightarrow> aw_process w = adas_process ty mids p locks vals"

lemma steps_adw_io:
  "m (adas_process ty mids p locks vals) = (Ret a, adas_process ty mids p locks' vals') \<Longrightarrow>
    steps (adas_at ty mids p locks vals) (adw_io m) (\<lambda>r w. r = a \<and> adas_at ty mids p locks' vals' w)"
  by (auto simp: steps_def adas_at_def adw_io_def io_zoom_def intro!: hoareI)

lemma steps_process:
  assumes "m (adas_process ty mids p locks vals) = (Ret a, adas_process ty mids p locks' vals')"
    and "steps (adas_at ty mids p locks' vals') (f a) Q"
  shows "steps (adas_at ty mids p locks vals) (io_bind (adw_io m) f) Q"
proof (rule steps_bind [OF steps_adw_io [where m = m, OF assms(1)]])
  show "steps (\<lambda>w. r = a \<and> adas_at ty mids p locks' vals' w) (f r) Q" for r
    by (rule steps_assume) (simp add: assms(2))
qed

lemma in_range_bounds: "a \<le> b \<Longrightarrow> a \<le> in_range a b h \<and> in_range a b h \<le> b"
  using pos_mod_bound [of "\<bar>b - a + 1\<bar>"] pos_mod_sign [of "\<bar>b - a + 1\<bar>"] unfolding in_range_def by (smt (verit))

lemma steps_draw:
  assumes "a \<le> b" "b - a + 1 < 2 ^ 63" "- (2 ^ 63) \<le> a" "b < 2 ^ 63"
    and "\<And>r. a \<le> r \<Longrightarrow> r \<le> b \<Longrightarrow> steps (adas_at ty mids p locks vals) (f r) Q"
  shows "steps (adas_at ty mids p locks vals) (io_bind (gen_random_in_range a b) f) Q"
proof -
  have ok: "is_i64 (in_range a b h)" for h
    using in_range_bounds [OF assms(1), of h] assms(3,4) unfolding is_i64_def by linarith
  have span: "is_i64 (b - a)" "is_i64 (b - a + 1)" using assms(1,2) unfolding is_i64_def by linarith+
  show ?thesis
  proof (rule steps_bind [where R = "\<lambda>r w. (a \<le> r \<and> r \<le> b) \<and> adas_at ty mids p locks vals w"])
    show "steps (adas_at ty mids p locks vals) (gen_random_in_range a b)
        (\<lambda>r w. (a \<le> r \<and> r \<le> b) \<and> adas_at ty mids p locks vals w)"
      using ok span in_range_bounds [OF assms(1)] assms(1)
      by (auto simp: steps_def gen_random_in_range_def random_hash_def adas_at_def io_defs intro!: hoareI)
    show "steps (\<lambda>w. (a \<le> r \<and> r \<le> b) \<and> adas_at ty mids p locks vals w) (f r) Q" for r
      by (rule steps_assume) (use assms(5) in blast)
  qed
qed

lemma steps_sleep:
  assumes "steps (adas_at ty mids p locks vals) (f ()) Q"
  shows "steps (adas_at ty mids p locks vals) (io_bind sleep_random f) Q"
proof (rule steps_bind [where R = "\<lambda>_. adas_at ty mids p locks vals"])
  show "steps (adas_at ty mids p locks vals) sleep_random (\<lambda>_. adas_at ty mids p locks vals)"
    unfolding sleep_random_def
    by (rule steps_draw) (auto simp: steps_def adas_at_def intro!: hoare_modify)
  show "steps (adas_at ty mids p locks vals) (f u) Q" for u using assms by simp
qed

lemma steps_change:
  assumes "\<And>c. steps (adas_at ty mids p locks vals) (f c) Q"
  shows "steps (adas_at ty mids p locks vals) (io_bind (change_drawn rnd prop) f) Q"
proof (rule steps_bind [where R = "\<lambda>_. adas_at ty mids p locks vals"])
  show "steps (adas_at ty mids p locks vals) (change_drawn rnd prop) (\<lambda>_. adas_at ty mids p locks vals)"
    unfolding change_drawn_def by (rule steps_draw) (auto intro!: steps_return)
qed (rule assms)

text \<open>Rounding is monotone and exact on the integers up to \<open>2 ^ 53\<close>.\<close>

definition f64_rounding :: "(rat \<Rightarrow> rat) \<Rightarrow> bool" where
  "f64_rounding rnd \<longleftrightarrow> (\<forall>x y. x \<le> y \<longrightarrow> rnd x \<le> rnd y) \<and> (\<forall>i::int. \<bar>i\<bar> \<le> 2 ^ 53 \<longrightarrow> rnd (of_int i) = of_int i)"

lemma rnd_int: "f64_rounding rnd \<Longrightarrow> \<bar>i\<bar> \<le> 2 ^ 53 \<Longrightarrow> rnd (of_int i) = of_int i"
  by (simp add: f64_rounding_def)

lemma steps_walk_float:
  assumes r: "f64_rounding rnd" and d: "max_delta = of_int m" "0 \<le> m" "m < 2 ^ 40"
    and f: "\<And>x. steps (adas_at ty mids p locks vals) (f x) Q"
  shows "steps (adas_at ty mids p locks vals) (io_bind (random_walk_float rnd previous prop max_delta) f) Q"
proof -
  have "max_delta * 1000 = of_int (m * 1000)" by (simp add: d(1))
  then have "rnd (max_delta * 1000) = of_int (m * 1000)" using rnd_int [OF r, of "m * 1000"] d by simp
  then have i: "i64_of_f64 (rnd (max_delta * 1000)) = m * 1000"
    using d(2,3) by (simp only: i64_of_f64_def of_int_less_0_iff ceiling_of_int floor_of_int) simp
  have walk: "steps (adas_at ty mids p locks vals) (random_walk_float rnd previous prop max_delta)
      (\<lambda>_. adas_at ty mids p locks vals)"
    unfolding random_walk_float_def i Let_def
    by (rule steps_change) (use d(2,3) in \<open>auto intro!: steps_draw steps_return\<close>)
  show ?thesis by (rule steps_bind [OF walk f])
qed

lemma steps_walk_integer:
  assumes n: "0 \<le> sint n" "sint n + sint d < 2 ^ 63" and d: "0 \<le> sint d" "sint d < 2 ^ 61"
    and f: "\<And>x. 0 \<le> sint x \<Longrightarrow> \<bar>sint x - sint n\<bar> \<le> sint d \<Longrightarrow> steps (adas_at ty mids p locks vals) (f x) Q"
  shows "steps (adas_at ty mids p locks vals) (io_bind (random_walk_integer rnd n prop d) f) Q"
proof -
  have walk: "steps (adas_at ty mids p locks vals) (random_walk_integer rnd n prop d)
      (\<lambda>x w. (0 \<le> sint x \<and> \<bar>sint x - sint n\<bar> \<le> sint d) \<and> adas_at ty mids p locks vals w)"
    unfolding random_walk_integer_def
  proof (rule steps_change)
    fix c
    have moved: "steps (adas_at ty mids p locks vals)
        (io_bind (gen_random_in_range (- sint d) (sint d)) (\<lambda>delta.
          let i = sint n + delta in if is_i64 i then io_return (word_of_int (max 0 i) :: u64) else io_panic))
        (\<lambda>x w. (0 \<le> sint x \<and> \<bar>sint x - sint n\<bar> \<le> sint d) \<and> adas_at ty mids p locks vals w)"
    proof (rule steps_draw)
      fix r
      assume b: "- sint d \<le> r" "r \<le> sint d"
      have "sint (word_of_int (max 0 (sint n + r)) :: u64) = max 0 (sint n + r)"
        unfolding sint_sbintrunc' by (rule signed_take_bit_int_eq_self) (use b n in auto)
      moreover have "\<bar>max 0 (sint n + r) - sint n\<bar> \<le> sint d" using b n by auto
      moreover have "is_i64 (sint n + r)" using b n d by (auto simp: is_i64_def)
      ultimately show "steps (adas_at ty mids p locks vals)
          (let i = sint n + r in if is_i64 i then io_return (word_of_int (max 0 i) :: u64) else io_panic)
          (\<lambda>x w. (0 \<le> sint x \<and> \<bar>sint x - sint n\<bar> \<le> sint d) \<and> adas_at ty mids p locks vals w)"
        unfolding Let_def by (auto intro!: steps_return)
    qed (use d in auto)
    show "steps (adas_at ty mids p locks vals)
        (if c then io_bind (gen_random_in_range (- sint d) (sint d)) (\<lambda>delta.
          let i = sint n + delta in if is_i64 i then io_return (word_of_int (max 0 i) :: u64) else io_panic)
         else io_return n)
        (\<lambda>x w. (0 \<le> sint x \<and> \<bar>sint x - sint n\<bar> \<le> sint d) \<and> adas_at ty mids p locks vals w)"
      using moved n(1) d(1) by (cases c) (auto intro!: steps_return)
  qed
  show ?thesis
    by (rule steps_bind [OF walk]) (rule steps_assume, use f in blast)
qed

text \<open>Reading, writing and holding a topic.\<close>

lemma steps_last:
  "m (adas_process ty mids p locks vals) = (Ret a, adas_process ty mids p locks' vals') \<Longrightarrow> R a vals' \<Longrightarrow>
    steps (adas_at ty mids p locks vals) (adw_io m) (\<lambda>r w. \<exists>vs. R r vs \<and> adas_at ty mids p locks' vs w)"
  by (rule steps_post, rule steps_adw_io) auto

lemma steps_deref:
  assumes "inj mids" "sel (vals x) = Some b" "steps (adas_at ty mids p locks vals) (f b) Q"
  shows "steps (adas_at ty mids p locks vals) (io_bind (deref_as sel (mids x)) f) Q"
proof (rule steps_bind [where R = "\<lambda>r w. r = b \<and> adas_at ty mids p locks vals w"])
  show "steps (adas_at ty mids p locks vals) (deref_as sel (mids x)) (\<lambda>r w. r = b \<and> adas_at ty mids p locks vals w)"
    unfolding deref_as_def
    by (rule steps_process [where m = "guard_deref (mids x)", OF adas_guard_deref [OF assms(1)]])
      (simp add: assms(2) steps_def io_expect_def hoare_return)
  show "steps (\<lambda>w. r = b \<and> adas_at ty mids p locks vals w) (f r) Q" for r
    by (rule steps_assume) (simp add: assms(3))
qed

lemma steps_write_value:
  assumes "inj mids" "locks x = 0" "R () (vals(x := v))"
  shows "steps (adas_at ty mids p locks vals) (write_value ty x (adas_topic x) v)
    (\<lambda>r w. \<exists>vs. R r vs \<and> adas_at ty mids p locks vs w)"
proof -
  let ?held = "locks(x := u16_max)"
  have restore: "?held(x := 0) = locks" using assms(2) by auto
  have sent: "output_send (adas_topic x) (adas_process ty mids p ?held (vals(x := v)))
      = (Ret (), adas_process ty mids p locks (vals(x := v)))"
    using adas_output_send [of ?held x ty mids p] unfolding restore by simp
  have stored: "write_payload (mids x) v (adas_process ty mids p ?held vals)
      = (Ret (mids x), adas_process ty mids p ?held (vals(x := v)))"
    by (simp add: write_payload_def io_bind_def adas_guard_store [OF assms(1)] io_return_def)
  have send: "steps (adas_at ty mids p ?held (vals(x := v))) (adw_io (output_send (adas_topic x)))
      (\<lambda>r w. \<exists>vs. R r vs \<and> adas_at ty mids p locks vs w)"
    by (rule steps_last, rule sent, rule assms(3))
  have store: "steps (adas_at ty mids p ?held vals)
      (io_bind (adw_io (write_payload (mids x) v)) (\<lambda>_. adw_io (output_send (adas_topic x))))
      (\<lambda>r w. \<exists>vs. R r vs \<and> adas_at ty mids p locks vs w)"
    by (rule steps_process, rule stored, rule send)
  show ?thesis
    unfolding write_value_def by (rule steps_process, rule adas_write_uninit [of locks, OF assms(2)], rule store)
qed

lemma steps_with_input:
  assumes "locks x = 0"
    and "steps (adas_at ty mids p (locks(x := 1)) vals) (body (mids x))
      (\<lambda>r w. \<exists>vs. R r vs \<and> adas_at ty mids p (locks(x := 1)) vs w)"
  shows "steps (adas_at ty mids p locks vals) (with_input ty x (adas_topic x) body)
    (\<lambda>r w. \<exists>vs. R r vs \<and> adas_at ty mids p locks vs w)"
proof -
  let ?held = "locks(x := 1)"
  have restore: "?held(x := 0) = locks" using assms(1) by auto
  have dropped: "input_drop (adas_topic x) (adas_process ty mids p ?held vs) = (Ret (), adas_process ty mids p locks vs)" for vs
    using adas_input_drop [of ?held x ty mids p vs] unfolding restore by simp
  have drop: "steps (\<lambda>w. \<exists>vs. R r vs \<and> adas_at ty mids p ?held vs w)
      (io_bind (adw_io (input_drop (adas_topic x))) (\<lambda>_. io_return r))
      (\<lambda>r w. \<exists>vs. R r vs \<and> adas_at ty mids p locks vs w)" for r
  proof (rule steps_exists, rule steps_assume)
    fix vs
    assume "R r vs"
    then show "steps (adas_at ty mids p ?held vs) (io_bind (adw_io (input_drop (adas_topic x))) (\<lambda>_. io_return r))
        (\<lambda>r w. \<exists>vs. R r vs \<and> adas_at ty mids p locks vs w)"
      by - (rule steps_process, rule dropped, rule steps_return, blast)
  qed
  have body: "steps (adas_at ty mids p ?held vals)
      (io_bind (body (mids x)) (\<lambda>r. io_bind (adw_io (input_drop (adas_topic x))) (\<lambda>_. io_return r)))
      (\<lambda>r w. \<exists>vs. R r vs \<and> adas_at ty mids p locks vs w)"
    by (rule steps_bind [OF assms(2) drop])
  show ?thesis
    unfolding with_input_def by (rule steps_process, rule adas_input_read [of locks, OF assms(1)], rule body)
qed

lemma clamp_bounds: "lo \<le> hi \<Longrightarrow> lo \<le> f64_clamp lo hi x \<and> f64_clamp lo hi x \<le> hi"
  by (auto simp: f64_clamp_def)

section \<open>The steps of the activities\<close>

abbreviation unlocked :: "adas_payload \<Rightarrow> u16" where
  "unlocked \<equiv> \<lambda>_. 0"

text \<open>What a step of the camera leaves on its topic.\<close>

definition image_ok :: "u64 \<Rightarrow> camera_image \<Rightarrow> bool" where
  "image_ok people img \<longleftrightarrow> 0 \<le> sint (ci_num_people img) \<and> \<bar>sint (ci_num_people img) - sint people\<bar> \<le> 1
    \<and> \<bar>sint (ci_num_cars img) - sint (ci_num_people img)\<bar> \<le> 2
    \<and> 20 \<le> ci_distance_obstacle img \<and> ci_distance_obstacle img \<le> 50"

lemma camera_steps:
  assumes "inj mids" "f64_rounding rnd" "0 \<le> sint people" "sint people < 2 ^ 62"
  shows "steps (adas_at ty mids p unlocked vals) (camera_step rnd ty i (adas_topic CameraImage) people cars distance)
    (\<lambda>a w. \<exists>img. (a = Camera i (adas_topic CameraImage) (ci_num_people img) (ci_num_cars img) (ci_distance_obstacle img)
        \<and> image_ok people img) \<and> adas_at ty mids p unlocked (vals(CameraImage := VImage img)) w)"
proof -
  have "steps (adas_at ty mids p unlocked vals) (get_image rnd people cars distance)
      (\<lambda>img w. image_ok people img \<and> adas_at ty mids p unlocked vals w)"
    unfolding get_image_def
    by (intro steps_walk_integer steps_walk_float [where m = 5] steps_return)
      (use assms clamp_bounds [of 20 50] in \<open>auto simp: image_ok_def\<close>)
  moreover have "steps (\<lambda>w. image_ok people img \<and> adas_at ty mids p unlocked vals w)
      (io_bind (write_value ty CameraImage (adas_topic CameraImage) (VImage img)) (\<lambda>_.
       io_return (Camera i (adas_topic CameraImage) (ci_num_people img) (ci_num_cars img) (ci_distance_obstacle img))))
      (\<lambda>a w. \<exists>img. (a = Camera i (adas_topic CameraImage) (ci_num_people img) (ci_num_cars img) (ci_distance_obstacle img)
        \<and> image_ok people img) \<and> adas_at ty mids p unlocked (vals(CameraImage := VImage img)) w)" for img
    by (rule steps_assume, rule steps_bind,
        rule steps_write_value [where R = "\<lambda>_ vs. vs = vals(CameraImage := VImage img)", OF assms(1)])
      (auto intro!: steps_return)
  ultimately show ?thesis
    unfolding camera_step_def by (intro steps_sleep) (rule steps_bind)
qed

definition scan_ok :: "radar_scan \<Rightarrow> bool" where
  "scan_ok scan \<longleftrightarrow> 16 \<le> rs_distance_obstacle scan \<and> rs_distance_obstacle scan \<le> 60"

lemma radar_steps:
  assumes "inj mids" "f64_rounding rnd"
  shows "steps (adas_at ty mids p unlocked vals) (radar_step rnd ty i (adas_topic RadarScan) distance)
    (\<lambda>a w. \<exists>scan. (a = Radar i (adas_topic RadarScan) (rs_distance_obstacle scan)
        \<and> scan_ok scan) \<and> adas_at ty mids p unlocked (vals(RadarScan := VScan scan)) w)"
proof -
  have "steps (adas_at ty mids p unlocked vals) (get_scan rnd distance)
      (\<lambda>scan w. scan_ok scan \<and> adas_at ty mids p unlocked vals w)"
    unfolding get_scan_def
    by (intro steps_walk_float [where m = 6] steps_draw steps_return)
      (use assms clamp_bounds [of 16 60] in \<open>auto simp: scan_ok_def\<close>)
  moreover have "steps (\<lambda>w. scan_ok scan \<and> adas_at ty mids p unlocked vals w)
      (io_bind (write_value ty RadarScan (adas_topic RadarScan) (VScan scan)) (\<lambda>_.
       io_return (Radar i (adas_topic RadarScan) (rs_distance_obstacle scan))))
      (\<lambda>a w. \<exists>scan. (a = Radar i (adas_topic RadarScan) (rs_distance_obstacle scan)
        \<and> scan_ok scan) \<and> adas_at ty mids p unlocked (vals(RadarScan := VScan scan)) w)" for scan
    by (rule steps_assume, rule steps_bind,
        rule steps_write_value [where R = "\<lambda>_ vs. vs = vals(RadarScan := VScan scan)", OF assms(1)])
      (auto intro!: steps_return)
  ultimately show ?thesis
    unfolding radar_step_def by (intro steps_sleep) (rule steps_bind)
qed

lemma neural_net_steps:
  assumes "inj mids" "vals CameraImage = VImage img" "vals RadarScan = VScan scan"
  shows "steps (adas_at ty mids p unlocked vals)
    (neural_net_step rnd ty (adas_topic CameraImage) (adas_topic RadarScan) (adas_topic Scene))
    (\<lambda>r w. \<exists>vs. (\<exists>sc. sn_distance_obstacle sc = min (ci_distance_obstacle img) (rs_distance_obstacle scan)
      \<and> vs = vals(Scene := VScene sc)) \<and> adas_at ty mids p unlocked vs w)"
proof -
  let ?R = "\<lambda>(_::unit) vs. \<exists>sc. sn_distance_obstacle sc = min (ci_distance_obstacle img) (rs_distance_obstacle scan)
      \<and> vs = vals(Scene := VScene sc)"
  let ?r1 = "unlocked(CameraImage := 1)" and ?r2 = "unlocked(CameraImage := 1, RadarScan := 1)"
  let ?w = "?r2(Scene := u16_max)"
  have restore: "?w(Scene := 0) = ?r2" by auto
  have send: "steps (adas_at ty mids p ?w vs) (adw_io (output_send (adas_topic Scene)))
      (\<lambda>r w. \<exists>vs. ?R r vs \<and> adas_at ty mids p ?r2 vs w)" if "?R () vs" for vs
  proof (rule steps_last)
    show "output_send (adas_topic Scene) (adas_process ty mids p ?w vs) = (Ret (), adas_process ty mids p ?r2 vs)"
      using adas_output_send [of ?w Scene ty mids p vs] unfolding restore by simp
    show "?R () vs" by (rule that)
  qed
  have store: "steps (adas_at ty mids p ?w vals)
      (io_bind (adw_io (guard_store (mids Scene) (VScene sc))) (\<lambda>_.
       io_bind (adw_io (guard_assume_init (mids Scene))) (\<lambda>_. adw_io (output_send (adas_topic Scene)))))
      (\<lambda>r w. \<exists>vs. ?R r vs \<and> adas_at ty mids p ?r2 vs w)"
    if "sn_distance_obstacle sc = min (ci_distance_obstacle img) (rs_distance_obstacle scan)" for sc
    by (rule steps_process, rule adas_guard_store [OF assms(1)], rule steps_process)
      (simp add: guard_assume_init_def io_return_def, rule send, use that in blast)
  have inferred: "steps (adas_at ty mids p ?w vals)
      (io_bind (infer rnd img scan) (\<lambda>scene.
       io_bind (adw_io (guard_store (mids Scene) (VScene scene))) (\<lambda>_.
       io_bind (adw_io (guard_assume_init (mids Scene))) (\<lambda>_. adw_io (output_send (adas_topic Scene))))))
      (\<lambda>r w. \<exists>vs. ?R r vs \<and> adas_at ty mids p ?r2 vs w)"
  proof (rule steps_bind [where R = "\<lambda>sc w. sn_distance_obstacle sc = min (ci_distance_obstacle img) (rs_distance_obstacle scan)
      \<and> adas_at ty mids p ?w vals w"])
    show "steps (adas_at ty mids p ?w vals) (infer rnd img scan)
        (\<lambda>sc w. sn_distance_obstacle sc = min (ci_distance_obstacle img) (rs_distance_obstacle scan)
          \<and> adas_at ty mids p ?w vals w)"
      unfolding infer_def by (intro steps_draw steps_return) auto
    show "steps (\<lambda>w. sn_distance_obstacle sc = min (ci_distance_obstacle img) (rs_distance_obstacle scan)
          \<and> adas_at ty mids p ?w vals w)
        (io_bind (adw_io (guard_store (mids Scene) (VScene sc))) (\<lambda>_.
         io_bind (adw_io (guard_assume_init (mids Scene))) (\<lambda>_. adw_io (output_send (adas_topic Scene)))))
        (\<lambda>r w. \<exists>vs. ?R r vs \<and> adas_at ty mids p ?r2 vs w)" for sc
      by (rule steps_assume) (rule store)
  qed
  show ?thesis
    unfolding neural_net_step_def
    by (rule steps_sleep, rule steps_with_input, simp, rule steps_with_input, simp,
        rule steps_process, rule adas_write_uninit, simp,
        rule steps_deref [where b = img, OF assms(1)], simp add: assms(2),
        rule steps_deref [where b = scan, OF assms(1)], simp add: assms(3), rule inferred)
qed

lemma emergency_braking_steps:
  assumes "inj mids" "vals Scene = VScene sc"
  shows "steps (adas_at ty mids p unlocked vals)
    (emergency_braking_step rnd ty (adas_topic Scene) (adas_topic BrakeInstruction))
    (\<lambda>r w. \<exists>vs. vs = vals(BrakeInstruction := VBrake (brake_for rnd (sn_distance_obstacle sc)))
      \<and> adas_at ty mids p unlocked vs w)"
proof -
  let ?v = "VBrake (brake_for rnd (sn_distance_obstacle sc))"
  let ?r1 = "unlocked(Scene := 1)" and ?w = "unlocked(Scene := 1, BrakeInstruction := u16_max)"
  have restore: "?w(BrakeInstruction := 0) = ?r1" by auto
  have stored: "write_payload (mids BrakeInstruction) ?v (adas_process ty mids p ?w vals)
      = (Ret (mids BrakeInstruction), adas_process ty mids p ?w (vals(BrakeInstruction := ?v)))"
    by (simp add: write_payload_def io_bind_def adas_guard_store [OF assms(1)] io_return_def)
  have sent: "output_send (adas_topic BrakeInstruction) (adas_process ty mids p ?w (vals(BrakeInstruction := ?v)))
      = (Ret (), adas_process ty mids p ?r1 (vals(BrakeInstruction := ?v)))"
    using adas_output_send [of ?w BrakeInstruction ty mids p] unfolding restore by simp
  show ?thesis
    unfolding emergency_braking_step_def
    by (rule steps_sleep, rule steps_with_input, simp, rule steps_process, rule adas_write_uninit, simp,
        rule steps_deref [where b = sc, OF assms(1)], simp add: assms(2),
        rule steps_process, rule stored, rule steps_last, rule sent, rule refl)
qed

lemma reader_steps:
  assumes "inj mids" "sel (vals x) = Some b"
  shows "steps (adas_at ty mids p unlocked vals)
    (io_bind sleep_random (\<lambda>_. with_input ty x (adas_topic x) (\<lambda>g. io_bind (deref_as sel g) (\<lambda>_. io_return ()))))
    (\<lambda>r w. \<exists>vs. vs = vals \<and> adas_at ty mids p unlocked vs w)"
  by (rule steps_sleep, rule steps_with_input, simp,
      rule steps_deref [where b = b, OF assms(1)], simp add: assms(2), rule steps_return, simp)

lemma renderer_steps:
  "steps (adas_at ty mids p unlocked vals) (environment_renderer_step ty (adas_topic Scene))
    (\<lambda>r w. \<exists>vs. vs = vals \<and> adas_at ty mids p unlocked vs w)"
  unfolding environment_renderer_step_def
  by (rule steps_sleep, rule steps_with_input, simp, rule steps_return, simp)

lemma lane_assist_steps:
  assumes "inj mids"
  shows "steps (adas_at ty mids p unlocked vals) (lane_assist_step rnd ty (adas_topic Steering))
    (\<lambda>r w. \<exists>vs. vs = vals(Steering := VSteering \<lparr>st_angle = rnd (234 / 100)\<rparr>) \<and> adas_at ty mids p unlocked vs w)"
  unfolding lane_assist_step_def by (rule steps_sleep, rule steps_write_value [OF assms]) simp_all

end
