(* ===== verification/Feo_Scheduler_Live.thy ===== *)
theory Feo_Scheduler_Live
  imports Feo_Scheduler_Log
begin

text \<open>
  Progress of the scheduler. The locale \<open>responsive\<close> is the contract of a system in which every
  signal sent to an activity is answered: \<open>at X l\<close> says that the activities \<open>X\<close> have a signal to
  answer and that the shutdown flag is raised at the latest after \<open>l\<close> more looks at it. Under the
  contract, and for a dependency map without cycles, every task chain completes, the shutdown
  completes and the run returns; all with explicit fuel, so nothing hangs. The proofs are proofs of
  total correctness: \<open>hoare\<close> with no state left for a panic or a hang.
\<close>

abbreviation returns :: "('s \<Rightarrow> bool) \<Rightarrow> ('s, 'a) io \<Rightarrow> ('a \<Rightarrow> 's \<Rightarrow> bool) \<Rightarrow> bool" where
  "returns P m Q \<equiv> hoare P m Q (\<lambda>_. False)"

fun activity_signal :: "activity_id \<Rightarrow> signal \<Rightarrow> bool" where
  "activity_signal i (Startup j t) \<longleftrightarrow> i = j"
| "activity_signal i (Step j t) \<longleftrightarrow> i = j"
| "activity_signal i (Shutdown j t) \<longleftrightarrow> i = j"
| "activity_signal i _ \<longleftrightarrow> False"

text \<open>A rank that falls along the dependencies: there is no cycle.\<close>

definition ranked :: "(activity_id \<Rightarrow> nat) \<Rightarrow> (activity_id \<times> activity_id list) list \<Rightarrow> bool" where
  "ranked rank D \<longleftrightarrow>
    list_all (\<lambda>(i, ds). list_all (\<lambda>d. d \<in> fst ` set D \<longrightarrow> rank d < rank i) ds) D"

definition ids_with :: "(activity_state \<Rightarrow> bool) \<Rightarrow> 'w scheduler \<Rightarrow> activity_id set" where
  "ids_with f s = fst ` {x \<in> set (sc_states s). f (snd x)}"

lemma ids_with_world [simp]:
  "ids_with f (s\<lparr>sc_world := w\<rparr>) = ids_with f s" "ids_with f (s\<lparr>sc_log := l\<rparr>) = ids_with f s"
  by (simp_all add: ids_with_def)

lemma ids_with_keys: "ids_with f s \<subseteq> fst ` set (sc_states s)"
  by (auto simp: ids_with_def)

lemma ids_with_modify:
  "(\<And>st. g (f st) = g st) \<Longrightarrow> ids_with g (s\<lparr>sc_states := modify_key i f (sc_states s)\<rparr>) = ids_with g s"
  "(\<And>st. g (f st)) \<Longrightarrow> i \<in> fst ` set (sc_states s) \<Longrightarrow>
    ids_with g (s\<lparr>sc_states := modify_key i f (sc_states s)\<rparr>) = insert i (ids_with g s)"
proof -
  let ?xs = "sc_states s"
  have "g (snd y) = g (snd x)" if "\<And>st. g (f st) = g st" "y = (\<lambda>(k, v). (k, if k = i then f v else v)) x"
    for x y using that by (cases x) simp
  then show "ids_with g (s\<lparr>sc_states := modify_key i f ?xs\<rparr>) = ids_with g s"
    if "\<And>st. g (f st) = g st"
    using that by (force simp: ids_with_def set_modify_key case_prod_beta)
  assume g: "\<And>st. g (f st)" and i: "i \<in> fst ` set ?xs"
  have "j \<in> ids_with g (s\<lparr>sc_states := modify_key i f ?xs\<rparr>) \<longleftrightarrow> j = i \<or> j \<in> ids_with g s" for j
  proof (cases "j = i")
    case True
    obtain st where "(i, st) \<in> set ?xs" using i by force
    then have "(i, f st) \<in> set (modify_key i f ?xs)" by (force simp: set_modify_key)
    with True g show ?thesis by (force simp: ids_with_def)
  next
    case False
    then show ?thesis by (force simp: ids_with_def set_modify_key split: if_splits)
  qed
  then show "ids_with g (s\<lparr>sc_states := modify_key i f ?xs\<rparr>) = insert i (ids_with g s)" by blast
qed

lemma ids_with_mark_ready:
  assumes "i \<in> fst ` set (sc_states s)"
  shows "ids_with ready (mark_ready i s) = insert i (ids_with ready s)"
    "ids_with ever_ready (mark_ready i s) = insert i (ids_with ever_ready s)"
    "ids_with triggered (mark_ready i s) = ids_with triggered s"
  using assms by (simp_all add: mark_ready_def ids_with_modify)

lemma ids_with_triggered:
  assumes "i \<in> fst ` set (sc_states s)"
  defines "s' \<equiv> s\<lparr>sc_states := modify_key i (triggered_update (\<lambda>_. True)) (sc_states s)\<rparr>"
  shows "ids_with triggered s' = insert i (ids_with triggered s)" "ids_with ready s' = ids_with ready s"
    "ids_with ever_ready s' = ids_with ever_ready s"
  using assms by (simp_all add: s'_def ids_with_modify)

lemma all_ready_ids: "all_ready s \<longleftrightarrow> ids_with ready s = fst ` set (sc_states s)"
  if "distinct (map fst (sc_states s))"
proof
  show "all_ready s \<Longrightarrow> ids_with ready s = fst ` set (sc_states s)"
    by (force simp: all_ready_def ids_with_def list_all_iff)
  assume r: "ids_with ready s = fst ` set (sc_states s)"
  show "all_ready s"
    unfolding all_ready_def list_all_iff
  proof clarify
    fix i st
    assume i: "(i, st) \<in> set (sc_states s)"
    then have "i \<in> ids_with ready s" using r by force
    then obtain st' where "(i, st') \<in> set (sc_states s)" "ready st'" by (auto simp: ids_with_def)
    with i that show "ready st" by (metis eq_key_imp_eq_value)
  qed
qed

lemma deps_ready_ids:
  assumes "distinct (map fst (sc_states s))"
  shows "deps_ready (sc_states s) ds \<longleftrightarrow> set ds \<inter> fst ` set (sc_states s) \<subseteq> ids_with ready s"
proof
  show "deps_ready (sc_states s) ds \<Longrightarrow> set ds \<inter> fst ` set (sc_states s) \<subseteq> ids_with ready s"
    by (force simp: deps_ready_def ids_with_def list_all_iff)
  assume r: "set ds \<inter> fst ` set (sc_states s) \<subseteq> ids_with ready s"
  show "deps_ready (sc_states s) ds"
    unfolding deps_ready_def list_all_iff
  proof clarsimp
    fix i st
    assume i: "(i, st) \<in> set (sc_states s)" "i \<in> set ds"
    then have "i \<in> ids_with ready s" using r by force
    then obtain st' where "(i, st') \<in> set (sc_states s)" "ready st'" by (auto simp: ids_with_def)
    with i assms show "ready st" by (metis eq_key_imp_eq_value)
  qed
qed

lemma triggered_ids:
  assumes "distinct (map fst (sc_states s))" "map_of (sc_states s) i = Some st"
  shows "triggered st \<longleftrightarrow> i \<in> ids_with triggered s"
  using assms by (force simp: ids_with_def dest: map_of_SomeD eq_key_imp_eq_value)

text \<open>The waiting times of the shutdown of \<open>k\<close> activities do not overflow.\<close>

lemma scaled_timeout_Ret:
  assumes "len + k < 2 ^ 32" "duration_ok (d * (len + k))"
  shows "scaled_timeout d len k = Ret (d * (len + k))"
proof -
  have "unat (word_of_nat len :: u32) = len" "unat (word_of_nat (len + k) :: u32) = len + k"
    using assms(1) by (simp_all only: unat_of_nat) simp_all
  with assms show ?thesis by (simp add: scaled_timeout_def dur_mul_def dur_checked_def duration_ok_def flip: of_nat_add)
qed

definition timeouts_ok :: "duration \<Rightarrow> nat \<Rightarrow> bool" where
  "timeouts_ok rt k \<longleftrightarrow> k + 2 < 2 ^ 32 \<and> duration_ok (rt * (k + 2))"

section \<open>The contract\<close>

locale responsive =
  fixes cs :: "'w connect_scheduler" and pf :: "'w platform"
    and K :: "activity_id set" and own :: agent_id
    and at :: "activity_id set \<Rightarrow> nat \<Rightarrow> 'w \<Rightarrow> bool" and ended :: "'w \<Rightarrow> bool"
  assumes now: "returns (at X l) (pf_now pf) (\<lambda>_. at X l)"
    and timestamp: "returns (at X l) (pf_timestamp pf) (\<lambda>_. at X l)"
    and sleep: "returns (at X l) (pf_sleep pf d) (\<lambda>_. at X l)"
    and requested: "returns (at X l) (pf_shutdown_requested pf)
      (\<lambda>b w. if b then at X l w else \<exists>l' < l. at X l' w)"
    and send: "i \<in> K \<Longrightarrow> i \<notin> X \<Longrightarrow> activity_signal i sig \<Longrightarrow>
      returns (at X l) (cs_send_to_activity cs i sig) (\<lambda>r w. r = Inr () \<and> at (insert i X) l w)"
    and receive: "X \<noteq> {} \<Longrightarrow> X \<subseteq> K \<Longrightarrow>
      returns (at X l) (cs_receive cs d)
        (\<lambda>r w. \<exists>i t. i \<in> X \<and> r = Inr (Some (Ready i t)) \<and> at (X - {i}) l w)"
    and broadcast: "returns (at X l) (cs_broadcast_terminate cs (Terminate t))
      (\<lambda>_ w. set (cs_connected_agents cs w) \<subseteq> {own} \<and> ended w)"
begin

text \<open>
  What the proofs track of a scheduler: its map, the timeouts, the world and the sets of activities
  that are ready and triggered, and that have ever been ready.
\<close>

definition view :: "(activity_id \<times> activity_id list) list \<Rightarrow> duration \<Rightarrow> activity_id set \<Rightarrow> nat
    \<Rightarrow> activity_id set \<Rightarrow> activity_id set \<Rightarrow> activity_id set \<Rightarrow> 'w scheduler \<Rightarrow> bool" where
  "view D rt X l R T V s \<longleftrightarrow> sc_depends s = D \<and> map fst (sc_states s) = map fst D
    \<and> sc_receive_timeout s = rt \<and> sc_agent_id s = own \<and> at X l (sc_world s)
    \<and> ids_with ready s = R \<and> ids_with triggered s = T \<and> ids_with ever_ready s = V"

lemma view_log [simp]: "view D rt X l R T V (s\<lparr>sc_log := e\<rparr>) = view D rt X l R T V s"
  by (simp add: view_def)

lemma view_world: "view D rt X l R T V s \<Longrightarrow> at X' l' w \<Longrightarrow> view D rt X' l' R T V (s\<lparr>sc_world := w\<rparr>)"
  by (simp add: view_def)

lemma view_keys: "view D rt X l R T V s \<Longrightarrow> fst ` set (sc_states s) = fst ` set D"
  by (metis view_def list.set_map)

lemma view_mark_ready:
  "view D rt X l R T V s \<Longrightarrow> i \<in> fst ` set D \<Longrightarrow> view D rt X l (insert i R) T (insert i V) (mark_ready i s)"
  using view_keys [of D rt X l R T V s]
  by (simp add: view_def ids_with_mark_ready) (simp add: mark_ready_def)

lemma total_sc_io:
  assumes "returns (at X l) m Q"
  shows "returns (view D rt X l R T V) (sc_io m)
    (\<lambda>a s. Q a (sc_world s) \<and> (\<forall>X' l'. at X' l' (sc_world s) \<longrightarrow> view D rt X' l' R T V s))"
  unfolding hoare_def
proof (intro allI impI)
  fix s
  assume s: "view D rt X l R T V s"
  obtain r w where m: "m (sc_world s) = (r, w)" by fastforce
  have "at X l (sc_world s)" using s by (simp add: view_def)
  with assms m have "\<exists>a. r = Ret a \<and> Q a w" by (cases r) (auto simp: hoare_def)
  with s m show "case sc_io m s of
      (Ret a, s') \<Rightarrow> Q a (sc_world s') \<and> (\<forall>X' l'. at X' l' (sc_world s') \<longrightarrow> view D rt X' l' R T V s')
    | (Panic, s') \<Rightarrow> False | (Hang, s') \<Rightarrow> False"
    by (auto simp: sc_io_def io_zoom_def intro: view_world)
qed

lemma total_sc_io_same:
  "returns (at X l) m (\<lambda>_. at X l) \<Longrightarrow>
    returns (view D rt X l R T V) (sc_io m) (\<lambda>_. view D rt X l R T V)"
  by (drule total_sc_io) (erule hoare_post, blast)

lemma total_sc_io_agent:
  assumes "returns (at X l) m Q"
  shows "returns (view D rt X l R T V) (sc_io m) (\<lambda>a s. Q a (sc_world s) \<and> sc_agent_id s = own)"
  unfolding hoare_def
proof (intro allI impI)
  fix s
  assume s: "view D rt X l R T V s"
  obtain r w where m: "m (sc_world s) = (r, w)" by fastforce
  have "at X l (sc_world s)" using s by (simp add: view_def)
  with assms m have "\<exists>a. r = Ret a \<and> Q a w" by (cases r) (auto simp: hoare_def)
  with s m show "case sc_io m s of (Ret a, s') \<Rightarrow> Q a (sc_world s') \<and> sc_agent_id s' = own
    | (Panic, s') \<Rightarrow> False | (Hang, s') \<Rightarrow> False"
    by (auto simp: sc_io_def io_zoom_def view_def)
qed

lemma total_elapsed:
  "returns (view D rt X l R T V) (sc_io (pf_elapsed pf start)) (\<lambda>_. view D rt X l R T V)"
  unfolding pf_elapsed_def
  by (rule total_sc_io_same) (intro hoare_bind [OF now] hoare_return)

lemma total_log: "returns (view D rt X l R T V) (log_event e) (\<lambda>_. view D rt X l R T V)"
  by (rule hoare_log_event) simp

lemma total_trigger:
  assumes "i \<in> K" "i \<notin> X" "activity_signal i sig"
  shows "returns (view D rt X l R T V) (trigger_activity cs i sig)
    (\<lambda>r s. r = Inr () \<and> view D rt (insert i X) l R T V s)"
  unfolding trigger_activity_def
proof (rule hoare_bind [OF total_log hoare_try])
  show "returns (view D rt X l R T V) (sc_io (cs_send_to_activity cs i sig))
      (\<lambda>r s. case r of Inl e \<Rightarrow> Inl e = Inr () \<and> view D rt (insert i X) l R T V s
        | Inr a \<Rightarrow> view D rt (insert i X) l R T V s)"
    by (rule hoare_post [OF total_sc_io [OF send [OF assms]]]) auto
qed (auto intro: hoare_return)

lemma total_activity:
  assumes "i \<in> K" "i \<notin> X"
  shows "returns (view D rt X l R T V) (startup_activity cs pf i)
      (\<lambda>r s. r = Inr () \<and> view D rt (insert i X) l R T V s)"
    and "returns (view D rt X l R T V) (step_activity cs pf i)
      (\<lambda>r s. r = Inr () \<and> view D rt (insert i X) l R T V s)"
    and "returns (view D rt X l R T V) (shutdown_activity cs pf i)
      (\<lambda>r s. r = Inr () \<and> view D rt (insert i X) l R T V s)"
  unfolding startup_activity_def step_activity_def shutdown_activity_def
  by (rule hoare_bind [OF total_sc_io_same [OF timestamp] total_trigger]; use assms in simp)+

lemma total_receive:
  assumes "X \<noteq> {}" "X \<subseteq> K"
  shows "returns (view D rt X l R T V) (receive_signal cs)
    (\<lambda>r s. \<exists>i t. i \<in> X \<and> r = Inr (Some (Ready i t)) \<and> view D rt (X - {i}) l R T V s)"
  unfolding receive_signal_def
proof (rule hoare_bind)
  let ?V = "\<lambda>i. view D rt (X - {i}) l R T V"
  show "returns (view D rt X l R T V) (io_gets sc_receive_timeout) (\<lambda>_. view D rt X l R T V)"
    by (rule hoare_gets)
  show "returns (view D rt X l R T V) (io_bind (sc_io (cs_receive cs d)) (\<lambda>r. case r of
        Inr (Some sig) \<Rightarrow> io_bind (log_event (ERecv sig)) (\<lambda>_. io_return r) | _ \<Rightarrow> io_return r))
      (\<lambda>r s. \<exists>i t. i \<in> X \<and> r = Inr (Some (Ready i t)) \<and> ?V i s)" for d
  proof (rule hoare_bind)
    show "returns (view D rt X l R T V) (sc_io (cs_receive cs d))
        (\<lambda>r s. \<exists>i t. (i \<in> X \<and> r = Inr (Some (Ready i t))) \<and> ?V i s)"
      by (rule hoare_post [OF total_sc_io [OF receive [OF assms]]]) blast
    show "returns (\<lambda>s. \<exists>i t. (i \<in> X \<and> r = Inr (Some (Ready i t))) \<and> ?V i s) (case r of
        Inr (Some sig) \<Rightarrow> io_bind (log_event (ERecv sig)) (\<lambda>_. io_return r) | _ \<Rightarrow> io_return r)
      (\<lambda>r s. \<exists>i t. i \<in> X \<and> r = Inr (Some (Ready i t)) \<and> ?V i s)" for r
      by (intro hoare_exists hoare_assume) (auto intro!: hoare_bind [OF total_log] hoare_return)
  qed
qed

lemma total_wait_next_ready:
  assumes "X \<noteq> {}" "X \<subseteq> K" "X \<subseteq> fst ` set D"
  shows "returns (view D rt X l R T V) (wait_next_ready (Suc n) cs)
    (\<lambda>r s. \<exists>i. i \<in> X \<and> r = Inr i \<and> view D rt (X - {i}) l (insert i R) T (insert i V) s)"
  unfolding wait_next_ready_def wait_ready_loop.simps
proof (rule hoare_try)
  let ?V = "\<lambda>i. view D rt (X - {i}) l R T V"
  let ?W = "\<lambda>i. view D rt (X - {i}) l (insert i R) T (insert i V)"
  have cont: "returns (\<lambda>s. \<exists>i t. (i \<in> X \<and> r = Some (Ready i t)) \<and> ?V i s) (case r of
        None \<Rightarrow> io_bind (io_gets sc_receive_timeout) (\<lambda>timeout.
          io_return (Inl (ETimeout (Some timeout) ''waiting for ready signal'')))
      | Some (Ready i t) \<Rightarrow> io_return (Inr i)
      | Some (ActivityFailed i e) \<Rightarrow> io_return (Inl (EActivityFailed i e))
      | Some (TerminateAck agent) \<Rightarrow> wait_ready_loop n cs
      | Some other \<Rightarrow> wait_ready_loop n cs)
      (\<lambda>r s. case r of Inl e \<Rightarrow> False | Inr i \<Rightarrow> i \<in> X \<and> ?V i s)" for r
    by (intro hoare_exists hoare_assume) (auto intro: hoare_return)
  have recv: "returns (view D rt X l R T V) (receive_signal cs) (\<lambda>r s. case r of
      Inl e \<Rightarrow> False | Inr a \<Rightarrow> \<exists>i t. (i \<in> X \<and> a = Some (Ready i t)) \<and> ?V i s)"
    by (rule hoare_post [OF total_receive [OF assms(1,2)]]) auto
  show "returns (view D rt X l R T V) (io_try (receive_signal cs) (\<lambda>r. case r of
        None \<Rightarrow> io_bind (io_gets sc_receive_timeout) (\<lambda>timeout.
          io_return (Inl (ETimeout (Some timeout) ''waiting for ready signal'')))
      | Some (Ready i t) \<Rightarrow> io_return (Inr i)
      | Some (ActivityFailed i e) \<Rightarrow> io_return (Inl (EActivityFailed i e))
      | Some (TerminateAck agent) \<Rightarrow> wait_ready_loop n cs
      | Some other \<Rightarrow> wait_ready_loop n cs))
      (\<lambda>r s. case r of Inl e \<Rightarrow> \<exists>i. i \<in> X \<and> Inl e = Inr i \<and> ?W i s | Inr i \<Rightarrow> i \<in> X \<and> ?V i s)"
    by (rule hoare_post [OF hoare_try [OF _ cont]])
      (rule hoare_post [OF recv], auto split: sum.splits)
  fix i
  let ?mark = "io_bind (io_modify (mark_ready i)) (\<lambda>_. io_return (Inr i)) :: ('w scheduler, error + activity_id) io"
  have m: "returns (?V i) ?mark (\<lambda>r s. \<exists>i. i \<in> X \<and> r = Inr i \<and> ?W i s)" if "i \<in> X"
  proof (rule hoare_bind [where R = "\<lambda>_. ?W i"])
    show "returns (?V i) (io_modify (mark_ready i)) (\<lambda>_. ?W i)"
      using assms(3) that by (intro hoare_modify view_mark_ready) auto
    show "returns (?W i) (io_return (Inr i)) (\<lambda>r s. \<exists>i. i \<in> X \<and> r = Inr i \<and> ?W i s)"
      using that by (intro hoare_return) blast
  qed
  show "returns (\<lambda>s. i \<in> X \<and> ?V i s) (io_bind (io_gets sc_states) (\<lambda>states.
      io_bind (io_expect (map_of states i)) (\<lambda>_. ?mark)))
      (\<lambda>r s. \<exists>i. i \<in> X \<and> r = Inr i \<and> ?W i s)"
  proof (rule hoare_bind_gets)
    fix s
    assume s: "i \<in> X \<and> ?V i s"
    have "map_of (sc_states s) i \<noteq> None"
      using view_keys [of D rt "X - {i}" l R T V s] assms(3) s by (auto simp: map_of_None_iff)
    then show "returns (\<lambda>s'. s' = s) (io_bind (io_expect (map_of (sc_states s) i)) (\<lambda>_. ?mark))
        (\<lambda>r s. \<exists>i. i \<in> X \<and> r = Inr i \<and> ?W i s)"
      by (intro hoare_bind [OF hoare_expect [where Q = "\<lambda>_. ?V i"] m]) (use s in auto)
  qed
qed

text \<open>Inside a task chain: the triggered activities are the ready ones and those with a step to answer.\<close>

definition chain :: "(activity_id \<times> activity_id list) list \<Rightarrow> duration \<Rightarrow> activity_id set \<Rightarrow> nat
    \<Rightarrow> activity_id set \<Rightarrow> 'w scheduler \<Rightarrow> bool" where
  "chain D rt X l R s \<longleftrightarrow> view D rt X l R (R \<union> X) (fst ` set D) s \<and> R \<inter> X = {}
    \<and> R \<union> X \<subseteq> fst ` set D \<and> distinct (map fst D) \<and> fst ` set D \<subseteq> K"

text \<open>An activity of the map is taken care of once its turn in the loop is over.\<close>

definition served :: "(activity_id \<times> activity_id list) list \<Rightarrow> activity_id set \<Rightarrow> activity_id set
    \<Rightarrow> activity_id \<times> activity_id list \<Rightarrow> bool" where
  "served D R X = (\<lambda>(i, ds). set ds \<inter> fst ` set D \<subseteq> R \<longrightarrow> i \<in> R \<union> X)"

definition stepping :: "(activity_id \<times> activity_id list) list \<Rightarrow> duration \<Rightarrow> activity_id set \<Rightarrow> nat
    \<Rightarrow> activity_id set \<Rightarrow> (activity_id \<times> activity_id list) list \<Rightarrow> 'w scheduler \<Rightarrow> bool" where
  "stepping D rt X l R xs s \<longleftrightarrow> (\<exists>Y. X \<subseteq> Y \<and> chain D rt Y l R s \<and> list_all (served D R Y) xs)"

lemma served_mono: "served D R X x \<Longrightarrow> X \<subseteq> Y \<Longrightarrow> served D R Y x"
  by (auto simp: served_def)

lemma total_step_if_ready:
  assumes "x \<in> set D"
  shows "returns (stepping D rt X l R xs) (step_if_ready cs pf x) (\<lambda>_. stepping D rt X l R (xs @ [x]))"
proof -
  obtain i ds where x: "x = (i, ds)" by fastforce
  with assms have i: "i \<in> fst ` set D" by force
  show ?thesis
    unfolding x step_if_ready_def prod.case
  proof (rule hoare_bind_gets)
    fix s
    assume "stepping D rt X l R xs s"
    then obtain Y where Y: "X \<subseteq> Y" "chain D rt Y l R s" "list_all (served D R Y) xs"
      by (auto simp: stepping_def)
    then have v: "view D rt Y l R (R \<union> Y) (fst ` set D) s" by (simp add: chain_def)
    have dist: "distinct (map fst (sc_states s))" using Y(2) v by (simp add: chain_def view_def)
    have "i \<in> fst ` set (sc_states s)" using view_keys [OF v] i by simp
    then obtain st where st: "map_of (sc_states s) i = Some st"
      by (metis map_of_None_iff option.exhaust)
    have trig: "triggered st \<longleftrightarrow> i \<in> R \<union> Y"
      using triggered_ids [OF dist st] v by (simp add: view_def)
    have deps: "deps_ready (sc_states s) ds \<longleftrightarrow> set ds \<inter> fst ` set D \<subseteq> R"
      using deps_ready_ids [OF dist] view_keys [OF v] v by (simp add: view_def)
    have keep: "returns (\<lambda>s'. s' = s) (io_return ()) (\<lambda>_. stepping D rt X l R (xs @ [(i, ds)]))"
      if "served D R Y (i, ds)"
      using Y that by (intro hoare_return) (auto simp: stepping_def)
    have send: "returns (\<lambda>s'. s' = s) (io_bind (step_activity cs pf i) (\<lambda>r. io_bind (io_unwrap r) (\<lambda>_.
        io_modify (\<lambda>s. s\<lparr>sc_states := modify_key i (triggered_update (\<lambda>_. True)) (sc_states s)\<rparr>))))
        (\<lambda>_. stepping D rt X l R (xs @ [(i, ds)]))"
      if new: "i \<notin> R \<union> Y"
    proof -
      have iK: "i \<in> K" using Y(2) i by (auto simp: chain_def)
      let ?mid = "view D rt (insert i Y) l R (R \<union> Y) (fst ` set D)"
      have sent: "returns (\<lambda>s'. s' = s) (step_activity cs pf i) (\<lambda>r s. r = Inr () \<and> ?mid s)"
        by (rule hoare_pre [OF total_activity(2)]) (use iK new v in auto)
      have unwrap: "returns (\<lambda>s. r = Inr () \<and> ?mid s) (io_unwrap r) (\<lambda>_. ?mid)" for r :: "error + unit"
        by (rule hoare_assume) (simp add: io_unwrap_def hoare_return)
      have mark: "returns ?mid (io_modify (\<lambda>s.
          s\<lparr>sc_states := modify_key i (triggered_update (\<lambda>_. True)) (sc_states s)\<rparr>))
          (\<lambda>_. stepping D rt X l R (xs @ [(i, ds)]))"
      proof (rule hoare_modify)
        fix s'
        assume m: "?mid s'"
        let ?s = "s'\<lparr>sc_states := modify_key i (triggered_update (\<lambda>_. True)) (sc_states s')\<rparr>"
        have "view D rt (insert i Y) l R (R \<union> insert i Y) (fst ` set D) ?s"
          using m view_keys [OF m] i by (simp add: view_def ids_with_triggered)
        with Y(2) new i have "chain D rt (insert i Y) l R ?s" by (auto simp: chain_def)
        moreover have "list_all (served D R (insert i Y)) (xs @ [(i, ds)])"
          using Y(3) by (auto simp: list_all_iff served_def)
        ultimately show "stepping D rt X l R (xs @ [(i, ds)]) ?s"
          unfolding stepping_def using Y(1) by (intro exI [of _ "insert i Y"]) auto
      qed
      show ?thesis by (rule hoare_bind [OF sent hoare_bind [OF unwrap mark]])
    qed
    show "returns (\<lambda>s'. s' = s) (io_bind (io_expect (map_of (sc_states s) i)) (\<lambda>st.
        if triggered st then io_return ()
        else if deps_ready (sc_states s) ds then io_bind (step_activity cs pf i) (\<lambda>r.
          io_bind (io_unwrap r) (\<lambda>_. io_modify (\<lambda>s.
            s\<lparr>sc_states := modify_key i (triggered_update (\<lambda>_. True)) (sc_states s)\<rparr>)))
        else io_return ())) (\<lambda>_. stepping D rt X l R (xs @ [(i, ds)]))"
    proof (rule hoare_bind)
      show "returns (\<lambda>s'. s' = s) (io_expect (map_of (sc_states s) i)) (\<lambda>st' s'. st' = st \<and> s' = s)"
        by (rule hoare_expect) (simp_all add: st)
      show "returns (\<lambda>s'. st' = st \<and> s' = s) (if triggered st' then io_return ()
        else if deps_ready (sc_states s) ds then io_bind (step_activity cs pf i) (\<lambda>r.
          io_bind (io_unwrap r) (\<lambda>_. io_modify (\<lambda>s.
            s\<lparr>sc_states := modify_key i (triggered_update (\<lambda>_. True)) (sc_states s)\<rparr>)))
        else io_return ()) (\<lambda>_. stepping D rt X l R (xs @ [(i, ds)]))" for st'
      proof (rule hoare_assume, intro hoare_if)
        assume "st' = st" "triggered st'"
        then have "served D R Y (i, ds)" using trig by (simp add: served_def)
        then show "returns (\<lambda>s'. s' = s) (io_return ()) (\<lambda>_. stepping D rt X l R (xs @ [(i, ds)]))"
          by (rule keep)
      next
        assume "st' = st" "\<not> triggered st'" "deps_ready (sc_states s) ds"
        then show "returns (\<lambda>s'. s' = s) (io_bind (step_activity cs pf i) (\<lambda>r. io_bind (io_unwrap r) (\<lambda>_.
            io_modify (\<lambda>s. s\<lparr>sc_states := modify_key i (triggered_update (\<lambda>_. True)) (sc_states s)\<rparr>))))
            (\<lambda>_. stepping D rt X l R (xs @ [(i, ds)]))"
          using trig by (intro send) simp
      next
        assume "\<not> deps_ready (sc_states s) ds"
        then have "served D R Y (i, ds)" using deps by (simp add: served_def)
        then show "returns (\<lambda>s'. s' = s) (io_return ()) (\<lambda>_. stepping D rt X l R (xs @ [(i, ds)]))"
          by (rule keep)
      qed
    qed
  qed
qed

lemma total_step_ready_activities:
  "returns (chain D rt X l R) (step_ready_activities cs pf)
    (\<lambda>_ s. \<exists>Y. chain D rt Y l R s \<and> list_all (served D R Y) D)"
  unfolding step_ready_activities_def
proof (rule hoare_bind)
  show "returns (chain D rt X l R) (io_gets sc_depends) (\<lambda>ds s. ds = D \<and> chain D rt X l R s)"
    by (rule hoare_gets) (simp add: chain_def view_def)
  show "returns (\<lambda>s. ds = D \<and> chain D rt X l R s) (io_for ds (step_if_ready cs pf))
      (\<lambda>_ s. \<exists>Y. chain D rt Y l R s \<and> list_all (served D R Y) D)" for ds
  proof (rule hoare_assume)
    assume ds: "ds = D"
    have "returns (stepping D rt X l R []) (io_for D (step_if_ready cs pf)) (\<lambda>_. stepping D rt X l R D)"
      by (rule hoare_for_prefix) (rule total_step_if_ready, simp)
    then show "returns (chain D rt X l R) (io_for ds (step_if_ready cs pf))
        (\<lambda>_ s. \<exists>Y. chain D rt Y l R s \<and> list_all (served D R Y) D)"
      unfolding ds by (rule hoare_conseq) (auto simp: stepping_def)
  qed
qed

text \<open>Without a cycle there is always an activity to wait for.\<close>

lemma served_pending:
  assumes "ranked rank D" "list_all (served D R X) D" "R \<union> X \<subseteq> fst ` set D" "R \<noteq> fst ` set D"
  shows "X \<noteq> {}"
proof -
  let ?open = "fst ` set D - R"
  have "?open \<noteq> {}" using assms(3,4) by blast
  then obtain i where i: "i \<in> ?open" and least: "\<And>j. j \<in> ?open \<Longrightarrow> rank i \<le> rank j"
    using ex_has_least_nat [of "\<lambda>i. i \<in> ?open" _ rank] by blast
  from i obtain ds where ds: "(i, ds) \<in> set D" by force
  have "set ds \<inter> fst ` set D \<subseteq> R"
  proof clarify
    fix d e
    assume d: "fst (d, e) \<in> set ds" "(d, e) \<in> set D"
    then have "rank d < rank i" using assms(1) ds by (force simp: ranked_def list_all_iff)
    with least [of d] d(2) show "fst (d, e) \<in> R" by force
  qed
  with assms(2) ds have "i \<in> R \<union> X" by (auto simp: list_all_iff served_def)
  with i show ?thesis by blast
qed

lemma chain_mark:
  assumes "view D rt (Y - {i}) l (insert i R) (R \<union> Y) (insert i G) s" "G = fst ` set D"
    "i \<in> Y" "R \<inter> Y = {}" "R \<union> Y \<subseteq> G" "distinct (map fst D)" "G \<subseteq> K"
  shows "chain D rt (Y - {i}) l (insert i R) s"
proof -
  have "insert i G = G" "insert i R \<union> (Y - {i}) = R \<union> Y" "insert i R \<inter> (Y - {i}) = {}"
    using assms(3-5) by blast+
  with assms show ?thesis by (simp add: chain_def)
qed

lemma card_diff_insert: "finite A \<Longrightarrow> i \<in> A \<Longrightarrow> i \<notin> R \<Longrightarrow> card (A - insert i R) < card (A - R)"
  by (rule psubset_card_mono) auto

lemma total_chain_loop:
  assumes "ranked rank D" "card (fst ` set D - R) < n"
  shows "returns (chain D rt X l R) (chain_loop n cs pf)
    (\<lambda>go_on s. go_on \<and> chain D rt {} l (fst ` set D) s)"
  using assms(2)
proof (induction n arbitrary: R X)
  case 0
  then show ?case by simp
next
  case (Suc n)
  let ?keys = "fst ` set D"
  let ?Q = "\<lambda>go_on s. go_on \<and> chain D rt {} l ?keys s"
  let ?rest = "\<lambda>r. case r of Inl e \<Rightarrow> io_bind (shutdown_gracefully n cs pf) (\<lambda>_. io_return False)
      | Inr _ \<Rightarrow> chain_loop n cs pf"
  show ?case
    unfolding chain_loop.simps
  proof (rule hoare_bind_get, rule hoare_if)
    fix s
    assume s: "chain D rt X l R s" and "all_ready s"
    then have "R = ?keys" using all_ready_ids [of s] view_keys [of D rt X l R _ _ s]
      by (simp add: chain_def view_def)
    with s have "X = {}" by (auto simp: chain_def)
    with s \<open>R = ?keys\<close> show "returns (\<lambda>s'. s' = s) (io_return True) ?Q" by (auto intro: hoare_return)
  next
    fix s
    assume s: "chain D rt X l R s" and "\<not> all_ready s"
    then have nr: "R \<noteq> ?keys" using all_ready_ids [of s] view_keys [of D rt X l R _ _ s]
      by (auto simp: chain_def view_def)
    with s have "?keys - R \<noteq> {}" by (auto simp: chain_def)
    then have "0 < card (?keys - R)" by (simp add: card_gt_0_iff)
    with Suc.prems have "0 < n" by linarith
    then obtain m where m: "n = Suc m" using gr0_implies_Suc by blast
    have wait: "returns (\<lambda>s. chain D rt Y l R s \<and> list_all (served D R Y) D)
        (io_bind (wait_next_ready n cs) ?rest) ?Q" for Y
    proof (rule hoare_pre [where P = "\<lambda>s. (Y \<noteq> {} \<and> Y \<subseteq> K \<and> Y \<subseteq> ?keys \<and> R \<inter> Y = {}
        \<and> R \<union> Y \<subseteq> ?keys \<and> distinct (map fst D) \<and> ?keys \<subseteq> K)
        \<and> view D rt Y l R (R \<union> Y) ?keys s"], rule hoare_assume)
      fix s
      assume "chain D rt Y l R s \<and> list_all (served D R Y) D"
      then show "(Y \<noteq> {} \<and> Y \<subseteq> K \<and> Y \<subseteq> ?keys \<and> R \<inter> Y = {} \<and> R \<union> Y \<subseteq> ?keys
          \<and> distinct (map fst D) \<and> ?keys \<subseteq> K) \<and> view D rt Y l R (R \<union> Y) ?keys s"
        using served_pending [OF assms(1), of R Y, OF _ _ nr] by (simp add: chain_def) blast
    next
      assume Y: "Y \<noteq> {} \<and> Y \<subseteq> K \<and> Y \<subseteq> ?keys \<and> R \<inter> Y = {} \<and> R \<union> Y \<subseteq> ?keys
        \<and> distinct (map fst D) \<and> ?keys \<subseteq> K"
      show "returns (view D rt Y l R (R \<union> Y) ?keys) (io_bind (wait_next_ready n cs) ?rest) ?Q"
        unfolding m
      proof (rule hoare_bind [OF total_wait_next_ready])
        fix r :: "error + activity_id"
        show "returns (\<lambda>s. \<exists>i. i \<in> Y \<and> r = Inr i
            \<and> view D rt (Y - {i}) l (insert i R) (R \<union> Y) (insert i ?keys) s)
          (case r of Inl e \<Rightarrow> io_bind (shutdown_gracefully (Suc m) cs pf) (\<lambda>_. io_return False)
            | Inr _ \<Rightarrow> chain_loop (Suc m) cs pf) ?Q"
        proof (rule hoare_exists)
          fix i
          show "returns (\<lambda>s. i \<in> Y \<and> r = Inr i
            \<and> view D rt (Y - {i}) l (insert i R) (R \<union> Y) (insert i ?keys) s)
          (case r of Inl e \<Rightarrow> io_bind (shutdown_gracefully (Suc m) cs pf) (\<lambda>_. io_return False)
            | Inr _ \<Rightarrow> chain_loop (Suc m) cs pf) ?Q"
          proof (rule hoare_assume, rule hoare_assume)
            assume i: "i \<in> Y" and r: "r = Inr i"
            have "card (?keys - insert i R) < card (?keys - R)"
              by (rule card_diff_insert) (use i Y in auto)
            with Suc.prems m have "card (?keys - insert i R) < Suc m" by linarith
            then have "returns (chain D rt (Y - {i}) l (insert i R)) (chain_loop n cs pf) ?Q"
              using Suc.IH m by blast
            then have "returns (view D rt (Y - {i}) l (insert i R) (R \<union> Y) (insert i ?keys))
                (chain_loop n cs pf) ?Q"
              by (rule hoare_pre) (rule chain_mark [OF _ refl i], use Y in auto)
            then show "returns (view D rt (Y - {i}) l (insert i R) (R \<union> Y) (insert i ?keys))
                (case r of Inl e \<Rightarrow> io_bind (shutdown_gracefully (Suc m) cs pf) (\<lambda>_. io_return False)
                  | Inr _ \<Rightarrow> chain_loop (Suc m) cs pf) ?Q"
              using r m by simp
          qed
        qed
      qed (use Y in auto)
    qed
    then have "returns (\<lambda>s. \<exists>Y. chain D rt Y l R s \<and> list_all (served D R Y) D)
        (io_bind (wait_next_ready n cs) ?rest) ?Q"
      by (rule hoare_exists)
    from hoare_bind [OF total_step_ready_activities this]
    show "returns (\<lambda>s'. s' = s) (io_bind (step_ready_activities cs pf)
        (\<lambda>_. io_bind (wait_next_ready n cs) ?rest)) ?Q"
      by (rule hoare_pre) (use s in simp)
  qed
qed

text \<open>Shutting down.\<close>

lemma total_shutdown_wait:
  assumes "distinct pending" "set pending \<subseteq> X" "X \<subseteq> K" "finite X" "card X \<le> n"
  shows "returns (view D rt X l R T V) (shutdown_wait n cs pf timeout start pending)
    (\<lambda>_ s. \<exists>Y. view D rt Y l R T V s)"
  using assms
proof (induction n arbitrary: X pending)
  case 0
  then show ?case by (auto intro!: hoare_return)
next
  case (Suc n)
  let ?Q = "\<lambda>_ s. \<exists>Y. view D rt Y l R T V s"
  let ?rest = "\<lambda>r :: error + signal option. case r of
      Inr (Some (Ready i t)) \<Rightarrow> shutdown_wait n cs pf timeout start (remove1 i pending)
    | Inr (Some (ActivityFailed i e)) \<Rightarrow> shutdown_wait n cs pf timeout start (remove1 i pending)
    | Inr _ \<Rightarrow> shutdown_wait n cs pf timeout start pending
    | Inl e \<Rightarrow> shutdown_wait n cs pf timeout start pending"
  have next_step: "returns (\<lambda>s. i \<in> X \<and> r = Inr (Some (Ready i t)) \<and> view D rt (X - {i}) l R T V s)
      (?rest r) ?Q" for i r t
  proof (rule hoare_assume, rule hoare_assume)
    assume i: "i \<in> X" and r: "r = Inr (Some (Ready i t))"
    have "set (remove1 i pending) \<subseteq> X - {i}" using Suc.prems by auto
    then have "returns (view D rt (X - {i}) l R T V)
        (shutdown_wait n cs pf timeout start (remove1 i pending)) ?Q"
      using Suc.prems i by (intro Suc.IH) auto
    then show "returns (view D rt (X - {i}) l R T V) (?rest r) ?Q" using r by simp
  qed
  show ?case
    unfolding shutdown_wait.simps
  proof (intro hoare_if hoare_bind [OF total_elapsed])
    assume "pending \<noteq> []"
    then have "X \<noteq> {}" using Suc.prems(2) by auto
    from hoare_bind [OF total_receive [OF this Suc.prems(3)]]
    show "returns (view D rt X l R T V) (io_bind (receive_signal cs) ?rest) ?Q"
      using next_step by (intro hoare_bind [OF total_receive [OF \<open>X \<noteq> {}\<close> Suc.prems(3)]] hoare_exists)
  qed (auto intro: hoare_return)
qed

lemma total_terminate_all_agents:
  "returns (view D rt X l R T V) (terminate_all_agents n cs pf) (\<lambda>_ s. ended (sc_world s))"
proof -
  let ?P = "\<lambda>s :: 'w scheduler. set (cs_connected_agents cs (sc_world s)) \<subseteq> {own} \<and> sc_agent_id s = own \<and> ended (sc_world s)"
  have rest: "returns ?P (io_bind io_get (\<lambda>s.
      let pending = btree_set (filter (\<lambda>a. a \<noteq> sc_agent_id s) (cs_connected_agents cs (sc_world s))) in
      if pending = [] then io_return ()
      else io_bind (io_lift (scaled_timeout (sc_receive_timeout s) (length pending) 4)) (\<lambda>timeout.
        io_bind (sc_io (pf_now pf)) (\<lambda>start. terminate_wait n cs pf timeout start pending))))
      (\<lambda>_ s. ended (sc_world s))"
  proof (rule hoare_bind_get)
    fix s :: "'w scheduler"
    assume s: "?P s"
    then have "filter (\<lambda>a. a \<noteq> sc_agent_id s) (cs_connected_agents cs (sc_world s)) = []"
      by (auto simp: filter_empty_conv)
    then show "returns (\<lambda>s'. s' = s) (let pending = btree_set (filter (\<lambda>a. a \<noteq> sc_agent_id s)
          (cs_connected_agents cs (sc_world s))) in
        if pending = [] then io_return ()
        else io_bind (io_lift (scaled_timeout (sc_receive_timeout s) (length pending) 4)) (\<lambda>timeout.
          io_bind (sc_io (pf_now pf)) (\<lambda>start. terminate_wait n cs pf timeout start pending)))
        (\<lambda>_ s. ended (sc_world s))"
      using s by (auto simp: btree_set_def intro: hoare_return)
  qed
  have cast: "returns (view D rt X l R T V) (sc_io (cs_broadcast_terminate cs (Terminate t))) (\<lambda>_. ?P)" for t
    by (rule hoare_post [OF total_sc_io_agent [OF broadcast]]) simp
  show ?thesis
    unfolding terminate_all_agents_def
    by (rule hoare_bind [OF total_sc_io_same [OF timestamp]], rule hoare_bind [OF total_log],
        rule hoare_bind [OF cast rest])
qed

lemma total_shutdown_gracefully:
  assumes "V \<inter> X = {}" "V \<subseteq> fst ` set D" "X \<subseteq> fst ` set D" "fst ` set D \<subseteq> K"
    "card (fst ` set D) \<le> n" "timeouts_ok rt (length D)"
  shows "returns (view D rt X l R T V) (shutdown_gracefully n cs pf) (\<lambda>_ s. ended (sc_world s))"
  unfolding shutdown_gracefully_def
proof (rule hoare_bind_gets, rule hoare_bind)
  let ?Q = "\<lambda>_ s. \<exists>Y. view D rt Y l R T V s"
  fix s
  assume s: "view D rt X l R T V s"
  let ?ids = "started_activities s"
  have ids: "distinct ?ids" "set ?ids = V"
    using s by (auto simp: started_activities_def view_def ids_with_def case_prod_beta)
  have sends: "returns (\<lambda>s'. s' = s) (io_for ?ids (\<lambda>i. io_bind (shutdown_activity cs pf i) (\<lambda>_. io_return ())))
      (\<lambda>_. view D rt (X \<union> V) l R T V)"
  proof (rule hoare_conseq [OF hoare_for_prefix [where J = "\<lambda>xs. view D rt (X \<union> set xs) l R T V"]])
    fix xs x ys
    assume split: "?ids = xs @ x # ys"
    have "distinct (xs @ x # ys)" "set (xs @ x # ys) = V" using ids by (simp_all only: split)
    then have "x \<in> K" "x \<notin> X \<union> set xs" using assms by auto
    then show "returns (view D rt (X \<union> set xs) l R T V) (io_bind (shutdown_activity cs pf x) (\<lambda>_. io_return ()))
        (\<lambda>_. view D rt (X \<union> set (xs @ [x])) l R T V)"
      by (intro hoare_bind [OF total_activity(3)] hoare_return) auto
  qed (use s ids in auto)
  have len: "length ?ids \<le> length D"
    using ids assms(2) card_mono [of "fst ` set D" V] distinct_card [OF ids(1)]
      card_image_le [of "set D" fst] card_length [of D] by simp
  have "rt * (length ?ids + 2) \<le> rt * (length D + 2)" using len by simp
  with assms(6) have "duration_ok (rt * (length ?ids + 2))"
    unfolding timeouts_ok_def duration_ok_def by linarith
  moreover have "length ?ids + 2 < 2 ^ 32" using assms(6) len unfolding timeouts_ok_def by linarith
  ultimately have to: "scaled_timeout rt (length ?ids) 2 = Ret (rt * (length ?ids + 2))"
    by (intro scaled_timeout_Ret)
  have fin: "finite (X \<union> V)" using assms(2,3) by (simp add: finite_subset)
  have "card (X \<union> V) \<le> n"
    using card_mono [of "fst ` set D" "X \<union> V"] assms(2,3,5) by simp
  then have wait: "returns (view D rt (X \<union> V) l R T V) (shutdown_wait n cs pf t start ?ids) ?Q" for t start
    using ids fin assms by (intro total_shutdown_wait) auto
  have recv: "returns (view D rt (X \<union> V) l R T V) (io_gets sc_receive_timeout)
      (\<lambda>d s. d = rt \<and> view D rt (X \<union> V) l R T V s)"
    by (rule hoare_gets) (simp add: view_def)
  have lift: "returns (view D rt (X \<union> V) l R T V) (io_lift (scaled_timeout rt (length ?ids) 2))
      (\<lambda>_. view D rt (X \<union> V) l R T V)"
    by (simp add: to io_lift_def hoare_def)
  show "returns (\<lambda>s'. s' = s) (if ?ids \<noteq> [] then
       io_bind (io_for ?ids (\<lambda>i. io_bind (shutdown_activity cs pf i) (\<lambda>_. io_return ()))) (\<lambda>_.
         io_bind (io_gets sc_receive_timeout) (\<lambda>recv_timeout.
         io_bind (io_lift (scaled_timeout recv_timeout (length ?ids) 2)) (\<lambda>timeout.
         io_bind (sc_io (pf_now pf)) (\<lambda>start.
         shutdown_wait n cs pf timeout start ?ids))))
       else io_return ()) ?Q"
  proof (rule hoare_if)
    show "returns (\<lambda>s'. s' = s) (io_bind (io_for ?ids (\<lambda>i. io_bind (shutdown_activity cs pf i) (\<lambda>_. io_return ()))) (\<lambda>_.
         io_bind (io_gets sc_receive_timeout) (\<lambda>recv_timeout.
         io_bind (io_lift (scaled_timeout recv_timeout (length ?ids) 2)) (\<lambda>timeout.
         io_bind (sc_io (pf_now pf)) (\<lambda>start.
         shutdown_wait n cs pf timeout start ?ids))))) ?Q"
      by (rule hoare_bind [OF sends], rule hoare_bind [OF recv], rule hoare_assume, hypsubst,
          rule hoare_bind [OF lift], rule hoare_bind [OF total_sc_io_same [OF now]], rule wait)
  qed (use s in \<open>auto intro: hoare_return\<close>)
qed (rule hoare_exists, rule total_terminate_all_agents)

text \<open>Starting up.\<close>

lemma total_startup_all:
  assumes "distinct (map fst D)" "fst ` set D \<subseteq> K"
  shows "returns (view D rt {} l {} {} {}) (startup_all cs pf) (\<lambda>_. view D rt (fst ` set D) l {} {} {})"
  unfolding startup_all_def
proof (rule hoare_bind_gets)
  fix s
  assume s: "view D rt {} l {} {} {} s"
  let ?ids = "sort (map fst (sc_states s))"
  have ids: "distinct ?ids" "set ?ids = fst ` set D" using s assms(1) by (simp_all add: view_def)
  show "returns (\<lambda>s'. s' = s) (io_for ?ids (\<lambda>i. io_bind (startup_activity cs pf i) io_unwrap))
      (\<lambda>_. view D rt (fst ` set D) l {} {} {})"
  proof (rule hoare_conseq [OF hoare_for_prefix [where J = "\<lambda>xs. view D rt (set xs) l {} {} {}"]])
    fix xs x ys
    assume split: "?ids = xs @ x # ys"
    have "distinct (xs @ x # ys)" "set (xs @ x # ys) = fst ` set D" using ids by (simp_all only: split)
    then have "x \<in> K" "x \<notin> set xs" using assms(2) by auto
    moreover have "returns (\<lambda>s. r = Inr () \<and> view D rt (insert x (set xs)) l {} {} {} s) (io_unwrap r)
        (\<lambda>_. view D rt (set (xs @ [x])) l {} {} {})" for r :: "error + unit"
      by (rule hoare_assume) (auto simp: io_unwrap_def intro: hoare_return)
    ultimately show "returns (view D rt (set xs) l {} {} {}) (io_bind (startup_activity cs pf x) io_unwrap)
        (\<lambda>_. view D rt (set (xs @ [x])) l {} {} {})"
      by (intro hoare_bind [OF total_activity(1)])
  qed (use s ids in auto)
qed

lemma total_stop:
  assumes "V \<inter> X = {}" "V \<subseteq> fst ` set D" "X \<subseteq> fst ` set D" "fst ` set D \<subseteq> K"
    "card (fst ` set D) \<le> n" "timeouts_ok rt (length D)"
  shows "returns (view D rt X l R T V) (io_bind (shutdown_gracefully n cs pf) (\<lambda>_. io_return False))
    (\<lambda>go_on s. if go_on then Q s else ended (sc_world s))"
  by (rule hoare_bind [OF total_shutdown_gracefully [OF assms]]) (auto intro: hoare_return)

lemma total_startup_loop:
  assumes "distinct (map fst D)" "fst ` set D \<subseteq> K" "timeouts_ok rt (length D)"
    and "R \<subseteq> fst ` set D" "card (fst ` set D) + card (fst ` set D - R) < n"
  shows "returns (view D rt (fst ` set D - R) l R {} R) (startup_loop n cs pf start)
    (\<lambda>go_on s. if go_on then view D rt {} l (fst ` set D) {} (fst ` set D) s else ended (sc_world s))"
  using assms(4,5)
proof (induction n arbitrary: R)
  case 0
  then show ?case by simp
next
  case (Suc n)
  let ?keys = "fst ` set D"
  let ?Q = "\<lambda>go_on s. if go_on then view D rt {} l ?keys {} ?keys s else ended (sc_world s)"
  let ?V = "view D rt (?keys - R) l R {} R"
  let ?stop = "io_bind (shutdown_gracefully n cs pf) (\<lambda>_. io_return False)"
  let ?rest = "\<lambda>r :: error + activity_id. case r of Inl e \<Rightarrow> ?stop | Inr _ \<Rightarrow> startup_loop n cs pf start"
  show ?case
    unfolding startup_loop.simps
  proof (rule hoare_bind_get, rule hoare_if)
    fix s
    assume s: "?V s" and "all_ready s"
    then have "R = ?keys" using all_ready_ids [of s] view_keys [OF s] assms(1) by (simp add: view_def)
    with s show "returns (\<lambda>s'. s' = s) (io_return True) ?Q" by (auto intro: hoare_return)
  next
    fix s
    assume s: "?V s" and "\<not> all_ready s"
    then have nr: "R \<noteq> ?keys" using all_ready_ids [of s] view_keys [OF s] assms(1) by (auto simp: view_def)
    with Suc.prems(1) have open_ids: "?keys - R \<noteq> {}" by auto
    then have pos: "0 < card (?keys - R)" by (simp add: card_gt_0_iff)
    with Suc.prems(2) have n: "card ?keys \<le> n" "0 < n" by linarith+
    then obtain m where m: "n = Suc m" using gr0_implies_Suc by blast
    have stop: "returns ?V ?stop ?Q"
      by (rule total_stop) (use Suc.prems(1) assms n in auto)
    have wait: "returns ?V (io_bind (wait_next_ready n cs) ?rest) ?Q"
      unfolding m
    proof (rule hoare_bind [OF total_wait_next_ready], goal_cases)
      case (4 r)
      show ?case
      proof (rule hoare_exists, rule hoare_assume, rule hoare_assume)
        fix i
        assume i: "i \<in> ?keys - R" and r: "r = Inr i"
        have "card (?keys - insert i R) < card (?keys - R)"
          using card_diff_insert [of ?keys i R] i by simp
        then have "card ?keys + card (?keys - insert i R) < n" using Suc.prems(2) by linarith
        then have "returns (view D rt (?keys - insert i R) l (insert i R) {} (insert i R))
            (startup_loop n cs pf start) ?Q"
          using i Suc.prems(1) by (intro Suc.IH) auto
        moreover have "?keys - insert i R = ?keys - R - {i}" by auto
        ultimately show "returns (view D rt (?keys - R - {i}) l (insert i R) {} (insert i R))
            (case r of Inl e \<Rightarrow> io_bind (shutdown_gracefully (Suc m) cs pf) (\<lambda>_. io_return False)
              | Inr _ \<Rightarrow> startup_loop (Suc m) cs pf start) ?Q"
          using r m by simp
      qed
    qed (use open_ids assms(2) in auto)
    have "returns ?V (io_bind (sc_io (pf_elapsed pf start)) (\<lambda>elapsed.
        if sc_startup_timeout s < elapsed then ?stop
        else io_bind (wait_next_ready n cs) ?rest)) ?Q"
      by (intro hoare_bind [OF total_elapsed] hoare_if stop wait)
    then show "returns (\<lambda>s'. s' = s) (io_bind (sc_io (pf_elapsed pf start)) (\<lambda>elapsed.
        if sc_startup_timeout s < elapsed then ?stop
        else io_bind (wait_next_ready n cs) ?rest)) ?Q"
      by (rule hoare_pre) (use s in simp)
  qed
qed

text \<open>The main loop and the run.\<close>

lemma ids_with_start_cycle:
  "ids_with ready (start_cycle s) = {}" "ids_with triggered (start_cycle s) = {}"
  "ids_with ever_ready (start_cycle s) = ids_with ever_ready s"
  by (force simp: ids_with_def start_cycle_def)+

lemma chain_start:
  assumes "distinct (map fst D)" "fst ` set D \<subseteq> K" "view D rt {} l R T (fst ` set D) s"
  shows "chain D rt {} l {} (start_cycle s)"
proof -
  have "map fst (sc_states (start_cycle s)) = map fst (sc_states s)"
    by (simp add: start_cycle_def comp_def case_prod_beta)
  moreover have "sc_depends (start_cycle s) = sc_depends s" "sc_world (start_cycle s) = sc_world s"
    "sc_receive_timeout (start_cycle s) = sc_receive_timeout s" "sc_agent_id (start_cycle s) = sc_agent_id s"
    by (simp_all add: start_cycle_def)
  ultimately show ?thesis using assms by (simp add: chain_def view_def ids_with_start_cycle)
qed

lemma total_finish_cycle:
  "returns (view D rt X l R T V) (finish_cycle pf start) (\<lambda>_. view D rt X l R T V)"
  unfolding finish_cycle_def Let_def
  by (intro hoare_bind [OF total_elapsed] hoare_bind [OF hoare_gets [where Q = "\<lambda>_. view D rt X l R T V"]]
      hoare_if hoare_return total_sc_io_same [OF sleep])

lemma total_main_loop:
  assumes "distinct (map fst D)" "fst ` set D \<subseteq> K" "ranked rank D"
    and "l + card (fst ` set D) + 1 < n"
  shows "returns (\<lambda>s. \<exists>R T. view D rt {} l R T (fst ` set D) s) (main_loop n cs pf)
    (\<lambda>finished s. finished \<and> (\<exists>l' R T. view D rt {} l' R T (fst ` set D) s))"
  using assms(4)
proof (induction n arbitrary: l)
  case 0
  then show ?case by simp
next
  case (Suc n)
  let ?keys = "fst ` set D"
  let ?Q = "\<lambda>finished s. finished \<and> (\<exists>l' R T. view D rt {} l' R T ?keys s)"
  let ?done = "view D rt {} l ?keys ?keys ?keys"
  have look: "returns ?done (sc_io (pf_shutdown_requested pf))
      (\<lambda>b s. if b then ?done s else \<exists>l'. l' < l \<and> view D rt {} l' ?keys ?keys ?keys s)"
    by (rule hoare_post [OF total_sc_io [OF requested]]) (auto split: if_splits)
  have again: "returns (\<lambda>s. if b then ?done s else \<exists>l'. l' < l \<and> view D rt {} l' ?keys ?keys ?keys s)
      (if b then io_return True else main_loop n cs pf) ?Q" for b
  proof (cases b)
    case True
    then show ?thesis by (auto intro!: hoare_return)
  next
    case False
    have "returns (\<lambda>s. l' < l \<and> view D rt {} l' ?keys ?keys ?keys s) (main_loop n cs pf) ?Q" for l'
      by (rule hoare_assume, rule hoare_pre [OF Suc.IH [of l']]) (use Suc.prems in auto)
    with False show ?thesis by (simp add: hoare_exists)
  qed
  have rest: "returns (\<lambda>s. go_on \<and> chain D rt {} l ?keys s) (if \<not> go_on then io_return False
      else io_bind (finish_cycle pf start) (\<lambda>_. io_bind (sc_io (pf_shutdown_requested pf))
        (\<lambda>requested. if requested then io_return True else main_loop n cs pf))) ?Q" for go_on start
  proof (rule hoare_assume)
    assume go_on
    have "returns ?done (io_bind (finish_cycle pf start) (\<lambda>_. io_bind (sc_io (pf_shutdown_requested pf))
        (\<lambda>requested. if requested then io_return True else main_loop n cs pf))) ?Q"
      by (rule hoare_bind [OF total_finish_cycle hoare_bind [OF look again]])
    then have "returns (chain D rt {} l ?keys) (io_bind (finish_cycle pf start)
        (\<lambda>_. io_bind (sc_io (pf_shutdown_requested pf))
          (\<lambda>requested. if requested then io_return True else main_loop n cs pf))) ?Q"
      by (rule hoare_pre) (simp add: chain_def)
    then show "returns (chain D rt {} l ?keys) (if \<not> go_on then io_return False
      else io_bind (finish_cycle pf start) (\<lambda>_. io_bind (sc_io (pf_shutdown_requested pf))
        (\<lambda>requested. if requested then io_return True else main_loop n cs pf))) ?Q"
      using \<open>go_on\<close> by simp
  qed
  have body: "returns (view D rt {} l R T ?keys) (main_loop (Suc n) cs pf) ?Q" for R T
    unfolding main_loop.simps
  proof (rule hoare_bind [OF total_sc_io_same [OF now] hoare_bind])
    show "returns (view D rt {} l R T ?keys) (io_modify start_cycle) (\<lambda>_. chain D rt {} l {})"
      by (rule hoare_modify) (rule chain_start [OF assms(1,2)])
    show "returns (chain D rt {} l {}) (io_bind (chain_loop n cs pf) (\<lambda>go_on. if \<not> go_on then io_return False
        else io_bind (finish_cycle pf start) (\<lambda>_. io_bind (sc_io (pf_shutdown_requested pf))
          (\<lambda>requested. if requested then io_return True else main_loop n cs pf)))) ?Q" for start
      by (rule hoare_bind [OF total_chain_loop [OF assms(3)] rest]) (use Suc.prems in simp)
  qed
  show ?case by (intro hoare_exists body)
qed

lemma run_returns:
  assumes "distinct (map fst D)" "fst ` set D \<subseteq> K" "ranked rank D" "timeouts_ok rt (length D)"
    and "at {} l w" "l + 2 * length D + 1 < n"
  shows "\<exists>s. run n cs pf (scheduler_new own cycle_time rt startup_timeout D w) = (Ret (), s) \<and> ended (sc_world s)"
proof -
  let ?keys = "fst ` set D" and ?s = "scheduler_new own cycle_time rt startup_timeout D w"
  have card: "card ?keys = length D" using assms(1) distinct_card [of "map fst D"] by simp
  have init: "view D rt {} l {} {} {} ?s"
    using assms(5) by (auto simp: view_def scheduler_new_def ids_with_def initial_state_def comp_def case_prod_beta)
  have last: "returns (\<lambda>s. finished \<and> (\<exists>l' R T. view D rt {} l' R T ?keys s))
      (if \<not> finished then io_return () else shutdown_gracefully n cs pf) (\<lambda>_ s. ended (sc_world s))" for finished
  proof (rule hoare_assume)
    assume f: finished
    show "returns (\<lambda>s. \<exists>l' R T. view D rt {} l' R T ?keys s)
        (if \<not> finished then io_return () else shutdown_gracefully n cs pf) (\<lambda>_ s. ended (sc_world s))"
      using f assms card by (auto intro!: hoare_exists hoare_post [OF total_shutdown_gracefully])
  qed
  have go: "returns (\<lambda>s. if go_on then view D rt {} l ?keys {} ?keys s else ended (sc_world s)) (if \<not> go_on then io_return ()
      else io_bind (main_loop n cs pf) (\<lambda>finished.
        if \<not> finished then io_return () else shutdown_gracefully n cs pf)) (\<lambda>_ s. ended (sc_world s))" for go_on
  proof (cases go_on)
    case True
    have "returns (\<lambda>s. \<exists>R T. view D rt {} l R T ?keys s) (io_bind (main_loop n cs pf) (\<lambda>finished.
        if \<not> finished then io_return () else shutdown_gracefully n cs pf)) (\<lambda>_ s. ended (sc_world s))"
      by (rule hoare_bind [OF total_main_loop [OF assms(1-3)] last]) (use card assms(6) in simp)
    with True show ?thesis by (auto elim!: hoare_pre)
  qed (simp add: hoare_return)
  have "returns (view D rt {} l {} {} {}) (run n cs pf) (\<lambda>_ s. ended (sc_world s))"
    unfolding run_def
  proof (rule hoare_bind [OF total_startup_all [OF assms(1,2)]])
    have "returns (view D rt ?keys l {} {} {}) (startup_loop n cs pf start)
        (\<lambda>go_on s. if go_on then view D rt {} l ?keys {} ?keys s else ended (sc_world s))" for start
      using total_startup_loop [OF assms(1,2,4), of "{}" n l start] card assms(6) by simp
    then show "returns (view D rt ?keys l {} {} {}) (io_bind (sc_io (pf_now pf)) (\<lambda>start.
        io_bind (startup_loop n cs pf start) (\<lambda>go_on. if \<not> go_on then io_return ()
        else io_bind (main_loop n cs pf) (\<lambda>finished.
          if \<not> finished then io_return () else shutdown_gracefully n cs pf)))) (\<lambda>_ s. ended (sc_world s))"
      by (intro hoare_bind [OF total_sc_io_same [OF now]] hoare_bind [OF _ go])
  qed
  with init show ?thesis
    by (cases "run n cs pf ?s"; cases "fst (run n cs pf ?s)") (auto simp: hoare_def dest!: spec [of _ ?s])
qed

end

end
