(* ===== verification/Feo_Mpsc_System.thy ===== *)
theory Feo_Mpsc_System
  imports Feo_Mpsc Feo_Scheduler_Live "HOL-Library.Multiset"
begin

text \<open>
  A whole primary agent with in-process signalling (\<open>feo/src/agent/direct/primary_mpsc.rs\<close>): the
  scheduler, its connector and the worker threads, put together from the definitions of the parts.
  The threads of the workers run while the scheduler waits: a turn of a worker is one iteration of
  its loop, and a schedule, about which nothing is assumed, says which workers take turns before
  each receive; if it lets no response arrive, a worker with a waiting signal takes one turn. Clock
  readings and timestamps are arbitrary sequences. The system is an instance of the contract
  \<open>responsive\<close>, so its scheduler returns.
\<close>

section \<open>The system\<close>

record 'a pool =
  tp_workers :: "(worker_id \<times> (worker_ends, 'a) worker) list"
  tp_schedule :: "worker_id list list"
  tp_looks :: nat
  tp_times :: "nat \<Rightarrow> instant"
  tp_stamps :: "nat \<Rightarrow> timestamp"
  tp_tick :: nat

type_synonym 'a system = "'a pool mpsc_scheduler"

definition env :: "('a pool \<Rightarrow> 'a pool) \<Rightarrow> 'a system \<Rightarrow> 'a system" where
  "env f s = s\<lparr>ms_env := f (ms_env s)\<rparr>"

definition tick :: "'a system \<Rightarrow> 'a system" where
  "tick = env (tp_tick_update Suc)"

definition system_platform :: "'a system platform" where
  "system_platform =
    \<lparr>pf_now = (\<lambda>s. (Ret (tp_times (ms_env s) (tp_tick (ms_env s))), tick s)),
     pf_timestamp = (\<lambda>s. (Ret (tp_stamps (ms_env s) (tp_tick (ms_env s))), tick s)),
     pf_sleep = (\<lambda>_. io_return ()),
     pf_shutdown_requested = (\<lambda>s. case tp_looks (ms_env s) of
         0 \<Rightarrow> (Ret True, s)
       | Suc k \<Rightarrow> (Ret False, env (tp_looks_update (\<lambda>_. k)) s)),
     pf_sync_info = io_return (SyncInfo 0),
     pf_initialize_from = (\<lambda>_. io_return ())\<rparr>"

text \<open>The clock during a turn of a worker.\<close>

definition worker_platform :: "instant \<Rightarrow> timestamp \<Rightarrow> 'w platform" where
  "worker_platform now stamp =
    \<lparr>pf_now = io_return now, pf_timestamp = io_return stamp, pf_sleep = (\<lambda>_. io_return ()),
     pf_shutdown_requested = io_return False, pf_sync_info = io_return (SyncInfo 0),
     pf_initialize_from = (\<lambda>_. io_return ())\<rparr>"

text \<open>
  A turn: one iteration of the worker's loop on its channels. A worker whose response would not fit
  into the channel of the scheduler blocks and does not finish its turn. A worker that has returned
  is gone and its channel closed.
\<close>

definition worker_turn :: "'a activity_ops \<Rightarrow> worker_id \<Rightarrow> 'a system \<Rightarrow> 'a system" where
  "worker_turn ops wid s =
    (case (map_of (tp_workers (ms_env s)) wid, map_of (ms_out s) (ChWorker wid)) of
       (Some wk, Some ch) \<Rightarrow>
         if length (ch_queue (ms_in s)) < mpsc_channel_bound then
           let p = ms_env s;
               wk0 = wk\<lparr>wk_world := (wk_world wk)\<lparr>we_receiver := ch, we_sender := ms_in s\<rparr>\<rparr>
           in case worker_run 1 (mpsc_connect_worker 0 (io_return 0))
                  (worker_platform (tp_times p (tp_tick p)) (tp_stamps p (tp_tick p))) ops wk0 of
                (r, wk1) \<Rightarrow>
                  let alive = (r = Hang)
                  in s\<lparr>ms_in := we_sender (wk_world wk1),
                       ms_out := modify_key (ChWorker wid)
                         (\<lambda>_. (we_receiver (wk_world wk1))\<lparr>ch_receiver_alive := alive\<rparr>) (ms_out s),
                       ms_env := p\<lparr>tp_tick := Suc (tp_tick p),
                         tp_workers := (if alive then modify_key wid (\<lambda>_. wk1) (tp_workers p)
                                        else AList.delete wid (tp_workers p))\<rparr>\<rparr>
         else s
     | _ \<Rightarrow> s)"

definition waiting_workers :: "'a system \<Rightarrow> worker_id list" where
  "waiting_workers s =
    filter (\<lambda>wid. case map_of (ms_out s) (ChWorker wid) of None \<Rightarrow> False | Some ch \<Rightarrow> ch_queue ch \<noteq> [])
      (map fst (tp_workers (ms_env s)))"

definition system_wait :: "'a activity_ops \<Rightarrow> ('a system, unit) io" where
  "system_wait ops s =
    (let burst = (case tp_schedule (ms_env s) of [] \<Rightarrow> [] | b # _ \<Rightarrow> b);
         s1 = fold (worker_turn ops) burst (env (tp_schedule_update tl) s);
         s2 = (if ch_queue (ms_in s1) \<noteq> [] then s1
               else case waiting_workers s1 of [] \<Rightarrow> s1 | wid # _ \<Rightarrow> worker_turn ops wid s1)
     in (Ret (), s2))"

definition system_connector :: "'a activity_ops \<Rightarrow> 'a system connect_scheduler" where
  "system_connector ops = mpsc_connect_scheduler 0 (system_wait ops) system_platform"

section \<open>The invariant\<close>

text \<open>The activities a queue speaks of.\<close>

fun msg_activity :: "mpsc_signal \<Rightarrow> activity_id option" where
  "msg_activity (MCore (Ready i t)) = Some i"
| "msg_activity (MCore (Startup i t)) = Some i"
| "msg_activity (MCore (Step i t)) = Some i"
| "msg_activity (MCore (Shutdown i t)) = Some i"
| "msg_activity _ = None"

abbreviation queue_ids :: "mpsc_signal list \<Rightarrow> activity_id list" where
  "queue_ids \<equiv> List.map_filter msg_activity"

definition in_ids :: "'a system \<Rightarrow> activity_id list" where
  "in_ids s = queue_ids (ch_queue (ms_in s))"

definition out_ids :: "'a system \<Rightarrow> activity_id list" where
  "out_ids s = concat (map (\<lambda>(_, ch). queue_ids (ch_queue ch)) (ms_out s))"

fun is_ready_msg :: "mpsc_signal \<Rightarrow> bool" where
  "is_ready_msg (MCore (Ready i t)) \<longleftrightarrow> True"
| "is_ready_msg _ \<longleftrightarrow> False"

fun is_request :: "(activity_id \<times> worker_id) list \<Rightarrow> channel_id \<Rightarrow> mpsc_signal \<Rightarrow> bool" where
  "is_request AW c (MCore (Startup i t)) \<longleftrightarrow> map_option ChWorker (map_of AW i) = Some c"
| "is_request AW c (MCore (Step i t)) \<longleftrightarrow> map_option ChWorker (map_of AW i) = Some c"
| "is_request AW c (MCore (Shutdown i t)) \<longleftrightarrow> map_option ChWorker (map_of AW i) = Some c"
| "is_request AW c _ \<longleftrightarrow> False"

definition channel_ok :: "(activity_id \<times> worker_id) list \<Rightarrow> channel_id \<times> mpsc_signal channel \<Rightarrow> bool" where
  "channel_ok AW = (\<lambda>(c, ch). ch_receiver_alive ch \<and> ch_sender_alive ch \<and> list_all (is_request AW c) (ch_queue ch))"

text \<open>Every worker is in the map and connected, and those of the map are alive and have their activities.\<close>

definition workers_ok :: "(activity_id \<times> worker_id) list \<Rightarrow> 'a system \<Rightarrow> bool" where
  "workers_ok AW s \<longleftrightarrow> distinct (map fst (tp_workers (ms_env s)))
    \<and> list_all (\<lambda>(wid, wk). we_connected (wk_world wk) \<noteq> None \<and> wid \<in> snd ` set AW) (tp_workers (ms_env s))
    \<and> (\<forall>(i, wid) \<in> set AW.
        map_of (ms_out s) (ChWorker wid) \<noteq> None
        \<and> (\<exists>wk. map_of (tp_workers (ms_env s)) wid = Some wk \<and> wk_activities wk i \<noteq> None))"

definition system_ok :: "(activity_id \<times> worker_id) list \<Rightarrow> activity_id set \<Rightarrow> nat \<Rightarrow> 'a system \<Rightarrow> bool" where
  "system_ok AW X l s \<longleftrightarrow> ms_activity_worker s = AW \<and> ms_connected s
    \<and> ch_receiver_alive (ms_in s) \<and> ch_sender_alive (ms_in s) \<and> list_all is_ready_msg (ch_queue (ms_in s))
    \<and> distinct (map fst (ms_out s)) \<and> list_all (channel_ok AW) (ms_out s)
    \<and> mset (in_ids s) + mset (out_ids s) = mset_set X \<and> X \<subseteq> fst ` set AW
    \<and> workers_ok AW s \<and> tp_looks (ms_env s) = l"

definition ops_ok :: "'a activity_ops \<Rightarrow> bool" where
  "ops_ok ops \<longleftrightarrow> (\<forall>a. \<exists>a1 a2 a3. act_startup ops a = (Ret (Inr ()), a1)
    \<and> act_step ops a = (Ret (Inr ()), a2) \<and> act_shutdown ops a = (Ret (Inr ()), a3))"

definition map_ok :: "(activity_id \<times> worker_id) list \<Rightarrow> bool" where
  "map_ok AW \<longleftrightarrow> distinct (map fst AW) \<and> length AW < mpsc_channel_bound"

section \<open>A turn of a worker\<close>

lemma queue_ids_length:
  "list_all is_ready_msg q \<Longrightarrow> length (queue_ids q) = length q"
  "list_all (is_request AW c) q \<Longrightarrow> length (queue_ids q) = length q"
  by (induction q) (auto elim: is_ready_msg.elims is_request.elims)

lemma worker_run_idle:
  assumes "ch_queue ch = []" "ch_sender_alive ch" "we_connected (wk_world wk) \<noteq> None"
  shows "worker_run 1 (mpsc_connect_worker n e) pf ops
    (wk\<lparr>wk_world := (wk_world wk)\<lparr>we_receiver := ch, we_sender := c\<rparr>\<rparr>)
    = (Hang, wk\<lparr>wk_world := (wk_world wk)\<lparr>we_receiver := ch, we_sender := c\<rparr>\<rparr>)"
  using assms
  by (simp add: io_defs wk_receive_def wk_io_def mpsc_connect_worker_def we_in_def
      protocol_receiver_receive_def chan_receive_def core_only_def)

lemma worker_run_request:
  assumes "ch_queue ch = MCore sig # rest" "call_of sig = Some (i, k)" "we_connected (wk_world wk) \<noteq> None"
    "wk_activities wk i = Some a" "ops_ok ops" "ch_receiver_alive c"
    "length (ch_queue c) < mpsc_channel_bound"
  shows "\<exists>a' log. worker_run 1 (mpsc_connect_worker n e) (worker_platform now stamp) ops
    (wk\<lparr>wk_world := (wk_world wk)\<lparr>we_receiver := ch, we_sender := c\<rparr>\<rparr>)
    = (Hang, wk\<lparr>wk_activities := (wk_activities wk)(i \<mapsto> a'), wk_log := log,
        wk_world := (wk_world wk)\<lparr>we_receiver := ch\<lparr>ch_queue := rest\<rparr>,
          we_sender := c\<lparr>ch_queue := ch_queue c @ [MCore (Ready i stamp)]\<rparr>\<rparr>\<rparr>)"
proof -
  obtain a1 a2 a3 where "act_startup ops a = (Ret (Inr ()), a1)" "act_step ops a = (Ret (Inr ()), a2)"
    "act_shutdown ops a = (Ret (Inr ()), a3)"
    using assms(5) unfolding ops_ok_def by metis
  with assms show ?thesis
    by (cases sig)
      (auto simp: io_defs wk_receive_def wk_io_def wk_event_def mpsc_connect_worker_def we_in_def we_out_def
        protocol_receiver_receive_def chan_receive_def core_only_def handle_activity_signal_def
        call_activity_def respond_def worker_platform_def pf_elapsed_def wk_send_def
        protocol_sender_send_def chan_send_def)
qed

lemma request_call:
  "is_request AW c m \<Longrightarrow> \<exists>sig i k wid. m = MCore sig \<and> call_of sig = Some (i, k) \<and> msg_activity m = Some i
    \<and> map_of AW i = Some wid \<and> c = ChWorker wid"
  by (auto elim!: is_request.elims simp: map_option_eq_Some)

lemma out_ids_modify:
  assumes "distinct (map fst (ms_out s))" "map_of (ms_out s) c = Some ch"
  shows "mset (out_ids (s\<lparr>ms_out := modify_key c (\<lambda>_. ch') (ms_out s)\<rparr>)) + mset (queue_ids (ch_queue ch))
    = mset (out_ids s) + mset (queue_ids (ch_queue ch'))"
  by (rule modify_key_split [OF assms]) (simp add: out_ids_def)

lemma channel_ok_modify:
  assumes "list_all (channel_ok AW) out" "channel_ok AW (c, ch')"
  shows "list_all (channel_ok AW) (modify_key c (\<lambda>_. ch') out)"
  using assms by (auto simp: list_all_iff set_modify_key)

text \<open>The worker that takes the turn, before and after.\<close>

lemma workers_ok_modify:
  assumes "workers_ok AW s" "map_of (tp_workers (ms_env s)) wid = Some wk"
    and "we_connected (wk_world new) = we_connected (wk_world wk)"
    and "\<And>i. wk_activities wk i \<noteq> None \<Longrightarrow> wk_activities new i \<noteq> None"
    and "map fst (ms_out s') = map fst (ms_out s)"
    and "tp_workers (ms_env s') = modify_key wid (\<lambda>_. new) (tp_workers (ms_env s))"
  shows "workers_ok AW s'"
proof -
  have dom: "map_of (ms_out s') c \<noteq> None \<longleftrightarrow> map_of (ms_out s) c \<noteq> None" for c
    using assms(5) by (metis map_of_None_iff list.set_map)
  have "we_connected (wk_world new) \<noteq> None"
    using assms(1-3) by (auto simp: workers_ok_def list_all_iff dest!: map_of_SomeD)
  then have "list_all (\<lambda>(wid, wk). we_connected (wk_world wk) \<noteq> None \<and> wid \<in> snd ` set AW) (tp_workers (ms_env s'))"
    using assms(1,2,6) by (fastforce simp: workers_ok_def list_all_iff set_modify_key dest: map_of_SomeD)
  moreover have "distinct (map fst (tp_workers (ms_env s')))"
    using assms(1,6) by (simp add: workers_ok_def)
  moreover have "\<exists>wk. map_of (tp_workers (ms_env s')) w = Some wk \<and> wk_activities wk i \<noteq> None"
    if "(i, w) \<in> set AW" for i w
    using assms(1,2,4,6) that by (cases "w = wid") (auto simp: workers_ok_def)
  ultimately show ?thesis using assms(1) dom by (auto simp: workers_ok_def)
qed

lemma workers_ok_cong:
  assumes "workers_ok AW s" "map fst (ms_out s') = map fst (ms_out s)"
    "tp_workers (ms_env s') = tp_workers (ms_env s)"
  shows "workers_ok AW s'"
proof -
  have "map_of (ms_out s') c = None \<longleftrightarrow> map_of (ms_out s) c = None" for c
    using assms(2) by (metis map_of_None_iff list.set_map)
  with assms(1,3) show ?thesis unfolding workers_ok_def by (simp del: map_of_eq_Some_iff)
qed

lemma worker_turn_ok:
  assumes ok: "system_ok AW X l s" and ops: "ops_ok ops"
  shows "system_ok AW X l (worker_turn ops wid s)
    \<and> (map_of (ms_out s) (ChWorker wid) = Some ch \<longrightarrow> ch_queue ch \<noteq> [] \<longrightarrow> ch_queue (ms_in s) = [] \<longrightarrow>
        ch_queue (ms_in (worker_turn ops wid s)) \<noteq> [])"
proof (cases "map_of (tp_workers (ms_env s)) wid \<noteq> None \<and> map_of (ms_out s) (ChWorker wid) \<noteq> None
    \<and> length (ch_queue (ms_in s)) < mpsc_channel_bound")
  case False
  have "worker_turn ops wid s = s"
    using False by (auto simp: worker_turn_def split: option.split)
  moreover have "\<not> (map_of (ms_out s) (ChWorker wid) = Some ch \<and> ch_queue ch \<noteq> [] \<and> ch_queue (ms_in s) = [])"
  proof (intro notI, elim conjE)
    assume ch: "map_of (ms_out s) (ChWorker wid) = Some ch" and q: "ch_queue ch \<noteq> []" "ch_queue (ms_in s) = []"
    from ch ok have "channel_ok AW (ChWorker wid, ch)"
      by (auto simp: system_ok_def list_all_iff dest: map_of_SomeD)
    then have "is_request AW (ChWorker wid) (hd (ch_queue ch))" using q(1) by (simp add: channel_ok_def list_all_iff)
    then obtain i where "map_of AW i = Some wid" by (auto dest!: request_call)
    then have "map_of (tp_workers (ms_env s)) wid \<noteq> None"
      using ok by (force simp: system_ok_def workers_ok_def dest: map_of_SomeD)
    with False ch q(2) show False by (simp add: mpsc_channel_bound_def)
  qed
  ultimately show ?thesis using ok by auto
next
  case True
  then obtain wk ch0 where wk: "map_of (tp_workers (ms_env s)) wid = Some wk"
    and ch0: "map_of (ms_out s) (ChWorker wid) = Some ch0"
    and room: "length (ch_queue (ms_in s)) < mpsc_channel_bound" by auto
  let ?p = "ms_env s"
  let ?now = "tp_times ?p (tp_tick ?p)" and ?stamp = "tp_stamps ?p (tp_tick ?p)"
  let ?wk0 = "wk\<lparr>wk_world := (wk_world wk)\<lparr>we_receiver := ch0, we_sender := ms_in s\<rparr>\<rparr>"
  let ?run = "worker_run 1 (mpsc_connect_worker 0 (io_return 0)) (worker_platform ?now ?stamp) ops ?wk0"
  have keys: "distinct (map fst (ms_out s))" and outs: "list_all (channel_ok AW) (ms_out s)"
    and wok: "workers_ok AW s" using ok by (simp_all add: system_ok_def)
  have cok: "channel_ok AW (ChWorker wid, ch0)"
    using ch0 outs by (auto simp: list_all_iff dest: map_of_SomeD)
  have conn: "we_connected (wk_world wk) \<noteq> None"
    using wk wok by (auto simp: workers_ok_def list_all_iff dest!: map_of_SomeD)
  have turn: "worker_turn ops wid s = s\<lparr>ms_in := we_sender (wk_world wk1),
      ms_out := modify_key (ChWorker wid) (\<lambda>_. (we_receiver (wk_world wk1))\<lparr>ch_receiver_alive := True\<rparr>) (ms_out s),
      ms_env := ?p\<lparr>tp_tick := Suc (tp_tick ?p), tp_workers := modify_key wid (\<lambda>_. wk1) (tp_workers ?p)\<rparr>\<rparr>"
    if "?run = (Hang, wk1)" for wk1
    using that wk ch0 room by (simp add: worker_turn_def Let_def)
  show ?thesis
  proof (cases "ch_queue ch0")
    case Nil
    have "?run = (Hang, ?wk0)"
      using Nil cok conn by (intro worker_run_idle) (simp_all add: channel_ok_def)
    from turn [OF this] have t: "worker_turn ops wid s = s\<lparr>ms_in := ms_in s,
      ms_out := modify_key (ChWorker wid) (\<lambda>_. ch0\<lparr>ch_receiver_alive := True\<rparr>) (ms_out s),
      ms_env := ?p\<lparr>tp_tick := Suc (tp_tick ?p), tp_workers := modify_key wid (\<lambda>_. ?wk0) (tp_workers ?p)\<rparr>\<rparr>"
      by simp
    have "ch0\<lparr>ch_receiver_alive := True\<rparr> = ch0" using cok by (cases ch0) (simp add: channel_ok_def)
    then have same: "modify_key (ChWorker wid) (\<lambda>_. ch0\<lparr>ch_receiver_alive := True\<rparr>) (ms_out s) = ms_out s"
      by (auto intro: modify_key_split [OF keys ch0])
    have "workers_ok AW (worker_turn ops wid s)"
      by (rule workers_ok_modify [OF wok wk, where new = ?wk0]) (simp_all add: t)
    then have "system_ok AW X l (worker_turn ops wid s)"
      using ok unfolding t same by (simp add: system_ok_def in_ids_def out_ids_def)
    with Nil ch0 show ?thesis by auto
  next
    case (Cons m rest)
    then have "is_request AW (ChWorker wid) m" using cok by (simp add: channel_ok_def)
    then obtain sig i k where m: "m = MCore sig" "call_of sig = Some (i, k)" "msg_activity m = Some i"
      "map_of AW i = Some wid" by (auto dest!: request_call)
    have "(i, wid) \<in> set AW" using m(4) by (rule map_of_SomeD)
    then obtain a where a: "wk_activities wk i = Some a" using wok wk by (force simp: workers_ok_def)
    have alive: "ch_receiver_alive (ms_in s)" using ok by (simp add: system_ok_def)
    let ?ch = "ch0\<lparr>ch_queue := rest\<rparr>"
    let ?in = "(ms_in s)\<lparr>ch_queue := ch_queue (ms_in s) @ [MCore (Ready i ?stamp)]\<rparr>"
    obtain a' log where r: "?run = (Hang, wk\<lparr>wk_activities := (wk_activities wk)(i \<mapsto> a'), wk_log := log,
        wk_world := (wk_world wk)\<lparr>we_receiver := ?ch, we_sender := ?in\<rparr>\<rparr>)"
      using worker_run_request [OF Cons [unfolded m(1)] m(2) conn a ops alive room] by blast
    let ?wk1 = "wk\<lparr>wk_activities := (wk_activities wk)(i \<mapsto> a'), wk_log := log,
        wk_world := (wk_world wk)\<lparr>we_receiver := ?ch, we_sender := ?in\<rparr>\<rparr>"
    let ?out = "modify_key (ChWorker wid) (\<lambda>_. ?ch\<lparr>ch_receiver_alive := True\<rparr>) (ms_out s)"
    from turn [OF r] have t: "worker_turn ops wid s = s\<lparr>ms_in := ?in, ms_out := ?out,
      ms_env := ?p\<lparr>tp_tick := Suc (tp_tick ?p), tp_workers := modify_key wid (\<lambda>_. ?wk1) (tp_workers ?p)\<rparr>\<rparr>"
      by simp
    have "workers_ok AW (worker_turn ops wid s)"
      by (rule workers_ok_modify [OF wok wk, where new = ?wk1]) (simp_all add: t)
    moreover have "list_all (channel_ok AW) ?out"
      using cok Cons by (intro channel_ok_modify outs) (simp add: channel_ok_def)
    moreover have "mset (out_ids (s\<lparr>ms_out := ?out\<rparr>)) + {#i#} = mset (out_ids s)"
      using out_ids_modify [OF keys ch0, of "?ch\<lparr>ch_receiver_alive := True\<rparr>"] Cons m(3) by simp
    then have "mset (in_ids s @ [i]) + mset (out_ids (s\<lparr>ms_out := ?out\<rparr>)) = mset_set X"
      using ok by (simp add: system_ok_def) (metis add_mset_add_single union_mset_add_mset_right)
    ultimately have "system_ok AW X l (worker_turn ops wid s)"
      using ok unfolding t by (simp add: system_ok_def in_ids_def out_ids_def)
    then show ?thesis by (simp add: t)
  qed
qed

section \<open>The system is responsive\<close>

lemma system_ok_env:
  assumes "system_ok AW X l s" "tp_workers (f (ms_env s)) = tp_workers (ms_env s)"
    "tp_looks (f (ms_env s)) = l'"
  shows "system_ok AW X l' (env f s)"
proof -
  have "workers_ok AW (env f s)"
    by (rule workers_ok_cong [of AW s]) (use assms in \<open>simp_all add: system_ok_def env_def\<close>)
  with assms show ?thesis by (simp add: system_ok_def env_def in_ids_def out_ids_def)
qed

lemma fold_turns_ok:
  assumes "system_ok AW X l s" "ops_ok ops"
  shows "system_ok AW X l (fold (worker_turn ops) wids s)"
  using assms(1) worker_turn_ok [OF _ assms(2)] by (induction wids arbitrary: s) auto

lemma out_ids_empty: "(\<And>c ch. (c, ch) \<in> set (ms_out s) \<Longrightarrow> ch_queue ch = []) \<Longrightarrow> out_ids s = []"
  by (auto simp: out_ids_def)

lemma system_wait_ok:
  assumes "system_ok AW X l s" "ops_ok ops" "map_ok AW"
  shows "\<exists>s'. system_wait ops s = (Ret (), s') \<and> system_ok AW X l s'
    \<and> (X \<noteq> {} \<longrightarrow> ch_queue (ms_in s') \<noteq> [])"
proof -
  let ?burst = "case tp_schedule (ms_env s) of [] \<Rightarrow> [] | b # _ \<Rightarrow> b"
  let ?s1 = "fold (worker_turn ops) ?burst (env (tp_schedule_update tl) s)"
  have ok1: "system_ok AW X l ?s1"
    by (rule fold_turns_ok [OF system_ok_env [OF assms(1)] assms(2)]) (use assms(1) in \<open>simp_all add: system_ok_def\<close>)
  let ?s2 = "if ch_queue (ms_in ?s1) \<noteq> [] then ?s1
    else case waiting_workers ?s1 of [] \<Rightarrow> ?s1 | wid # _ \<Rightarrow> worker_turn ops wid ?s1"
  have run: "system_wait ops s = (Ret (), ?s2)" by (simp add: system_wait_def Let_def)
  show ?thesis
  proof (cases "ch_queue (ms_in ?s1) \<noteq> []")
    case True
    with run ok1 show ?thesis by simp
  next
    case False
    show ?thesis
    proof (cases "waiting_workers ?s1")
      case (Cons wid ws)
      then have "wid \<in> set (waiting_workers ?s1)" by simp
      then obtain ch where "map_of (ms_out ?s1) (ChWorker wid) = Some ch" "ch_queue ch \<noteq> []"
        by (auto simp: waiting_workers_def split: option.splits)
      with worker_turn_ok [OF ok1 assms(2), of wid ch] run Cons False show ?thesis by simp
    next
      case Nil
      have "X = {}"
      proof -
        have "ch_queue ch = []" if "(c, ch) \<in> set (ms_out ?s1)" for c ch
        proof (rule ccontr)
          assume q: "ch_queue ch \<noteq> []"
          have "channel_ok AW (c, ch)" using ok1 that by (auto simp: system_ok_def list_all_iff)
          then have "is_request AW c (hd (ch_queue ch))" using q by (simp add: channel_ok_def list_all_iff)
          then obtain i wid where i: "map_of AW i = Some wid" "c = ChWorker wid" by (auto dest!: request_call)
          have "map_of (tp_workers (ms_env ?s1)) wid \<noteq> None"
            using ok1 map_of_SomeD [OF i(1)] by (force simp: system_ok_def workers_ok_def)
          then have "wid \<in> fst ` set (tp_workers (ms_env ?s1))" by (simp add: map_of_None_iff)
          moreover have "map_of (ms_out ?s1) (ChWorker wid) = Some ch"
            using ok1 that i(2) by (simp add: system_ok_def)
          ultimately have "wid \<in> set (waiting_workers ?s1)" using q by (simp add: waiting_workers_def)
          with Nil show False by simp
        qed
        then have "out_ids ?s1 = []" by (rule out_ids_empty)
        moreover have "in_ids ?s1 = []" using False by (simp add: in_ids_def)
        ultimately have "mset_set X = {#}" using ok1 by (simp add: system_ok_def)
        moreover have "finite X" using ok1 by (auto simp: system_ok_def intro: finite_subset)
        ultimately show "X = {}" by (simp add: mset_set_empty_iff)
      qed
      with run ok1 Nil False show ?thesis by simp
    qed
  qed
qed

lemma system_total:
  assumes "\<And>s. system_ok AW X l s \<Longrightarrow> \<exists>a s'. m s = (Ret a, s') \<and> Q a s'"
  shows "returns (system_ok AW X l) m Q"
  unfolding hoare_def using assms by (metis (mono_tags, lifting) case_prod_conv outcome.simps(8))

lemma queue_length:
  assumes "system_ok AW X l s" "map_of (ms_out s) c = Some ch"
  shows "length (ch_queue ch) \<le> card X"
proof -
  have keys: "distinct (map fst (ms_out s))" and ok: "channel_ok AW (c, ch)"
    using assms by (auto simp: system_ok_def list_all_iff dest: map_of_SomeD)
  obtain as bs where "ms_out s = as @ (c, ch) # bs" using modify_key_split [OF keys assms(2)] by metis
  then have "mset (out_ids s) = mset (queue_ids (ch_queue ch))
      + (mset (concat (map (\<lambda>(_, ch). queue_ids (ch_queue ch)) as))
        + mset (concat (map (\<lambda>(_, ch). queue_ids (ch_queue ch)) bs)))"
    by (simp add: out_ids_def)
  then have "mset (queue_ids (ch_queue ch)) \<subseteq># mset (out_ids s)" by simp
  also have "mset (out_ids s) \<subseteq># mset_set X"
    using assms(1) by (simp add: system_ok_def) (metis mset_subset_eq_add_right)
  finally have "size (mset (queue_ids (ch_queue ch))) \<le> size (mset_set X)" by (rule size_mset_mono)
  then show ?thesis
    using ok queue_ids_length(2) [of AW c "ch_queue ch"] by (simp add: channel_ok_def)
qed

lemma queue_room:
  assumes "system_ok AW X l s" "map_ok AW" "map_of (ms_out s) c = Some ch"
  shows "length (ch_queue ch) < mpsc_channel_bound"
proof -
  have "card X \<le> card (fst ` set AW)"
    using assms(1) by (intro card_mono) (auto simp: system_ok_def)
  also have "\<dots> < mpsc_channel_bound"
    using assms(2) distinct_card [of "map fst AW"] by (simp add: map_ok_def)
  finally show ?thesis using queue_length [OF assms(1,3)] by linarith
qed

lemma system_send:
  assumes "map_ok AW" "i \<in> fst ` set AW" "i \<notin> X" "activity_signal i sig"
  shows "returns (system_ok AW X l) (ms_send (ChActivity i) sig)
    (\<lambda>r s. r = Inr () \<and> system_ok AW (insert i X) l s)"
proof (rule system_total)
  fix s :: "'a system"
  assume ok: "system_ok AW X l s"
  from assms(2) obtain wid where wid: "map_of AW i = Some wid" by (metis map_of_None_iff option.exhaust)
  have "(i, wid) \<in> set AW" using wid by (rule map_of_SomeD)
  then obtain ch where ch: "map_of (ms_out s) (ChWorker wid) = Some ch"
    using ok by (force simp: system_ok_def workers_ok_def)
  have keys: "distinct (map fst (ms_out s))" and outs: "list_all (channel_ok AW) (ms_out s)"
    using ok by (simp_all add: system_ok_def)
  have cok: "channel_ok AW (ChWorker wid, ch)" using ch outs by (auto simp: list_all_iff dest: map_of_SomeD)
  let ?ch = "ch\<lparr>ch_queue := ch_queue ch @ [MCore sig]\<rparr>"
  let ?s = "s\<lparr>ms_out := modify_key (ChWorker wid) (\<lambda>_. ?ch) (ms_out s)\<rparr>"
  have "ms_activity_worker s = AW" using ok by (simp add: system_ok_def)
  then have run: "ms_send (ChActivity i) sig s = (Ret (Inr ()), ?s)"
    using wid ch cok queue_room [OF ok assms(1) ch]
    by (simp add: ms_send_def io_defs ms_senders_def multi_sender_send_def on_channel_def
        protocol_sender_send_def chan_send_def channel_ok_def)
  have req: "is_request AW (ChWorker wid) (MCore sig)" "msg_activity (MCore sig) = Some i"
    using assms(4) wid by (cases sig; simp)+
  have "channel_ok AW (ChWorker wid, ?ch)" using cok req(1) by (simp add: channel_ok_def)
  then have "list_all (channel_ok AW) (ms_out ?s)" by (simp add: channel_ok_modify [OF outs])
  moreover have "mset (out_ids ?s) = mset (out_ids s) + {#i#}"
    using out_ids_modify [OF keys ch, of ?ch] req(2) by simp
  moreover have "finite X" using ok by (auto simp: system_ok_def intro: finite_subset)
  moreover have "workers_ok AW ?s"
    by (rule workers_ok_cong [of AW s]) (use ok in \<open>simp_all add: system_ok_def\<close>)
  ultimately have "system_ok AW (insert i X) l ?s"
    using ok assms(2,3) by (simp add: system_ok_def in_ids_def)
  with run show "\<exists>a s'. ms_send (ChActivity i) sig s = (Ret a, s') \<and> a = Inr () \<and> system_ok AW (insert i X) l s'"
    by blast
qed

lemma system_receive:
  assumes "map_ok AW" "ops_ok ops" "X \<noteq> {}"
  shows "returns (system_ok AW X l) (io_bind (system_wait ops) (\<lambda>_. ms_receive d))
    (\<lambda>r s. \<exists>i t. i \<in> X \<and> r = Inr (Some (Ready i t)) \<and> system_ok AW (X - {i}) l s)"
proof (rule system_total)
  fix s :: "'a system"
  assume ok: "system_ok AW X l s"
  obtain s' where w: "system_wait ops s = (Ret (), s')" and ok': "system_ok AW X l s'"
    and q: "ch_queue (ms_in s') \<noteq> []" using system_wait_ok [OF ok assms(2,1)] assms(3) by blast
  then obtain m rest where m: "ch_queue (ms_in s') = m # rest" by (meson neq_Nil_conv)
  with ok' obtain i t where i: "m = MCore (Ready i t)"
    by (auto simp: system_ok_def elim: is_ready_msg.elims)
  let ?s = "s'\<lparr>ms_in := (ms_in s')\<lparr>ch_queue := rest\<rparr>\<rparr>"
  have "ms_connected s'" using ok' by (simp add: system_ok_def)
  then have run: "io_bind (system_wait ops) (\<lambda>_. ms_receive d) s = (Ret (Inr (Some (Ready i t))), ?s)"
    using w m i by (simp add: io_defs ms_receive_def ms_receiver_def multi_receiver_receive_def
        chan_receive_def core_only_def)
  have fin: "finite X" using ok by (auto simp: system_ok_def intro: finite_subset)
  have eq: "add_mset i (mset (in_ids ?s) + mset (out_ids ?s)) = mset_set X"
    using ok' m i by (simp add: system_ok_def in_ids_def out_ids_def)
  then have "i \<in># mset_set X" by (metis union_single_eq_member add_mset_add_single)
  then have iX: "i \<in> X" using fin by simp
  then have "mset (in_ids ?s) + mset (out_ids ?s) = mset_set (X - {i})"
    using eq fin by (simp add: mset_set_Diff flip: add_mset_remove_trivial)
      (metis add_mset_remove_trivial)
  moreover have "workers_ok AW ?s"
    by (rule workers_ok_cong [of AW s']) (use ok' in \<open>simp_all add: system_ok_def\<close>)
  ultimately have "system_ok AW (X - {i}) l ?s"
    using ok' m by (auto simp: system_ok_def in_ids_def)
  with run iX show "\<exists>a s''. io_bind (system_wait ops) (\<lambda>_. ms_receive d) s = (Ret a, s'')
      \<and> (\<exists>i t. i \<in> X \<and> a = Inr (Some (Ready i t)) \<and> system_ok AW (X - {i}) l s'')" by blast
qed

text \<open>Broadcasting: every queue has room for one more signal.\<close>

definition queued :: "mpsc_signal \<Rightarrow> mpsc_signal channel \<Rightarrow> mpsc_signal channel" where
  "queued m ch = ch\<lparr>ch_queue := ch_queue ch @ [m]\<rparr>"

lemma broadcast_ok:
  assumes "distinct (map fst chs)"
    "\<And>c ch. (c, ch) \<in> set chs \<Longrightarrow> ch_receiver_alive ch \<and> length (ch_queue ch) < mpsc_channel_bound"
  shows "broadcast m chs = (Ret (Inr ()), map (\<lambda>(c, ch). (c, queued m ch)) chs)"
proof -
  let ?body = "\<lambda>c. io_bind (on_channel c (chan_send m)) (\<lambda>r.
      io_return (case r of Inl _ \<Rightarrow> Inl (EChannel ''broadcast failed: a channel was closed'') | Inr u \<Rightarrow> Inr u))
      :: (mpsc_channels, error + unit) io"
  have body: "io_try_for cs ?body chs = (Ret (Inr ()), map (\<lambda>(c, ch). (c, if c \<in> set cs then queued m ch else ch)) chs)"
    if "distinct cs" "distinct (map fst chs)" "\<And>c. c \<in> set cs \<Longrightarrow>
      \<exists>ch. map_of chs c = Some ch \<and> ch_receiver_alive ch \<and> length (ch_queue ch) < mpsc_channel_bound" for cs chs
    using that
  proof (induction cs arbitrary: chs)
    case Nil
    then show ?case by (simp add: io_return_def)
  next
    case (Cons c cs)
    from Cons.prems(3) [of c] obtain ch where ch: "map_of chs c = Some ch" "ch_receiver_alive ch"
      "length (ch_queue ch) < mpsc_channel_bound" by auto
    let ?chs = "modify_key c (\<lambda>_. queued m ch) chs"
    have "?body c chs = (Ret (Inr ()), ?chs)"
      using ch by (simp add: on_channel_def chan_send_def io_bind_def io_return_def queued_def)
    moreover have "io_try_for cs ?body ?chs
        = (Ret (Inr ()), map (\<lambda>(c, ch). (c, if c \<in> set cs then queued m ch else ch)) ?chs)"
      using Cons.prems by (intro Cons.IH) auto
    moreover have "map (\<lambda>(c, ch). (c, if c \<in> set cs then queued m ch else ch)) ?chs
        = map (\<lambda>(d, ch). (d, if d \<in> set (c # cs) then queued m ch else ch)) chs"
      using Cons.prems(1,2) map_of_SomeD [OF ch(1)] by (auto simp: modify_key_def dest: eq_key_imp_eq_value)
    ultimately show ?case by (simp only: io_try_for_step)
  qed
  have "io_try_for (map fst chs) ?body chs
      = (Ret (Inr ()), map (\<lambda>(c, ch). (c, if c \<in> set (map fst chs) then queued m ch else ch)) chs)"
    using assms by (intro body) (force dest!: map_of_is_SomeI)+
  moreover have "map (\<lambda>(c, ch). (c, if c \<in> set (map fst chs) then queued m ch else ch)) chs = map (\<lambda>(c, ch). (c, queued m ch)) chs"
    by force
  ultimately show ?thesis by (simp add: broadcast_def io_bind_def io_gets_def)
qed

text \<open>What the run of the scheduler leaves: every queue ends with a terminate.\<close>

definition terminating :: "(activity_id \<times> worker_id) list \<Rightarrow> 'a system \<Rightarrow> bool" where
  "terminating AW s \<longleftrightarrow> (\<exists>X l s0 t. system_ok AW X l s0 \<and> ms_in s = ms_in s0
    \<and> tp_workers (ms_env s) = tp_workers (ms_env s0)
    \<and> ms_out s = map (\<lambda>(c, ch). (c, queued (MCore (Terminate t)) ch)) (ms_out s0))"

lemma system_broadcast:
  assumes "map_ok AW"
  shows "returns (system_ok AW X l) (cs_broadcast_terminate (system_connector ops) (Terminate t))
    (\<lambda>_ w. set (cs_connected_agents (system_connector ops) w) \<subseteq> {own} \<and> terminating AW w)"
proof (rule system_total)
  fix s :: "'a system"
  assume ok: "system_ok AW X l s"
  have "ch_receiver_alive ch \<and> length (ch_queue ch) < mpsc_channel_bound" if "(c, ch) \<in> set (ms_out s)" for c ch
    using that ok queue_room [OF ok assms, of c ch] by (auto simp: system_ok_def list_all_iff channel_ok_def)
  moreover have "distinct (map fst (ms_out s))" using ok by (simp add: system_ok_def)
  ultimately have cast: "broadcast m (ms_out s) = (Ret (Inr ()), map (\<lambda>(c, ch). (c, queued m ch)) (ms_out s))" for m
    by (intro broadcast_ok) auto
  let ?t = "tp_stamps (ms_env s) (tp_tick (ms_env s))"
  let ?s = "(tick s)\<lparr>ms_out := map (\<lambda>(c, ch). (c, queued (MCore (Terminate ?t)) ch)) (ms_out s)\<rparr>"
  have "cs_broadcast_terminate (system_connector ops) (Terminate t) s = (Ret (Inr ()), ?s)"
    by (simp add: system_connector_def mpsc_connect_scheduler_def io_bind_def ms_senders_def io_zoom_def
        system_platform_def tick_def env_def cast)
  moreover have "terminating AW ?s"
    unfolding terminating_def
    by (intro exI [of _ X] exI [of _ l] exI [of _ s] exI [of _ ?t]) (simp add: ok tick_def env_def)
  moreover have "cs_connected_agents (system_connector ops) ?s = []"
    by (simp add: system_connector_def mpsc_connect_scheduler_def)
  ultimately show "\<exists>a s'. cs_broadcast_terminate (system_connector ops) (Terminate t) s = (Ret a, s')
      \<and> set (cs_connected_agents (system_connector ops) s') \<subseteq> {own} \<and> terminating AW s'"
    by simp
qed

text \<open>The contract of \<open>responsive\<close> holds for the system, for any map of at most 127 activities.\<close>

lemma responsive_system:
  assumes "map_ok AW" "ops_ok ops"
  shows "responsive (system_connector ops) system_platform (fst ` set AW) own (system_ok AW) (terminating AW)"
proof
  fix X l
  show "returns (system_ok AW X l) (pf_now system_platform) (\<lambda>_. system_ok AW X l)"
    "returns (system_ok AW X l) (pf_timestamp system_platform) (\<lambda>_. system_ok AW X l)"
    by (rule system_total, simp add: system_platform_def tick_def,
        rule system_ok_env, assumption, simp, simp add: system_ok_def)+
  show "returns (system_ok AW X l) (pf_sleep system_platform d) (\<lambda>_. system_ok AW X l)" for d
    by (simp add: system_platform_def hoare_return)
  show "returns (system_ok AW X l) (pf_shutdown_requested system_platform)
      (\<lambda>b w. if b then system_ok AW X l w else \<exists>l'<l. system_ok AW X l' w)"
  proof (rule system_total)
    fix s :: "'b system"
    assume ok: "system_ok AW X l s"
    then have l: "tp_looks (ms_env s) = l" by (simp add: system_ok_def)
    show "\<exists>a s'. pf_shutdown_requested system_platform s = (Ret a, s')
        \<and> (if a then system_ok AW X l s' else \<exists>l'<l. system_ok AW X l' s')"
    proof (cases l)
      case 0
      with ok l show ?thesis by (auto simp: system_platform_def intro!: exI [of _ True])
    next
      case (Suc k)
      have "system_ok AW X k (env (tp_looks_update (\<lambda>_. k)) s)" by (rule system_ok_env [OF ok]) simp_all
      with Suc l show ?thesis by (auto simp: system_platform_def)
    qed
  qed
  show "returns (system_ok AW X l) (cs_send_to_activity (system_connector ops) i sig)
      (\<lambda>r w. r = Inr () \<and> system_ok AW (insert i X) l w)"
    if "i \<in> fst ` set AW" "i \<notin> X" "activity_signal i sig" for i sig
    using system_send [OF assms(1) that] by (simp add: system_connector_def mpsc_connect_scheduler_def)
  show "returns (system_ok AW X l) (cs_receive (system_connector ops) d)
      (\<lambda>r w. \<exists>i t. i \<in> X \<and> r = Inr (Some (Ready i t)) \<and> system_ok AW (X - {i}) l w)"
    if "X \<noteq> {}" for d
    using system_receive [OF assms that] by (simp add: system_connector_def mpsc_connect_scheduler_def)
  show "returns (system_ok AW X l) (cs_broadcast_terminate (system_connector ops) (Terminate t))
      (\<lambda>_ w. set (cs_connected_agents (system_connector ops) w) \<subseteq> {own} \<and> terminating AW w)" for t
    by (rule system_broadcast [OF assms(1)])
qed

section \<open>Starting the agent\<close>

text \<open>
  \<open>Primary::new\<close>: the activity map of the assignments, the connector and one worker per assignment,
  each of which takes the builder of its connector.
  The result is the state after the connection handshake, in which both sides have sent their hello.
\<close>

type_synonym 'a assignments = "(worker_id \<times> (activity_id \<times> (activity_id \<Rightarrow> 'a)) list) list"

definition activity_worker_map :: "'a assignments \<Rightarrow> (activity_id \<times> worker_id) list" where
  "activity_worker_map A = concat (map (\<lambda>(wid, bs). map (\<lambda>(i, _). (i, wid)) bs) A)"

definition connected_ends :: "worker_id \<Rightarrow> worker_ends" where
  "connected_ends wid =
    \<lparr>we_id = ChWorker wid, we_connected = Some (ChWorker wid), we_receiver = new_channel,
     we_sender = new_channel\<rparr>"

definition start_worker ::
  "agent_id \<Rightarrow> duration \<Rightarrow> worker_id \<times> (activity_id \<times> (activity_id \<Rightarrow> 'a)) list
    \<Rightarrow> worker_id \<times> (worker_ends, 'a) worker" where
  "start_worker agent timeout = (\<lambda>(wid, bs). (wid, worker_new wid agent bs timeout (connected_ends wid)))"

definition system_start ::
  "agent_id \<Rightarrow> duration \<Rightarrow> 'a assignments \<Rightarrow> worker_id list list \<Rightarrow> nat \<Rightarrow> (nat \<Rightarrow> instant)
    \<Rightarrow> (nat \<Rightarrow> timestamp) \<Rightarrow> 'a system outcome" where
  "system_start agent timeout A schedule looks clock stamps =
    obind (take_builders (remdups (map snd (activity_worker_map A))) (map fst A)) (\<lambda>_.
    obind (mpsc_scheduler_new (activity_worker_map A)
      \<lparr>tp_workers = map (start_worker agent timeout) A, tp_schedule = schedule, tp_looks = looks,
       tp_times = clock, tp_stamps = stamps, tp_tick = 0\<rparr>) (\<lambda>s. Ret (s\<lparr>ms_connected := True\<rparr>)))"

lemma activity_worker_mapD:
  "(i, wid) \<in> set (activity_worker_map A) \<Longrightarrow> \<exists>bs b. (wid, bs) \<in> set A \<and> (i, b) \<in> set bs"
  by (auto simp: activity_worker_map_def)

lemma activity_worker_map_workers: "[] \<notin> snd ` set A \<Longrightarrow> snd ` set (activity_worker_map A) = fst ` set A"
proof (intro equalityI subsetI)
  fix wid
  assume "[] \<notin> snd ` set A" "wid \<in> fst ` set A"
  then obtain bs where bs: "(wid, bs) \<in> set A" "bs \<noteq> []" by force
  then obtain i b where "(i, b) \<in> set bs" by (metis list.set_intros(1) neq_Nil_conv surj_pair)
  with bs(1) have "(i, wid) \<in> set (activity_worker_map A)" unfolding activity_worker_map_def by fastforce
  then show "wid \<in> snd ` set (activity_worker_map A)" by force
next
  fix wid
  assume "wid \<in> snd ` set (activity_worker_map A)"
  then obtain i where "(i, wid) \<in> set (activity_worker_map A)" by auto
  from activity_worker_mapD [OF this] show "wid \<in> fst ` set A" by force
qed

lemma system_start_ok:
  assumes "distinct (map fst A)" "[] \<notin> snd ` set A"
  shows "\<exists>s. system_start agent timeout A schedule l clock stamps = Ret s
    \<and> system_ok (activity_worker_map A) {} l s"
proof -
  let ?AW = "activity_worker_map A"
  let ?ids = "remdups (map (\<lambda>(_, w). ChWorker w) ?AW)"
  let ?workers = "map (start_worker agent timeout) A"
  have ws: "map_of ?workers wid = Some (worker_new wid agent bs timeout (connected_ends wid))"
    if "(wid, bs) \<in> set A" for wid bs
  proof -
    have "map fst ?workers = map fst A" by (simp add: start_worker_def comp_def case_prod_beta)
    with assms(1) have "distinct (map fst ?workers)" by metis
    moreover have "(wid, worker_new wid agent bs timeout (connected_ends wid)) \<in> set ?workers"
      using that by (force simp: start_worker_def)
    ultimately show ?thesis by (rule map_of_is_SomeI)
  qed
  have act: "wk_activities (worker_new wid agent bs timeout w) i \<noteq> None" if "(i, b) \<in> set bs"
    for i b wid bs and w :: worker_ends
  proof -
    have "i \<in> fst ` set (rev (map (\<lambda>(i, b). (i, b i)) bs))" using that by force
    then show ?thesis unfolding worker_new_def by (simp only: worker.select_convs map_of_None_iff) simp
  qed
  have out: "map_of (map (\<lambda>c. (c, new_channel)) ?ids) (ChWorker wid) \<noteq> None"
    if "(i, wid) \<in> set ?AW" for i wid
  proof -
    have "ChWorker wid \<in> set ?ids" using that by force
    then have "ChWorker wid \<in> fst ` set (map (\<lambda>c. (c, new_channel)) ?ids)" by force
    then show ?thesis by (simp only: map_of_None_iff) simp
  qed
  have conn: "list_all (\<lambda>(wid, wk). we_connected (wk_world wk) \<noteq> None \<and> wid \<in> snd ` set ?AW) ?workers"
    unfolding activity_worker_map_workers [OF assms(2)]
    by (force simp: list_all_iff start_worker_def worker_new_def connected_ends_def)
  have names: "distinct (map fst ?workers)"
    using assms(1) by (simp add: start_worker_def comp_def case_prod_beta)
  have builders: "take_builders (remdups (map snd ?AW)) (map fst A) = Ret ()"
    unfolding take_builders_distinct [OF assms(1)] using activity_worker_map_workers [OF assms(2)] by simp
  obtain s where s: "system_start agent timeout A schedule l clock stamps = Ret s"
    and f: "ms_activity_worker s = ?AW" "ms_connected s" "ms_in s = new_channel"
      "ms_out s = map (\<lambda>c. (c, new_channel)) ?ids" "tp_workers (ms_env s) = ?workers" "tp_looks (ms_env s) = l"
    by (auto simp: system_start_def mpsc_scheduler_new_def Let_def multi_sender_create_def builders)
  have "workers_ok ?AW s"
    unfolding workers_ok_def f
  proof (intro conjI names conn ballI, clarify)
    fix i wid
    assume i: "(i, wid) \<in> set ?AW"
    then obtain bs b where b: "(wid, bs) \<in> set A" "(i, b) \<in> set bs" by (blast dest: activity_worker_mapD)
    show "map_of (map (\<lambda>c. (c, new_channel)) ?ids) (ChWorker wid) \<noteq> None
        \<and> (\<exists>wk. map_of ?workers wid = Some wk \<and> wk_activities wk i \<noteq> None)"
      using out [OF i] ws [OF b(1)] act [OF b(2)] by blast
  qed
  moreover have "out_ids s = []"
    by (rule out_ids_empty) (auto simp: f new_channel_def)
  ultimately have "system_ok ?AW {} l s"
    using f by (simp add: system_ok_def in_ids_def new_channel_def channel_ok_def list_all_iff comp_def)
  with s show ?thesis by blast
qed

section \<open>Properties\<close>

text \<open>
  The scheduler returns. For a primary agent with in-process signalling, with any assignment of at
  most 127 activities to workers that all have one, and any acyclic dependencies among them, whose activities succeed,
  under every schedule of the worker threads and every clock: if the shutdown flag is raised at the
  latest at the \<open>l\<close>-th look, then the scheduler's run neither blocks nor panics; it returns within
  the fuel \<open>l + 2 * (number of activities) + 2\<close>, which bounds the depth of its loops.
\<close>

theorem primary_mpsc_returns:
  assumes "distinct (map fst A)" and "[] \<notin> snd ` set A" and "map_ok (activity_worker_map A)" and "ops_ok ops"
    and "distinct (map fst D)" and "fst ` set D \<subseteq> fst ` set (activity_worker_map A)" and "ranked rank D"
    and "timeouts_ok recv_timeout (length D)" and "l + 2 * length D + 1 < n"
  shows "\<exists>sys s. system_start agent recv_timeout A schedule l clock stamps = Ret sys
    \<and> run n (system_connector ops) system_platform
        (scheduler_new agent cycle_time recv_timeout startup_timeout D sys) = (Ret (), s)"
proof -
  obtain sys where sys: "system_start agent recv_timeout A schedule l clock stamps = Ret sys"
    "system_ok (activity_worker_map A) {} l sys" using system_start_ok [OF assms(1,2)] by blast
  from responsive.run_returns [OF responsive_system [OF assms(3,4)] assms(5-8) sys(2) assms(9)] sys(1)
  show ?thesis by blast
qed

end
