(* ===== verification/Feo_Agent_Mpsc.thy ===== *)
theory Feo_Agent_Mpsc
  imports Feo_Mpsc_System
begin

text \<open>
  The primary agent with in-process signalling from its start to its end
  (\<open>feo/src/agent/direct/primary_mpsc.rs\<close>): it runs the scheduler and joins its worker threads. While it
  waits for a thread, all threads that are left go on under an arbitrary schedule. The lemmas show
  that every thread then finds its terminate, so that the joins return.
\<close>

section \<open>Running and joining\<close>

definition gone :: "worker_id \<Rightarrow> 'a system \<Rightarrow> bool" where
  "gone wid s \<longleftrightarrow> map_of (tp_workers (ms_env s)) wid = None"

definition thread_burst :: "'a activity_ops \<Rightarrow> 'a system \<Rightarrow> 'a system" where
  "thread_burst ops s = fold (worker_turn ops) (case tp_schedule (ms_env s) of [] \<Rightarrow> [] | b # _ \<Rightarrow> b)
    (env (tp_schedule_update tl) s)"

definition mpsc_primary_new ::
  "agent_id \<Rightarrow> duration \<Rightarrow> duration \<Rightarrow> duration \<Rightarrow> (activity_id \<times> activity_id list) list \<Rightarrow> 'a assignments \<Rightarrow>
    worker_id list list \<Rightarrow> nat \<Rightarrow> (nat \<Rightarrow> instant) \<Rightarrow> (nat \<Rightarrow> timestamp) \<Rightarrow> 'a system scheduler outcome" where
  "mpsc_primary_new agent cycle_time timeout startup_timeout dependencies A schedule looks clock stamps =
    obind (system_start agent timeout A schedule looks clock stamps) (\<lambda>sys.
    Ret (scheduler_new agent cycle_time timeout startup_timeout dependencies sys))"

text \<open>Waiting for a thread: others take turns, then it takes one. A thread that panicked is gone too.\<close>

fun join_worker :: "nat \<Rightarrow> 'a activity_ops \<Rightarrow> worker_id \<Rightarrow> ('a system, unit) io" where
  "join_worker 0 ops wid s = (if gone wid s then Ret () else Hang, s)"
| "join_worker (Suc n) ops wid s =
    (if gone wid s then (Ret (), s) else join_worker n ops wid (worker_turn ops wid (thread_burst ops s)))"

definition mpsc_primary_run ::
  "nat \<Rightarrow> nat \<Rightarrow> 'a activity_ops \<Rightarrow> ('a system, unit) io \<Rightarrow> worker_id list \<Rightarrow> ('a system scheduler, error + unit) io" where
  "mpsc_primary_run n m ops init_time threads =
    io_bind (sc_io init_time) (\<lambda>_.
    io_try (sync_remotes (system_connector ops)) (\<lambda>_.
    io_bind (run n (system_connector ops) system_platform) (\<lambda>_.
    io_bind (sc_io (io_for threads (join_worker m ops))) (\<lambda>_. io_return (Inr ())))))"

section \<open>Threads that have been told to end\<close>

definition thread_queue :: "'a system \<Rightarrow> worker_id \<Rightarrow> mpsc_signal list" where
  "thread_queue s wid = (case map_of (ms_out s) (ChWorker wid) of None \<Rightarrow> [] | Some ch \<Rightarrow> ch_queue ch)"

text \<open>Requests for activities of the worker, and then a terminate.\<close>

definition ending_queue :: "('w, 'a) worker \<Rightarrow> mpsc_signal list \<Rightarrow> bool" where
  "ending_queue wk q \<longleftrightarrow> (\<exists>reqs t. q = reqs @ [MCore (Terminate t)]
    \<and> (\<forall>m \<in> set reqs. \<exists>sig i k a. m = MCore sig \<and> call_of sig = Some (i, k) \<and> wk_activities wk i = Some a))"

definition thread_ending :: "'a system \<Rightarrow> worker_id \<Rightarrow> bool" where
  "thread_ending s wid \<longleftrightarrow> (\<forall>wk. map_of (tp_workers (ms_env s)) wid = Some wk \<longrightarrow>
    we_connected (wk_world wk) \<noteq> None \<and>
    (\<exists>ch. map_of (ms_out s) (ChWorker wid) = Some ch \<and> ch_sender_alive ch \<and> ending_queue wk (ch_queue ch)))"

definition thread_ids :: "'a system \<Rightarrow> worker_id set" where
  "thread_ids s = fst ` set (tp_workers (ms_env s))"

lemma gone_iff: "gone wid s \<longleftrightarrow> wid \<notin> thread_ids s"
  by (simp add: gone_def thread_ids_def map_of_eq_None_iff)

text \<open>The signals that are still under way bound what the threads can send.\<close>

definition pending :: "'a system \<Rightarrow> nat" where
  "pending s = length (ch_queue (ms_in s)) + (\<Sum>wid \<in> thread_ids s. length (thread_queue s wid))"

definition ending :: "'a system \<Rightarrow> bool" where
  "ending s \<longleftrightarrow> ch_receiver_alive (ms_in s) \<and> distinct (map fst (tp_workers (ms_env s)))
    \<and> (\<forall>wid. thread_ending s wid) \<and> pending s \<le> mpsc_channel_bound"

lemma worker_run_terminate:
  assumes "ch_queue ch = [MCore (Terminate t)]" "we_connected (wk_world wk) \<noteq> None" "ch_receiver_alive c"
    "length (ch_queue c) < mpsc_channel_bound"
  shows "\<exists>log. worker_run 1 (mpsc_connect_worker n e) (worker_platform now stamp) ops
      (wk\<lparr>wk_world := (wk_world wk)\<lparr>we_receiver := ch, we_sender := c\<rparr>\<rparr>)
    = (Ret (Inr ()), wk\<lparr>wk_log := log, wk_world := (wk_world wk)\<lparr>we_receiver := ch\<lparr>ch_queue := []\<rparr>,
        we_sender := c\<lparr>ch_queue := ch_queue c @ [MCore (TerminateAck (wk_agent_id wk))]\<rparr>\<rparr>\<rparr>)"
  using assms
  by (auto simp: io_defs wk_receive_def wk_io_def wk_event_def mpsc_connect_worker_def we_in_def we_out_def
      protocol_receiver_receive_def chan_receive_def core_only_def worker_platform_def wk_send_def
      protocol_sender_send_def chan_send_def)

text \<open>Another thread is not affected by what a thread does to its own channel and entry.\<close>

lemma ending_others:
  assumes s: "ending s" and "map_of (ms_out s) (ChWorker wid) = Some ch" "ch_queue ch = m # rest" "\<not> gone wid s"
    and "\<And>w. w \<noteq> wid \<Longrightarrow> map_of (tp_workers (ms_env s')) w = map_of (tp_workers (ms_env s)) w"
    and "\<And>w. w \<noteq> wid \<Longrightarrow> map_of (ms_out s') (ChWorker w) = map_of (ms_out s) (ChWorker w)"
    and "ch_receiver_alive (ms_in s')" "length (ch_queue (ms_in s')) = Suc (length (ch_queue (ms_in s)))"
    and "distinct (map fst (tp_workers (ms_env s')))" "thread_ending s' wid"
    and "gone wid s' \<or> Suc (length (thread_queue s' wid)) = length (thread_queue s wid)"
  shows "ending s' \<and> thread_ids s' \<subseteq> thread_ids s \<and> (\<forall>w. w \<noteq> wid \<longrightarrow> thread_queue s' w = thread_queue s w)"
proof -
  have same: "thread_queue s' w = thread_queue s w" "w \<in> thread_ids s' \<longleftrightarrow> w \<in> thread_ids s" if "w \<noteq> wid" for w
    using assms(5,6) [OF that] by (simp_all add: thread_queue_def thread_ids_def) (metis map_of_eq_None_iff)
  have wid: "wid \<in> thread_ids s" using assms(4) by (simp add: gone_def thread_ids_def map_of_eq_None_iff)
  have fin: "finite (thread_ids s)" by (simp add: thread_ids_def)
  let ?q = "\<lambda>w. length (thread_queue s w)" and ?q' = "\<lambda>w. length (thread_queue s' w)"
  have split: "(\<Sum>w \<in> thread_ids s. ?q w) = ?q wid + (\<Sum>w \<in> thread_ids s - {wid}. ?q w)"
    using fin wid by (simp add: sum.remove)
  have rest: "(\<Sum>w \<in> thread_ids s - {wid}. ?q' w) = (\<Sum>w \<in> thread_ids s - {wid}. ?q w)"
    using same(1) by (intro sum.cong) auto
  have q: "0 < ?q wid" using assms(2,3) by (simp add: thread_queue_def)
  have "pending s' \<le> pending s"
  proof (cases "gone wid s'")
    case True
    then have "wid \<notin> thread_ids s'" using gone_iff [of wid s'] by simp
    then have "w \<in> thread_ids s' \<longleftrightarrow> w \<in> thread_ids s - {wid}" for w
      using same(2) [of w] by (cases "w = wid") simp_all
    then have "thread_ids s' = thread_ids s - {wid}" by (rule set_eqI)
    then show ?thesis using split rest Suc_leI [OF q] assms(8) by (simp add: pending_def)
  next
    case False
    then have "wid \<in> thread_ids s'" using gone_iff [of wid s'] by simp
    then have "w \<in> thread_ids s' \<longleftrightarrow> w \<in> thread_ids s" for w
      using same(2) [of w] wid by (cases "w = wid") simp_all
    then have "thread_ids s' = thread_ids s" by (rule set_eqI)
    then have "(\<Sum>w \<in> thread_ids s'. ?q' w) = ?q' wid + (\<Sum>w \<in> thread_ids s - {wid}. ?q w)"
      using fin wid rest by (simp add: sum.remove)
    then show ?thesis using split False assms(8,11) by (simp add: pending_def)
  qed
  moreover have "thread_ending s' w" for w
  proof (cases "w = wid")
    case False
    then show ?thesis using s assms(5,6) by (simp add: ending_def thread_ending_def)
  qed (simp add: assms(10))
  moreover have "w \<in> thread_ids s" if "w \<in> thread_ids s'" for w
    using that same(2) [of w] wid by (cases "w = wid") simp_all
  ultimately show ?thesis using s same(1) assms(7,9) by (simp add: ending_def subset_iff)
qed

text \<open>A turn of an ending thread consumes a signal of its queue and sends one.\<close>

lemma ending_turn:
  assumes s: "ending s" "ops_ok ops" and live: "\<not> gone wid s"
  shows "(ending (worker_turn ops wid s) \<and> thread_ids (worker_turn ops wid s) \<subseteq> thread_ids s
      \<and> (\<forall>w. w \<noteq> wid \<longrightarrow> thread_queue (worker_turn ops wid s) w = thread_queue s w))
    \<and> (gone wid (worker_turn ops wid s)
      \<or> Suc (length (thread_queue (worker_turn ops wid s) wid)) = length (thread_queue s wid))"
proof -
  from live obtain wk where wk: "map_of (tp_workers (ms_env s)) wid = Some wk" by (auto simp: gone_def)
  with s(1) obtain ch where conn: "we_connected (wk_world wk) \<noteq> None"
    and ch: "map_of (ms_out s) (ChWorker wid) = Some ch" "ch_sender_alive ch" "ending_queue wk (ch_queue ch)"
    unfolding ending_def thread_ending_def by blast
  from ch(3) obtain reqs t where q: "ch_queue ch = reqs @ [MCore (Terminate t)]"
    and reqs: "\<forall>m \<in> set reqs. \<exists>sig i k a. m = MCore sig \<and> call_of sig = Some (i, k) \<and> wk_activities wk i = Some a"
    unfolding ending_queue_def by blast
  have alive: "ch_receiver_alive (ms_in s)" and names: "distinct (map fst (tp_workers (ms_env s)))"
    using s(1) by (simp_all add: ending_def)
  have "wid \<in> thread_ids s" using live by (simp add: gone_def thread_ids_def map_of_eq_None_iff)
  then have "length (thread_queue s wid) \<le> (\<Sum>w \<in> thread_ids s. length (thread_queue s w))"
    by (intro member_le_sum) (simp_all add: thread_ids_def)
  moreover have "0 < length (thread_queue s wid)" using ch(1) q by (simp add: thread_queue_def)
  ultimately have room: "length (ch_queue (ms_in s)) < mpsc_channel_bound"
    using s(1) unfolding ending_def pending_def by linarith
  let ?p = "ms_env s" and ?s' = "worker_turn ops wid s"
  let ?now = "tp_times ?p (tp_tick ?p)" and ?stamp = "tp_stamps ?p (tp_tick ?p)"
  let ?run = "worker_run 1 (mpsc_connect_worker 0 (io_return 0)) (worker_platform ?now ?stamp) ops
    (wk\<lparr>wk_world := (wk_world wk)\<lparr>we_receiver := ch, we_sender := ms_in s\<rparr>\<rparr>)"
  show ?thesis
  proof (cases reqs)
    case Nil
    with q have "ch_queue ch = [MCore (Terminate t)]" by simp
    from worker_run_terminate [OF this conn alive room] obtain log where run: "?run = (Ret (Inr ()), wk\<lparr>wk_log := log,
        wk_world := (wk_world wk)\<lparr>we_receiver := ch\<lparr>ch_queue := []\<rparr>,
        we_sender := (ms_in s)\<lparr>ch_queue := ch_queue (ms_in s) @ [MCore (TerminateAck (wk_agent_id wk))]\<rparr>\<rparr>\<rparr>)" by blast
    have t: "?s' = s\<lparr>ms_in := (ms_in s)\<lparr>ch_queue := ch_queue (ms_in s) @ [MCore (TerminateAck (wk_agent_id wk))]\<rparr>,
      ms_out := modify_key (ChWorker wid) (\<lambda>_. ch\<lparr>ch_queue := [], ch_receiver_alive := False\<rparr>) (ms_out s),
      ms_env := ?p\<lparr>tp_tick := Suc (tp_tick ?p), tp_workers := AList.delete wid (tp_workers ?p)\<rparr>\<rparr>"
      using run wk ch(1) room by (simp add: worker_turn_def Let_def)
    have gone: "gone wid ?s'" by (simp add: t gone_def AList.delete_conv')
    have "ending ?s' \<and> thread_ids ?s' \<subseteq> thread_ids s \<and> (\<forall>w. w \<noteq> wid \<longrightarrow> thread_queue ?s' w = thread_queue s w)"
      by (rule ending_others [OF s(1) ch(1) q [unfolded Nil append_Nil] live])
        (use gone names alive in \<open>simp_all add: t AList.delete_conv' thread_ending_def gone_def AList.distinct_delete\<close>)
    with gone show ?thesis by simp
  next
    case (Cons m rest)
    with reqs obtain sig i k a where m: "m = MCore sig" "call_of sig = Some (i, k)" "wk_activities wk i = Some a" by auto
    have qm: "ch_queue ch = MCore sig # (rest @ [MCore (Terminate t)])" using q Cons m(1) by simp
    let ?ch = "ch\<lparr>ch_queue := rest @ [MCore (Terminate t)]\<rparr>"
    let ?in = "(ms_in s)\<lparr>ch_queue := ch_queue (ms_in s) @ [MCore (Ready i ?stamp)]\<rparr>"
    obtain a' log where run: "?run = (Hang, wk\<lparr>wk_activities := (wk_activities wk)(i \<mapsto> a'), wk_log := log,
        wk_world := (wk_world wk)\<lparr>we_receiver := ?ch, we_sender := ?in\<rparr>\<rparr>)"
      using worker_run_request [OF qm m(2) conn m(3) s(2) alive room] by blast
    let ?wk = "wk\<lparr>wk_activities := (wk_activities wk)(i \<mapsto> a'), wk_log := log,
        wk_world := (wk_world wk)\<lparr>we_receiver := ?ch, we_sender := ?in\<rparr>\<rparr>"
    have t: "?s' = s\<lparr>ms_in := ?in,
      ms_out := modify_key (ChWorker wid) (\<lambda>_. ?ch\<lparr>ch_receiver_alive := True\<rparr>) (ms_out s),
      ms_env := ?p\<lparr>tp_tick := Suc (tp_tick ?p), tp_workers := modify_key wid (\<lambda>_. ?wk) (tp_workers ?p)\<rparr>\<rparr>"
      using run wk ch(1) room by (simp add: worker_turn_def Let_def)
    have "ending_queue ?wk (rest @ [MCore (Terminate t)])"
      using reqs Cons unfolding ending_queue_def by (intro exI [of _ rest] exI [of _ t]) fastforce
    then have e: "thread_ending ?s' wid" using wk ch(1,2) conn by (simp add: t thread_ending_def)
    have len: "Suc (length (thread_queue ?s' wid)) = length (thread_queue s wid)"
      using ch(1) qm by (simp add: t thread_queue_def)
    have "ending ?s' \<and> thread_ids ?s' \<subseteq> thread_ids s \<and> (\<forall>w. w \<noteq> wid \<longrightarrow> thread_queue ?s' w = thread_queue s w)"
      by (rule ending_others [OF s(1) ch(1) qm live _ _ _ _ _ e disjI2 [OF len]])
        (use names alive in \<open>simp_all add: t\<close>)
    with len show ?thesis by simp
  qed
qed

lemma turn_of_gone: "gone wid s \<Longrightarrow> worker_turn ops wid s = s"
  by (simp add: gone_def worker_turn_def)

lemma ending_live: "ending s \<Longrightarrow> \<not> gone wid s \<Longrightarrow> 0 < length (thread_queue s wid)"
  unfolding ending_def thread_ending_def ending_queue_def gone_def thread_queue_def by fastforce

lemma ending_turn_any:
  assumes "ending s" "ops_ok ops"
  shows "ending (worker_turn ops wid s) \<and> thread_ids (worker_turn ops wid s) \<subseteq> thread_ids s
    \<and> (gone w (worker_turn ops wid s) \<or> length (thread_queue (worker_turn ops wid s) w) \<le> length (thread_queue s w))"
proof (cases "gone wid s")
  case True
  with assms(1) show ?thesis by (simp add: turn_of_gone)
next
  case False
  with ending_turn [OF assms False] show ?thesis by (cases "w = wid") auto
qed

lemma ending_turns:
  assumes "ops_ok ops"
  shows "ending s \<Longrightarrow> ending (fold (worker_turn ops) wids s)
    \<and> thread_ids (fold (worker_turn ops) wids s) \<subseteq> thread_ids s
    \<and> (gone w (fold (worker_turn ops) wids s)
      \<or> length (thread_queue (fold (worker_turn ops) wids s) w) \<le> length (thread_queue s w))"
proof (induction wids arbitrary: s)
  case Nil
  then show ?case by simp
next
  case (Cons wid wids)
  let ?s = "worker_turn ops wid s"
  note t = ending_turn_any [OF Cons.prems assms, of wid w]
  from t have "ending ?s" by simp
  note f = Cons.IH [OF this]
  have "gone w (fold (worker_turn ops) wids ?s)" if "gone w ?s"
    using that f unfolding gone_iff by blast
  with t f show ?case by fastforce
qed

lemma ending_burst:
  assumes "ending s" "ops_ok ops"
  shows "ending (thread_burst ops s) \<and> thread_ids (thread_burst ops s) \<subseteq> thread_ids s
    \<and> (gone w (thread_burst ops s) \<or> length (thread_queue (thread_burst ops s) w) \<le> length (thread_queue s w))"
proof -
  let ?s = "env (tp_schedule_update tl) s"
  have q: "thread_queue ?s = thread_queue s" "thread_ids ?s = thread_ids s"
    by (simp_all add: thread_queue_def thread_ids_def env_def fun_eq_iff)
  then have "pending ?s = pending s" by (simp add: pending_def env_def)
  moreover have "thread_ending ?s wid = thread_ending s wid" for wid by (simp add: thread_ending_def env_def)
  ultimately have "ending ?s" using assms(1) by (simp add: ending_def) (simp add: env_def)
  from ending_turns [OF assms(2) this, of "case tp_schedule (ms_env s) of [] \<Rightarrow> [] | b # _ \<Rightarrow> b" w]
  show "ending (thread_burst ops s) \<and> thread_ids (thread_burst ops s) \<subseteq> thread_ids s
    \<and> (gone w (thread_burst ops s) \<or> length (thread_queue (thread_burst ops s) w) \<le> length (thread_queue s w))"
    by (simp add: thread_burst_def q)
qed

lemma join_worker_returns:
  assumes "ops_ok ops"
  shows "ending s \<Longrightarrow> gone wid s \<or> length (thread_queue s wid) \<le> n \<Longrightarrow>
    \<exists>s'. join_worker n ops wid s = (Ret (), s') \<and> ending s' \<and> thread_ids s' \<subseteq> thread_ids s - {wid}"
proof (induction n arbitrary: s)
  case 0
  have "gone wid s" using 0 ending_live [of s wid] by fastforce
  with 0 show ?case by (auto simp: gone_iff)
next
  case (Suc n)
  show ?case
  proof (cases "gone wid s")
    case True
    with Suc.prems show ?thesis by (auto simp: gone_iff)
  next
    case False
    let ?b = "thread_burst ops s"
    let ?s = "worker_turn ops wid ?b"
    from ending_burst [OF Suc.prems(1) assms, of wid] have b: "ending ?b" "thread_ids ?b \<subseteq> thread_ids s"
      "gone wid ?b \<or> length (thread_queue ?b wid) \<le> length (thread_queue s wid)" by simp_all
    from ending_turn_any [OF b(1) assms, of wid wid] have t: "ending ?s" "thread_ids ?s \<subseteq> thread_ids ?b" by simp_all
    have "gone wid ?s \<or> length (thread_queue ?s wid) \<le> n"
    proof (cases "gone wid ?b")
      case True
      then show ?thesis by (simp add: turn_of_gone)
    next
      case live: False
      have "length (thread_queue ?b wid) \<le> Suc n"
        using b(3) live Suc.prems(2) False by linarith
      then show ?thesis using ending_turn [OF b(1) assms live] by linarith
    qed
    from Suc.IH [OF t(1) this] obtain s' where
      "join_worker n ops wid ?s = (Ret (), s')" "ending s'" "thread_ids s' \<subseteq> thread_ids ?s - {wid}" by blast
    with t(2) b(2) False show ?thesis by auto
  qed
qed

lemma queue_pending: "gone wid s \<or> length (thread_queue s wid) \<le> pending s"
proof (cases "gone wid s")
  case False
  then have "wid \<in> thread_ids s" by (simp add: gone_iff)
  then have "length (thread_queue s wid) \<le> (\<Sum>w \<in> thread_ids s. length (thread_queue s w))"
    by (intro member_le_sum) (simp_all add: thread_ids_def)
  then show ?thesis by (simp add: pending_def)
qed simp

lemma join_all_returns:
  assumes "ops_ok ops" "mpsc_channel_bound \<le> m"
  shows "ending s \<Longrightarrow> \<exists>s'. io_for threads (join_worker m ops) s = (Ret (), s') \<and> thread_ids s' \<subseteq> thread_ids s - set threads"
proof (induction threads arbitrary: s)
  case Nil
  then show ?case by (simp add: io_return_def)
next
  case (Cons wid threads)
  have "gone wid s \<or> length (thread_queue s wid) \<le> m"
    using queue_pending [of wid s] Cons.prems assms(2) by (auto simp: ending_def)
  from join_worker_returns [OF assms(1) Cons.prems this] obtain s1 where
    s1: "join_worker m ops wid s = (Ret (), s1)" "ending s1" "thread_ids s1 \<subseteq> thread_ids s - {wid}" by blast
  from Cons.IH [OF s1(2)] s1 show ?case by (auto simp: io_bind_def)
qed

section \<open>The end of a run\<close>

lemma out_ids_sum:
  assumes "distinct (map fst (ms_out s))"
  shows "length (out_ids s)
    = (\<Sum>c \<in> fst ` set (ms_out s). length (queue_ids (case map_of (ms_out s) c of None \<Rightarrow> [] | Some ch \<Rightarrow> ch_queue ch)))"
proof -
  let ?f = "\<lambda>c. length (queue_ids (case map_of (ms_out s) c of None \<Rightarrow> [] | Some ch \<Rightarrow> ch_queue ch))"
  have "length (out_ids s) = sum_list (map (\<lambda>(_, ch). length (queue_ids (ch_queue ch))) (ms_out s))"
    unfolding out_ids_def length_concat map_map by (rule arg_cong [of _ _ sum_list]) auto
  also have "map (\<lambda>(_, ch). length (queue_ids (ch_queue ch))) (ms_out s) = map ?f (map fst (ms_out s))"
    using assms by (auto simp del: map_of_eq_Some_iff)
  also have "sum_list (map ?f (map fst (ms_out s))) = sum ?f (set (map fst (ms_out s)))"
    using sum_list_distinct_conv_sum_set [OF assms] .
  finally show ?thesis by simp
qed

lemma thread_facts:
  assumes "system_ok AW X l s" "wid \<in> thread_ids s"
  shows "\<exists>wk ch. map_of (tp_workers (ms_env s)) wid = Some wk \<and> map_of (ms_out s) (ChWorker wid) = Some ch
    \<and> we_connected (wk_world wk) \<noteq> None \<and> channel_ok AW (ChWorker wid, ch)
    \<and> (\<forall>i. map_of AW i = Some wid \<longrightarrow> wk_activities wk i \<noteq> None)"
proof -
  have w: "workers_ok AW s" and out: "list_all (channel_ok AW) (ms_out s)"
    using assms(1) by (simp_all add: system_ok_def)
  obtain wk where wk: "map_of (tp_workers (ms_env s)) wid = Some wk"
    using assms(2) gone_iff [of wid s] by (auto simp: gone_def)
  then have conn: "we_connected (wk_world wk) \<noteq> None" "wid \<in> snd ` set AW"
    using w by (auto simp: workers_ok_def list_all_iff dest!: map_of_SomeD)
  have acts: "map_of (ms_out s) (ChWorker wid) \<noteq> None \<and> wk_activities wk i \<noteq> None" if "(i, wid) \<in> set AW" for i
    using w that wk unfolding workers_ok_def by (force simp del: map_of_eq_Some_iff)
  from conn(2) acts obtain ch where ch: "map_of (ms_out s) (ChWorker wid) = Some ch" by force
  moreover have "channel_ok AW (ChWorker wid, ch)"
    using map_of_SomeD [OF ch] out by (auto simp: list_all_iff)
  ultimately show ?thesis using wk conn(1) acts by (blast dest: map_of_SomeD)
qed

lemma terminating_ending:
  assumes "terminating AW s" "length AW + card (snd ` set AW) \<le> mpsc_channel_bound"
  shows "ending s"
proof -
  obtain X l s0 t where ok: "system_ok AW X l s0" and s: "ms_in s = ms_in s0"
    "tp_workers (ms_env s) = tp_workers (ms_env s0)"
    "ms_out s = map (\<lambda>(c, ch). (c, queued (MCore (Terminate t)) ch)) (ms_out s0)"
    using assms(1) unfolding terminating_def by blast
  have ids: "thread_ids s = thread_ids s0" using s(2) by (simp add: thread_ids_def)
  have out: "map_of (ms_out s) c = map_option (queued (MCore (Terminate t))) (map_of (ms_out s0) c)" for c
    unfolding s(3) by (simp add: map_of_map)
  have reqs: "\<exists>sig i k. m = MCore sig \<and> call_of sig = Some (i, k) \<and> map_of AW i = Some wid"
    if "channel_ok AW (ChWorker wid, ch)" "m \<in> set (ch_queue ch)" for m wid ch
    using that request_call [of AW "ChWorker wid" m] by (auto simp: channel_ok_def list_all_iff)
  have "thread_ending s wid" for wid
    unfolding thread_ending_def
  proof (intro allI impI)
    fix wk
    assume wk: "map_of (tp_workers (ms_env s)) wid = Some wk"
    then have "wid \<in> thread_ids s0" using s(2) gone_iff [of wid s0] by (auto simp: gone_def)
    from thread_facts [OF ok this] wk obtain ch where ch: "map_of (ms_out s0) (ChWorker wid) = Some ch"
      "we_connected (wk_world wk) \<noteq> None" "channel_ok AW (ChWorker wid, ch)"
      "\<forall>i. map_of AW i = Some wid \<longrightarrow> wk_activities wk i \<noteq> None" unfolding s(2) by (metis option.inject)
    have "ending_queue wk (ch_queue ch @ [MCore (Terminate t)])"
      unfolding ending_queue_def using reqs [OF ch(3)] ch(4)
      by (intro exI [of _ "ch_queue ch"] exI [of _ t] conjI refl ballI) (metis not_Some_eq)
    then show "we_connected (wk_world wk) \<noteq> None \<and>
        (\<exists>ch. map_of (ms_out s) (ChWorker wid) = Some ch \<and> ch_sender_alive ch \<and> ending_queue wk (ch_queue ch))"
      using ch(1-3) by (simp add: out queued_def channel_ok_def)
  qed
  moreover have "pending s \<le> mpsc_channel_bound"
  proof -
    let ?f = "\<lambda>c. length (queue_ids (case map_of (ms_out s0) c of None \<Rightarrow> [] | Some ch \<Rightarrow> ch_queue ch))"
    have one: "length (thread_queue s wid) = Suc (?f (ChWorker wid))" if "wid \<in> thread_ids s0" for wid
      using thread_facts [OF ok that] queue_ids_length(2) [of AW "ChWorker wid"]
      by (auto simp: thread_queue_def out queued_def channel_ok_def)
    have "ChWorker ` thread_ids s0 \<subseteq> fst ` set (ms_out s0)"
    proof
      fix c
      assume "c \<in> ChWorker ` thread_ids s0"
      then obtain wid where wid: "wid \<in> thread_ids s0" "c = ChWorker wid" by (rule imageE)
      from thread_facts [OF ok wid(1)] obtain ch where "map_of (ms_out s0) c = Some ch" unfolding wid(2) by (elim exE conjE)
      then show "c \<in> fst ` set (ms_out s0)" by (rule map_of_Some_in)
    qed
    then have "(\<Sum>c \<in> ChWorker ` thread_ids s0. ?f c) \<le> (\<Sum>c \<in> fst ` set (ms_out s0). ?f c)"
      by (intro sum_mono2) simp_all
    moreover have "(\<Sum>c \<in> ChWorker ` thread_ids s0. ?f c) = (\<Sum>wid \<in> thread_ids s0. ?f (ChWorker wid))"
      by (simp add: sum.reindex inj_on_def)
    moreover have "length (out_ids s0) = (\<Sum>c \<in> fst ` set (ms_out s0). ?f c)"
      by (rule out_ids_sum) (use ok in \<open>simp add: system_ok_def\<close>)
    ultimately have le: "(\<Sum>wid \<in> thread_ids s0. ?f (ChWorker wid)) \<le> length (out_ids s0)" by linarith
    have "thread_ids s0 \<subseteq> snd ` set AW"
      using ok by (auto simp: system_ok_def workers_ok_def list_all_iff thread_ids_def)
    then have workers: "card (thread_ids s0) \<le> card (snd ` set AW)" by (intro card_mono) simp_all
    have "length (in_ids s0) + length (out_ids s0) = size (mset_set X)"
      using ok by (metis system_ok_def size_mset size_union)
    moreover have "card X \<le> length AW"
      using ok card_mono [of "fst ` set AW" X] card_length [of "map fst AW"] by (simp add: system_ok_def)
    moreover have "length (in_ids s0) = length (ch_queue (ms_in s))"
      using ok queue_ids_length(1) s(1) by (simp add: system_ok_def in_ids_def)
    moreover have "pending s = length (ch_queue (ms_in s)) + (\<Sum>wid \<in> thread_ids s0. Suc (?f (ChWorker wid)))"
      unfolding pending_def ids using one by simp
    ultimately show ?thesis using le workers assms(2) by (simp add: sum_Suc)
  qed
  ultimately show ?thesis using ok s(1,2) by (simp add: ending_def system_ok_def workers_ok_def)
qed


end
