(* ===== verification/Feo_Mini_Adas.thy ===== *)
theory Feo_Mini_Adas
  imports Feo_Agent_Mpsc
begin

text \<open>
  The configuration of the mini-adas example with in-process signalling
  (\<open>examples/rust/mini-adas/src/config.rs\<close>): its assignments and its dependency graph, as an instance
  of the interfaces and as the witness of the properties of the scheduler and of the whole agent.
  What the activities compute is left open: their state is a unit and their operations succeed.
\<close>

section \<open>The configuration\<close>

abbreviation activity :: "u64 \<Rightarrow> activity_id" where
  "activity \<equiv> GenericId"

definition steady_ops :: "unit activity_ops" where
  "steady_ops = \<lparr>act_startup = io_return (Inr ()), act_step = io_return (Inr ()), act_shutdown = io_return (Inr ())\<rparr>"

definition adas_worker :: "u64 \<Rightarrow> u64 list \<Rightarrow> worker_id \<times> (activity_id \<times> (activity_id \<Rightarrow> unit)) list" where
  "adas_worker w is = (GenericId w, map (\<lambda>i. (GenericId i, \<lambda>_. ())) is)"

definition agent_assignments :: "unit assignments" where
  "agent_assignments =
    [adas_worker 40 [0], adas_worker 41 [1], adas_worker 42 [2, 3], adas_worker 43 [4, 6],
     adas_worker 44 [5, 7, 8]]"

definition activity_dependencies :: "(activity_id \<times> activity_id list) list" where
  "activity_dependencies =
    [(activity 0, []), (activity 1, []), (activity 2, [activity 0, activity 1]), (activity 3, [activity 2]),
     (activity 4, [activity 2]), (activity 5, [activity 2]), (activity 6, [activity 4]),
     (activity 7, [activity 5]), (activity 8, [activity 5])]"

definition adas_rank :: "activity_id \<Rightarrow> nat" where
  "adas_rank i = unat (id_of i)"

lemma adas_facts:
  "distinct (map fst agent_assignments)" "map_ok (activity_worker_map agent_assignments)" "ops_ok steady_ops"
  "distinct (map fst activity_dependencies)" "ranked adas_rank activity_dependencies"
  "fst ` set activity_dependencies \<subseteq> fst ` set (activity_worker_map agent_assignments)"
  "length activity_dependencies = 9"
  "[] \<notin> snd ` set agent_assignments" "length (activity_worker_map agent_assignments) + length agent_assignments \<le> mpsc_channel_bound"
  by (simp_all add: agent_assignments_def adas_worker_def map_ok_def activity_worker_map_def ops_ok_def
      steady_ops_def io_return_def activity_dependencies_def ranked_def adas_rank_def mpsc_channel_bound_def)

text \<open>The receive timeout of the example, ten seconds.\<close>

lemma adas_timeouts: "timeouts_ok (dur_from_secs 10) (length activity_dependencies)"
  by (simp add: adas_facts timeouts_ok_def dur_from_secs_def duration_ok_def duration_max_def nanos_per_sec_def)

text \<open>The system of the example fulfils the contract that the progress of the scheduler rests on.\<close>

interpretation adas: responsive "system_connector steady_ops" system_platform
  "fst ` set (activity_worker_map agent_assignments)" "GenericId 100"
  "system_ok (activity_worker_map agent_assignments)" "terminating (activity_worker_map agent_assignments)"
  by (rule responsive_system) (rule adas_facts)+

section \<open>Witnesses\<close>

definition adas_start :: "unit system outcome" where
  "adas_start = system_start (GenericId 100) (dur_from_secs 10) agent_assignments
    [[GenericId 41, GenericId 40], [], [GenericId 44]] 3 (\<lambda>k. int k) (\<lambda>k. Timestamp k)"

definition adas_run :: "unit system \<Rightarrow> unit outcome \<times> unit system scheduler" where
  "adas_run sys = run 30 (system_connector steady_ops) system_platform
    (scheduler_new (GenericId 100) (dur_from_millis 10) (dur_from_secs 10) (dur_from_secs 10)
      activity_dependencies sys)"

theorem primary_mpsc_returns_witness: "\<exists>sys s. adas_start = Ret sys \<and> adas_run sys = (Ret (), s)"
  unfolding adas_start_def adas_run_def
  by (rule primary_mpsc_returns [where rank = adas_rank]) (use adas_facts adas_timeouts in simp_all)


lemma adas_returns: "\<exists>sys s. adas_start = Ret sys \<and> adas_run sys = (Ret (), s)"
proof -
  obtain sys where sys: "adas_start = Ret sys" "system_ok (activity_worker_map agent_assignments) {} 3 sys"
    using system_start_ok [OF adas_facts(1,8)] unfolding adas_start_def by blast
  have "\<exists>s. adas_run sys = (Ret (), s)"
    unfolding adas_run_def
    using adas.run_returns [OF adas_facts(4,6,5) adas_timeouts sys(2), of 30] adas_facts(7) by auto
  with sys show ?thesis by blast
qed

theorem run_log_ok_witness:
  "\<exists>sys s. adas_start = Ret sys \<and> adas_run sys = (Ret (), s) \<and> log_ok activity_dependencies (sc_log s)"
proof -
  obtain sys s where s: "adas_start = Ret sys" "adas_run sys = (Ret (), s)" using adas_returns by blast
  have "log_ok activity_dependencies (sc_log (snd (adas_run sys)))"
    unfolding adas_run_def by (rule run_log_ok [OF adas_facts(4)])
  with s show ?thesis by auto
qed

theorem run_return_shut_down_witness:
  "\<exists>sys s base pre ts t. adas_start = Ret sys \<and> adas_run sys = (Ret (), s)
    \<and> sc_log s = pre @ base \<and> quiet base \<and> length ts = length (started_ids activity_dependencies base)
    \<and> filter is_output pre = EBroadcast (Terminate t) # shutdowns (started_ids activity_dependencies base) ts"
proof -
  obtain sys s where s: "adas_start = Ret sys" "adas_run sys = (Ret (), s)" using adas_returns by blast
  from run_return_shut_down [OF adas_facts(4) s(2) [unfolded adas_run_def]] s show ?thesis by metis
qed

text \<open>A worker that finds a terminate in its channel acknowledges it and returns.\<close>

definition terminated_worker :: "(worker_ends, unit) worker" where
  "terminated_worker = worker_new (GenericId 40) (GenericId 100) [] 10
    ((connected_ends (GenericId 40))\<lparr>we_receiver :=
      new_channel\<lparr>ch_queue := [MCore (Terminate (Timestamp 7))]\<rparr>\<rparr>)"

lemma terminated_worker_run:
  "worker_run 1 (mpsc_connect_worker 0 (io_return 0)) (worker_platform 0 (Timestamp 0)) steady_ops terminated_worker
    = (Ret (Inr ()), terminated_worker\<lparr>wk_world :=
        (connected_ends (GenericId 40))\<lparr>we_sender :=
          new_channel\<lparr>ch_queue := [MCore (TerminateAck (GenericId 100))]\<rparr>\<rparr>,
        wk_log := [WSend (TerminateAck (GenericId 100)), WRecv (Terminate (Timestamp 7))]\<rparr>)"
  by (simp add: terminated_worker_def io_defs wk_receive_def wk_io_def wk_event_def mpsc_connect_worker_def
      we_in_def we_out_def protocol_receiver_receive_def chan_receive_def core_only_def wk_send_def
      protocol_sender_send_def chan_send_def worker_platform_def worker_new_def connected_ends_def
      new_channel_def mpsc_channel_bound_def)


end
