(* ===== verification/Feo_Composites.thy ===== *)
theory Feo_Composites
  imports Feo_Worker
begin

text \<open>
  The composite activities of the cycle benchmark (\<open>examples/rust/cycle-benchmark/src/composites.rs\<close>
  and \<open>activities.rs\<close>): the activities themselves, and the search for chains of activities that can
  be put into a composite. A \<open>HashMap\<close> is the list of its entries in the order an iteration visits
  them, with distinct keys, and a \<open>HashSet\<close> the list of its elements. Where the visiting order of a
  collected map shows in a result, the order is an argument. The lemmas show that the search ends on
  every dependency map, cyclic ones included, and that it finds the maximal chains of the relation
  \<open>link\<close>, which is a partial function in both directions.
\<close>

section \<open>The activities\<close>

datatype bench_activity =
    DummyActivity activity_id string
  | CompositeActivity activity_id string "bench_activity list"

definition dummy_build :: "activity_id \<Rightarrow> bench_activity" where
  "dummy_build i = DummyActivity i (decimal (unat (id_of i)))"

definition composite_build ::
  "activity_id \<Rightarrow> (activity_id \<times> (activity_id \<Rightarrow> bench_activity)) list \<Rightarrow> bench_activity" where
  "composite_build i builders =
    CompositeActivity i (decimal (unat (id_of i))) (map (\<lambda>(j, b). b j) builders)"

definition composite_builder :: "activity_id list \<Rightarrow> activity_id \<Rightarrow> bench_activity" where
  "composite_builder components =
    (let ids_builders = map (\<lambda>i. (i, dummy_build)) components in (\<lambda>i. composite_build i ids_builders))"

fun bench_id :: "bench_activity \<Rightarrow> activity_id" where
  "bench_id (DummyActivity i s) = i"
| "bench_id (CompositeActivity i s as) = i"

text \<open>
  The loop of a composite over its components: each is called with \<open>?\<close>. It is written for any
  type of components, since they are trait objects.
\<close>

fun composite_calls :: "('a, 'e + unit) io \<Rightarrow> ('a list, 'e + unit) io" where
  "composite_calls m [] = (Ret (Inr ()), [])"
| "composite_calls m (x # xs) =
    (case m x of
       (Ret (Inr u), x') \<Rightarrow> (case composite_calls m xs of (r, xs') \<Rightarrow> (r, x' # xs'))
     | (r, x') \<Rightarrow> (r, x' # xs))"

lemma composite_calls_cong [fundef_cong]:
  "xs = ys \<Longrightarrow> (\<And>x. x \<in> set ys \<Longrightarrow> m x = m' x) \<Longrightarrow> composite_calls m xs = composite_calls m' ys"
  by (induction xs arbitrary: ys) (auto split: outcome.split sum.split prod.split)

fun bench_startup :: "(bench_activity, activity_error + unit) io" where
  "bench_startup (DummyActivity i s) = (Ret (Inr ()), DummyActivity i s)"
| "bench_startup (CompositeActivity i s as) =
    (case composite_calls bench_startup as of (r, as') \<Rightarrow> (r, CompositeActivity i s as'))"

fun bench_step :: "(bench_activity, activity_error + unit) io" where
  "bench_step (DummyActivity i s) = (Ret (Inr ()), DummyActivity i s)"
| "bench_step (CompositeActivity i s as) =
    (case composite_calls bench_step as of (r, as') \<Rightarrow> (r, CompositeActivity i s as'))"

fun bench_shutdown :: "(bench_activity, activity_error + unit) io" where
  "bench_shutdown (DummyActivity i s) = (Ret (Inr ()), DummyActivity i s)"
| "bench_shutdown (CompositeActivity i s as) =
    (case composite_calls bench_shutdown as of (r, as') \<Rightarrow> (r, CompositeActivity i s as'))"

definition bench_ops :: "bench_activity activity_ops" where
  "bench_ops = \<lparr>act_startup = bench_startup, act_step = bench_step, act_shutdown = bench_shutdown\<rparr>"

text \<open>\<open>Debug\<close> of a composite.\<close>

definition composite_debug :: "activity_id \<Rightarrow> bench_activity list \<Rightarrow> string" where
  "composite_debug i as =
    ''CA'' @ display_activity_id i @ '' ['' @ concat (map (\<lambda>a. display_activity_id (bench_id a) @ '','') as) @ '']''"

section \<open>Iterators that may panic\<close>

fun omap :: "('a \<Rightarrow> 'b outcome) \<Rightarrow> 'a list \<Rightarrow> 'b list outcome" where
  "omap f [] = Ret []"
| "omap f (x # xs) = obind (f x) (\<lambda>y. obind (omap f xs) (\<lambda>ys. Ret (y # ys)))"

fun ofilter :: "('a \<Rightarrow> bool outcome) \<Rightarrow> 'a list \<Rightarrow> 'a list outcome" where
  "ofilter p [] = Ret []"
| "ofilter p (x # xs) = obind (p x) (\<lambda>b. obind (ofilter p xs) (\<lambda>ys. Ret (if b then x # ys else ys)))"

text \<open>Indexing a map, \<open>Option::expect\<close> and indexing a vector at 0.\<close>

definition oexpect :: "'a option \<Rightarrow> 'a outcome" where
  "oexpect x = (case x of None \<Rightarrow> Panic | Some a \<Rightarrow> Ret a)"

definition ofirst :: "'a list \<Rightarrow> 'a outcome" where
  "ofirst xs = (case xs of [] \<Rightarrow> Panic | x # _ \<Rightarrow> Ret x)"

lemma obind_Ret_iff: "obind x f = Ret b \<longleftrightarrow> (\<exists>a. x = Ret a \<and> f a = Ret b)"
  by (cases x) auto

lemma omap_Ret: "(\<And>x. x \<in> set xs \<Longrightarrow> f x = Ret (g x)) \<Longrightarrow> omap f xs = Ret (map g xs)"
  by (induction xs) auto

lemma ofilter_Ret: "(\<And>x. x \<in> set xs \<Longrightarrow> p x = Ret (q x)) \<Longrightarrow> ofilter p xs = Ret (filter q xs)"
  by (induction xs) auto

lemma ofilter_Panic:
  "(\<And>x. x \<in> set xs \<Longrightarrow> p x \<noteq> Hang) \<Longrightarrow>
    ofilter p xs = (if \<exists>x\<in>set xs. p x = Panic then Panic else Ret (filter (\<lambda>x. p x = Ret True) xs))"
proof (induction xs)
  case (Cons x xs)
  then show ?case by (cases "p x") (auto)
qed simp

lemma oexpect_simps [simp]: "oexpect None = Panic" "oexpect (Some a) = Ret a" "oexpect x \<noteq> Hang"
  by (simp_all add: oexpect_def split: option.split)

lemma ofirst_simps [simp]: "ofirst [] = Panic" "ofirst (x # xs) = Ret x" "ofirst xs \<noteq> Hang"
  by (simp_all add: ofirst_def split: list.split)

lemma ofirst_single: "length xs = Suc 0 \<Longrightarrow> ofirst xs = Ret (hd xs)"
  by (cases xs) simp_all

section \<open>The search for chains\<close>

text \<open>An order of iteration visits every key, and a key only once.\<close>

definition iteration_order :: "('k list \<Rightarrow> 'k list) \<Rightarrow> bool" where
  "iteration_order order \<longleftrightarrow> (\<forall>xs. set (order xs) = set xs \<and> (distinct xs \<longrightarrow> distinct (order xs)))"

lemma iteration_order_self: "iteration_order (\<lambda>xs. xs)"
  by (simp add: iteration_order_def)

type_synonym activity_deps = "(activity_id \<times> activity_id list) list"

text \<open>The activities that depend on an activity, in the order of the map.\<close>

definition dependants :: "activity_deps \<Rightarrow> activity_id \<Rightarrow> activity_id list" where
  "dependants deps i = map fst (filter (\<lambda>(_, dependencies). i \<in> set dependencies) deps)"

text \<open>The test \<open>activity_worker_map[a1] == activity_worker_map[a2]\<close>.\<close>

definition same_worker :: "(activity_id \<times> worker_id) list \<Rightarrow> activity_id \<times> activity_id \<Rightarrow> bool outcome" where
  "same_worker awm = (\<lambda>(a1, a2).
    obind (oexpect (map_of awm a1)) (\<lambda>w1. obind (oexpect (map_of awm a2)) (\<lambda>w2. Ret (w1 = w2))))"

definition have_single_dependant ::
  "activity_deps \<Rightarrow> (activity_id \<times> worker_id) list \<Rightarrow> (activity_id \<times> activity_id) list outcome" where
  "have_single_dependant deps awm =
    (let candidates = filter (\<lambda>(_, ds). length ds = 1) (map (\<lambda>i. (i, dependants deps i)) (map fst deps)) in
     obind (omap (\<lambda>(i, ds). obind (ofirst ds) (\<lambda>d. Ret (i, d))) candidates) (ofilter (same_worker awm)))"

definition have_single_dependency ::
  "activity_deps \<Rightarrow> (activity_id \<times> worker_id) list \<Rightarrow> activity_id list outcome" where
  "have_single_dependency deps awm =
    obind (ofilter (\<lambda>i. obind (oexpect (map_of deps i)) (\<lambda>ds. Ret (1 = length ds))) (map fst deps)) (\<lambda>ids.
    obind (omap (\<lambda>i. obind (oexpect (map_of deps i)) (\<lambda>ds. obind (ofirst ds) (\<lambda>d. Ret (i, d)))) ids) (\<lambda>ps.
    obind (ofilter (same_worker awm) ps) (\<lambda>ps'. Ret (map fst ps'))))"

text \<open>The inner loop: follow the single dependants while they have a single dependency.\<close>

fun composite_loop ::
  "nat \<Rightarrow> (activity_id \<times> activity_id) list \<Rightarrow> activity_id list \<Rightarrow> activity_id \<Rightarrow> activity_id list \<Rightarrow>
    activity_id list outcome" where
  "composite_loop 0 sd sy current chain = Hang"
| "composite_loop (Suc n) sd sy current chain =
    (let chain = chain @ [current] in
     case map_of sd current of
       None \<Rightarrow> Ret chain
     | Some dependant \<Rightarrow>
         if dependant \<notin> set sy then Ret chain else composite_loop n sd sy dependant chain)"

text \<open>Is a start in the middle of another chain?\<close>

definition in_other_chain ::
  "activity_deps \<Rightarrow> (activity_id \<times> activity_id) list \<Rightarrow> activity_id list \<Rightarrow> activity_id \<Rightarrow> bool outcome" where
  "in_other_chain deps sd sy start =
    (if start \<in> set sy then
       obind (oexpect (map_of deps start)) (\<lambda>ds.
       obind (ofirst ds) (\<lambda>dependency. Ret (map_of sd dependency \<noteq> None)))
     else Ret False)"

text \<open>The outer loop over the potential starts.\<close>

fun chains_loop ::
  "nat \<Rightarrow> activity_deps \<Rightarrow> (activity_id \<times> activity_id) list \<Rightarrow> activity_id list \<Rightarrow> activity_id list \<Rightarrow>
    activity_id list list \<Rightarrow> activity_id list list outcome" where
  "chains_loop n deps sd sy [] found = Ret found"
| "chains_loop n deps sd sy (start # starts) found =
    obind (in_other_chain deps sd sy start) (\<lambda>skip.
    if skip then chains_loop n deps sd sy starts found
    else obind (composite_loop n sd sy start []) (\<lambda>chain.
      chains_loop n deps sd sy starts (if 1 < length chain then found @ [chain] else found)))"

text \<open>\<open>order\<close> is the order in which the keys of \<open>have_single_dependant\<close> are visited.\<close>

definition find_composites ::
  "nat \<Rightarrow> (activity_id list \<Rightarrow> activity_id list) \<Rightarrow> activity_deps \<Rightarrow> (activity_id \<times> worker_id) list \<Rightarrow>
    activity_id list list outcome" where
  "find_composites n order deps awm =
    obind (have_single_dependant deps awm) (\<lambda>sd.
    obind (have_single_dependency deps awm) (\<lambda>sy.
    chains_loop n deps sd sy (order (map fst sd)) []))"

section \<open>The relation the chains follow\<close>

text \<open>
  \<open>b\<close> has the single dependency \<open>a\<close>, \<open>a\<close> has the single dependant \<open>b\<close>, and both run on one worker.
\<close>

definition link :: "activity_deps \<Rightarrow> (activity_id \<times> worker_id) list \<Rightarrow> activity_id \<Rightarrow> activity_id \<Rightarrow> bool" where
  "link deps awm a b \<longleftrightarrow> a \<in> fst ` set deps \<and> map_of deps b = Some [a] \<and> dependants deps a = [b]
    \<and> map_of awm a = map_of awm b"

text \<open>Every activity of the map, and every dependency, is assigned to a worker.\<close>

definition workers_known :: "activity_deps \<Rightarrow> (activity_id \<times> worker_id) list \<Rightarrow> bool" where
  "workers_known deps awm \<longleftrightarrow>
    (\<forall>(i, ds) \<in> set deps. map_of awm i \<noteq> None \<and> (\<forall>d\<in>set ds. map_of awm d \<noteq> None))"

lemma link_functional: "link deps awm a b \<Longrightarrow> link deps awm a c \<Longrightarrow> b = c"
  by (simp add: link_def)

lemma link_injective: "link deps awm a c \<Longrightarrow> link deps awm b c \<Longrightarrow> a = b"
  by (simp add: link_def)

lemma link_keys: "link deps awm a b \<Longrightarrow> a \<in> fst ` set deps \<and> b \<in> fst ` set deps"
  by (auto simp: link_def dest: map_of_Some_in)

lemma set_dependants:
  "distinct (map fst deps) \<Longrightarrow> j \<in> set (dependants deps i) \<longleftrightarrow> (\<exists>ds. map_of deps j = Some ds \<and> i \<in> set ds)"
  by (force simp: dependants_def)

lemma ofilter_RetD:
  "ofilter p xs = Ret ys \<Longrightarrow> ys = filter (\<lambda>x. p x = Ret True) xs \<and> (\<forall>x\<in>set xs. \<exists>b. p x = Ret b)"
proof (induction xs arbitrary: ys)
  case (Cons x xs)
  then obtain b zs where "p x = Ret b" "ofilter p xs = Ret zs" "ys = (if b then x # zs else zs)"
    by (cases "p x"; cases "ofilter p xs") auto
  with Cons.IH show ?case by auto
qed simp

lemma same_worker_simps:
  "same_worker awm (a, b) = Ret True \<longleftrightarrow> map_of awm a \<noteq> None \<and> map_of awm a = map_of awm b"
  "same_worker awm (a, b) = Ret c \<Longrightarrow> map_of awm a \<noteq> None \<and> map_of awm b \<noteq> None"
  "same_worker awm p \<noteq> Hang"
  "same_worker awm p = Panic \<longleftrightarrow> map_of awm (fst p) = None \<or> map_of awm (snd p) = None"
  by (cases p; cases "map_of awm a"; cases "map_of awm b"; cases "map_of awm (fst p)"; cases "map_of awm (snd p)";
      auto simp: same_worker_def)+

definition single_pairs :: "activity_deps \<Rightarrow> (activity_id \<times> activity_id) list" where
  "single_pairs deps =
    map (\<lambda>i. (i, hd (dependants deps i))) (filter (\<lambda>i. length (dependants deps i) = 1) (map fst deps))"

definition dependency_pairs :: "activity_deps \<Rightarrow> (activity_id \<times> activity_id) list" where
  "dependency_pairs deps =
    map (\<lambda>i. (i, hd (the (map_of deps i)))) (filter (\<lambda>i. length (the (map_of deps i)) = 1) (map fst deps))"

lemma have_single_dependant_eq: "have_single_dependant deps awm = ofilter (same_worker awm) (single_pairs deps)"
proof -
  let ?c = "filter (\<lambda>(_, ds). length ds = 1) (map (\<lambda>i. (i, dependants deps i)) (map fst deps))"
  have "omap (\<lambda>(i, ds). obind (ofirst ds) (\<lambda>d. Ret (i, d))) ?c = Ret (map (\<lambda>(i, ds). (i, hd ds)) ?c)"
    by (rule omap_Ret) (auto simp: ofirst_single)
  also have "map (\<lambda>(i, ds). (i, hd ds)) ?c = single_pairs deps"
    by (simp add: single_pairs_def filter_map comp_def)
  finally show ?thesis by (simp only: have_single_dependant_def Let_def obind.simps)
qed

lemma have_single_dependency_eq:
  assumes "distinct (map fst deps)"
  shows "have_single_dependency deps awm =
    obind (ofilter (same_worker awm) (dependency_pairs deps)) (\<lambda>ps. Ret (map fst ps))"
proof -
  let ?ids = "filter (\<lambda>i. length (the (map_of deps i)) = 1) (map fst deps)"
  have known: "\<exists>ds. map_of deps i = Some ds" if "i \<in> set (map fst deps)" for i
    using that by (metis map_of_None_iff not_None_eq set_map)
  have "ofilter (\<lambda>i. obind (oexpect (map_of deps i)) (\<lambda>ds. Ret (1 = length ds))) (map fst deps)
      = Ret (filter (\<lambda>i. 1 = length (the (map_of deps i))) (map fst deps))"
    by (rule ofilter_Ret) (use known in fastforce)
  moreover have "omap (\<lambda>i. obind (oexpect (map_of deps i)) (\<lambda>ds. obind (ofirst ds) (\<lambda>d. Ret (i, d)))) ?ids
      = Ret (dependency_pairs deps)"
    unfolding dependency_pairs_def
    by (rule omap_Ret) (use known in \<open>fastforce simp: ofirst_single\<close>)
  moreover have "filter (\<lambda>i. 1 = length (the (map_of deps i))) (map fst deps) = ?ids"
    by (simp add: eq_commute)
  ultimately show ?thesis unfolding have_single_dependency_def by (simp only: obind.simps)
qed

lemma single_pairs_iff: "(a, b) \<in> set (single_pairs deps) \<longleftrightarrow> a \<in> fst ` set deps \<and> dependants deps a = [b]"
  by (auto simp: single_pairs_def length_Suc_conv image_iff)

lemma dependency_pairs_iff: "(b, a) \<in> set (dependency_pairs deps) \<longleftrightarrow> map_of deps b = Some [a]"
proof
  assume "(b, a) \<in> set (dependency_pairs deps)"
  then show "map_of deps b = Some [a]"
    by (auto simp: dependency_pairs_def length_Suc_conv)
      (metis list.sel(1) map_of_None_iff option.collapse image_eqI fst_conv)
next
  assume "map_of deps b = Some [a]"
  moreover from this have "b \<in> set (map fst deps)" by (auto dest: map_of_Some_in)
  ultimately show "(b, a) \<in> set (dependency_pairs deps)"
    unfolding dependency_pairs_def by (auto simp: image_iff intro!: bexI [of _ b])
qed

lemma distinct_single_pairs: "distinct (map fst deps) \<Longrightarrow> distinct (map fst (single_pairs deps))"
  by (simp add: single_pairs_def comp_def)

text \<open>The two collections, when their lookups succeed.\<close>

definition searched ::
  "activity_deps \<Rightarrow> (activity_id \<times> worker_id) list \<Rightarrow> (activity_id \<times> activity_id) list \<Rightarrow> activity_id list \<Rightarrow> bool" where
  "searched deps awm sd sy \<longleftrightarrow>
    have_single_dependant deps awm = Ret sd \<and> have_single_dependency deps awm = Ret sy"

lemma searched_facts:
  assumes d: "distinct (map fst deps)" and s: "searched deps awm sd sy"
  shows "map_of sd a = Some b \<longleftrightarrow> a \<in> fst ` set deps \<and> dependants deps a = [b] \<and> map_of awm a = map_of awm b"
    and "b \<in> set sy \<longleftrightarrow> (\<exists>a. map_of deps b = Some [a] \<and> map_of awm a = map_of awm b)"
    and "distinct (map fst sd)" and "fst ` set sd \<subseteq> fst ` set deps"
proof -
  obtain ps where sd: "ofilter (same_worker awm) (single_pairs deps) = Ret sd"
    and ps: "ofilter (same_worker awm) (dependency_pairs deps) = Ret ps" and sy: "sy = map fst ps"
    using s unfolding searched_def have_single_dependant_eq have_single_dependency_eq [OF d]
    by (cases "ofilter (same_worker awm) (dependency_pairs deps)") auto
  note sd' = ofilter_RetD [OF sd] and ps' = ofilter_RetD [OF ps]
  have dist: "distinct (map fst sd)"
    using sd' distinct_single_pairs [OF d] distinct_map_filter by blast
  then show "distinct (map fst sd)" .
  have sw: "same_worker awm (a, b) = Ret True \<longleftrightarrow> map_of awm a = map_of awm b"
    if "\<exists>c. same_worker awm (a, b) = Ret c" for a b
    using that same_worker_simps(1,2) by blast
  have "(a, b) \<in> set sd \<longleftrightarrow> (a, b) \<in> set (single_pairs deps) \<and> map_of awm a = map_of awm b" for a b
    using sd' sw by auto
  then show "map_of sd a = Some b \<longleftrightarrow> a \<in> fst ` set deps \<and> dependants deps a = [b] \<and> map_of awm a = map_of awm b"
    by (simp only: map_of_eq_Some_iff [OF dist] single_pairs_iff conj_assoc)
  have "(b, a) \<in> set ps \<longleftrightarrow> (b, a) \<in> set (dependency_pairs deps) \<and> map_of awm a = map_of awm b" for a
    using ps' sw by auto
  then show "b \<in> set sy \<longleftrightarrow> (\<exists>a. map_of deps b = Some [a] \<and> map_of awm a = map_of awm b)"
    unfolding sy by (force simp: dependency_pairs_iff)
  show "fst ` set sd \<subseteq> fst ` set deps"
    using sd' by (auto simp: single_pairs_iff)
qed

text \<open>The step of the inner loop, and the test of the outer one, in terms of \<open>link\<close>.\<close>

lemma link_step:
  assumes d: "distinct (map fst deps)" and s: "searched deps awm sd sy"
  shows "map_of sd a = Some b \<and> b \<in> set sy \<longleftrightarrow> link deps awm a b"
proof -
  have "a \<in> set ds" if "dependants deps a = [b]" "map_of deps b = Some ds" for ds
    using set_dependants [OF d, of b a] that by auto
  then show ?thesis
    unfolding searched_facts(1,2) [OF d s] link_def by fastforce
qed

lemma start_skipped:
  assumes d: "distinct (map fst deps)" and s: "searched deps awm sd sy"
  shows "in_other_chain deps sd sy a = Ret (\<exists>p. link deps awm p a)"
proof (cases "\<exists>p. map_of deps a = Some [p] \<and> map_of awm p = map_of awm a")
  case True
  then obtain p where p: "map_of deps a = Some [p]" "map_of awm p = map_of awm a" by blast
  moreover have "a \<in> set sy" using p searched_facts(2) [OF d s] by blast
  moreover have "map_of sd p \<noteq> None \<longleftrightarrow> link deps awm p a"
  proof
    assume "map_of sd p \<noteq> None"
    then obtain b where b: "p \<in> fst ` set deps" "dependants deps p = [b]"
      using searched_facts(1) [OF d s] by blast
    moreover have "a \<in> set (dependants deps p)" using set_dependants [OF d] p by fastforce
    ultimately show "link deps awm p a" using p by (simp add: link_def)
  next
    assume "link deps awm p a"
    then have "map_of sd p = Some a" using link_step [OF d s] by blast
    then show "map_of sd p \<noteq> None" by simp
  qed
  moreover have "link deps awm q a \<Longrightarrow> q = p" for q using p by (simp add: link_def)
  ultimately show ?thesis by (auto simp: in_other_chain_def)
next
  case False
  then have "a \<notin> set sy" using searched_facts(2) [OF d s] by blast
  moreover have "\<not> link deps awm p a" for p using False by (auto simp: link_def)
  ultimately show ?thesis by (simp add: in_other_chain_def)
qed

section \<open>Following the chains\<close>

text \<open>A path of an injective relation that starts where no edge ends never meets itself.\<close>

lemma injective_path_distinct:
  assumes inj: "\<And>a b c. R a c \<Longrightarrow> R b c \<Longrightarrow> a = b"
  shows "successively R xs \<Longrightarrow> (\<And>p. \<not> R p (hd xs)) \<Longrightarrow> distinct xs"
proof (induction xs rule: rev_induct)
  case (snoc z ys)
  show ?case
  proof (cases "ys = []")
    case False
    with snoc.prems have path: "successively R ys" "R (last ys) z" and start: "\<And>p. \<not> R p (hd ys)"
      by (auto simp: successively_append_iff)
    have dist: "distinct ys" using snoc.IH [OF path(1)] start by blast
    have "z \<notin> set ys"
    proof
      assume "z \<in> set ys"
      then obtain us vs where ys: "ys = us @ z # vs" by (meson split_list)
      with start path(2) have us: "us \<noteq> []" by auto
      with ys path(1) have "R (last us) z" by (auto simp: successively_append_iff)
      with path(2) inj have "last us = last ys" by blast
      moreover have "last us \<in> set us" "last ys \<in> set (z # vs)" using us ys by auto
      ultimately show False using dist ys by auto
    qed
    with dist show ?thesis by simp
  qed simp
qed simp

lemma composite_loop_follows:
  assumes step: "\<And>a b. map_of sd a = Some b \<and> b \<in> set sy \<longleftrightarrow> R a b"
  shows "composite_loop n sd sy current chain = Ret c \<Longrightarrow>
    \<exists>zs. c = chain @ current # zs \<and> successively R (current # zs) \<and> (\<forall>b. \<not> R (last c) b)"
proof (induction n arbitrary: current chain)
  case (Suc n)
  show ?case
  proof (cases "\<exists>b. R current b")
    case True
    then obtain b where b: "R current b" by blast
    then have "map_of sd current = Some b" "b \<in> set sy" using step by blast+
    with Suc.prems have "composite_loop n sd sy b (chain @ [current]) = Ret c" by (simp add: Let_def)
    from Suc.IH [OF this] obtain zs where
      "c = chain @ [current] @ b # zs" "successively R (b # zs)" "\<forall>b. \<not> R (last c) b" by auto
    with b show ?thesis by (intro exI [of _ "b # zs"]) simp
  next
    case False
    then have "c = chain @ [current]"
      using Suc.prems step [of current] by (auto simp: Let_def split: option.splits if_splits)
    with False show ?thesis by simp
  qed
qed simp

lemma composite_loop_returns:
  assumes step: "\<And>a b. map_of sd a = Some b \<and> b \<in> set sy \<longleftrightarrow> R a b"
    and inj: "\<And>a b c. R a c \<Longrightarrow> R b c \<Longrightarrow> a = b" and K: "finite K" "\<And>a b. R a b \<Longrightarrow> b \<in> K"
  shows "successively R (chain @ [current]) \<Longrightarrow> set (chain @ [current]) \<subseteq> K \<Longrightarrow>
    (\<And>p. \<not> R p (hd (chain @ [current]))) \<Longrightarrow> card K < n + length chain \<Longrightarrow>
    \<exists>c. composite_loop n sd sy current chain = Ret c"
proof (induction n arbitrary: current chain)
  case 0
  have "distinct (chain @ [current])" by (rule injective_path_distinct [OF inj 0(1,3)])
  then have "length (chain @ [current]) \<le> card K"
    using card_mono [OF K(1) 0(2)] by (simp only: distinct_card)
  with 0(4) show ?case by simp
next
  case (Suc n)
  show ?case
  proof (cases "\<exists>b. R current b")
    case True
    then obtain b where b: "R current b" by blast
    then have "map_of sd current = Some b" "b \<in> set sy" using step by blast+
    then have "composite_loop (Suc n) sd sy current chain = composite_loop n sd sy b (chain @ [current])"
      by (simp add: Let_def)
    moreover have "\<exists>c. composite_loop n sd sy b (chain @ [current]) = Ret c"
    proof (rule Suc.IH)
      show "successively R ((chain @ [current]) @ [b])"
        using Suc.prems(1) b by (simp add: successively_append_iff)
      show "set ((chain @ [current]) @ [b]) \<subseteq> K" using Suc.prems(2) K(2) [OF b] by simp
      show "\<not> R p (hd ((chain @ [current]) @ [b]))" for p
        using Suc.prems(3) [of p] by (cases chain) simp_all
      show "card K < n + length (chain @ [current])" using Suc.prems(4) by simp
    qed
    ultimately show ?thesis by simp
  next
    case False
    then have "composite_loop (Suc n) sd sy current chain = Ret (chain @ [current])"
      using step [of current] by (auto simp: Let_def split: option.splits)
    then show ?thesis by blast
  qed
qed

section \<open>What the search finds\<close>

definition maximal_path :: "('a \<Rightarrow> 'a \<Rightarrow> bool) \<Rightarrow> 'a list \<Rightarrow> bool" where
  "maximal_path R c \<longleftrightarrow>
    c \<noteq> [] \<and> successively R c \<and> (\<forall>p. \<not> R p (hd c)) \<and> (\<forall>b. \<not> R (last c) b)"

lemma maximal_path_from_unique:
  assumes fun_R: "\<And>a b c. R a b \<Longrightarrow> R a c \<Longrightarrow> b = c"
  shows "successively R (z # us) \<Longrightarrow> \<forall>b. \<not> R (last (z # us)) b \<Longrightarrow>
    successively R (z # vs) \<Longrightarrow> \<forall>b. \<not> R (last (z # vs)) b \<Longrightarrow> us = vs"
proof (induction us arbitrary: z vs)
  case Nil
  then show ?case by (cases vs) auto
next
  case (Cons u us)
  from Cons.prems(1,4) obtain v vs' where vs: "vs = v # vs'" by (cases vs) auto
  with Cons.prems(1,3) have "v = u" using fun_R by auto
  with Cons vs show ?case by auto
qed

lemma maximal_path_unique:
  assumes fun_R: "\<And>a b c. R a b \<Longrightarrow> R a c \<Longrightarrow> b = c" and inj: "\<And>a b c. R a c \<Longrightarrow> R b c \<Longrightarrow> a = b"
    and c: "maximal_path R c" and c': "maximal_path R c'" and z: "z \<in> set c" "z \<in> set c'"
  shows "c = c'"
proof -
  obtain us vs us' vs' where eq: "c = us @ z # vs" "c' = us' @ z # vs'" using z by (metis split_list)
  have paths: "successively R (us @ [z])" "successively R (z # vs)"
      "successively R (us' @ [z])" "successively R (z # vs')"
    using c c' unfolding eq maximal_path_def by (auto simp: successively_append_iff)
  have ends: "\<forall>b. \<not> R (last (z # vs)) b" "\<forall>b. \<not> R (last (z # vs')) b"
    using c c' unfolding eq maximal_path_def by auto
  have "vs = vs'" by (rule maximal_path_from_unique [OF fun_R paths(2) ends(1) paths(4) ends(2)])
  moreover have "rev us = rev us'"
  proof (rule maximal_path_from_unique [where R = "\<lambda>a b. R b a" and z = z])
    show "b = d" if "R b a" "R d a" for a b d using inj that by blast
    show "successively (\<lambda>a b. R b a) (z # rev us)"
      using paths(1) successively_rev [of R "z # rev us"] by simp
    show "successively (\<lambda>a b. R b a) (z # rev us')"
      using paths(3) successively_rev [of R "z # rev us'"] by simp
    show "\<forall>b. \<not> R b (last (z # rev us))" "\<forall>b. \<not> R b (last (z # rev us'))"
      using c c' unfolding eq maximal_path_def by (auto simp: last_rev hd_append)
  qed
  ultimately show ?thesis unfolding eq by simp
qed

lemma chains_loop_finds:
  assumes step: "\<And>a b. map_of sd a = Some b \<and> b \<in> set sy \<longleftrightarrow> R a b"
    and skip: "\<And>a. in_other_chain deps sd sy a = Ret (\<exists>p. R p a)"
    and fun_R: "\<And>a b c. R a b \<Longrightarrow> R a c \<Longrightarrow> b = c" and inj: "\<And>a b c. R a c \<Longrightarrow> R b c \<Longrightarrow> a = b"
    and K: "finite K" "\<And>a b. R a b \<Longrightarrow> b \<in> K" "card K < n"
  shows "set starts \<subseteq> K \<Longrightarrow> \<exists>cs. chains_loop n deps sd sy starts found = Ret (found @ cs)
    \<and> set cs = {c. maximal_path R c \<and> 1 < length c \<and> hd c \<in> set starts}
    \<and> map hd cs = filter (\<lambda>a. (\<forall>p. \<not> R p a) \<and> (\<exists>b. R a b)) starts"
proof (induction starts arbitrary: found)
  case Nil
  then show ?case by simp
next
  case (Cons a starts)
  let ?M = "\<lambda>A. {c. maximal_path R c \<and> 1 < length c \<and> hd c \<in> A}"
  show ?case
  proof (cases "\<exists>p. R p a")
    case True
    then have "chains_loop n deps sd sy (a # starts) found = chains_loop n deps sd sy starts found"
      using skip by simp
    moreover have "?M (set (a # starts)) = ?M (set starts)" using True by (auto simp: maximal_path_def)
    moreover have "filter (\<lambda>a. (\<forall>p. \<not> R p a) \<and> (\<exists>b. R a b)) (a # starts) =
        filter (\<lambda>a. (\<forall>p. \<not> R p a) \<and> (\<exists>b. R a b)) starts" using True by auto
    ultimately show ?thesis using Cons.IH [of found] Cons.prems by (simp only: set_simps insert_subset simp_thms)
  next
    case False
    have "\<exists>c. composite_loop n sd sy a [] = Ret c"
      by (rule composite_loop_returns [where R = R, OF step inj K(1,2)]) (use Cons.prems False K(3) in auto)
    then obtain c where c: "composite_loop n sd sy a [] = Ret c" by blast
    from composite_loop_follows [where R = R, OF step c] obtain zs where
      zs: "c = a # zs" "successively R c" "\<forall>b. \<not> R (last c) b" by auto
    then have max: "maximal_path R c" using False by (simp add: maximal_path_def)
    have only: "d = c" if "maximal_path R d" "hd d = a" for d
      by (rule maximal_path_unique [OF fun_R inj that(1) max, where z = a])
        (use that zs(1) in \<open>auto simp: maximal_path_def intro: hd_in_set\<close>)
    have long: "1 < length c \<longleftrightarrow> (\<exists>b. R a b)"
      using zs by (cases zs) auto
    let ?found = "if 1 < length c then found @ [c] else found"
    have run: "chains_loop n deps sd sy (a # starts) found = chains_loop n deps sd sy starts ?found"
      using skip False c by simp
    obtain cs where cs: "chains_loop n deps sd sy starts ?found = Ret (?found @ cs)"
      "set cs = ?M (set starts)" "map hd cs = filter (\<lambda>a. (\<forall>p. \<not> R p a) \<and> (\<exists>b. R a b)) starts"
      using Cons.IH [of ?found] Cons.prems by auto
    let ?cs = "(if 1 < length c then [c] else []) @ cs"
    have split: "d \<in> ?M (set (a # starts)) \<longleftrightarrow> 1 < length c \<and> d = c \<or> d \<in> ?M (set starts)" for d
    proof (cases "maximal_path R d \<and> hd d = a")
      case True
      then have d: "d = c" using only by blast
      show ?thesis unfolding d using max zs(1) by simp
    next
      case False
      then have "d \<noteq> c" using max zs(1) by auto
      with False show ?thesis by auto
    qed
    show ?thesis
    proof (intro exI [of _ ?cs] conjI)
      show "chains_loop n deps sd sy (a # starts) found = Ret (found @ ?cs)"
        unfolding run cs(1) by simp
      show "set ?cs = ?M (set (a # starts))"
        by (rule set_eqI, unfold split) (auto simp: cs(2))
      show "map hd ?cs = filter (\<lambda>a. (\<forall>p. \<not> R p a) \<and> (\<exists>b. R a b)) (a # starts)"
        unfolding map_append cs(3) filter.simps long [symmetric] using False zs(1) by simp
    qed
  qed
qed

lemma find_composites_searched:
  assumes d: "distinct (map fst deps)" and s: "searched deps awm sd sy"
    and order: "iteration_order order" and n: "length deps < n"
  shows "\<exists>cs. find_composites n order deps awm = Ret cs
    \<and> set cs = {c. maximal_path (link deps awm) c \<and> 1 < length c} \<and> distinct cs"
proof -
  let ?R = "link deps awm" and ?K = "fst ` set deps"
  note facts = searched_facts [OF d s]
  have set_order: "set (order (map fst sd)) = fst ` set sd"
    using order by (simp add: iteration_order_def)
  have dist_order: "distinct (order (map fst sd))"
    using facts(3) order by (simp add: iteration_order_def)
  have "\<exists>cs. chains_loop n deps sd sy (order (map fst sd)) [] = Ret ([] @ cs)
    \<and> set cs = {c. maximal_path ?R c \<and> 1 < length c \<and> hd c \<in> set (order (map fst sd))}
    \<and> map hd cs = filter (\<lambda>a. (\<forall>p. \<not> ?R p a) \<and> (\<exists>b. ?R a b)) (order (map fst sd))"
  proof (rule chains_loop_finds)
    show "map_of sd a = Some b \<and> b \<in> set sy \<longleftrightarrow> ?R a b" for a b by (rule link_step [OF d s])
    show "in_other_chain deps sd sy a = Ret (\<exists>p. ?R p a)" for a by (rule start_skipped [OF d s])
    show "b = c" if "?R a b" "?R a c" for a b c using link_functional that by blast
    show "a = b" if "?R a c" "?R b c" for a b c using link_injective that by blast
    show "b \<in> ?K" if "?R a b" for a b using link_keys [OF that] by simp
    show "card ?K < n" using n card_length [of "map fst deps"] by simp
    show "set (order (map fst sd)) \<subseteq> ?K" unfolding set_order by (rule facts(4))
  qed simp
  then obtain cs where cs: "chains_loop n deps sd sy (order (map fst sd)) [] = Ret cs"
    "set cs = {c. maximal_path ?R c \<and> 1 < length c \<and> hd c \<in> set (order (map fst sd))}"
    "map hd cs = filter (\<lambda>a. (\<forall>p. \<not> ?R p a) \<and> (\<exists>b. ?R a b)) (order (map fst sd))" by auto
  have "hd c \<in> fst ` set sd" if "maximal_path ?R c" "1 < length c" for c
  proof -
    from that obtain a b zs where c: "c = a # b # zs" "?R a b"
      by (cases c; cases "tl c") (auto simp: maximal_path_def)
    then have "map_of sd a = Some b" using link_step [OF d s] by blast
    then have "a \<in> fst ` set sd" by (rule map_of_Some_in)
    then show ?thesis using c(1) by simp
  qed
  with cs(2) set_order have "set cs = {c. maximal_path ?R c \<and> 1 < length c}" by auto
  moreover have "distinct (map hd cs)" unfolding cs(3) by (rule distinct_filter, rule dist_order)
  then have "distinct cs" by (simp only: distinct_map)
  moreover have "find_composites n order deps awm = Ret cs"
    using s cs(1) by (simp add: find_composites_def searched_def)
  ultimately show ?thesis by blast
qed

lemma maximal_chains_disjoint:
  assumes "set cs = {c. maximal_path (link deps awm) c \<and> 1 < length c}" and "distinct cs"
  shows "distinct (concat cs)"
proof (rule distinct_concat [OF assms(2)])
  show "distinct c" if "c \<in> set cs" for c
    by (rule injective_path_distinct [where R = "link deps awm"])
      (use that assms(1) in \<open>auto simp: maximal_path_def link_def\<close>)
  show "set c \<inter> set c' = {}" if "c \<in> set cs" "c' \<in> set cs" "c \<noteq> c'" for c c'
  proof (rule ccontr)
    assume "set c \<inter> set c' \<noteq> {}"
    then obtain z where z: "z \<in> set c" "z \<in> set c'" by blast
    have "c = c'"
      by (rule maximal_path_unique [where R = "link deps awm" and z = z, OF link_functional link_injective _ _ z])
        (use that assms(1) in auto)
    with that(3) show False ..
  qed
qed

lemma workers_known_searched:
  assumes d: "distinct (map fst deps)" and w: "workers_known deps awm"
  shows "\<exists>sd sy. searched deps awm sd sy"
proof -
  have known: "map_of awm i \<noteq> None \<and> (\<forall>d\<in>set ds. map_of awm d \<noteq> None)" if "(i, ds) \<in> set deps" for i ds
    using w that by (auto simp: workers_known_def)
  have "map_of awm a \<noteq> None \<and> map_of awm b \<noteq> None" if ab: "(a, b) \<in> set (single_pairs deps)" for a b
  proof -
    from ab have a: "a \<in> fst ` set deps" and "b \<in> set (dependants deps a)" by (auto simp: single_pairs_iff)
    then have "b \<in> fst ` set deps" by (auto simp: dependants_def)
    with a known show ?thesis by fastforce
  qed
  moreover have "map_of awm a \<noteq> None \<and> map_of awm b \<noteq> None" if "(a, b) \<in> set (dependency_pairs deps)" for a b
    using that known by (auto simp: dependency_pairs_iff dest!: map_of_SomeD)
  ultimately have "\<exists>sd. ofilter (same_worker awm) (single_pairs deps) = Ret sd"
    "\<exists>ps. ofilter (same_worker awm) (dependency_pairs deps) = Ret ps"
    using ofilter_Panic [where p = "same_worker awm"] same_worker_simps(3,4) by auto
  then show ?thesis
    unfolding searched_def have_single_dependant_eq have_single_dependency_eq [OF d] by auto
qed

lemma search_ends:
  assumes "distinct (map fst deps)"
  shows "have_single_dependant deps awm \<noteq> Hang" "have_single_dependency deps awm \<noteq> Hang"
  unfolding have_single_dependant_eq have_single_dependency_eq [OF assms]
  using ofilter_Panic [where p = "same_worker awm"] same_worker_simps(3) by auto

section \<open>Properties\<close>

text \<open>
  C25: the search for composites ends on every dependency map, cyclic ones included, although its
  inner loop has no bound of its own: it follows a relation that is injective and starts where
  nothing leads to, so it never meets an activity twice. The number of activities bounds its
  iterations.
\<close>

theorem find_composites_ends:
  assumes d: "distinct (map fst deps)" and order: "iteration_order order" and n: "length deps < n"
  shows "find_composites n order deps awm \<noteq> Hang"
proof (cases "\<exists>sd sy. searched deps awm sd sy")
  case True
  then show ?thesis using find_composites_searched [OF d _ order n] by fastforce
next
  case False
  then show ?thesis
    using search_ends [OF d, of awm]
    by (cases "have_single_dependant deps awm"; cases "have_single_dependency deps awm")
      (auto simp: find_composites_def searched_def)
qed

text \<open>
  C24: when every activity is assigned to a worker, the search finds exactly the maximal chains of
  at least two activities on one worker in which each activity depends on its predecessor only and
  is the only dependant of it. No activity is in two chains or twice in one.
\<close>

theorem find_composites_chains:
  assumes "distinct (map fst deps)" and "workers_known deps awm"
    and "iteration_order order" and "length deps < n"
  shows "\<exists>cs. find_composites n order deps awm = Ret cs
    \<and> set cs = {c. maximal_path (link deps awm) c \<and> 1 < length c} \<and> distinct (concat cs)"
proof -
  obtain sd sy where "searched deps awm sd sy" using workers_known_searched assms(1,2) by blast
  from find_composites_searched [OF assms(1) this assms(3,4)] show ?thesis
    using maximal_chains_disjoint by blast
qed

text \<open>
  A composite calls its components in order and stops at the first error: the components before
  the failing one have been called successfully, the failing one has been called, and the later ones
  have not been touched. The call returns that error, or \<open>Ok\<close> when no component fails.
\<close>

theorem composite_stops_at_error:
  assumes "\<And>x. x \<in> set ps \<Longrightarrow> fst (m x) = Ret (Inr ())" and "m z = (Ret (Inl e), z')"
  shows "composite_calls m (ps @ z # rest) = (Ret (Inl e), map (snd \<circ> m) ps @ z' # rest)
    \<and> composite_calls m ps = (Ret (Inr ()), map (snd \<circ> m) ps)"
  using assms(1)
proof (induction ps)
  case Nil
  then show ?case using assms(2) by simp
next
  case (Cons x ps)
  then obtain x' where "m x = (Ret (Inr ()), x')" by (metis list.set_intros(1) prod.collapse)
  with Cons show ?case by simp
qed

section \<open>Witnesses\<close>

text \<open>A cycle of two activities, and two chains that share a dependant.\<close>

theorem find_composites_ends_witness:
  "find_composites 5 (\<lambda>xs. xs) [(GenericId 1, [GenericId 2]), (GenericId 2, [GenericId 1])]
    [(GenericId 1, GenericId 40), (GenericId 2, GenericId 40)] \<noteq> Hang"
  by (rule find_composites_ends) (simp_all add: iteration_order_self)

theorem find_composites_chains_witness:
  "\<exists>cs. find_composites 6 rev
      [(GenericId 1, []), (GenericId 2, [GenericId 1]), (GenericId 3, []), (GenericId 4, [GenericId 3]),
       (GenericId 5, [GenericId 2, GenericId 4])]
      (map (\<lambda>i. (GenericId i, GenericId 40)) [1, 2, 3, 4, 5]) = Ret cs
    \<and> set cs = {c. maximal_path (link
          [(GenericId 1, []), (GenericId 2, [GenericId 1]), (GenericId 3, []), (GenericId 4, [GenericId 3]),
           (GenericId 5, [GenericId 2, GenericId 4])]
          (map (\<lambda>i. (GenericId i, GenericId 40)) [1, 2, 3, 4, 5])) c \<and> 1 < length c}
    \<and> distinct (concat cs)"
  by (rule find_composites_chains) (simp_all add: workers_known_def iteration_order_def)

theorem composite_stops_at_error_witness:
  "composite_calls (\<lambda>x::nat. (Ret (if x = 2 then Inl AStep else Inr ()), x + 10)) ([0, 1] @ 2 # [3])
      = (Ret (Inl AStep), map (snd \<circ> (\<lambda>x::nat. (Ret (if x = 2 then Inl AStep else Inr ()), x + 10))) [0, 1] @ 12 # [3])
    \<and> composite_calls (\<lambda>x::nat. (Ret (if x = 2 then Inl AStep else Inr ()), x + 10)) [0, 1]
      = (Ret (Inr ()), map (snd \<circ> (\<lambda>x::nat. (Ret (if x = 2 then Inl AStep else Inr ()), x + 10))) [0, 1])"
  by (rule composite_stops_at_error) auto

end
