(* ===== verification/Feo_Composite_Opt.thy ===== *)
theory Feo_Composite_Opt
  imports Feo_Composites
begin

text \<open>
  The optimisation of the cycle benchmark that replaces chains of activities by composites
  (\<open>ApplicationConfig::optimize_composite\<close> in \<open>examples/rust/cycle-benchmark/src/config.rs\<close>). The
  meaning of a dependency map is the set of the orders in which a cycle may run its activities,
  \<open>runs_cycle\<close>; the lemmas show how one rewriting step changes it, and compose the steps over the
  chains that the search has found.
\<close>

section \<open>The configuration\<close>

datatype signalling_type = DirectMpsc | DirectTcp | DirectUnix | RelayedTcp | RelayedUnix

record bench_config =
  bc_signalling :: signalling_type
  bc_primary_agent :: agent_id
  bc_bind_addrs :: "string \<times> string"
  bc_socket_paths :: "string \<times> string"
  bc_agent_assignments :: "(agent_id \<times> worker_id list) list"
  bc_worker_assignments :: "(worker_id \<times> activity_id list) list"
  bc_activity_deps :: activity_deps
  bc_composites :: "(activity_id \<times> activity_id list) list"

text \<open>\<open>collect\<close> into a \<open>HashMap\<close>: a later entry replaces an earlier one with its key.\<close>

definition hash_collect :: "('k \<times> 'v) list \<Rightarrow> ('k \<times> 'v) list" where
  "hash_collect kvs = fold (\<lambda>(k, v). AList.update k v) kvs []"

definition bench_activity_workers :: "bench_config \<Rightarrow> (activity_id \<times> worker_id) list" where
  "bench_activity_workers cfg =
    hash_collect (concat (map (\<lambda>(wid, aids). map (\<lambda>aid. (aid, wid)) aids) (bc_worker_assignments cfg)))"

section \<open>The optimisation\<close>

text \<open>The dependencies after a chain has been replaced by its first activity.\<close>

definition optimize_deps :: "activity_id list \<Rightarrow> activity_deps \<Rightarrow> activity_deps" where
  "optimize_deps chain deps =
    (let first_id = hd chain; chain_wo_first = tl chain; last_id = last chain; chain_wo_last = butlast chain in
     hash_collect
       (map (\<lambda>(i, ds). if i = last_id then (first_id, ds) else (i, ds))
         (map (\<lambda>(i, ds).
             (i, map (\<lambda>d. if d = last_id then first_id else d) (filter (\<lambda>d. d \<notin> set chain_wo_last) ds)))
           (filter (\<lambda>(i, ds). i \<notin> set chain_wo_first) deps))))"

definition optimize_assignments ::
  "activity_id list \<Rightarrow> (worker_id \<times> activity_id list) list \<Rightarrow> (worker_id \<times> activity_id list) list" where
  "optimize_assignments chain ws =
    hash_collect (map (\<lambda>(w, as). (w, filter (\<lambda>a. a \<notin> set (tl chain)) as)) ws)"

definition optimize_chain :: "activity_id list \<Rightarrow> bench_config \<Rightarrow> bench_config outcome" where
  "optimize_chain chain cfg =
    (if length chain < 2 then Panic
     else Ret (cfg\<lparr>bc_activity_deps := optimize_deps chain (bc_activity_deps cfg),
                   bc_worker_assignments := optimize_assignments chain (bc_worker_assignments cfg),
                   bc_composites := AList.update (hd chain) chain (bc_composites cfg)\<rparr>))"

fun optimize_chains :: "activity_id list list \<Rightarrow> bench_config \<Rightarrow> bench_config outcome" where
  "optimize_chains [] cfg = Ret cfg"
| "optimize_chains (chain # cs) cfg = obind (optimize_chain chain cfg) (optimize_chains cs)"

text \<open>The announcement of the chains indexes each of them at 0.\<close>

definition optimize_composite ::
  "nat \<Rightarrow> (activity_id list \<Rightarrow> activity_id list) \<Rightarrow> bench_config \<Rightarrow> bench_config outcome" where
  "optimize_composite n order cfg =
    obind (find_composites n order (bc_activity_deps cfg) (bench_activity_workers cfg)) (\<lambda>cs.
    obind (omap ofirst cs) (\<lambda>_. optimize_chains cs cfg))"

section \<open>Collecting\<close>

lemma hash_collect_distinct: "distinct (map fst kvs) \<Longrightarrow> hash_collect kvs = kvs"
proof -
  have "distinct (map fst (m @ kvs)) \<Longrightarrow> fold (\<lambda>(k, v). AList.update k v) kvs m = m @ kvs" for m
  proof (induction kvs arbitrary: m)
    case (Cons kv kvs)
    obtain k v where kv: "kv = (k, v)" by fastforce
    have "AList.update k v m = m @ [(k, v)]" if "k \<notin> fst ` set m" for k v
      using that by (induction m) auto
    then show ?case using Cons.prems Cons.IH [of "m @ [(k, v)]"] unfolding kv by auto
  qed simp
  from this [of "[]"] show "distinct (map fst kvs) \<Longrightarrow> ?thesis" by (simp add: hash_collect_def)
qed

lemma update_sets:
  "fst ` set (AList.update k v m) = insert k (fst ` set m)" "snd ` set (AList.update k v m) \<subseteq> insert v (snd ` set m)"
  by (induction m) auto

lemma hash_collect_sets: "fst ` set (hash_collect kvs) = fst ` set kvs" "snd ` set (hash_collect kvs) \<subseteq> snd ` set kvs"
proof -
  have "fst ` set (fold (\<lambda>(k, v). AList.update k v) kvs m) = fst ` set m \<union> fst ` set kvs
    \<and> snd ` set (fold (\<lambda>(k, v). AList.update k v) kvs m) \<subseteq> snd ` set m \<union> snd ` set kvs" for m
  proof (induction kvs arbitrary: m)
    case (Cons kv kvs)
    obtain k v where kv: "kv = (k, v)" by fastforce
    show ?case
      using Cons.IH [of "AList.update k v m"] update_sets(1) [of k v m] update_sets(2) [of k v m]
      unfolding kv by simp blast
  qed simp
  from this [of "[]"] show "fst ` set (hash_collect kvs) = fst ` set kvs" "snd ` set (hash_collect kvs) \<subseteq> snd ` set kvs"
    by (simp_all add: hash_collect_def)
qed

lemma map_of_map_filter_keys:
  "map_of (map (\<lambda>(i, ds). (i, f ds)) (filter (\<lambda>(i, ds). i \<notin> A) deps)) i =
    (if i \<in> A then None else map_option f (map_of deps i))"
  by (induction deps) auto

text \<open>The renaming of the keys has no effect: the last activity of a chain is not a key any more.\<close>

lemma optimize_deps_eq:
  assumes "distinct (map fst deps)" "1 < length c"
  shows "optimize_deps c deps =
    map (\<lambda>(i, ds). (i, map (\<lambda>d. if d = last c then hd c else d) (filter (\<lambda>d. d \<notin> set (butlast c)) ds)))
      (filter (\<lambda>(i, ds). i \<notin> set (tl c)) deps)"
    (is "_ = ?m")
proof -
  have "last c \<in> set (tl c)" using assms(2) by (cases c) (auto simp: last_ConsR)
  then have "map (\<lambda>(i, ds). if i = last c then (hd c, ds) else (i, ds)) ?m = ?m"
    by (intro map_idI) auto
  moreover have "distinct (map fst ?m)"
    using assms(1) by (simp add: comp_def case_prod_unfold distinct_map_filter)
  ultimately show ?thesis unfolding optimize_deps_def Let_def by (simp only: hash_collect_distinct)
qed

lemma optimize_deps_keys:
  assumes "distinct (map fst deps)" "1 < length c"
  shows "distinct (map fst (optimize_deps c deps))"
    and "fst ` set (optimize_deps c deps) = fst ` set deps - set (tl c)"
proof -
  show "distinct (map fst (optimize_deps c deps))"
    unfolding optimize_deps_eq [OF assms] using assms(1) by (simp add: comp_def case_prod_unfold distinct_map_filter)
  show "fst ` set (optimize_deps c deps) = fst ` set deps - set (tl c)"
    unfolding optimize_deps_eq [OF assms] by force
qed

lemma map_of_optimize_deps:
  assumes "distinct (map fst deps)" "1 < length c"
  shows "map_of (optimize_deps c deps) i = (if i \<in> set (tl c) then None
    else map_option (\<lambda>ds. map (\<lambda>d. if d = last c then hd c else d) (filter (\<lambda>d. d \<notin> set (butlast c)) ds))
      (map_of deps i))"
  unfolding optimize_deps_eq [OF assms] by (rule map_of_map_filter_keys)

section \<open>The orders in which a cycle may run\<close>

text \<open>Each activity runs once, after the ones it depends on; \<open>past\<close> has run before.\<close>

fun cycle_from :: "activity_deps \<Rightarrow> activity_id set \<Rightarrow> activity_id list \<Rightarrow> bool" where
  "cycle_from deps past [] \<longleftrightarrow> True"
| "cycle_from deps past (i # is) \<longleftrightarrow>
    i \<notin> past \<and> (case map_of deps i of None \<Rightarrow> False | Some ds \<Rightarrow> set ds \<subseteq> past) \<and> cycle_from deps (insert i past) is"

definition runs_cycle :: "activity_deps \<Rightarrow> activity_id list \<Rightarrow> bool" where
  "runs_cycle deps is \<longleftrightarrow> cycle_from deps {} is \<and> set is = fst ` set deps"

text \<open>A composite runs its components in order.\<close>

definition expand :: "(activity_id \<times> activity_id list) list \<Rightarrow> activity_id list \<Rightarrow> activity_id list" where
  "expand composites is = concat (map (\<lambda>i. case map_of composites i of None \<Rightarrow> [i] | Some c \<Rightarrow> c) is)"

lemma cycle_from_append: "cycle_from deps past (xs @ ys) \<longleftrightarrow> cycle_from deps past xs \<and> cycle_from deps (past \<union> set xs) ys"
  by (induction xs arbitrary: past) (auto simp: insert_commute split: option.splits)

section \<open>One chain\<close>

text \<open>In the dependencies, whatever the workers: consecutive activities depend on each other only.\<close>

definition dep_link :: "activity_deps \<Rightarrow> activity_id \<Rightarrow> activity_id \<Rightarrow> bool" where
  "dep_link deps a b \<longleftrightarrow> map_of deps b = Some [a] \<and> (\<forall>i ds. map_of deps i = Some ds \<and> a \<in> set ds \<longrightarrow> i = b)"

definition good_chain :: "activity_deps \<Rightarrow> activity_id list \<Rightarrow> bool" where
  "good_chain deps c \<longleftrightarrow>
    1 < length c \<and> distinct c \<and> set c \<subseteq> fst ` set deps \<and> successively (dep_link deps) c"

definition expand_one :: "activity_id list \<Rightarrow> activity_id list \<Rightarrow> activity_id list" where
  "expand_one c is = concat (map (\<lambda>i. if i = hd c then c else [i]) is)"

lemma successively_next: "successively R c \<Longrightarrow> d \<in> set (butlast c) \<Longrightarrow> \<exists>e\<in>set (tl c). R d e"
  by (induction c rule: induct_list012) auto

lemma successively_prev: "successively R c \<Longrightarrow> e \<in> set (tl c) \<Longrightarrow> \<exists>d\<in>set (butlast c). R d e"
  by (induction c rule: induct_list012) auto

lemma chain_parts:
  assumes "1 < length c" "distinct c"
  shows "c = hd c # tl c" "set c = insert (hd c) (set (tl c))" "hd c \<notin> set (tl c)" "last c \<in> set (tl c)"
    "set c = insert (last c) (set (butlast c))"
proof -
  obtain a b r where c: "c = a # b # r" using assms(1) by (cases c; cases "tl c") auto
  show "c = hd c # tl c" "set c = insert (hd c) (set (tl c))" "hd c \<notin> set (tl c)" "last c \<in> set (tl c)"
    using assms c by auto
  have eq: "butlast c @ [last c] = c" by (rule append_butlast_last_id) (use assms(1) in auto)
  have "set (butlast c @ [last c]) = set c" by (simp only: eq)
  then show "set c = insert (last c) (set (butlast c))" by simp
qed

text \<open>An activity outside the tail of a chain depends on no activity before its end.\<close>

lemma good_chain_outside:
  assumes "good_chain deps c" "map_of deps i = Some ds" "i \<notin> set (tl c)" "d \<in> set ds"
  shows "d \<notin> set (butlast c)"
proof
  assume "d \<in> set (butlast c)"
  moreover have "successively (dep_link deps) c" using assms(1) by (simp add: good_chain_def)
  ultimately obtain e where "e \<in> set (tl c)" "dep_link deps d e"
    using successively_next [of "dep_link deps" c d] by auto
  with assms(2-4) show False unfolding dep_link_def by blast
qed

lemma cycle_from_chain:
  "successively (dep_link deps) (a # bs) \<Longrightarrow> a \<in> past \<Longrightarrow> distinct bs \<Longrightarrow> set bs \<inter> past = {} \<Longrightarrow>
    cycle_from deps past bs"
proof (induction bs arbitrary: a past)
  case (Cons b bs)
  then show ?case by (auto simp: dep_link_def intro!: Cons.IH [of b])
qed simp

text \<open>An order of the optimised dependencies expands to one of the original dependencies.\<close>

lemma expand_one_cycle:
  assumes d: "distinct (map fst deps)" and g: "good_chain deps c"
  shows "cycle_from (optimize_deps c deps) past is \<Longrightarrow> past \<inter> set (tl c) = {} \<Longrightarrow>
    cycle_from deps (past \<union> (if hd c \<in> past then set c else {})) (expand_one c is)"
proof (induction "is" arbitrary: past)
  case Nil
  then show ?case by (simp add: expand_one_def)
next
  case (Cons i "is")
  have c: "1 < length c" "distinct c" using g by (auto simp: good_chain_def)
  note parts = chain_parts [OF c]
  let ?exp = "\<lambda>p. p \<union> (if hd c \<in> p then set c else {})"
  from Cons.prems(1) obtain ds where i: "i \<notin> past" "i \<notin> set (tl c)" "map_of deps i = Some ds"
    and ds: "(\<lambda>x. if x = last c then hd c else x) ` {x \<in> set ds. x \<notin> set (butlast c)} \<subseteq> past"
    and rest: "cycle_from (optimize_deps c deps) (insert i past) is"
    by (auto simp: map_of_optimize_deps [OF d c(1)] split: if_splits option.splits)
  have past': "insert i past \<inter> set (tl c) = {}" using i(2) Cons.prems(2) by blast
  note IH = Cons.IH [OF rest past']
  have dep: "x \<in> past \<or> x = last c \<and> hd c \<in> past" if "x \<in> set ds" for x
    using ds that good_chain_outside [OF g i(3,2) that] by (cases "x = last c") auto
  show ?case
  proof (cases "i = hd c")
    case False
    have "set ds \<subseteq> ?exp past" using dep parts(5) by auto
    moreover have "i \<notin> ?exp past" using i(1,2) False parts(2) by auto
    moreover have "?exp (insert i past) = insert i (?exp past)" using False by auto
    ultimately show ?thesis using IH i(3) False by (simp add: expand_one_def)
  next
    case True
    then have "hd c \<notin> past" using i(1) by simp
    then have dep': "set ds \<subseteq> past" and exp: "?exp past = past" using dep by auto
    have "cycle_from deps (insert i past) (tl c)"
      by (rule cycle_from_chain [of _ "hd c"])
        (use g parts(1) True past' c in \<open>auto simp: good_chain_def distinct_tl\<close>)
    then have "cycle_from deps past (i # tl c)" using dep' i by simp
    then have "cycle_from deps past c" using parts(1) True by simp
    moreover have "?exp (insert i past) = past \<union> set c" using True parts(2) by auto
    ultimately show ?thesis
      using IH exp True by (simp add: expand_one_def cycle_from_append)
  qed
qed

text \<open>An order of the original dependencies, without the tails, is one of the optimised ones.\<close>

definition closed_under :: "activity_deps \<Rightarrow> activity_id set \<Rightarrow> bool" where
  "closed_under deps past \<longleftrightarrow> (\<forall>i\<in>past. \<exists>ds. map_of deps i = Some ds \<and> set ds \<subseteq> past)"

lemma closed_under_chain:
  assumes g: "good_chain deps c" and "closed_under deps past" "last c \<in> past"
  shows "hd c \<in> past"
proof -
  have "successively (dep_link deps) xs \<Longrightarrow> xs \<noteq> [] \<Longrightarrow> last xs \<in> past \<Longrightarrow> hd xs \<in> past" for xs
  proof (induction xs rule: induct_list012)
    case (3 a b xs)
    then have "b \<in> past" "map_of deps b = Some [a]" by (auto simp: dep_link_def)
    then show ?case using assms(2) unfolding closed_under_def by fastforce
  qed auto
  then show ?thesis using assms(1,3) unfolding good_chain_def by fastforce
qed

lemma filter_cycle:
  assumes d: "distinct (map fst deps)" and g: "good_chain deps c"
  shows "cycle_from deps past is \<Longrightarrow> closed_under deps past \<Longrightarrow>
    cycle_from (optimize_deps c deps) (past - set (tl c)) (filter (\<lambda>i. i \<notin> set (tl c)) is)"
proof (induction "is" arbitrary: past)
  case (Cons i "is")
  have c: "1 < length c" "distinct c" using g by (auto simp: good_chain_def)
  note parts = chain_parts [OF c]
  from Cons.prems(1) obtain ds where i: "i \<notin> past" "map_of deps i = Some ds" "set ds \<subseteq> past"
    and rest: "cycle_from deps (insert i past) is" by (auto split: option.splits)
  have "closed_under deps (insert i past)"
    using Cons.prems(2) i unfolding closed_under_def by fastforce
  note IH = Cons.IH [OF rest this]
  show ?case
  proof (cases "i \<in> set (tl c)")
    case True
    then have "insert i past - set (tl c) = past - set (tl c)" by blast
    then show ?thesis using IH True by simp
  next
    case False
    then have ins: "insert i past - set (tl c) = insert i (past - set (tl c))" by blast
    have new: "(if x = last c then hd c else x) \<in> past - set (tl c)" if "x \<in> set ds" "x \<notin> set (butlast c)" for x
    proof (cases "x = last c")
      case True
      then show ?thesis using closed_under_chain [OF g Cons.prems(2)] that i(3) parts(3) by auto
    next
      case False
      then have "x \<notin> set (tl c)" using that(2) parts(2,5) by auto
      then show ?thesis using False that i(3) by auto
    qed
    have "(\<lambda>x. if x = last c then hd c else x) ` {x \<in> set ds. x \<notin> set (butlast c)} \<subseteq> past - set (tl c)"
      by (rule image_subsetI) (rule new, simp_all)
    then show ?thesis using IH i False ins by (simp add: map_of_optimize_deps [OF d c(1)])
  qed
qed simp

section \<open>All chains\<close>

definition optimize_deps_all :: "activity_id list list \<Rightarrow> activity_deps \<Rightarrow> activity_deps" where
  "optimize_deps_all cs deps = fold optimize_deps cs deps"

definition optimize_assignments_all ::
  "activity_id list list \<Rightarrow> (worker_id \<times> activity_id list) list \<Rightarrow> (worker_id \<times> activity_id list) list" where
  "optimize_assignments_all cs ws = fold optimize_assignments cs ws"

lemma optimize_chains_eq:
  assumes "\<And>c. c \<in> set cs \<Longrightarrow> 1 < length c"
  shows "optimize_chains cs cfg = Ret (cfg
    \<lparr>bc_activity_deps := optimize_deps_all cs (bc_activity_deps cfg),
     bc_worker_assignments := optimize_assignments_all cs (bc_worker_assignments cfg),
     bc_composites := fold (\<lambda>c. AList.update (hd c) c) cs (bc_composites cfg)\<rparr>)"
  using assms
proof (induction cs arbitrary: cfg)
  case Nil
  then show ?case by (simp add: optimize_deps_all_def optimize_assignments_all_def)
next
  case (Cons c cs)
  then have "\<not> length c < 2" by fastforce
  with Cons show ?case by (simp add: optimize_chain_def optimize_deps_all_def optimize_assignments_all_def)
qed

text \<open>Rewriting one chain keeps the other chains.\<close>

lemma good_chain_optimize:
  assumes d: "distinct (map fst deps)" and c: "good_chain deps c" and c': "good_chain deps c'"
    and disj: "set c \<inter> set c' = {}"
  shows "good_chain (optimize_deps c deps) c'"
proof -
  have len: "1 < length c" "distinct c" using c by (auto simp: good_chain_def)
  note parts = chain_parts [OF len]
  have link: "dep_link (optimize_deps c deps) a b" if ab: "dep_link deps a b" and "a \<in> set c'" "b \<in> set c'" for a b
  proof -
    have "set (tl c) \<subseteq> set c" "hd c \<in> set c" using parts(2) by blast+
    moreover have "set (butlast c) \<subseteq> set c" "last c \<in> set c" using parts(5) by blast+
    ultimately have notin: "a \<notin> set (tl c)" "b \<notin> set (tl c)" "a \<notin> set (butlast c)" "a \<noteq> last c" "a \<noteq> hd c"
      using that(2,3) disj by blast+
    have "map_of (optimize_deps c deps) b = Some [a]"
      using ab notin by (simp add: dep_link_def map_of_optimize_deps [OF d len(1)])
    moreover have "i = b" if i: "map_of (optimize_deps c deps) i = Some ds" "a \<in> set ds" for i ds
    proof -
      from i obtain es where "map_of deps i = Some es" "a \<in> set es"
        using notin by (auto simp: map_of_optimize_deps [OF d len(1)] split: if_splits)
      with ab show ?thesis unfolding dep_link_def by blast
    qed
    ultimately show ?thesis unfolding dep_link_def by blast
  qed
  have "successively (dep_link (optimize_deps c deps)) c'"
  proof (rule successively_mono)
    show "successively (dep_link deps) c'" using c' by (simp add: good_chain_def)
    show "dep_link (optimize_deps c deps) a b" if "a \<in> set c'" "b \<in> set c'" "dep_link deps a b" for a b
      by (rule link [OF that(3,1,2)])
  qed
  moreover have "set c' \<subseteq> fst ` set (optimize_deps c deps)"
    unfolding optimize_deps_keys(2) [OF d len(1)] using c' disj parts(2) by (auto simp: good_chain_def)
  ultimately show ?thesis using c' by (simp add: good_chain_def)
qed

lemma good_chain_deps:
  assumes "distinct (map fst deps)" "good_chain deps c"
  shows "distinct (map fst (optimize_deps c deps))" "fst ` set (optimize_deps c deps) = fst ` set deps - set (tl c)"
  using assms optimize_deps_keys by (auto simp: good_chain_def)

fun expand_all :: "activity_id list list \<Rightarrow> activity_id list \<Rightarrow> activity_id list" where
  "expand_all [] is = is"
| "expand_all (c # cs) is = expand_one c (expand_all cs is)"

definition tails :: "activity_id list list \<Rightarrow> activity_id set" where
  "tails cs = (\<Union>c\<in>set cs. set (tl c))"

definition good_chains :: "activity_deps \<Rightarrow> activity_id list list \<Rightarrow> bool" where
  "good_chains deps cs \<longleftrightarrow> (\<forall>c\<in>set cs. good_chain deps c) \<and> distinct (concat cs)"

lemma good_chains_Cons:
  assumes "distinct (map fst deps)" "good_chains deps (c # cs)"
  shows "good_chain deps c" "good_chains (optimize_deps c deps) cs" "distinct (map fst (optimize_deps c deps))"
    "fst ` set (optimize_deps c deps) = fst ` set deps - set (tl c)"
proof -
  show c: "good_chain deps c" using assms(2) by (simp add: good_chains_def)
  show "distinct (map fst (optimize_deps c deps))" "fst ` set (optimize_deps c deps) = fst ` set deps - set (tl c)"
    using good_chain_deps [OF assms(1) c] by auto
  have "good_chain (optimize_deps c deps) c'" if "c' \<in> set cs" for c'
  proof (rule good_chain_optimize [OF assms(1) c])
    show "good_chain deps c'" "set c \<inter> set c' = {}" using assms(2) that by (auto simp: good_chains_def)
  qed
  then show "good_chains (optimize_deps c deps) cs" using assms(2) by (simp add: good_chains_def)
qed

lemma expand_one_set: "set (expand_one c is) = (\<Union>i\<in>set is. if i = hd c then set c else {i})"
  by (auto simp: expand_one_def split: if_splits)

lemma expand_all_cycle:
  "distinct (map fst deps) \<Longrightarrow> good_chains deps cs \<Longrightarrow> runs_cycle (optimize_deps_all cs deps) is \<Longrightarrow>
    runs_cycle deps (expand_all cs is)"
proof (induction cs arbitrary: deps)
  case Nil
  then show ?case by (simp add: optimize_deps_all_def)
next
  case (Cons c cs)
  note step = good_chains_Cons [OF Cons.prems(1,2)]
  have "runs_cycle (optimize_deps c deps) (expand_all cs is)"
    by (rule Cons.IH [OF step(3,2)]) (use Cons.prems(3) in \<open>simp add: optimize_deps_all_def\<close>)
  then have cyc: "cycle_from (optimize_deps c deps) {} (expand_all cs is)"
    and set: "set (expand_all cs is) = fst ` set deps - set (tl c)" by (simp_all add: runs_cycle_def step(4))
  have c: "1 < length c" "distinct c" "set c \<subseteq> fst ` set deps" using step(1) by (auto simp: good_chain_def)
  have "hd c \<in> fst ` set deps - set (tl c)" using c(3) chain_parts(2,3) [OF c(1,2)] by auto
  then have "set (expand_one c (expand_all cs is)) = fst ` set deps"
    unfolding expand_one_set set using c(3) chain_parts(2) [OF c(1,2)] by (auto split: if_splits)
  moreover have "cycle_from deps {} (expand_one c (expand_all cs is))"
    using expand_one_cycle [OF Cons.prems(1) step(1) cyc] by simp
  ultimately show ?case by (simp add: runs_cycle_def)
qed

lemma filter_all_cycle:
  "distinct (map fst deps) \<Longrightarrow> good_chains deps cs \<Longrightarrow> runs_cycle deps is \<Longrightarrow>
    runs_cycle (optimize_deps_all cs deps) (filter (\<lambda>i. i \<notin> tails cs) is)"
proof (induction cs arbitrary: deps "is")
  case Nil
  then show ?case by (simp add: optimize_deps_all_def tails_def)
next
  case (Cons c cs)
  note step = good_chains_Cons [OF Cons.prems(1,2)]
  have "cycle_from (optimize_deps c deps) {} (filter (\<lambda>i. i \<notin> set (tl c)) is)"
    using filter_cycle [OF Cons.prems(1) step(1), of "{}"] Cons.prems(3)
    by (simp add: runs_cycle_def closed_under_def)
  moreover have "set (filter (\<lambda>i. i \<notin> set (tl c)) is) = fst ` set (optimize_deps c deps)"
    using Cons.prems(3) step(4) by (auto simp: runs_cycle_def)
  ultimately have "runs_cycle (optimize_deps c deps) (filter (\<lambda>i. i \<notin> set (tl c)) is)"
    by (simp add: runs_cycle_def)
  from Cons.IH [OF step(3,2) this] show ?case
    by (simp add: optimize_deps_all_def tails_def conj_commute)
qed

lemma hd_in_chain: "c \<in> set cs \<Longrightarrow> [] \<notin> set cs \<Longrightarrow> hd c \<in> set c"
  by (cases c) auto

text \<open>The composites as the map the optimisation leaves.\<close>

definition composites_of :: "activity_id list list \<Rightarrow> (activity_id \<times> activity_id list) list" where
  "composites_of cs = map (\<lambda>c. (hd c, c)) cs"

lemma expand_one_unaffected: "hd c \<notin> set is \<Longrightarrow> expand_one c is = is"
  by (induction "is") (auto simp: expand_one_def)

lemma expand_one_concat: "expand_one c (concat xss) = concat (map (expand_one c) xss)"
  by (induction xss) (simp_all add: expand_one_def)

lemma expand_all_expand:
  "distinct (concat cs) \<Longrightarrow> [] \<notin> set cs \<Longrightarrow> expand_all cs is = expand (composites_of cs) is"
proof (induction cs)
  case Nil
  then show ?case by (simp add: expand_def composites_of_def)
next
  case (Cons c cs)
  let ?f = "\<lambda>i. case map_of (composites_of cs) i of None \<Rightarrow> [i] | Some c \<Rightarrow> c"
  have c: "hd c \<in> set c" using Cons.prems(2) by (cases c) auto
  have "expand_one c (?f i) = (case map_of (composites_of (c # cs)) i of None \<Rightarrow> [i] | Some c \<Rightarrow> c)" for i
  proof (cases "map_of (composites_of cs) i")
    case None
    then show ?thesis by (simp add: composites_of_def expand_one_def)
  next
    case (Some c')
    then have c': "c' \<in> set cs" "i = hd c'" by (auto simp: composites_of_def dest!: map_of_SomeD)
    have "set c \<inter> set c' = {}" using Cons.prems c'(1) by auto
    moreover have "hd c' \<in> set c'" by (rule hd_in_chain [OF c'(1)]) (use Cons.prems(2) in auto)
    ultimately have "hd c \<notin> set c'" "i \<noteq> hd c" using c c'(2) by auto
    then show ?thesis using Some by (simp add: composites_of_def expand_one_unaffected)
  qed
  then show ?case
    using Cons by (simp add: expand_def expand_one_concat comp_def)
qed

lemma fold_update_composites:
  "distinct (map hd cs) \<Longrightarrow> fold (\<lambda>c. AList.update (hd c) c) cs [] = composites_of cs"
  using hash_collect_distinct [of "composites_of cs"]
  by (simp add: hash_collect_def composites_of_def fold_map comp_def)

lemma distinct_hds: "distinct (concat cs) \<Longrightarrow> [] \<notin> set cs \<Longrightarrow> distinct (map hd cs)"
proof (induction cs)
  case (Cons c cs)
  have "hd c \<noteq> hd c'" if "c' \<in> set cs" for c'
    using Cons.prems that hd_in_chain [of c "c # cs"] hd_in_chain [of c' "c # cs"] by fastforce
  with Cons show ?case by auto
qed simp

lemma optimize_deps_all_keys:
  "distinct (map fst deps) \<Longrightarrow> good_chains deps cs \<Longrightarrow>
    distinct (map fst (optimize_deps_all cs deps)) \<and> fst ` set (optimize_deps_all cs deps) = fst ` set deps - tails cs"
proof (induction cs arbitrary: deps)
  case Nil
  then show ?case by (simp add: optimize_deps_all_def tails_def)
next
  case (Cons c cs)
  note step = good_chains_Cons [OF Cons.prems]
  show ?case
    using Cons.IH [OF step(3,2)] step(4) by (auto simp: optimize_deps_all_def tails_def)
qed

lemma optimize_assignments_all_eq:
  "distinct (map fst ws) \<Longrightarrow>
    optimize_assignments_all cs ws = map (\<lambda>(w, as). (w, filter (\<lambda>a. a \<notin> tails cs) as)) ws"
proof (induction cs arbitrary: ws)
  case Nil
  then show ?case by (simp add: optimize_assignments_all_def tails_def case_prod_unfold)
next
  case (Cons c cs)
  let ?ws = "map (\<lambda>(w, as). (w, filter (\<lambda>a. a \<notin> set (tl c)) as)) ws"
  have d: "distinct (map fst ?ws)" using Cons.prems by (simp add: comp_def case_prod_unfold)
  then have "optimize_assignments c ws = ?ws" by (simp add: optimize_assignments_def hash_collect_distinct)
  then show ?case
    using Cons.IH [OF d] by (simp add: optimize_assignments_all_def tails_def case_prod_unfold comp_def conj_commute)
qed

section \<open>The optimised configuration\<close>

text \<open>
  The configuration is consistent: the maps have distinct keys, every activity is assigned to one
  worker, and the activities with dependencies are the assigned ones.
\<close>

definition config_ok :: "bench_config \<Rightarrow> bool" where
  "config_ok cfg \<longleftrightarrow> distinct (map fst (bc_activity_deps cfg)) \<and> distinct (map fst (bc_worker_assignments cfg))
    \<and> distinct (concat (map snd (bc_worker_assignments cfg)))
    \<and> set (concat (map snd (bc_worker_assignments cfg))) = fst ` set (bc_activity_deps cfg)
    \<and> set (concat (map snd (bc_activity_deps cfg))) \<subseteq> fst ` set (bc_activity_deps cfg)"

lemma activity_workers_iff:
  assumes "config_ok cfg"
  shows "map_of (bench_activity_workers cfg) a = Some w \<longleftrightarrow> (\<exists>as. (w, as) \<in> set (bc_worker_assignments cfg) \<and> a \<in> set as)"
proof -
  let ?kvs = "concat (map (\<lambda>(wid, aids). map (\<lambda>aid. (aid, wid)) aids) (bc_worker_assignments cfg))"
  have "map fst ?kvs = concat (map snd (bc_worker_assignments cfg))"
    by (induction "bc_worker_assignments cfg") (auto simp: map_concat comp_def case_prod_unfold)
  then have d: "distinct (map fst ?kvs)" using assms by (simp add: config_ok_def)
  then show ?thesis
    unfolding bench_activity_workers_def hash_collect_distinct [OF d] map_of_eq_Some_iff [OF d] by force
qed

lemma config_ok_workers_known:
  assumes "config_ok cfg"
  shows "workers_known (bc_activity_deps cfg) (bench_activity_workers cfg)"
proof -
  have known: "map_of (bench_activity_workers cfg) a \<noteq> None" if "a \<in> fst ` set (bc_activity_deps cfg)" for a
  proof -
    have "set (concat (map snd (bc_worker_assignments cfg))) = fst ` set (bc_activity_deps cfg)"
      using assms by (simp only: config_ok_def)
    with that have "a \<in> set (concat (map snd (bc_worker_assignments cfg)))" by (simp only:)
    then obtain w as where "(w, as) \<in> set (bc_worker_assignments cfg)" "a \<in> set as" by auto
    then have "map_of (bench_activity_workers cfg) a = Some w" using activity_workers_iff [OF assms] by blast
    then show ?thesis by simp
  qed
  have keys: "i \<in> fst ` set (bc_activity_deps cfg)" "set ds \<subseteq> fst ` set (bc_activity_deps cfg)"
    if "(i, ds) \<in> set (bc_activity_deps cfg)" for i ds
  proof -
    show "i \<in> fst ` set (bc_activity_deps cfg)" using that by force
    have "set ds \<subseteq> set (concat (map snd (bc_activity_deps cfg)))" using that by force
    also have "\<dots> \<subseteq> fst ` set (bc_activity_deps cfg)" using assms by (simp only: config_ok_def)
    finally show "set ds \<subseteq> fst ` set (bc_activity_deps cfg)" .
  qed
  have "map_of (bench_activity_workers cfg) i \<noteq> None \<and> (\<forall>d\<in>set ds. map_of (bench_activity_workers cfg) d \<noteq> None)"
    if "(i, ds) \<in> set (bc_activity_deps cfg)" for i ds
    using keys [OF that] by (intro conjI ballI known) auto
  then show ?thesis unfolding workers_known_def Ball_def split_paired_All prod.case by (intro allI impI)
qed

lemma link_dep_link:
  assumes d: "distinct (map fst deps)" and l: "link deps awm a b"
  shows "dep_link deps a b"
proof -
  have "i = b" if "map_of deps i = Some ds" "a \<in> set ds" for i ds
    using set_dependants [OF d, of i a] l that by (auto simp: link_def)
  with l show ?thesis unfolding dep_link_def link_def by blast
qed

lemma successively_field:
  assumes "\<And>a b. R a b \<Longrightarrow> a \<in> K \<and> b \<in> K"
  shows "successively R xs \<Longrightarrow> 1 < length xs \<Longrightarrow> set xs \<subseteq> K"
proof (induction xs rule: induct_list012)
  case (3 a b xs)
  then show ?case using assms [of a b] by (cases xs) auto
qed auto

lemma maximal_chains_good:
  assumes d: "distinct (map fst deps)" and dist: "distinct (concat cs)"
    and cs: "set cs = {c. maximal_path (link deps awm) c \<and> 1 < length c}"
  shows "good_chains deps cs"
proof -
  have "good_chain deps c" if c: "c \<in> set cs" for c
  proof -
    from c cs have path: "successively (link deps awm) c" "1 < length c" by (auto simp: maximal_path_def)
    have "successively (dep_link deps) c"
      by (rule successively_mono [OF path(1)]) (rule link_dep_link [OF d])
    moreover have "set c \<subseteq> fst ` set deps" by (rule successively_field [OF link_keys path])
    moreover have "distinct c" using dist c by (simp add: distinct_concat_iff)
    ultimately show ?thesis using path(2) by (simp add: good_chain_def)
  qed
  with dist show ?thesis by (simp add: good_chains_def)
qed

text \<open>What the optimisation returns.\<close>

lemma optimize_composite_result:
  assumes ok: "config_ok cfg" and empty: "bc_composites cfg = []"
    and order: "iteration_order order" and n: "length (bc_activity_deps cfg) < n"
  obtains cs where
    "set cs = {c. maximal_path (link (bc_activity_deps cfg) (bench_activity_workers cfg)) c \<and> 1 < length c}"
    "good_chains (bc_activity_deps cfg) cs" "[] \<notin> set cs"
    "optimize_composite n order cfg = Ret (cfg
      \<lparr>bc_activity_deps := optimize_deps_all cs (bc_activity_deps cfg),
       bc_worker_assignments :=
         map (\<lambda>(w, as). (w, filter (\<lambda>a. a \<notin> tails cs) as)) (bc_worker_assignments cfg),
       bc_composites := composites_of cs\<rparr>)"
proof -
  have d: "distinct (map fst (bc_activity_deps cfg))" "distinct (map fst (bc_worker_assignments cfg))"
    using ok by (auto simp: config_ok_def)
  obtain sd sy where s: "searched (bc_activity_deps cfg) (bench_activity_workers cfg) sd sy"
    using workers_known_searched [OF d(1) config_ok_workers_known [OF ok]] by blast
  obtain cs where find: "find_composites n order (bc_activity_deps cfg) (bench_activity_workers cfg) = Ret cs"
    and cs: "set cs = {c. maximal_path (link (bc_activity_deps cfg) (bench_activity_workers cfg)) c \<and> 1 < length c}"
    and dist: "distinct cs"
    using find_composites_searched [OF d(1) s order n] by blast
  have dist': "distinct (concat cs)" by (rule maximal_chains_disjoint [OF cs dist])
  have len: "1 < length c" if "c \<in> set cs" for c using cs that by auto
  then have nonempty: "[] \<notin> set cs" by fastforce
  have "omap ofirst cs = Ret (map hd cs)"
    by (rule omap_Ret) (use nonempty in \<open>auto simp: ofirst_def split: list.split\<close>)
  then have "optimize_composite n order cfg = Ret (cfg
      \<lparr>bc_activity_deps := optimize_deps_all cs (bc_activity_deps cfg),
       bc_worker_assignments :=
         map (\<lambda>(w, as). (w, filter (\<lambda>a. a \<notin> tails cs) as)) (bc_worker_assignments cfg),
       bc_composites := composites_of cs\<rparr>)"
    using fold_update_composites [OF distinct_hds [OF dist' nonempty]]
    by (simp add: optimize_composite_def find optimize_chains_eq [OF len] empty optimize_assignments_all_eq [OF d(2)])
  with that [OF cs maximal_chains_good [OF d(1) dist' cs] nonempty] show ?thesis by blast
qed

lemma in_tl_in_list: "x \<in> set (tl xs) \<Longrightarrow> x \<in> set xs"
  by (cases xs) auto

lemma optimize_deps_closed:
  assumes d: "distinct (map fst deps)" and g: "good_chain deps c"
    and closed: "set (concat (map snd deps)) \<subseteq> fst ` set deps"
  shows "set (concat (map snd (optimize_deps c deps))) \<subseteq> fst ` set (optimize_deps c deps)"
proof
  fix x
  have c: "1 < length c" "distinct c" "set c \<subseteq> fst ` set deps" using g by (auto simp: good_chain_def)
  note parts = chain_parts [OF c(1,2)]
  assume "x \<in> set (concat (map snd (optimize_deps c deps)))"
  then obtain i ds y where "(i, ds) \<in> set deps" and y: "y \<in> set ds" "y \<notin> set (butlast c)"
    and x: "x = (if y = last c then hd c else y)"
    unfolding optimize_deps_eq [OF d c(1)] by auto
  then have "y \<in> set (concat (map snd deps))" by force
  with closed have key: "y \<in> fst ` set deps" by blast
  show "x \<in> fst ` set (optimize_deps c deps)"
    unfolding optimize_deps_keys(2) [OF d c(1)] x using parts(2,3,5) y(2) key c(3) by auto
qed

lemma optimize_deps_all_closed:
  "distinct (map fst deps) \<Longrightarrow> good_chains deps cs \<Longrightarrow> set (concat (map snd deps)) \<subseteq> fst ` set deps \<Longrightarrow>
    set (concat (map snd (optimize_deps_all cs deps))) \<subseteq> fst ` set (optimize_deps_all cs deps)"
proof (induction cs arbitrary: deps)
  case Nil
  then show ?case by (simp add: optimize_deps_all_def)
next
  case (Cons c cs)
  note step = good_chains_Cons [OF Cons.prems(1,2)]
  from Cons.IH [OF step(3,2) optimize_deps_closed [OF Cons.prems(1) step(1) Cons.prems(3)]]
  show ?case by (simp add: optimize_deps_all_def)
qed

lemma optimize_deps_all_length:
  "distinct (map fst deps) \<Longrightarrow> good_chains deps cs \<Longrightarrow> length (optimize_deps_all cs deps) \<le> length deps"
proof (induction cs arbitrary: deps)
  case Nil
  then show ?case by (simp add: optimize_deps_all_def)
next
  case (Cons c cs)
  note step = good_chains_Cons [OF Cons.prems(1,2)]
  have "length (optimize_deps c deps) \<le> length deps"
    using optimize_deps_eq [OF Cons.prems(1), of c] step(1) by (simp add: good_chain_def)
  with Cons.IH [OF step(3,2)] show ?case by (simp add: optimize_deps_all_def)
qed

text \<open>The optimised configuration is consistent again.\<close>

lemma config_ok_optimized:
  assumes ok: "config_ok cfg" and empty: "bc_composites cfg = []"
    and order: "iteration_order order" and n: "length (bc_activity_deps cfg) < n"
  shows "\<exists>cfg'. optimize_composite n order cfg = Ret cfg' \<and> config_ok cfg' \<and> length (bc_activity_deps cfg') < n"
proof -
  let ?deps = "bc_activity_deps cfg" and ?ws = "bc_worker_assignments cfg"
  have d: "distinct (map fst ?deps)" "distinct (map fst ?ws)" "distinct (concat (map snd ?ws))"
    "set (concat (map snd ?ws)) = fst ` set ?deps" "set (concat (map snd ?deps)) \<subseteq> fst ` set ?deps"
    using ok by (simp_all only: config_ok_def)
  obtain cs where cs: "set cs = {c. maximal_path (link ?deps (bench_activity_workers cfg)) c \<and> 1 < length c}"
    and good: "good_chains ?deps cs" "[] \<notin> set cs" and
    result: "optimize_composite n order cfg = Ret (cfg
      \<lparr>bc_activity_deps := optimize_deps_all cs ?deps,
       bc_worker_assignments := map (\<lambda>(w, as). (w, filter (\<lambda>a. a \<notin> tails cs) as)) ?ws,
       bc_composites := composites_of cs\<rparr>)" (is "_ = Ret ?cfg'")
    by (rule optimize_composite_result [OF assms]) (rule that)
  let ?ws' = "map (\<lambda>(w, as). (w, filter (\<lambda>a. a \<notin> tails cs) as)) ?ws"
  have ws': "map fst ?ws' = map fst ?ws" "concat (map snd ?ws') = filter (\<lambda>a. a \<notin> tails cs) (concat (map snd ?ws))"
    by (simp_all add: comp_def case_prod_unfold filter_concat)
  have set': "set (concat (map snd ?ws')) = fst ` set ?deps - tails cs"
    unfolding ws'(2) set_filter d(4) by blast
  note keys = optimize_deps_all_keys [OF d(1) good(1)]
  have updated: "bc_activity_deps ?cfg' = optimize_deps_all cs ?deps" "bc_worker_assignments ?cfg' = ?ws'"
    by simp_all
  have "config_ok ?cfg'"
    unfolding config_ok_def updated
  proof (intro conjI)
    show "distinct (map fst (optimize_deps_all cs ?deps))" using keys by (rule conjunct1)
    show "distinct (map fst ?ws')" unfolding ws'(1) by (rule d(2))
    show "distinct (concat (map snd ?ws'))" unfolding ws'(2) by (rule distinct_filter [OF d(3)])
    show "set (concat (map snd ?ws')) = fst ` set (optimize_deps_all cs ?deps)"
      unfolding set' keys [THEN conjunct2] ..
    show "set (concat (map snd (optimize_deps_all cs ?deps))) \<subseteq> fst ` set (optimize_deps_all cs ?deps)"
      by (rule optimize_deps_all_closed [OF d(1) good(1) d(5)])
  qed
  moreover have "length (bc_activity_deps ?cfg') < n"
    using optimize_deps_all_length [OF d(1) good(1)] n by simp
  ultimately show ?thesis using result by (intro exI [of _ ?cfg']) (simp only: simp_thms)
qed

lemma tails_iff:
  assumes "distinct (concat cs)" "[] \<notin> set cs"
  shows "a \<in> (\<Union>c\<in>set cs. set c) \<Longrightarrow> a \<in> tails cs \<or> a \<in> hd ` set cs"
    and "c \<in> set cs \<Longrightarrow> hd c \<notin> tails cs"
proof -
  show "a \<in> tails cs \<or> a \<in> hd ` set cs" if "a \<in> (\<Union>c\<in>set cs. set c)"
  proof -
    from that obtain c where c: "c \<in> set cs" "a \<in> set c" by blast
    from c(2) have "a = hd c \<or> a \<in> set (tl c)" by (cases c) auto
    with c(1) show ?thesis by (auto simp: tails_def)
  qed
  show "hd c \<notin> tails cs" if c: "c \<in> set cs"
  proof
    assume "hd c \<in> tails cs"
    then obtain d where d: "d \<in> set cs" "hd c \<in> set (tl d)" by (auto simp: tails_def)
    have "hd c \<in> set c" "hd c \<in> set d" using hd_in_chain [OF c assms(2)] in_tl_in_list [OF d(2)] by auto
    then have "c = d" using assms(1) c d(1) by (auto simp: distinct_concat_iff)
    moreover have "distinct d" using assms(1) d(1) by (simp add: distinct_concat_iff)
    ultimately show False using d(2) by (cases d) auto
  qed
qed

text \<open>The activities of a worker, with its composites expanded.\<close>

lemma expanded_worker:
  assumes dist: "distinct (concat cs)" "[] \<notin> set cs"
    and same: "\<And>c. c \<in> set cs \<Longrightarrow> set c \<inter> set as \<noteq> {} \<Longrightarrow> set c \<subseteq> set as"
  shows "set (expand (composites_of cs) (filter (\<lambda>a. a \<notin> tails cs) as)) = set as"
proof -
  have lookup: "map_of (composites_of cs) (hd c) = Some c" if "c \<in> set cs" for c
    using distinct_hds [OF dist] that by (simp add: composites_of_def map_of_eq_Some_iff comp_def)
  have found: "c \<in> set cs \<and> i = hd c" if "map_of (composites_of cs) i = Some c" for i c
    using map_of_SomeD [OF that] by (auto simp: composites_of_def)
  show ?thesis
  proof (rule set_eqI, rule iffI)
    fix a
    assume "a \<in> set (expand (composites_of cs) (filter (\<lambda>a. a \<notin> tails cs) as))"
    then obtain i where i: "i \<in> set as" "i \<notin> tails cs"
      "a \<in> set (case map_of (composites_of cs) i of None \<Rightarrow> [i] | Some c \<Rightarrow> c)"
      by (auto simp: expand_def)
    show "a \<in> set as"
    proof (cases "map_of (composites_of cs) i")
      case None
      then show ?thesis using i by simp
    next
      case (Some c)
      then have "c \<in> set cs" "i \<in> set c" using found hd_in_chain [OF _ dist(2)] by auto
      with same [of c] i(1) have "set c \<subseteq> set as" by blast
      then show ?thesis using i(3) Some by auto
    qed
  next
    fix a
    assume a: "a \<in> set as"
    show "a \<in> set (expand (composites_of cs) (filter (\<lambda>a. a \<notin> tails cs) as))"
    proof (cases "\<exists>c\<in>set cs. a \<in> set c")
      case True
      then obtain c where c: "c \<in> set cs" "a \<in> set c" by blast
      then have "hd c \<in> set as" using same [OF c(1)] a hd_in_chain [OF c(1) dist(2)] by blast
      then show ?thesis
        using tails_iff(2) [OF dist c(1)] lookup [OF c(1)] c(2) by (force simp: expand_def)
    next
      case False
      then have "a \<notin> tails cs" by (auto simp: tails_def dest: in_tl_in_list)
      moreover have "map_of (composites_of cs) a = None"
      proof (cases "map_of (composites_of cs) a")
        case (Some c)
        then show ?thesis using False found hd_in_chain [OF _ dist(2)] by blast
      qed
      ultimately show ?thesis using a by (force simp: expand_def)
    qed
  qed
qed

text \<open>A chain is on one worker.\<close>

lemma chain_on_worker:
  assumes ok: "config_ok cfg" and as: "(w, as) \<in> set (bc_worker_assignments cfg)"
    and c: "successively (link (bc_activity_deps cfg) (bench_activity_workers cfg)) c"
  shows "set c \<inter> set as \<noteq> {} \<Longrightarrow> set c \<subseteq> set as"
proof -
  let ?awm = "bench_activity_workers cfg"
  have on: "a \<in> set as \<longleftrightarrow> map_of ?awm a = Some w" for a
  proof
    show "a \<in> set as \<Longrightarrow> map_of ?awm a = Some w" using activity_workers_iff [OF ok] as by blast
    assume "map_of ?awm a = Some w"
    then obtain bs where "(w, bs) \<in> set (bc_worker_assignments cfg)" "a \<in> set bs"
      using activity_workers_iff [OF ok] by blast
    moreover from this as have "bs = as"
      using ok unfolding config_ok_def by (meson eq_key_imp_eq_value)
    ultimately show "a \<in> set as" by simp
  qed
  have "successively (link deps awm) xs \<Longrightarrow> a \<in> set xs \<Longrightarrow> b \<in> set xs \<Longrightarrow> map_of awm a = map_of awm b"
    for deps awm xs a b
  proof (induction xs arbitrary: a b rule: induct_list012)
    case (3 x y zs)
    from 3(3) have xy: "map_of awm x = map_of awm y" and path: "successively (link deps awm) (y # zs)"
      by (simp_all add: link_def)
    have "map_of awm u = map_of awm y" if "u \<in> set (x # y # zs)" for u
    proof (cases "u = x")
      case False
      with that have "u \<in> set (y # zs)" by simp
      then show ?thesis by (rule 3(2) [OF path]) simp
    qed (simp add: xy)
    from this [OF 3(4)] this [OF 3(5)] show ?case by simp
  qed auto
  then have one: "map_of ?awm a = map_of ?awm b" if "a \<in> set c" "b \<in> set c" for a b using c that by blast
  show "set c \<subseteq> set as" if "set c \<inter> set as \<noteq> {}"
  proof
    from that obtain b where b: "b \<in> set c" "b \<in> set as" by blast
    show "a \<in> set as" if "a \<in> set c" for a using one [OF that b(1)] b(2) on by simp
  qed
qed

section \<open>Properties\<close>

text \<open>
  C22: for a consistent configuration the optimisation returns, and the optimised dependencies admit
  the same cycles as the original ones: every order of the optimised activities that respects the
  optimised dependencies expands, composite by composite, to an order of the original activities
  that respects the original dependencies, each of them once; and every order of the original ones
  gives an order of the optimised ones by leaving out the activities inside the composites.
\<close>

theorem optimize_composite_equivalent:
  assumes "config_ok cfg" and "bc_composites cfg = []"
    and "iteration_order order" and "length (bc_activity_deps cfg) < n"
  shows "\<exists>cfg'. optimize_composite n order cfg = Ret cfg'
    \<and> (\<forall>is. runs_cycle (bc_activity_deps cfg') is \<longrightarrow>
          runs_cycle (bc_activity_deps cfg) (expand (bc_composites cfg') is))
    \<and> (\<forall>is. runs_cycle (bc_activity_deps cfg) is \<longrightarrow>
          runs_cycle (bc_activity_deps cfg') (filter (\<lambda>i. i \<in> fst ` set (bc_activity_deps cfg')) is))"
proof -
  let ?deps = "bc_activity_deps cfg"
  have d: "distinct (map fst ?deps)" using assms(1) by (simp add: config_ok_def)
  obtain cs where cs: "set cs = {c. maximal_path (link ?deps (bench_activity_workers cfg)) c \<and> 1 < length c}"
    and good: "good_chains ?deps cs" "[] \<notin> set cs" and
    result: "optimize_composite n order cfg = Ret (cfg
      \<lparr>bc_activity_deps := optimize_deps_all cs ?deps,
       bc_worker_assignments :=
         map (\<lambda>(w, as). (w, filter (\<lambda>a. a \<notin> tails cs) as)) (bc_worker_assignments cfg),
       bc_composites := composites_of cs\<rparr>)" (is "_ = Ret ?cfg'")
    by (rule optimize_composite_result [OF assms]) (rule that)
  have dist: "distinct (concat cs)" using good(1) by (simp add: good_chains_def)
  have "runs_cycle ?deps (expand (composites_of cs) is)" if "runs_cycle (optimize_deps_all cs ?deps) is" for "is"
    using expand_all_cycle [OF d good(1) that] expand_all_expand [OF dist good(2)] by simp
  moreover have "runs_cycle (optimize_deps_all cs ?deps)
      (filter (\<lambda>i. i \<in> fst ` set (optimize_deps_all cs ?deps)) is)" if r: "runs_cycle ?deps is" for "is"
  proof -
    have keys: "fst ` set (optimize_deps_all cs ?deps) = set is - tails cs"
      using r optimize_deps_all_keys [OF d good(1)] by (simp only: runs_cycle_def)
    have "filter (\<lambda>i. i \<in> fst ` set (optimize_deps_all cs ?deps)) is = filter (\<lambda>i. i \<notin> tails cs) is"
      by (rule filter_cong [OF refl]) (simp only: keys Diff_iff, simp)
    then show ?thesis using filter_all_cycle [OF d good(1) r] by simp
  qed
  ultimately show ?thesis using result by (intro exI [of _ ?cfg']) simp
qed

text \<open>
  C23: the optimisation keeps every worker and the work of each: the activities of a worker, with its
  composites expanded, are its original ones, so a composite runs on the worker of its components;
  and the activities that the optimised dependencies list are exactly the assigned ones.
\<close>

theorem optimize_composite_same_work:
  assumes "config_ok cfg" and "bc_composites cfg = []"
    and "iteration_order order" and "length (bc_activity_deps cfg) < n"
  shows "\<exists>cfg'. optimize_composite n order cfg = Ret cfg'
    \<and> map (\<lambda>(w, as). (w, set (expand (bc_composites cfg') as))) (bc_worker_assignments cfg')
      = map (\<lambda>(w, as). (w, set as)) (bc_worker_assignments cfg)
    \<and> fst ` set (bc_activity_deps cfg') = set (concat (map snd (bc_worker_assignments cfg')))"
proof -
  let ?deps = "bc_activity_deps cfg" and ?ws = "bc_worker_assignments cfg"
  have d: "distinct (map fst ?deps)" using assms(1) by (simp add: config_ok_def)
  obtain cs where cs: "set cs = {c. maximal_path (link ?deps (bench_activity_workers cfg)) c \<and> 1 < length c}"
    and good: "good_chains ?deps cs" "[] \<notin> set cs" and
    result: "optimize_composite n order cfg = Ret (cfg
      \<lparr>bc_activity_deps := optimize_deps_all cs ?deps,
       bc_worker_assignments := map (\<lambda>(w, as). (w, filter (\<lambda>a. a \<notin> tails cs) as)) ?ws,
       bc_composites := composites_of cs\<rparr>)" (is "_ = Ret ?cfg'")
    by (rule optimize_composite_result [OF assms]) (rule that)
  have dist: "distinct (concat cs)" using good(1) by (simp add: good_chains_def)
  have "set (expand (composites_of cs) (filter (\<lambda>a. a \<notin> tails cs) as)) = set as" if "(w, as) \<in> set ?ws" for w as
    by (rule expanded_worker [OF dist good(2)], rule chain_on_worker [OF assms(1) that])
      (use cs in \<open>auto simp: maximal_path_def\<close>)
  then have "map (\<lambda>(w, as). (w, set (expand (composites_of cs) as))) (map (\<lambda>(w, as). (w, filter (\<lambda>a. a \<notin> tails cs) as)) ?ws)
      = map (\<lambda>(w, as). (w, set as)) ?ws" by auto
  moreover have "fst ` set (optimize_deps_all cs ?deps)
      = set (concat (map snd (map (\<lambda>(w, as). (w, filter (\<lambda>a. a \<notin> tails cs) as)) ?ws)))"
  proof -
    have "set (concat (map snd (map (\<lambda>(w, as). (w, filter (\<lambda>a. a \<notin> tails cs) as)) ?ws)))
        = set (concat (map snd ?ws)) - tails cs" by force
    also have "\<dots> = fst ` set ?deps - tails cs" using assms(1) by (simp only: config_ok_def)
    finally show ?thesis using optimize_deps_all_keys [OF d good(1)] by simp
  qed
  ultimately show ?thesis using result by (intro exI [of _ ?cfg']) simp
qed

section \<open>Witnesses\<close>

text \<open>A configuration of two workers with one chain on each.\<close>

definition chain_config :: bench_config where
  "chain_config =
    \<lparr>bc_signalling = DirectTcp, bc_primary_agent = GenericId 100,
     bc_bind_addrs = (''127.0.0.1:8081'', ''127.0.0.1:8082''), bc_socket_paths = (''a'', ''b''),
     bc_agent_assignments = [(GenericId 100, [GenericId 40, GenericId 41])],
     bc_worker_assignments = [(GenericId 40, [GenericId 1, GenericId 2, GenericId 3]), (GenericId 41, [GenericId 4, GenericId 5])],
     bc_activity_deps = [(GenericId 1, []), (GenericId 2, [GenericId 1]), (GenericId 3, [GenericId 2]),
       (GenericId 4, [GenericId 3]), (GenericId 5, [GenericId 4])],
     bc_composites = []\<rparr>"

lemma chain_config_ok:
  "config_ok chain_config" "bc_composites chain_config = []" "length (bc_activity_deps chain_config) < 9"
  by (simp_all add: config_ok_def chain_config_def)

text \<open>The order by identifiers is a cycle of the original configuration, so its composites run in one.\<close>

theorem optimize_composite_equivalent_witness:
  "\<exists>cfg'. optimize_composite 9 (\<lambda>xs. xs) chain_config = Ret cfg'
    \<and> runs_cycle (bc_activity_deps cfg')
        (filter (\<lambda>i. i \<in> fst ` set (bc_activity_deps cfg')) (map GenericId [1, 2, 3, 4, 5]))
    \<and> runs_cycle (bc_activity_deps chain_config) (expand (bc_composites cfg')
        (filter (\<lambda>i. i \<in> fst ` set (bc_activity_deps cfg')) (map GenericId [1, 2, 3, 4, 5])))"
proof -
  have "runs_cycle (bc_activity_deps chain_config) (map GenericId [1, 2, 3, 4, 5])"
    by (auto simp: runs_cycle_def chain_config_def)
  with optimize_composite_equivalent [OF chain_config_ok(1,2) iteration_order_self chain_config_ok(3)]
  show ?thesis by blast
qed

theorem optimize_composite_same_work_witness:
  "\<exists>cfg'. optimize_composite 9 (\<lambda>xs. xs) chain_config = Ret cfg'
    \<and> map (\<lambda>(w, as). (w, set (expand (bc_composites cfg') as))) (bc_worker_assignments cfg')
      = map (\<lambda>(w, as). (w, set as)) (bc_worker_assignments chain_config)
    \<and> fst ` set (bc_activity_deps cfg') = set (concat (map snd (bc_worker_assignments cfg')))"
  by (rule optimize_composite_same_work [OF chain_config_ok(1,2) iteration_order_self chain_config_ok(3)])

end
