(* ===== verification/Feo_Adas_Cycle.thy ===== *)
theory Feo_Adas_Cycle
  imports Feo_Adas_Activities Feo_Mini_Adas Feo_Composite_Opt
begin

text \<open>
  A cycle of the mini-adas example: its activities are built and stepped in an order that respects
  \<open>activity_dependencies\<close>, over the topics in shared memory. The lemmas show that no step panics or
  waits, that all locks are released, and what the topics then hold.
\<close>

section \<open>Building and running\<close>

text \<open>The activities that the builders of the configuration give.\<close>

fun adas_build :: "(activity_id \<times> (activity_id \<Rightarrow> (adas_world, adas_activity) io)) list \<Rightarrow>
    (adas_world, activity_id \<rightharpoonup> adas_activity) io" where
  "adas_build [] = io_return Map.empty"
| "adas_build ((i, b) # builders) =
    io_bind (b i) (\<lambda>a. io_bind (adas_build builders) (\<lambda>acts. io_return (acts(i \<mapsto> a))))"

text \<open>Stepping the activities in the given order; a step that returns an error ends the cycle.\<close>

fun adas_cycle ::
  "(rat \<Rightarrow> rat) \<Rightarrow> (adas_payload \<Rightarrow> adas_value type_info) \<Rightarrow> activity_id list \<Rightarrow> (activity_id \<rightharpoonup> adas_activity) \<Rightarrow>
    (adas_world, activity_id \<rightharpoonup> adas_activity) io" where
  "adas_cycle rnd ty [] acts = io_return acts"
| "adas_cycle rnd ty (i # is) acts =
    io_bind (io_expect (acts i)) (\<lambda>a.
    io_bind (adas_step rnd ty a) (\<lambda>(r, a').
    case r of Inl e \<Rightarrow> io_return (acts(i \<mapsto> a')) | Inr _ \<Rightarrow> adas_cycle rnd ty is (acts(i \<mapsto> a'))))"

section \<open>The invariant of a cycle\<close>

definition adas_placed :: "int \<Rightarrow> (activity_id \<rightharpoonup> adas_activity) \<Rightarrow> bool" where
  "adas_placed n acts \<longleftrightarrow>
    (\<exists>people cars d. acts (GenericId 0) = Some (Camera (GenericId 0) (adas_topic CameraImage) people cars d)
      \<and> 0 \<le> sint people \<and> sint people \<le> n)
    \<and> (\<exists>d. acts (GenericId 1) = Some (Radar (GenericId 1) (adas_topic RadarScan) d))
    \<and> acts (GenericId 2) = Some (NeuralNet (GenericId 2) (adas_topic CameraImage) (adas_topic RadarScan) (adas_topic Scene))
    \<and> acts (GenericId 3) = Some (EnvironmentRenderer (GenericId 3) (adas_topic Scene))
    \<and> acts (GenericId 4) = Some (EmergencyBraking (GenericId 4) (adas_topic Scene) (adas_topic BrakeInstruction))
    \<and> acts (GenericId 5) = Some (LaneAssist (GenericId 5) (adas_topic Steering))
    \<and> acts (GenericId 6) = Some (BrakeController (GenericId 6) (adas_topic BrakeInstruction))
    \<and> acts (GenericId 7) = Some (SteeringController (GenericId 7) (adas_topic Steering))
    \<and> acts (GenericId 8) = Some (TrajectoryVisualizer (GenericId 8))"

text \<open>The values that the activities of this cycle have left; the rest is of an earlier cycle.\<close>

definition fused :: "(adas_payload \<Rightarrow> adas_value) \<Rightarrow> bool" where
  "fused vals \<longleftrightarrow> (\<exists>img scan sc. vals CameraImage = VImage img \<and> vals RadarScan = VScan scan \<and> vals Scene = VScene sc
    \<and> sn_distance_obstacle sc = min (ci_distance_obstacle img) (rs_distance_obstacle scan))"

definition adas_values :: "(rat \<Rightarrow> rat) \<Rightarrow> activity_id set \<Rightarrow> (adas_payload \<Rightarrow> adas_value) \<Rightarrow> bool" where
  "adas_values rnd past vals \<longleftrightarrow>
    (\<forall>x. payload_of (vals x) = x)
    \<and> (GenericId 0 \<in> past \<longrightarrow> (\<exists>img. vals CameraImage = VImage img
        \<and> 20 \<le> ci_distance_obstacle img \<and> ci_distance_obstacle img \<le> 50))
    \<and> (GenericId 1 \<in> past \<longrightarrow> (\<exists>scan. vals RadarScan = VScan scan \<and> scan_ok scan))
    \<and> (GenericId 2 \<in> past \<longrightarrow> {GenericId 0, GenericId 1} \<subseteq> past \<and> fused vals)
    \<and> (GenericId 4 \<in> past \<longrightarrow> GenericId 2 \<in> past
        \<and> (\<exists>sc. vals Scene = VScene sc \<and> vals BrakeInstruction = VBrake (brake_for rnd (sn_distance_obstacle sc))))
    \<and> (GenericId 5 \<in> past \<longrightarrow> vals Steering = VSteering \<lparr>st_angle = rnd (234 / 100)\<rparr>)"

lemma payload_of_iff:
  "payload_of v = CameraImage \<longleftrightarrow> (\<exists>img. v = VImage img)" "payload_of v = RadarScan \<longleftrightarrow> (\<exists>scan. v = VScan scan)"
  "payload_of v = Scene \<longleftrightarrow> (\<exists>sc. v = VScene sc)" "payload_of v = BrakeInstruction \<longleftrightarrow> (\<exists>b. v = VBrake b)"
  "payload_of v = Steering \<longleftrightarrow> (\<exists>st. v = VSteering st)"
  by (cases v; simp)+

lemma typed_update: "\<forall>x. payload_of (vals x) = x \<Longrightarrow> payload_of v = y \<Longrightarrow> \<forall>x. payload_of ((vals(y := v)) x) = x"
  by simp

lemma steps_return_pair: "(\<And>s. P s \<Longrightarrow> Q a b s) \<Longrightarrow> steps P (io_return (a, b)) (\<lambda>(r, x) w. Q r x w)"
  by (rule steps_return) simp

text \<open>After the activities of \<open>past\<close>; the camera counts at most one person more in its step.\<close>

definition adas_after ::
  "(rat \<Rightarrow> rat) \<Rightarrow> (adas_payload \<Rightarrow> adas_value type_info) \<Rightarrow> (adas_payload \<Rightarrow> string) \<Rightarrow> adas_value process \<Rightarrow> int \<Rightarrow>
    activity_id set \<Rightarrow> (activity_id \<rightharpoonup> adas_activity) \<Rightarrow> adas_world \<Rightarrow> bool" where
  "adas_after rnd ty mids p n past acts w \<longleftrightarrow>
    adas_placed (if GenericId 0 \<in> past then n + 1 else n) acts
    \<and> (\<exists>vals. adas_values rnd past vals \<and> adas_at ty mids p unlocked vals w)"

lemma unchanged_step:
  assumes "steps (adas_at ty mids p unlocked vals) m (\<lambda>r w. \<exists>vs. R r vs \<and> adas_at ty mids p unlocked vs w)"
    and "\<And>r vs. R r vs \<Longrightarrow> adas_values rnd (insert i past) vs"
    and "adas_placed (if GenericId 0 \<in> past then n + 1 else n) acts" "acts i = Some a" "i \<noteq> GenericId 0"
  shows "steps (adas_at ty mids p unlocked vals) (io_bind m (\<lambda>_. io_return (Inr (), a)))
    (\<lambda>(r, a') w. r = Inr () \<and> adas_after rnd ty mids p n (insert i past) (acts(i \<mapsto> a')) w)"
proof (rule steps_bind [OF assms(1)], rule steps_return_pair)
  have "acts(i \<mapsto> a) = acts" using assms(4) by auto
  then show "Inr () = Inr () \<and> adas_after rnd ty mids p n (insert i past) (acts(i \<mapsto> a)) w"
    if "\<exists>vs. R r vs \<and> adas_at ty mids p unlocked vs w" for r w
    using assms(2,3,5) that unfolding adas_after_def by auto
qed

lemma camera_cycle_step:
  assumes inj: "inj mids" and rnd: "f64_rounding rnd" and placed: "adas_placed n acts" and n: "n < 2 ^ 62"
    and vals: "adas_values rnd past vals" and new: "GenericId 0 \<notin> past" and a: "acts (GenericId 0) = Some a"
  shows "steps (adas_at ty mids p unlocked vals) (adas_step rnd ty a)
    (\<lambda>(r, a') w. r = Inr () \<and> adas_after rnd ty mids p n (insert (GenericId 0) past) (acts(GenericId 0 \<mapsto> a')) w)"
proof -
  obtain people cars d where a': "a = Camera (GenericId 0) (adas_topic CameraImage) people cars d"
    "0 \<le> sint people" "sint people \<le> n"
    using placed a by (auto simp: adas_placed_def)
  have "sint people < 2 ^ 62" using a'(3) n by simp
  note cam = camera_steps [OF inj rnd a'(2) this, of ty p vals "GenericId 0" cars d]
  show ?thesis
    unfolding a'(1) adas_impl_of.simps adas_impl_defs adas_impl.simps
  proof (rule steps_bind [OF cam], rule steps_return_pair)
    fix b w
    assume "\<exists>img. (b = Camera (GenericId 0) (adas_topic CameraImage) (ci_num_people img) (ci_num_cars img) (ci_distance_obstacle img)
        \<and> image_ok people img) \<and> adas_at ty mids p unlocked (vals(CameraImage := VImage img)) w"
    then obtain img where img: "image_ok people img" "adas_at ty mids p unlocked (vals(CameraImage := VImage img)) w"
      and b: "b = Camera (GenericId 0) (adas_topic CameraImage) (ci_num_people img) (ci_num_cars img) (ci_distance_obstacle img)"
      by blast
    have "0 \<le> sint (ci_num_people img)" "sint (ci_num_people img) \<le> n + 1"
      using img(1) a'(3) unfolding image_ok_def by auto
    then have "adas_placed (n + 1) (acts(GenericId 0 \<mapsto> b))"
      using placed unfolding adas_placed_def b by simp
    moreover have "adas_values rnd (insert (GenericId 0) past) (vals(CameraImage := VImage img))"
      using vals new img(1) unfolding adas_values_def image_ok_def by auto
    ultimately show "Inr () = Inr () \<and> adas_after rnd ty mids p n (insert (GenericId 0) past) (acts(GenericId 0 \<mapsto> b)) w"
      using img(2) unfolding adas_after_def by auto
  qed
qed

lemma radar_cycle_step:
  assumes inj: "inj mids" and rnd: "f64_rounding rnd"
    and placed: "adas_placed (if GenericId 0 \<in> past then n + 1 else n) acts"
    and vals: "adas_values rnd past vals" and new: "GenericId 1 \<notin> past" and a: "acts (GenericId 1) = Some a"
  shows "steps (adas_at ty mids p unlocked vals) (adas_step rnd ty a)
    (\<lambda>(r, a') w. r = Inr () \<and> adas_after rnd ty mids p n (insert (GenericId 1) past) (acts(GenericId 1 \<mapsto> a')) w)"
proof -
  obtain d where a': "a = Radar (GenericId 1) (adas_topic RadarScan) d" using placed a by (auto simp: adas_placed_def)
  note radar = radar_steps [OF inj rnd, of ty p vals "GenericId 1" d]
  show ?thesis
    unfolding a' adas_impl_of.simps adas_impl_defs adas_impl.simps
  proof (rule steps_bind [OF radar], rule steps_return_pair)
    fix b w
    assume "\<exists>scan. (b = Radar (GenericId 1) (adas_topic RadarScan) (rs_distance_obstacle scan) \<and> scan_ok scan)
      \<and> adas_at ty mids p unlocked (vals(RadarScan := VScan scan)) w"
    then obtain scan where scan: "scan_ok scan" "adas_at ty mids p unlocked (vals(RadarScan := VScan scan)) w"
      and b: "b = Radar (GenericId 1) (adas_topic RadarScan) (rs_distance_obstacle scan)" by blast
    have "adas_placed (if GenericId 0 \<in> past then n + 1 else n) (acts(GenericId 1 \<mapsto> b))"
      using placed unfolding adas_placed_def b by simp
    moreover have "adas_values rnd (insert (GenericId 1) past) (vals(RadarScan := VScan scan))"
      using vals new scan(1) unfolding adas_values_def by auto
    ultimately show "Inr () = Inr () \<and> adas_after rnd ty mids p n (insert (GenericId 1) past) (acts(GenericId 1 \<mapsto> b)) w"
      using scan(2) unfolding adas_after_def by auto
  qed
qed

lemma values_of_reader:
  "i \<noteq> GenericId 0 \<Longrightarrow> i \<noteq> GenericId 1 \<Longrightarrow> i \<noteq> GenericId 2 \<Longrightarrow> i \<noteq> GenericId 4 \<Longrightarrow> i \<noteq> GenericId 5 \<Longrightarrow>
    adas_values rnd past vals \<Longrightarrow> adas_values rnd (insert i past) vals"
  unfolding adas_values_def by auto

lemma neural_net_cycle_step:
  assumes inj: "inj mids" and placed: "adas_placed (if GenericId 0 \<in> past then n + 1 else n) acts"
    and vals: "adas_values rnd past vals" and new: "GenericId 2 \<notin> past"
    and deps: "GenericId 0 \<in> past" "GenericId 1 \<in> past" and a: "acts (GenericId 2) = Some a"
  shows "steps (adas_at ty mids p unlocked vals) (adas_step rnd ty a)
    (\<lambda>(r, a') w. r = Inr () \<and> adas_after rnd ty mids p n (insert (GenericId 2) past) (acts(GenericId 2 \<mapsto> a')) w)"
proof -
  have a': "a = NeuralNet (GenericId 2) (adas_topic CameraImage) (adas_topic RadarScan) (adas_topic Scene)"
    using placed a by (simp add: adas_placed_def)
  obtain img scan where in_vals: "vals CameraImage = VImage img" "vals RadarScan = VScan scan"
    using vals deps unfolding adas_values_def by blast
  note net = neural_net_steps [OF inj in_vals, of ty p rnd]
  have "adas_values rnd (insert (GenericId 2) past) vs"
    if "\<exists>sc. sn_distance_obstacle sc = min (ci_distance_obstacle img) (rs_distance_obstacle scan) \<and> vs = vals(Scene := VScene sc)"
    for vs
    using that vals new deps in_vals unfolding adas_values_def fused_def by auto
  then show ?thesis
    unfolding a' adas_impl_of.simps adas_impl_defs adas_impl.simps
    by (intro unchanged_step [OF net _ placed]) (use a a' in auto)
qed

lemma braking_cycle_step:
  assumes inj: "inj mids" and placed: "adas_placed (if GenericId 0 \<in> past then n + 1 else n) acts"
    and vals: "adas_values rnd past vals" and deps: "GenericId 2 \<in> past" and a: "acts (GenericId 4) = Some a"
  shows "steps (adas_at ty mids p unlocked vals) (adas_step rnd ty a)
    (\<lambda>(r, a') w. r = Inr () \<and> adas_after rnd ty mids p n (insert (GenericId 4) past) (acts(GenericId 4 \<mapsto> a')) w)"
proof -
  have a': "a = EmergencyBraking (GenericId 4) (adas_topic Scene) (adas_topic BrakeInstruction)"
    using placed a by (simp add: adas_placed_def)
  have "fused vals" using vals deps unfolding adas_values_def by blast
  then obtain sc where scene: "vals Scene = VScene sc" unfolding fused_def by blast
  note brake = emergency_braking_steps [where vals = vals and sc = sc, OF inj scene, of ty p rnd]
  have "adas_values rnd (insert (GenericId 4) past) vs"
    if "vs = vals(BrakeInstruction := VBrake (brake_for rnd (sn_distance_obstacle sc)))" for vs
    using that vals deps scene unfolding adas_values_def fused_def by auto
  then show ?thesis
    unfolding a' adas_impl_of.simps adas_impl_defs adas_impl.simps
    by (intro unchanged_step [OF brake _ placed]) (use a a' in auto)
qed

lemma lane_cycle_step:
  assumes inj: "inj mids" and placed: "adas_placed (if GenericId 0 \<in> past then n + 1 else n) acts"
    and vals: "adas_values rnd past vals" and a: "acts (GenericId 5) = Some a"
  shows "steps (adas_at ty mids p unlocked vals) (adas_step rnd ty a)
    (\<lambda>(r, a') w. r = Inr () \<and> adas_after rnd ty mids p n (insert (GenericId 5) past) (acts(GenericId 5 \<mapsto> a')) w)"
proof -
  have a': "a = LaneAssist (GenericId 5) (adas_topic Steering)" using placed a by (simp add: adas_placed_def)
  note lane = lane_assist_steps [OF inj, of ty p vals rnd]
  have "adas_values rnd (insert (GenericId 5) past) vs"
    if "vs = vals(Steering := VSteering \<lparr>st_angle = rnd (234 / 100)\<rparr>)" for vs
    using that vals unfolding adas_values_def fused_def by auto
  then show ?thesis
    unfolding a' adas_impl_of.simps adas_impl_defs adas_impl.simps
    by (intro unchanged_step [OF lane _ placed]) (use a a' in auto)
qed

text \<open>The activities that only read.\<close>

lemma reading_cycle_step:
  assumes inj: "inj mids" and placed: "adas_placed (if GenericId 0 \<in> past then n + 1 else n) acts"
    and vals: "adas_values rnd past vals"
    and i: "i \<in> {GenericId 3, GenericId 6, GenericId 7, GenericId 8}" and a: "acts i = Some a"
  shows "steps (adas_at ty mids p unlocked vals) (adas_step rnd ty a)
    (\<lambda>(r, a') w. r = Inr () \<and> adas_after rnd ty mids p n (insert i past) (acts(i \<mapsto> a')) w)"
proof -
  have kept: "adas_values rnd (insert i past) vs" if "vs = vals" for vs
    using i vals that by (auto intro!: values_of_reader)
  have typed: "payload_of (vals x) = x" for x using vals by (simp add: adas_values_def)
  obtain b where b: "as_brake (vals BrakeInstruction) = Some b"
    using typed [of BrakeInstruction] by (auto simp: payload_of_iff)
  obtain st where st: "as_steering (vals Steering) = Some st" using typed [of Steering] by (auto simp: payload_of_iff)
  have sleep: "steps (adas_at ty mids p unlocked vals) sleep_random (\<lambda>r w. \<exists>vs. vs = vals \<and> adas_at ty mids p unlocked vs w)"
    unfolding sleep_random_def by (rule steps_draw) (auto simp: steps_def adas_at_def intro!: hoare_modify)
  have finish: "steps (adas_at ty mids p unlocked vals) (io_bind m (\<lambda>_. io_return (Inr (), a)))
      (\<lambda>(r, a') w. r = Inr () \<and> adas_after rnd ty mids p n (insert i past) (acts(i \<mapsto> a')) w)"
    if "steps (adas_at ty mids p unlocked vals) m (\<lambda>r w. \<exists>vs. vs = vals \<and> adas_at ty mids p unlocked vs w)"
    for m :: "(adas_world, unit) io"
    by (rule unchanged_step [OF that kept placed a]) (use i in auto)
  consider "i = GenericId 3" | "i = GenericId 6" | "i = GenericId 7" | "i = GenericId 8" using i by blast
  then show ?thesis
  proof cases
    case 1
    then have "a = EnvironmentRenderer (GenericId 3) (adas_topic Scene)" using placed a by (simp add: adas_placed_def)
    then show ?thesis using finish [OF renderer_steps [of ty mids p vals]] by (simp add: adas_impl_defs)
  next
    case 2
    then have "a = BrakeController (GenericId 6) (adas_topic BrakeInstruction)" using placed a by (simp add: adas_placed_def)
    then show ?thesis
      using finish [OF reader_steps [where sel = as_brake and x = BrakeInstruction and vals = vals, OF inj b, of ty p]] by (simp add: adas_impl_defs brake_controller_step_def)
  next
    case 3
    then have "a = SteeringController (GenericId 7) (adas_topic Steering)" using placed a by (simp add: adas_placed_def)
    then show ?thesis
      using finish [OF reader_steps [where sel = as_steering and x = Steering and vals = vals, OF inj st, of ty p]] by (simp add: adas_impl_defs steering_controller_step_def)
  next
    case 4
    then have "a = TrajectoryVisualizer (GenericId 8)" using placed a by (simp add: adas_placed_def)
    then show ?thesis using finish [OF sleep] by (simp add: adas_impl_defs)
  qed
qed

lemma adas_cycle_step:
  assumes "inj mids" "f64_rounding rnd" "adas_placed (if GenericId 0 \<in> past then n + 1 else n) acts" "n < 2 ^ 62"
    and "adas_values rnd past vals" "i \<notin> past" "map_of activity_dependencies i = Some ds" "set ds \<subseteq> past" "acts i = Some a"
  shows "steps (adas_at ty mids p unlocked vals) (adas_step rnd ty a)
    (\<lambda>(r, a') w. r = Inr () \<and> adas_after rnd ty mids p n (insert i past) (acts(i \<mapsto> a')) w)"
proof -
  consider "i = GenericId 0" | "i = GenericId 1" | "i = GenericId 2" | "i = GenericId 4" | "i = GenericId 5"
    | "i \<in> {GenericId 3, GenericId 6, GenericId 7, GenericId 8}"
    using assms(7) by (auto simp: activity_dependencies_def split: if_splits)
  then show ?thesis
  proof cases
    case 1
    then show ?thesis using camera_cycle_step [OF assms(1,2) _ assms(4,5)] assms(3,6,9) by simp
  next
    case 2
    then show ?thesis using radar_cycle_step [OF assms(1,2,3,5)] assms(6,9) by simp
  next
    case 3
    then have "ds = [GenericId 0, GenericId 1]" using assms(7) by (simp add: activity_dependencies_def)
    then show ?thesis using neural_net_cycle_step [OF assms(1,3,5)] assms(6,8,9) 3 by simp
  next
    case 4
    then have "ds = [GenericId 2]" using assms(7) by (simp add: activity_dependencies_def)
    then show ?thesis using braking_cycle_step [OF assms(1,3,5)] assms(8,9) 4 by simp
  next
    case 5
    then show ?thesis using lane_cycle_step [OF assms(1,3,5)] assms(9) by simp
  next
    case 6
    then show ?thesis by (rule reading_cycle_step [OF assms(1,3,5) _ assms(9)])
  qed
qed

section \<open>Whole cycles\<close>

lemma adas_placed_key:
  "adas_placed n acts \<Longrightarrow> map_of activity_dependencies i = Some ds \<Longrightarrow> \<exists>a. acts i = Some a"
  unfolding adas_placed_def by (auto simp: activity_dependencies_def split: if_splits)

lemma steps_expect: "steps P m Q \<Longrightarrow> m = f a \<Longrightarrow> steps P (io_bind (io_expect (Some a)) f) Q"
  by (simp add: io_expect_def io_bind_def io_return_def steps_def hoare_def)

lemma adas_cycle_steps:
  assumes inj: "inj mids" and rnd: "f64_rounding rnd" and n: "n < 2 ^ 62"
  shows "cycle_from activity_dependencies past is \<Longrightarrow>
    steps (\<lambda>w. adas_after rnd ty mids p n past acts w) (adas_cycle rnd ty is acts)
      (\<lambda>acts'. adas_after rnd ty mids p n (past \<union> set is) acts')"
proof (induction "is" arbitrary: past acts)
  case Nil
  show ?case by (simp, rule steps_return) simp
next
  case (Cons i "is")
  then obtain ds where i: "i \<notin> past" "map_of activity_dependencies i = Some ds" "set ds \<subseteq> past"
    and rest: "cycle_from activity_dependencies (insert i past) is" by (auto split: option.splits)
  have "steps (\<lambda>w. adas_placed (if GenericId 0 \<in> past then n + 1 else n) acts
        \<and> (\<exists>vals. adas_values rnd past vals \<and> adas_at ty mids p unlocked vals w))
      (adas_cycle rnd ty (i # is) acts) (\<lambda>acts'. adas_after rnd ty mids p n (past \<union> set (i # is)) acts')"
  proof (rule steps_assume, rule steps_exists, rule steps_assume)
    fix vals
    assume placed: "adas_placed (if GenericId 0 \<in> past then n + 1 else n) acts" and vals: "adas_values rnd past vals"
    from adas_placed_key [OF placed i(2)] obtain a where a: "acts i = Some a" by blast
    have next': "steps (\<lambda>w. r = Inr () \<and> adas_after rnd ty mids p n (insert i past) (acts(i \<mapsto> a')) w)
        (case r of Inl e \<Rightarrow> io_return (acts(i \<mapsto> a')) | Inr _ \<Rightarrow> adas_cycle rnd ty is (acts(i \<mapsto> a')))
        (\<lambda>acts'. adas_after rnd ty mids p n (past \<union> set (i # is)) acts')" for r :: "activity_error + unit" and a'
      by (rule steps_assume) (use Cons.IH [OF rest] in simp)
    show "steps (adas_at ty mids p unlocked vals) (adas_cycle rnd ty (i # is) acts)
        (\<lambda>acts'. adas_after rnd ty mids p n (past \<union> set (i # is)) acts')"
      unfolding adas_cycle.simps a
      by (rule steps_expect [OF _ refl], rule steps_bind [OF adas_cycle_step [OF inj rnd placed n vals i a]])
        (use next' in \<open>simp split: prod.splits\<close>)
  qed
  then show ?case unfolding adas_after_def .
qed

text \<open>Cycle after cycle, each in an order of its own.\<close>

fun adas_cycles ::
  "(rat \<Rightarrow> rat) \<Rightarrow> (adas_payload \<Rightarrow> adas_value type_info) \<Rightarrow> activity_id list list \<Rightarrow> (activity_id \<rightharpoonup> adas_activity) \<Rightarrow>
    (adas_world, activity_id \<rightharpoonup> adas_activity) io" where
  "adas_cycles rnd ty [] acts = io_return acts"
| "adas_cycles rnd ty (is # iss) acts = io_bind (adas_cycle rnd ty is acts) (adas_cycles rnd ty iss)"

abbreviation all_adas :: "activity_id set" where
  "all_adas \<equiv> fst ` set activity_dependencies"

lemma adas_after_restart: "adas_after rnd ty mids p n all_adas acts w \<Longrightarrow> adas_after rnd ty mids p (n + 1) {} acts w"
  unfolding adas_after_def adas_values_def by (auto simp: activity_dependencies_def)

lemma adas_cycles_steps:
  assumes inj: "inj mids" and rnd: "f64_rounding rnd"
  shows "list_all (runs_cycle activity_dependencies) iss \<Longrightarrow> n + int (length iss) < 2 ^ 62 \<Longrightarrow>
    steps (\<lambda>w. adas_after rnd ty mids p n {} acts w) (adas_cycles rnd ty iss acts)
      (\<lambda>acts' w. if iss = [] then adas_after rnd ty mids p n {} acts' w
         else \<exists>m. adas_after rnd ty mids p m all_adas acts' w)"
proof (induction iss arbitrary: n acts)
  case Nil
  show ?case by (simp, rule steps_return) simp
next
  case (Cons "is" iss)
  then have "cycle_from activity_dependencies {} is" and all: "set is = all_adas"
    by (simp_all add: runs_cycle_def)
  then have once: "steps (\<lambda>w. adas_after rnd ty mids p n {} acts w) (adas_cycle rnd ty is acts)
      (\<lambda>acts'. adas_after rnd ty mids p n all_adas acts')"
    using adas_cycle_steps [OF inj rnd, of n "{}" "is" ty p acts] Cons.prems(2) by simp
  have more: "steps (\<lambda>w. adas_after rnd ty mids p n all_adas acts' w) (adas_cycles rnd ty iss acts')
      (\<lambda>acts'' w. \<exists>m. adas_after rnd ty mids p m all_adas acts'' w)" for acts'
  proof (cases "iss = []")
    case True
    then show ?thesis by (simp, intro steps_return exI)
  next
    case False
    have "steps (\<lambda>w. adas_after rnd ty mids p (n + 1) {} acts' w) (adas_cycles rnd ty iss acts')
        (\<lambda>acts'' w. \<exists>m. adas_after rnd ty mids p m all_adas acts'' w)"
      using Cons.IH [of "n + 1" acts'] Cons.prems False by simp
    then show ?thesis unfolding steps_def by (rule hoare_pre) (rule adas_after_restart)
  qed
  show ?case using steps_bind [OF once more] by simp
qed

section \<open>From the creation of the topics\<close>

definition topics_created ::
  "(adas_payload \<Rightarrow> adas_value type_info) \<Rightarrow> (adas_payload \<Rightarrow> string) \<Rightarrow> (adas_payload \<Rightarrow> adas_value) \<Rightarrow>
    adas_value process \<Rightarrow> bool" where
  "topics_created ty mids vals p \<longleftrightarrow> inj mids \<and> (\<forall>x. payload_of (vals x) = x
    \<and> pc_topics p (adas_topic x) = Some (adas_mapping ty mids x 0) \<and> pc_shm p (mids x) = Some (vals x))"

lemma map_add_same: "(\<And>k v. M k = Some v \<Longrightarrow> N k = Some v) \<Longrightarrow> N ++ M = N"
  by (rule ext) (auto simp: map_add_def split: option.splits)

lemma created_process: "topics_created ty mids vals p \<Longrightarrow> adas_process ty mids p unlocked vals = p"
  unfolding adas_process_def topics_created_def
  by (subst map_add_same, force dest: map_of_SomeD, subst map_add_same, force dest: map_of_SomeD) simp

lemma process_created:
  assumes "inj mids" "\<And>x. payload_of (vals x) = x"
  shows "topics_created ty mids vals (adas_process ty mids p unlocked vals)"
  unfolding topics_created_def using assms by (simp add: topics_lookup shm_lookup)

lemma input_new_adas:
  "input_new (adas_topic x) (adas_process ty mids p locks vals) = (Ret (), adas_process ty mids p locks vals)"
  by (simp add: input_new_def topic_mapping_of_def io_defs topics_lookup)

lemma output_new_adas:
  "output_new (adas_topic x) (adas_process ty mids p locks vals) = (Ret (), adas_process ty mids p locks vals)"
  by (simp add: output_new_def topic_mapping_of_def io_defs topics_lookup adas_mapping_def)

lemmas adas_builds = camera_build_def radar_build_def neural_net_build_def environment_renderer_build_def
  emergency_braking_build_def brake_controller_build_def lane_assist_build_def steering_controller_build_def
  trajectory_visualizer_build_def

lemma adw_new:
  assumes "adas_at ty mids p locks vals w"
  shows "adw_io (input_new (adas_topic x)) w = (Ret (), w)" "adw_io (output_new (adas_topic x)) w = (Ret (), w)"
  using assms by (simp_all add: adas_at_def adw_io_def io_zoom_def input_new_adas output_new_adas)

lemma adas_built:
  assumes "adas_at ty mids p unlocked vals w"
  shows "\<exists>acts. adas_build adas_builders w = (Ret acts, w) \<and> adas_placed 4 acts"
  by (simp add: adas_builders_def adas_workers_def adas_builds io_bind_def io_return_def adw_new [OF assms] adas_placed_def
      del: adas_topic.simps)

lemma adas_values_start: "\<forall>x. payload_of (vals x) = x \<Longrightarrow> adas_values rnd {} vals"
  by (simp add: adas_values_def)

lemma adas_values_all:
  assumes "adas_values rnd all_adas vals"
  shows "\<forall>x. payload_of (vals x) = x"
    and "\<exists>img scan sc. vals CameraImage = VImage img \<and> vals RadarScan = VScan scan \<and> vals Scene = VScene sc
      \<and> sn_distance_obstacle sc = min (ci_distance_obstacle img) (rs_distance_obstacle scan)
      \<and> vals BrakeInstruction = VBrake (brake_for rnd (sn_distance_obstacle sc))
      \<and> vals Steering = VSteering \<lparr>st_angle = rnd (234 / 100)\<rparr>"
proof -
  from assms show "\<forall>x. payload_of (vals x) = x" by (simp add: adas_values_def)
  from assms have "fused vals" and "vals Steering = VSteering \<lparr>st_angle = rnd (234 / 100)\<rparr>"
    and "\<exists>sc. vals Scene = VScene sc \<and> vals BrakeInstruction = VBrake (brake_for rnd (sn_distance_obstacle sc))"
    unfolding adas_values_def by (simp_all add: activity_dependencies_def)
  then show "\<exists>img scan sc. vals CameraImage = VImage img \<and> vals RadarScan = VScan scan \<and> vals Scene = VScene sc
      \<and> sn_distance_obstacle sc = min (ci_distance_obstacle img) (rs_distance_obstacle scan)
      \<and> vals BrakeInstruction = VBrake (brake_for rnd (sn_distance_obstacle sc))
      \<and> vals Steering = VSteering \<lparr>st_angle = rnd (234 / 100)\<rparr>"
    unfolding fused_def by auto
qed

text \<open>The types of the payloads, with identifiers and sizes of the compiler.\<close>

definition adas_types :: "(adas_payload \<Rightarrow> adas_value type_info) \<Rightarrow> bool" where
  "adas_types ty \<longleftrightarrow> (\<forall>x. 0 < ty_size (ty x) \<and> ty_default (ty x) = payload_default x)"

text \<open>The assignments for signalling over channels, where one agent has all workers.\<close>

definition mpsc_assignments_ids :: agent_table where
  "mpsc_assignments_ids = [(GenericId 100, map (\<lambda>(w, bs). (w, map fst bs)) agent_assignments)]"

lemma adas_topics_created:
  assumes ty: "adas_types ty" and p: "\<And>t. pc_topics p t = None" "pc_random p = xs @ ys" "length xs = 5" "distinct xs"
      "\<And>x. x \<in> set xs \<Longrightarrow> pc_shm p (mapping_id x) = None"
  shows "\<exists>r p' mids. initialize_com_primary iox2_init LinuxShm (GenericId 100) (topic_dependencies ty)
      mpsc_assignments_ids additional p = (Ret r, p') \<and> topics_created ty mids payload_default p'"
proof -
  let ?as = "mpsc_assignments_ids" and ?specs = "topic_dependencies ty" and ?acts = "GenericId ` {0, 1, 2, 3, 4, 5, 6, 7, 8}"
  obtain a b c d e where xs: "xs = [a, b, c, d, e]" using p(3) by (auto simp: eval_nat_numeral length_Suc_conv)
  have acts: "local_activities ?as (GenericId 100) = Ret ?acts"
    by (auto simp: local_activities_def mpsc_assignments_ids_def agent_assignments_def adas_worker_def)
  have sizes: "0 < ty_size (ts_type ts)" if "ts \<in> set ?specs" for ts
    using that ty by (auto simp: adas_types_def topic_dependencies_def)
  have "distinct (map ts_topic ?specs)" "length xs = length ?specs" using p(3) by (simp_all add: topic_dependencies_def)
  from primary_loop_initializes [OF acts sizes this(1) p(1,2) this(2) p(4,5), of iox2_init additional]
  obtain p' where p': "io_for ?specs (primary_step iox2_init ?as (GenericId 100) ?acts additional) p = (Ret (), p')"
    "list_all2 (\<lambda>ts x. topic_initialized ?acts ts (mapping_id x) p') ?specs xs" by blast
  define mids where "mids x = (case x of CameraImage \<Rightarrow> mapping_id a | RadarScan \<Rightarrow> mapping_id b | Scene \<Rightarrow> mapping_id c
    | BrakeInstruction \<Rightarrow> mapping_id d | Steering \<Rightarrow> mapping_id e)" for x
  have "inj mids"
  proof (rule injI)
    show "mids x = mids y \<Longrightarrow> x = y" for x y
      using p(4) by (cases x; cases y) (auto simp: mids_def xs mapping_id_inj)
  qed
  moreover have "pc_topics p' (adas_topic x) = Some (adas_mapping ty mids x 0) \<and> pc_shm p' (mids x) = Some (payload_default x)"
    for x
    using p'(2) ty unfolding xs
    by (cases x) (simp_all add: topic_dependencies_def topic_initialized_def uses_topic_def is_write_def adas_peers_def
        adas_mapping_def mids_def adas_types_def)
  ultimately have "topics_created ty mids payload_default p'"
    unfolding topics_created_def by (simp add: payload_of_default)
  moreover have "\<exists>r. initialize_com_primary iox2_init LinuxShm (GenericId 100) ?specs ?as additional p = (Ret r, p')"
    using p'(1) by (simp add: initialize_com_primary_def local_requests_def acts io_defs primary_step_def [abs_def])
  ultimately show ?thesis by blast
qed

text \<open>A process of the example: the topics are initialised, the activities are built, and cycles run.\<close>

definition adas_run_cycles ::
  "(rat \<Rightarrow> rat) \<Rightarrow> (adas_payload \<Rightarrow> adas_value type_info) \<Rightarrow> activity_id list list \<Rightarrow>
    (adas_world, activity_id \<rightharpoonup> adas_activity) io" where
  "adas_run_cycles rnd ty iss =
    io_bind (adw_io (initialize_com_primary (\<lambda>_ _ _. io_panic) LinuxShm (GenericId 100) (topic_dependencies ty)
      mpsc_assignments_ids 0)) (\<lambda>_.
    io_bind (adas_build adas_builders) (adas_cycles rnd ty iss))"

text \<open>
  C27: The mini-adas example in one process: the topics are initialised over shared memory, the
  activities are built and stepped for any number of cycles, each in any order that respects
  \<open>activity_dependencies\<close>, with any random numbers. No step panics or waits, all locks are released,
  and after the last cycle the distance of the scene is the smaller one of the camera's and the
  radar's of the same cycle, the brake instruction is the one for that scene, and the steering angle
  is set. (Below \<open>2 ^ 61\<close> cycles the camera's count of people cannot overflow.)
\<close>

theorem adas_cycles_fuse:
  assumes rnd: "f64_rounding rnd" and ty: "adas_types ty"
    and p: "\<And>t. pc_topics (aw_process w) t = None" "pc_random (aw_process w) = xs @ ys" "length xs = 5" "distinct xs"
      "\<And>x. x \<in> set xs \<Longrightarrow> pc_shm (aw_process w) (mapping_id x) = None"
    and orders: "list_all (runs_cycle activity_dependencies) iss" "iss \<noteq> []" "length iss < 2 ^ 61"
  shows "\<exists>acts w' mids vals img scan sc. adas_run_cycles rnd ty iss w = (Ret acts, w')
    \<and> topics_created ty mids vals (aw_process w')
    \<and> vals CameraImage = VImage img \<and> vals RadarScan = VScan scan \<and> vals Scene = VScene sc
    \<and> sn_distance_obstacle sc = min (ci_distance_obstacle img) (rs_distance_obstacle scan)
    \<and> vals BrakeInstruction = VBrake (brake_for rnd (sn_distance_obstacle sc))
    \<and> vals Steering = VSteering \<lparr>st_angle = rnd (234 / 100)\<rparr>"
proof -
  from adas_topics_created [OF ty p, of "\<lambda>_ _ _. io_panic" 0] obtain r p' mids where
    init: "initialize_com_primary (\<lambda>_ _ _. io_panic) LinuxShm (GenericId 100) (topic_dependencies ty)
      mpsc_assignments_ids 0 (aw_process w) = (Ret r, p')" and made: "topics_created ty mids payload_default p'" by blast
  let ?w = "w\<lparr>aw_process := p'\<rparr>"
  have inj: "inj mids" and typed: "\<forall>x. payload_of (payload_default x) = x"
    using made by (simp_all add: topics_created_def)
  have at: "adas_at ty mids p' unlocked payload_default ?w" using created_process [OF made] by (simp add: adas_at_def)
  from adas_built [OF at] obtain acts where built: "adas_build adas_builders ?w = (Ret acts, ?w)" "adas_placed 4 acts"
    by blast
  have "adas_after rnd ty mids p' 4 {} acts ?w"
    using built(2) at adas_values_start [OF typed] unfolding adas_after_def by auto
  moreover have "4 + int (length iss) < 2 ^ 62" using orders(3) by simp
  ultimately obtain acts' w' m where run: "adas_cycles rnd ty iss acts ?w = (Ret acts', w')"
    and after: "adas_after rnd ty mids p' m all_adas acts' w'"
    using steps_run [OF adas_cycles_steps [OF inj rnd orders(1), of 4 ty p' acts]] orders(2) by fastforce
  then obtain vals where vals: "adas_values rnd all_adas vals" "adas_at ty mids p' unlocked vals w'"
    unfolding adas_after_def by blast
  have "topics_created ty mids vals (aw_process w')"
    using vals(2) adas_values_all(1) [OF vals(1)] process_created [OF inj] by (simp add: adas_at_def)
  moreover have "adas_run_cycles rnd ty iss w = (Ret acts', w')"
    using init built(1) run by (simp add: adas_run_cycles_def io_bind_def adw_io_def io_zoom_def)
  ultimately show ?thesis using adas_values_all(2) [OF vals(1)] by blast
qed

definition demo_ty :: "adas_payload \<Rightarrow> adas_value type_info" where
  "demo_ty x = \<lparr>ty_id = 7, ty_size = 16, ty_default = payload_default x\<rparr>"

definition demo_world :: adas_world where
  "demo_world = \<lparr>aw_process = \<lparr>pc_topics = \<lambda>_. None, pc_shm = \<lambda>_. None, pc_random = [5, 4, 3, 2, 1]\<rparr>,
     aw_hashes = \<lambda>k. of_nat k * 2654435761, aw_drawn = 0, aw_slept = []\<rparr>"

theorem adas_cycles_fuse_witness:
  "\<exists>acts w'. adas_run_cycles (\<lambda>x. x) demo_ty [map GenericId [0, 1, 2, 3, 4, 5, 6, 7, 8], map GenericId [1, 0, 2, 5, 8, 7, 4, 6, 3]]
      demo_world = (Ret acts, w')"
proof -
  have "list_all (runs_cycle activity_dependencies)
      [map GenericId [0, 1, 2, 3, 4, 5, 6, 7, 8], map GenericId [1, 0, 2, 5, 8, 7, 4, 6, 3]]"
    by (auto simp: runs_cycle_def activity_dependencies_def)
  then show ?thesis
    using adas_cycles_fuse [where rnd = "\<lambda>x. x" and ty = demo_ty and w = demo_world and xs = "[5, 4, 3, 2, 1]" and ys = "[]"
      and iss = "[map GenericId [0, 1, 2, 3, 4, 5, 6, 7, 8], map GenericId [1, 0, 2, 5, 8, 7, 4, 6, 3]]"]
    by (auto simp: f64_rounding_def demo_world_def adas_types_def demo_ty_def)
qed

section \<open>The brake instruction\<close>

text \<open>
  The brake instruction: it is active just below the engage distance of 30, its level is between
  0 and 1 and does not rise with the distance, and the brakes are fully applied from the maximal brake
  distance of 15 downwards, whatever the rounding does between these distances.
\<close>

theorem brake_for_bounds:
  assumes "f64_rounding rnd" "d \<le> d'"
  shows "bi_active (brake_for rnd d) = (d < 30)
    \<and> 0 \<le> bi_level (brake_for rnd d') \<and> bi_level (brake_for rnd d') \<le> bi_level (brake_for rnd d)
    \<and> bi_level (brake_for rnd d) \<le> 1 \<and> (if d \<le> 15 then bi_level (brake_for rnd d) = 1 else True)"
proof -
  have mono: "rnd x \<le> rnd y" if "x \<le> y" for x y using assms(1) that by (simp add: f64_rounding_def)
  have exact: "rnd 0 = 0" "rnd 1 = 1" "rnd 15 = 15"
    using rnd_int [OF assms(1), of 0] rnd_int [OF assms(1), of 1] rnd_int [OF assms(1), of 15] by simp_all
  have level: "bi_level (brake_for rnd x) = (if x < 30 then min 1 (rnd (rnd (30 - x) / 15)) else 0)" for x
    by (simp add: brake_for_def exact)
  have pos: "0 \<le> rnd (rnd (30 - x) / 15)" if "x < 30" for x
  proof -
    have "0 \<le> rnd (30 - x)" using mono [of 0 "30 - x"] that exact by simp
    then show ?thesis using mono [of 0 "rnd (30 - x) / 15"] exact by simp
  qed
  have anti: "rnd (rnd (30 - y) / 15) \<le> rnd (rnd (30 - x) / 15)" if "x \<le> y" for x y
    using mono [of "30 - y" "30 - x"] that by (intro mono) simp
  have "bi_active (brake_for rnd d) = (d < 30)" by (simp add: brake_for_def)
  moreover have "0 \<le> bi_level (brake_for rnd d')" "bi_level (brake_for rnd d) \<le> 1" using pos by (auto simp: level)
  moreover have "bi_level (brake_for rnd d') \<le> bi_level (brake_for rnd d)"
    using pos [of d] anti [OF assms(2)] assms(2) by (auto simp: level min_le_iff_disj)
  moreover have "rnd (rnd (30 - 15) / 15) = 1" by (simp add: exact)
  then have "bi_level (brake_for rnd d) = 1" if "d \<le> 15" using anti [OF that] that by (simp add: level)
  ultimately show ?thesis by simp
qed

theorem brake_for_bounds_witness:
  "bi_active (brake_for (\<lambda>x. x) 20) \<and> bi_level (brake_for (\<lambda>x. x) 25) \<le> bi_level (brake_for (\<lambda>x. x) 20)"
  using brake_for_bounds [of "\<lambda>x. x" 20 25] by (simp add: f64_rounding_def)

end
