(* ===== verification/Feo_Relayed.thy ===== *)
theory Feo_Relayed
  imports Feo_Relay_Endpoints
begin

text \<open>
  Relayed signalling put together (\<open>relayed/sockets_mpsc.rs\<close>): sockets between the agents, channels
  within one. The lemmas of \<open>Feo_Relays\<close> are instantiated with the endpoints of the code; the rest is
  about what the constructor of the scheduler's connector makes of the configuration.
\<close>

section \<open>The relays over sockets and channels\<close>

interpretation primary_relay: forwarding "socket_multi_receiver k pf" sm_pending "mpsc_sender self"
    "mpsc_sent before" socket_conversion mpsc_conversion
  for k :: nat and pf :: "'e platform" and self :: channel_id and before :: "mpsc_signal list"
  by (intro forwarding.intro socket_multi_rx.source_axioms mpsc_tx.sink_axioms)

interpretation secondary_relay: forwarding "mpsc_multi_recv k pf" mm_pending socket_sender "se_sent before"
    mpsc_conversion socket_conversion
  for k :: nat and pf :: "'e platform" and before :: "u8 list"
  by (intro forwarding.intro mpsc_multi_rx.source_axioms socket_tx.sink_axioms)

interpretation local_relay: dispatching "socket_receiver k pf" se_pending mpsc_multi_sender "set ids"
    "mx_sent before ids" socket_conversion mpsc_conversion aw
  for k :: nat and pf :: "'e platform" and before :: "channel_id \<Rightarrow> mpsc_signal list"
    and ids :: "channel_id list" and aw :: "activity_id \<Rightarrow> worker_id option"
  by (intro dispatching.intro socket_rx.source_axioms mpsc_mtx.multi_sink_axioms)

lemma relay_outcome_cases:
  assumes "relay_outcome pending sent c_in c_out ms0 r s"
  obtains rs lost ms where "pending ms (rl_in s)"
    "sent (map (from_signal c_out) (core_signals c_in (map snd rs))) (rl_out s)"
    "\<forall>k. ms0 k = map snd (filter (\<lambda>p. fst p = k) (rs @ lost)) @ ms k"
    "length lost \<le> 1" "r = Ret (Inr ()) \<longrightarrow> lost = []"
proof -
  note found = that
  have main: thesis
    if lost: "forwarded pending sent c_in c_out ms0 lost s" "length lost \<le> 1" "r = Ret (Inr ()) \<longrightarrow> lost = []" for lost
  proof -
    from lost(1) obtain rs ms where "pending ms (rl_in s)"
      "sent (map (from_signal c_out) (core_signals c_in (map snd rs))) (rl_out s)"
      "\<forall>k. ms0 k = map snd (filter (\<lambda>p. fst p = k) (rs @ lost)) @ ms k"
      unfolding forwarded_def by blast
    with found [of ms rs lost] lost(2,3) show thesis by blast
  qed
  from assms consider "forwarded pending sent c_in c_out ms0 [] s"
    | k p where "forwarded pending sent c_in c_out ms0 [(k, p)] s" "r \<noteq> Ret (Inr ())"
    unfolding relay_outcome_def by blast
  then show thesis
    by cases (use main [of "[]"] in simp, use main [of "[(k, p)]" for k p] in simp)
qed

text \<open>
  C9: the relay of the primary agent loses, repeats and reorders nothing: at every moment, the queue
  of the scheduler has got exactly the core signals among the signals received so far, in the order
  in which they were received; those of each connection are its first ones, in order, and the rest is
  still to come. At most one signal, the last, can be lost, and then not by a regular end of the relay.
\<close>

theorem primary_relay_forwards:
  assumes "sm_pending ms (rl_in s)"
    and "relay_loop n (primary_receive_step socket_conversion mpsc_conversion (socket_multi_receiver k pf)
        (mpsc_sender self) timeout) s = (r, s')"
  shows "\<exists>rs lost ms'. ch_queue (rl_out s')
        = ch_queue (rl_out s) @ map MCore (core_signals socket_conversion (map snd rs))
    \<and> (\<forall>t. ms t = messages_of t (rs @ lost) @ ms' t) \<and> sm_pending ms' (rl_in s')
    \<and> length lost \<le> 1 \<and> (r = Ret (Inr ()) \<longrightarrow> lost = [])"
proof -
  have "mpsc_sent (ch_queue (rl_out s)) [] (rl_out s)" by (simp add: mpsc_sent_def)
  from primary_relay.primary_receive_forwards [OF assms(1) this assms(2)] show ?thesis
  proof (rule relay_outcome_cases)
    fix rs lost and ms' :: "token \<Rightarrow> protocol_signal list"
    assume "sm_pending ms' (rl_in s')" "length lost \<le> 1" "r = Ret (Inr ()) \<longrightarrow> lost = []"
      "mpsc_sent (ch_queue (rl_out s)) (map (from_signal mpsc_conversion)
        (core_signals socket_conversion (map snd rs))) (rl_out s')"
      "\<forall>t. ms t = map snd (filter (\<lambda>p. fst p = t) (rs @ lost)) @ ms' t"
    then show ?thesis
      by (intro exI [of _ rs] exI [of _ lost] exI [of _ ms'])
        (simp add: mpsc_sent_def mpsc_conversion_def messages_of_def)
  qed
qed



section \<open>The connector of the scheduler\<close>

text \<open>
  \<open>SchedulerConnector::new\<close> from the maps of the configuration, whose keys are distinct. The world of
  the connector holds its endpoints; starting the receive relay in its thread is a parameter.
\<close>

definition relay_channel :: channel_id where
  "relay_channel = ChRelay (GenericId 0)"

definition local_workers_of :: "agent_id \<Rightarrow> (worker_id \<times> agent_id) list \<Rightarrow> worker_id list" where
  "local_workers_of agent wam = map fst (filter (\<lambda>(w, a). a = agent) wam)"

definition remote_agents_of :: "agent_id \<Rightarrow> (worker_id \<times> agent_id) list \<Rightarrow> agent_id list" where
  "remote_agents_of agent wam = remdups (filter (\<lambda>a. a \<noteq> agent) (map snd wam))"

definition local_channels_of :: "agent_id \<Rightarrow> (worker_id \<times> agent_id) list \<Rightarrow> channel_id list" where
  "local_channels_of agent wam = map ChWorker (local_workers_of agent wam) @ [relay_channel]"

record 'e relayed_world =
  rw_in :: "'e mpsc_multi_receiver"
  rw_workers :: mpsc_channels
  rw_ipc :: "'e socket_multi_endpoint"

definition relayed_world_new ::
  "agent_id \<Rightarrow> (worker_id \<times> agent_id) list \<Rightarrow> server \<Rightarrow> 'e \<Rightarrow> 'e relayed_world outcome" where
  "relayed_world_new agent wam address env =
    obind (multi_sender_create (map ChWorker (local_workers_of agent wam))) (\<lambda>workers.
    Ret \<lparr>rw_in = mpsc_multi_receiver_new (local_channels_of agent wam) env, rw_workers = workers,
         rw_ipc = socket_multi_new (map ChAgent (remote_agents_of agent wam)) address env\<rparr>)"

definition in_world :: "('e mpsc_multi_receiver, 'a) io \<Rightarrow> ('e relayed_world, 'a) io" where
  "in_world = io_zoom rw_in (\<lambda>x s. s\<lparr>rw_in := x\<rparr>)"

definition workers_world :: "(mpsc_channels, 'a) io \<Rightarrow> ('e relayed_world, 'a) io" where
  "workers_world = io_zoom rw_workers (\<lambda>x s. s\<lparr>rw_workers := x\<rparr>)"

definition ipc_world :: "('e socket_multi_endpoint, 'a) io \<Rightarrow> ('e relayed_world, 'a) io" where
  "ipc_world = io_zoom rw_ipc (\<lambda>x s. s\<lparr>rw_ipc := x\<rparr>)"

definition relayed_scheduler_new ::
  "agent_id \<Rightarrow> duration \<Rightarrow> (worker_id \<times> agent_id) list \<Rightarrow> (activity_id \<times> worker_id) list \<Rightarrow> nat
    \<Rightarrow> 'e platform \<Rightarrow> ('e relayed_world, unit) io
    \<Rightarrow> ('e relayed_world, protocol_signal, mpsc_signal) relayed_scheduler"
where
  "relayed_scheduler_new agent timeout wam awm k pf start_relay =
    (let remote = remote_agents_of agent wam;
         ipc = \<lparr>mx_send = (\<lambda>c m. ipc_world (mx_send (socket_multi_sender k pf) c m)),
                mx_broadcast = (\<lambda>m. ipc_world (mx_broadcast (socket_multi_sender k pf) m)),
                mx_connect_receivers = (\<lambda>d. ipc_world (mx_connect_receivers (socket_multi_sender k pf) d))\<rparr>
     in \<lparr>rs_local_workers = local_workers_of agent wam,
         rs_intra_receiver =
           \<lparr>mr_receive = (\<lambda>d. in_world (mr_receive (mpsc_multi_recv k pf) d)),
            mr_connect_senders = (\<lambda>d. in_world (mr_connect_senders (mpsc_multi_recv k pf) d))\<rparr>,
         rs_start_receive_relay = (if remote \<noteq> [] then Some start_relay else None),
         rs_send_relay =
           (if remote \<noteq> []
            then Some \<lparr>sr_remote_agents = remote, sr_inter_sender = ipc, sr_timeout = timeout\<rparr>
            else None),
         rs_worker_sender =
           \<lparr>mx_send = (\<lambda>c m. workers_world (mx_send mpsc_multi_sender c m)),
            mx_broadcast = (\<lambda>m. workers_world (mx_broadcast mpsc_multi_sender m)),
            mx_connect_receivers = (\<lambda>d. workers_world (mx_connect_receivers mpsc_multi_sender d))\<rparr>,
         rs_timeout = timeout, rs_activity_worker = awm, rs_worker_agent = wam\<rparr>)"

lemma local_worker_iff:
  assumes "distinct (map fst wam)" "map_of wam w = Some a"
  shows "w \<in> set (local_workers_of agent wam) \<longleftrightarrow> a = agent"
proof
  assume "w \<in> set (local_workers_of agent wam)"
  then have "(w, agent) \<in> set wam" by (auto simp: local_workers_of_def)
  with assms show "a = agent" by (simp add: map_of_is_SomeI)
next
  assume "a = agent"
  with assms(2) have "(w, agent) \<in> set wam" by (simp add: map_of_SomeD)
  then show "w \<in> set (local_workers_of agent wam)" by (force simp: local_workers_of_def)
qed

text \<open>
  C33: routing is total on a complete configuration: a signal for an activity whose worker has an
  agent is sent exactly once, on the channel of that worker if the agent is the primary, and else on
  the connection of its agent, which is one of the connected remote agents; the errors for unknown
  activities, workers and channels do not occur.
\<close>

theorem relayed_routing:
  assumes "distinct (map fst wam)" and "map_of awm i = Some w" and "map_of wam w = Some a"
    and "map fst (rw_workers s) = map ChWorker (local_workers_of agent wam)"
  shows "cs_send_to_activity (relayed_connect_scheduler socket_conversion mpsc_conversion wpf
        (relayed_scheduler_new agent timeout wam awm k pf start)) i sig s
    = (if a = agent then workers_world (on_channel (ChWorker w) (protocol_sender_send (MCore sig))) s
       else ipc_world (multi_send (ChAgent a) (Core sig)) s)
    \<and> (a = agent \<longrightarrow> map_of (rw_workers s) (ChWorker w) \<noteq> None)
    \<and> (a \<noteq> agent \<longrightarrow> a \<in> set (remote_agents_of agent wam))"
proof -
  note iff = local_worker_iff [OF assms(1,3), of agent]
  have present: "map_of (rw_workers s) (ChWorker w) \<noteq> None" if "a = agent"
    using iff that assms(4) unfolding map_of_None_iff
    by (metis imageI list.set_map)
  have remote: "a \<in> set (remote_agents_of agent wam)" if "a \<noteq> agent"
    using assms(3) that by (force simp: remote_agents_of_def dest: map_of_SomeD)
  then have nonempty: "remote_agents_of agent wam \<noteq> []" if "a \<noteq> agent" using that by auto
  have "cs_send_to_activity (relayed_connect_scheduler socket_conversion mpsc_conversion wpf
        (relayed_scheduler_new agent timeout wam awm k pf start)) i sig s
    = (if a = agent then workers_world (on_channel (ChWorker w) (protocol_sender_send (MCore sig))) s
       else ipc_world (multi_send (ChAgent a) (Core sig)) s)"
  proof (cases "a = agent")
    case True
    with present obtain ch where "map_of (rw_workers s) (ChWorker w) = Some ch" by auto
    with True iff assms(2) show ?thesis
      by (simp add: relayed_connect_scheduler_def relayed_scheduler_new_def Let_def rs_send_to_activity_def
          rs_send_to_worker_def mpsc_multi_sender_def multi_sender_send_def workers_world_def io_zoom_def
          mpsc_conversion_def)
  next
    case False
    with nonempty iff assms(2,3) show ?thesis
      by (simp add: relayed_connect_scheduler_def relayed_scheduler_new_def Let_def rs_send_to_activity_def
          rs_send_to_worker_def rs_send_to_agent_def send_to_agent_def socket_multi_sender_def
          socket_conversion_def)
  qed
  with present remote show ?thesis by blast
qed

text \<open>
  The receiver of the scheduler waits for a hello on the relay's channel, too, whose sender exists
  only when there are remote agents.
\<close>

lemma connect_senders_times_out:
  assumes "\<forall>e. \<exists>t e'. pf_now pf e = (Ret t, e') \<and> start \<le> t \<and> t < start + int timeout"
    and "relay_channel \<in> set missing" "distinct missing" "ch_sender_alive (mm_channel s)"
    and "\<forall>m \<in> set (ch_queue (mm_channel s)). \<exists>w. m = MConnect (ChWorker w)"
    and "length (ch_queue (mm_channel s)) < n"
  shows "\<exists>s'. connect_senders n (mm_clock (pf_elapsed pf start)) (\<lambda>d. mm_io (chan_receive d)) ids timeout missing s
    = (Ret (Inl (ETimeout (Some timeout) ''connecting senders'')), s')"
  using assms(2-)
proof (induction n arbitrary: missing s)
  case 0
  then show ?case by simp
next
  case (Suc n)
  from assms(1) obtain t e' where now: "pf_now pf (mm_env s) = (Ret t, e')" "start \<le> t" "t < start + int timeout"
    by blast
  then have early: "instant_diff t start < timeout"
    by (auto simp: instant_diff_def duration_since_def checked_duration_since_def)
  have ne: "missing \<noteq> []" using Suc.prems(1) by auto
  show ?case
  proof (cases "ch_queue (mm_channel s)")
    case Nil
    with ne now(1) early Suc.prems(3) show ?thesis
      by (simp add: io_defs mm_clock_def pf_elapsed_def mm_io_def chan_receive_def)
  next
    case (Cons m rest)
    with Suc.prems(4) obtain w where m: "m = MConnect (ChWorker w)" by auto
    let ?s = "s\<lparr>mm_env := e', mm_channel := (mm_channel s)\<lparr>ch_queue := rest\<rparr>\<rparr>"
    have step: "connect_senders (Suc n) (mm_clock (pf_elapsed pf start)) (\<lambda>d. mm_io (chan_receive d)) ids timeout missing s
      = connect_senders n (mm_clock (pf_elapsed pf start)) (\<lambda>d. mm_io (chan_receive d)) ids timeout
          (if ChWorker w \<notin> set ids then missing else remove1 (ChWorker w) missing) ?s"
      using ne now(1) early Cons
      by (simp add: io_defs mm_clock_def pf_elapsed_def mm_io_def chan_receive_def m)
    show ?thesis unfolding step
      by (rule Suc.IH) (use Suc.prems Cons in \<open>auto simp: relay_channel_def\<close>)
  qed
qed

text \<open>
  C40: without remote agents the relayed connector cannot connect: no relay is created, but the
  receiver still counts the relay's channel among its peers, so that \<open>connect_remotes\<close> ends with a
  timeout although every local worker has said hello.
\<close>

theorem relayed_local_only_times_out:
  assumes "\<forall>(w, a) \<in> set wam. a = agent" and "distinct (map fst wam)" and "0 < timeout"
    and "\<forall>e. \<exists>t e'. pf_now pf e = (Ret t, e') \<and> start \<le> t \<and> t < start + int timeout"
    and "relayed_world_new agent wam address env = Ret s0"
    and "s = s0\<lparr>rw_in := (rw_in s0)\<lparr>mm_channel := new_channel\<lparr>ch_queue := map MConnect hellos\<rparr>\<rparr>\<rparr>"
    and "set hellos \<subseteq> ChWorker ` set (local_workers_of agent wam)" and "length hellos < k"
    and "pf_now pf env = (Ret start, env')"
  shows "\<exists>s'. cs_connect_remotes (relayed_connect_scheduler socket_conversion mpsc_conversion wpf
        (relayed_scheduler_new agent timeout wam awm k pf start_relay)) s
    = (Ret (Inl (ETimeout (Some timeout) ''connecting senders'')), s')"
proof -
  have no_remote: "remote_agents_of agent wam = []"
    using assms(1) by (auto simp: remote_agents_of_def filter_empty_conv)
  let ?in = "(rw_in s)\<lparr>mm_env := env'\<rparr>"
  let ?ids = "remdups (local_channels_of agent wam)"
  have s0: "rw_in s0 = mpsc_multi_receiver_new (local_channels_of agent wam) env"
    using assms(5) by (cases "multi_sender_create (map ChWorker (local_workers_of agent wam))")
      (auto simp: relayed_world_new_def)
  have "\<exists>s'. connect_senders k (mm_clock (pf_elapsed pf start)) (\<lambda>d. mm_io (chan_receive d)) ?ids timeout ?ids ?in
    = (Ret (Inl (ETimeout (Some timeout) ''connecting senders'')), s')"
    by (rule connect_senders_times_out [OF assms(4)])
      (use assms(6,7,8) in \<open>auto simp: local_channels_of_def new_channel_def\<close>)
  then obtain s' where "connect_senders k (mm_clock (pf_elapsed pf start)) (\<lambda>d. mm_io (chan_receive d)) ?ids timeout ?ids ?in
    = (Ret (Inl (ETimeout (Some timeout) ''connecting senders'')), s')" ..
  with no_remote assms(6,9) s0 show ?thesis
    by (simp add: relayed_connect_scheduler_def relayed_scheduler_new_def Let_def rs_run_and_connect_def
        mpsc_multi_recv_def in_world_def io_defs mm_clock_def mpsc_multi_receiver_new_def)
qed

section \<open>Witnesses\<close>

text \<open>A clock that stands still, and a relay whose server has one connection still to accept.\<close>

definition still_clock :: "unit platform" where
  "still_clock =
    \<lparr>pf_now = io_return 0, pf_timestamp = io_return (Timestamp 0), pf_sleep = (\<lambda>d. io_return ()),
     pf_shutdown_requested = io_return False, pf_sync_info = io_return (SyncInfo 0),
     pf_initialize_from = (\<lambda>i. io_return ())\<rparr>"

definition demo_primary_relay :: "(unit socket_multi_endpoint, mpsc_signal channel, unit) relay" where
  "demo_primary_relay =
    \<lparr>rl_in = (socket_multi_new [] (server_new [] []) ())
        \<lparr>sm_server := Some (server_new [Inr demo_stream, Inl WouldBlock] [PollEvents [0], PollEvents [1]])\<rparr>,
     rl_out = new_channel, rl_env = ()\<rparr>"

lemma demo_wire_ok: "list_all wire_ok demo_signals"
  by (simp add: demo_signals_def u64_max_def)

lemma demo_primary_pending: "sm_pending two_messages (rl_in demo_primary_relay)"
  using demo_stream_facts demo_wire_ok
  by (simp add: sm_pending_def demo_primary_relay_def server_inv_def server_new_def two_messages_def poll_ok_def)

theorem primary_relay_forwards_witness:
  "\<exists>r s'. relay_loop 5 (primary_receive_step socket_conversion mpsc_conversion (socket_multi_receiver 9 still_clock)
        (mpsc_sender relay_channel) 7) demo_primary_relay = (r, s')
    \<and> (\<exists>rs lost ms'. ch_queue (rl_out s') = map MCore (core_signals socket_conversion (map snd rs))
      \<and> (\<forall>t. two_messages t = messages_of t (rs @ lost) @ ms' t) \<and> sm_pending ms' (rl_in s')
      \<and> length lost \<le> 1 \<and> (r = Ret (Inr ()) \<longrightarrow> lost = []))"
proof (cases "relay_loop 5 (primary_receive_step socket_conversion mpsc_conversion (socket_multi_receiver 9 still_clock)
        (mpsc_sender relay_channel) 7) demo_primary_relay")
  case (Pair r s')
  from primary_relay_forwards [OF demo_primary_pending Pair] Pair show ?thesis
    by (simp add: demo_primary_relay_def new_channel_def)
qed

definition demo_secondary_relay :: "(unit mpsc_multi_receiver, unit socket_endpoint, unit) relay" where
  "demo_secondary_relay =
    \<lparr>rl_in = (mpsc_multi_receiver_new [ChWorker (GenericId 1)] ())\<lparr>mm_connected := True,
        mm_channel := new_channel\<lparr>ch_queue := [MCore (Ready (GenericId 7) (Timestamp 3))]\<rparr>\<rparr>,
     rl_out = (socket_endpoint_new [] [] (ChAgent (GenericId 2)) ())
        \<lparr>se_client := Some \<lparr>cl_polls = [],
           cl_connection = connection_new \<lparr>st_in = [], st_out = [], st_write_error = None\<rparr>\<rparr>\<rparr>,
     rl_env = ()\<rparr>"

definition demo_response :: "protocol_signal list" where
  "demo_response = [Core (Ready (GenericId 7) (Timestamp 3))]"

lemma demo_secondary_run:
  "\<exists>s'. secondary_send_run 1 mpsc_conversion socket_conversion (mpsc_multi_recv 1 still_clock) socket_sender 7
      demo_secondary_relay = (Hang, s') \<and> se_sent [] demo_response (rl_out s')"
  by (simp add: secondary_send_run_def secondary_send_step_def demo_secondary_relay_def io_defs on_in_def on_out_def
      mpsc_multi_recv_def mm_io_def multi_receiver_receive_def chan_receive_def mpsc_multi_receiver_new_def
      mpsc_conversion_def socket_conversion_def socket_sender_def endpoint_send_def se_io_def client_send_def
      cl_io_def socket_endpoint_new_def connection_send_def connection_new_def buffer_size_def length_encode
      stream_write_all_def Let_def se_sent_def demo_response_def del: encode.simps)

definition demo_response_relay :: "(unit socket_multi_endpoint, mpsc_signal channel, unit) relay" where
  "demo_response_relay =
    \<lparr>rl_in = (socket_multi_new [] (server_new [] []) ())\<lparr>sm_server := Some
        (server_new [Inr \<lparr>st_in = [Chunk (concat (map encode demo_response))], st_out = [], st_write_error = None\<rparr>] [])\<rparr>,
     rl_out = new_channel, rl_env = ()\<rparr>"


definition demo_local_relay :: "(unit socket_endpoint, mpsc_channels, unit) relay" where
  "demo_local_relay =
    \<lparr>rl_in = (socket_endpoint_new [] [] (ChAgent (GenericId 2)) ())
        \<lparr>se_client := Some \<lparr>cl_polls = [PollEvents [0]], cl_connection = connection_new demo_stream\<rparr>\<rparr>,
     rl_out = [(ChWorker (GenericId 1), new_channel)], rl_env = ()\<rparr>"


definition demo_relayed_world :: "unit relayed_world" where
  "demo_relayed_world =
    \<lparr>rw_in = mpsc_multi_receiver_new [ChWorker (GenericId 1), relay_channel] (),
     rw_workers = [(ChWorker (GenericId 1), new_channel)],
     rw_ipc = socket_multi_new [ChAgent (GenericId 20)] (server_new [] []) ()\<rparr>"

theorem relayed_routing_witness:
  "\<forall>wpf start sig. cs_send_to_activity (relayed_connect_scheduler socket_conversion mpsc_conversion wpf
        (relayed_scheduler_new (GenericId 10) 7 [(GenericId 1, GenericId 10), (GenericId 2, GenericId 20)]
          [(GenericId 5, GenericId 2)] 3 still_clock start)) (GenericId 5) sig demo_relayed_world
      = ipc_world (multi_send (ChAgent (GenericId 20)) (Core sig)) demo_relayed_world"
proof (intro allI)
  fix wpf start sig
  from relayed_routing [of "[(GenericId 1, GenericId 10), (GenericId 2, GenericId 20)]"
      "[(GenericId 5, GenericId 2)]" "GenericId 5" "GenericId 2" "GenericId 20" demo_relayed_world
      "GenericId 10" wpf 7 3 still_clock start sig]
  show "cs_send_to_activity (relayed_connect_scheduler socket_conversion mpsc_conversion wpf
        (relayed_scheduler_new (GenericId 10) 7 [(GenericId 1, GenericId 10), (GenericId 2, GenericId 20)]
          [(GenericId 5, GenericId 2)] 3 still_clock start)) (GenericId 5) sig demo_relayed_world
      = ipc_world (multi_send (ChAgent (GenericId 20)) (Core sig)) demo_relayed_world"
    by (simp add: local_workers_of_def demo_relayed_world_def)
qed

theorem relayed_local_only_times_out_witness:
  "\<forall>wpf. \<exists>s s'. rw_workers s = [(ChWorker (GenericId 1), new_channel)]
    \<and> ch_queue (mm_channel (rw_in s)) = [MConnect (ChWorker (GenericId 1))]
    \<and> cs_connect_remotes (relayed_connect_scheduler socket_conversion mpsc_conversion wpf
        (relayed_scheduler_new (GenericId 10) 7 [(GenericId 1, GenericId 10)] [] 3 still_clock (io_return ()))) s
      = (Ret (Inl (ETimeout (Some 7) ''connecting senders'')), s')"
proof
  fix wpf
  have new: "relayed_world_new (GenericId 10) [(GenericId 1, GenericId 10)] (server_new [] []) ()
    = Ret \<lparr>rw_in = mpsc_multi_receiver_new (local_channels_of (GenericId 10) [(GenericId 1, GenericId 10)]) (),
        rw_workers = [(ChWorker (GenericId 1), new_channel)],
        rw_ipc = socket_multi_new [] (server_new [] []) ()\<rparr>" (is "_ = Ret ?s0")
    by (simp add: relayed_world_new_def multi_sender_create_def local_workers_of_def remote_agents_of_def)
  let ?s = "?s0\<lparr>rw_in := (rw_in ?s0)\<lparr>mm_channel := new_channel\<lparr>ch_queue := map MConnect [ChWorker (GenericId 1)]\<rparr>\<rparr>\<rparr>"
  have "\<exists>s'. cs_connect_remotes (relayed_connect_scheduler socket_conversion mpsc_conversion wpf
        (relayed_scheduler_new (GenericId 10) 7 [(GenericId 1, GenericId 10)] [] 3 still_clock (io_return ()))) ?s
      = (Ret (Inl (ETimeout (Some 7) ''connecting senders'')), s')"
    by (rule relayed_local_only_times_out [OF _ _ _ _ new refl, where start = 0 and env' = "()"])
      (simp_all add: still_clock_def io_return_def local_workers_of_def)
  then obtain s' where "cs_connect_remotes (relayed_connect_scheduler socket_conversion mpsc_conversion wpf
        (relayed_scheduler_new (GenericId 10) 7 [(GenericId 1, GenericId 10)] [] 3 still_clock (io_return ()))) ?s
      = (Ret (Inl (ETimeout (Some 7) ''connecting senders'')), s')" ..
  then show "\<exists>s s'. rw_workers s = [(ChWorker (GenericId 1), new_channel)]
    \<and> ch_queue (mm_channel (rw_in s)) = [MConnect (ChWorker (GenericId 1))]
    \<and> cs_connect_remotes (relayed_connect_scheduler socket_conversion mpsc_conversion wpf
        (relayed_scheduler_new (GenericId 10) 7 [(GenericId 1, GenericId 10)] [] 3 still_clock (io_return ()))) s
      = (Ret (Inl (ETimeout (Some 7) ''connecting senders'')), s')"
    by (intro exI [of _ ?s] exI [of _ s']) simp
qed

end
