(* ===== verification/Feo_Agents.thy ===== *)
theory Feo_Agents
  imports Feo_Relayed Feo_Scheduler Feo_Worker
begin

text \<open>
  The agents (\<open>feo/src/agent/\<close>): how the primary and the secondary agents are put together for direct
  and for relayed signalling, what their threads do, and how they end. Connectors are arguments: the
  ones of the other theories fit. A thread is the outcome of its body, a join reads it. The lemmas
  show which worker failures take an agent down.
\<close>

section \<open>Threads\<close>

datatype node_address = NodeTcp string | NodeUnix string | NodeMwCom

text \<open>The handler of the termination signal: the first asks for a shutdown, the second exits (\<open>None\<close>).\<close>

definition on_sigterm :: "bool \<Rightarrow> bool option" where
  "on_sigterm shutdown = (if shutdown then None else Some True)"

record ('w, 'a) agent_worker =
  aw_id :: worker_id
  aw_builders :: "(activity_id \<times> (activity_id \<Rightarrow> 'a)) list"
  aw_world :: 'w

datatype worker_end = ConnectFailed error | RunFailed error | Finished

text \<open>What a worker thread does: connect, build the activities, run.\<close>

definition worker_result ::
  "nat \<Rightarrow> 'w connect_worker \<Rightarrow> 'w platform \<Rightarrow> 'a activity_ops \<Rightarrow> agent_id \<Rightarrow> duration \<Rightarrow> ('w, 'a) agent_worker \<Rightarrow>
    worker_end outcome" where
  "worker_result n cw pf ops agent timeout aw =
    (case cw_connect_remote cw (aw_world aw) of
       (Ret (Inl e), _) \<Rightarrow> Ret (ConnectFailed e)
     | (Ret (Inr _), w) \<Rightarrow>
         (case worker_run n cw pf ops (worker_new (aw_id aw) agent (aw_builders aw) timeout w) of
            (Ret (Inl e), _) \<Rightarrow> Ret (RunFailed e)
          | (Ret (Inr _), _) \<Rightarrow> Ret Finished
          | (Panic, _) \<Rightarrow> Panic
          | (Hang, _) \<Rightarrow> Hang)
     | (Panic, _) \<Rightarrow> Panic
     | (Hang, _) \<Rightarrow> Hang)"

text \<open>The threads differ in which errors they \<open>expect\<close> not to see and which they only log.\<close>

definition end_of_thread :: "bool \<Rightarrow> bool \<Rightarrow> worker_end outcome \<Rightarrow> unit outcome" where
  "end_of_thread strict_connect strict_run r =
    obind r (\<lambda>x. case x of
      ConnectFailed _ \<Rightarrow> if strict_connect then Panic else Ret ()
    | RunFailed _ \<Rightarrow> if strict_run then Panic else Ret ()
    | Finished \<Rightarrow> Ret ())"

definition direct_primary_thread :: "node_address \<Rightarrow> worker_end outcome \<Rightarrow> unit outcome" where
  "direct_primary_thread addr = end_of_thread True (addr = NodeMwCom)"

definition direct_secondary_thread :: "node_address \<Rightarrow> worker_end outcome \<Rightarrow> unit outcome" where
  "direct_secondary_thread addr = end_of_thread (addr = NodeMwCom) (addr = NodeMwCom)"

definition relayed_thread :: "worker_end outcome \<Rightarrow> unit outcome" where
  "relayed_thread = end_of_thread True True"

text \<open>Joining threads one after the other: logging a panic, or unwrapping it.\<close>

fun join_logged :: "unit outcome list \<Rightarrow> unit outcome" where
  "join_logged [] = Ret ()"
| "join_logged (Hang # ts) = Hang"
| "join_logged (_ # ts) = join_logged ts"

fun join_unwrap :: "unit outcome list \<Rightarrow> unit outcome" where
  "join_unwrap [] = Ret ()"
| "join_unwrap (Hang # ts) = Hang"
| "join_unwrap (Panic # ts) = Panic"
| "join_unwrap (Ret u # ts) = join_unwrap ts"

section \<open>Agents with direct signalling\<close>

record primary_config =
  pc_id :: agent_id
  pc_cycle_time :: duration
  pc_dependencies :: "(activity_id \<times> activity_id list) list"
  pc_workers :: "worker_id list"
  pc_timeout :: duration
  pc_startup_timeout :: duration

text \<open>\<open>Primary::new\<close> after the threads of the workers have been started.\<close>

definition direct_primary_new ::
  "node_address \<Rightarrow> (node_address \<Rightarrow> 'w connect_scheduler) \<Rightarrow> primary_config \<Rightarrow> ('w, error + 'w scheduler) io" where
  "direct_primary_new addr connector cfg =
    (if addr = NodeMwCom \<and> pc_workers cfg \<noteq> [] then io_panic
     else io_try (cs_connect_remotes (connector addr)) (\<lambda>_.
       io_bind io_get (\<lambda>w.
       io_return (Inr (scheduler_new (pc_id cfg) (pc_cycle_time cfg) (pc_timeout cfg) (pc_startup_timeout cfg)
         (pc_dependencies cfg) w)))))"

text \<open>\<open>Primary::run\<close>; \<open>init_time\<close> is \<open>timestamp::initialize\<close>.\<close>

definition direct_primary_run ::
  "nat \<Rightarrow> 'w connect_scheduler \<Rightarrow> 'w platform \<Rightarrow> ('w, unit) io \<Rightarrow> unit outcome list \<Rightarrow> ('w scheduler, error + unit) io" where
  "direct_primary_run n cs pf init_time threads =
    io_bind (sc_io init_time) (\<lambda>_.
    io_try (sync_remotes cs) (\<lambda>_.
    io_bind (run n cs pf) (\<lambda>_.
    io_bind (io_lift (join_logged threads)) (\<lambda>_. io_return (Inr ())))))"

definition direct_secondary_run :: "node_address \<Rightarrow> worker_end outcome list \<Rightarrow> unit outcome" where
  "direct_secondary_run addr ends = join_logged (map (direct_secondary_thread addr) ends)"

section \<open>Agents with relayed signalling\<close>

definition same_kind :: "node_address \<Rightarrow> node_address \<Rightarrow> bool" where
  "same_kind a b \<longleftrightarrow> (case (a, b) of (NodeTcp _, NodeTcp _) \<Rightarrow> True | (NodeUnix _, NodeUnix _) \<Rightarrow> True | _ \<Rightarrow> False)"

definition relayed_primary_new ::
  "node_address \<Rightarrow> node_address \<Rightarrow> 'w connect_scheduler \<Rightarrow> (worker_id \<times> agent_id) list \<Rightarrow> primary_config \<Rightarrow>
    ('w, error + 'w scheduler) io" where
  "relayed_primary_new receivers senders cs wam cfg =
    (if \<not> same_kind receivers senders then io_panic
     else io_bind (io_lift (take_builders (local_workers_of (pc_id cfg) wam) (pc_workers cfg))) (\<lambda>_.
       io_try (cs_connect_remotes cs) (\<lambda>_.
       io_bind io_get (\<lambda>w.
       io_return (Inr (scheduler_new (pc_id cfg) (pc_cycle_time cfg) (pc_timeout cfg) (pc_startup_timeout cfg)
         (pc_dependencies cfg) w))))))"

definition relayed_primary_run ::
  "nat \<Rightarrow> 'w connect_scheduler \<Rightarrow> 'w platform \<Rightarrow> ('w, unit) io \<Rightarrow> unit outcome list \<Rightarrow> unit outcome list \<Rightarrow>
    ('w scheduler, error + unit) io" where
  "relayed_primary_run n cs pf init_time threads relays =
    io_bind (sc_io init_time) (\<lambda>_.
    io_try (sync_remotes cs) (\<lambda>_.
    io_bind (run n cs pf) (\<lambda>_.
    io_bind (io_lift (join_unwrap threads)) (\<lambda>_.
    io_bind (io_lift (join_unwrap relays)) (\<lambda>_. io_return (Inr ()))))))"

text \<open>
  The secondary: the map from activities to workers is collected from the assignments, a later entry
  replacing an earlier one, and the connector makes one builder for every worker that occurs in it.
\<close>

definition secondary_activity_map :: "(worker_id \<times> activity_id list) list \<Rightarrow> activity_id \<Rightarrow> worker_id option" where
  "secondary_activity_map ws = map_of (rev (concat (map (\<lambda>(w, ids). map (\<lambda>i. (i, w)) ids) ws)))"

definition secondary_worker_ids :: "(worker_id \<times> activity_id list) list \<Rightarrow> worker_id list" where
  "secondary_worker_ids ws =
    remdups (List.map_filter (secondary_activity_map ws) (concat (map snd ws)))"

text \<open>The two relays of the connector: their channels to the workers and their sockets.\<close>

record 'e secondary_connector =
  sec_send_relay :: "('e mpsc_multi_receiver, 'e socket_endpoint, unit) relay"
  sec_receive_relay :: "('e socket_endpoint, mpsc_channels, unit) relay"
  sec_builders :: "worker_id list"

definition secondary_create ::
  "agent_id \<Rightarrow> worker_id list \<Rightarrow> (io_error_kind + stream) list \<Rightarrow> poll_result list \<Rightarrow>
    (io_error_kind + stream) list \<Rightarrow> poll_result list \<Rightarrow> 'e \<Rightarrow> 'e secondary_connector outcome" where
  "secondary_create agent wids send_attempts send_polls recv_attempts recv_polls env =
    obind (multi_sender_create (map ChWorker wids)) (\<lambda>channels.
    Ret \<lparr>sec_send_relay =
          \<lparr>rl_in = mpsc_multi_receiver_new (map ChWorker wids) env,
           rl_out = socket_endpoint_new send_attempts send_polls (ChAgent agent) env, rl_env = ()\<rparr>,
         sec_receive_relay =
          \<lparr>rl_in = socket_endpoint_new recv_attempts recv_polls (ChAgent agent) env,
           rl_out = channels, rl_env = ()\<rparr>,
         sec_builders = wids\<rparr>)"

definition relayed_secondary_new ::
  "node_address \<Rightarrow> node_address \<Rightarrow> agent_id \<Rightarrow> (worker_id \<times> activity_id list) list \<Rightarrow>
    (io_error_kind + stream) list \<Rightarrow> poll_result list \<Rightarrow>
    (io_error_kind + stream) list \<Rightarrow> poll_result list \<Rightarrow> 'e \<Rightarrow> 'e secondary_connector outcome" where
  "relayed_secondary_new receivers senders agent ws send_attempts send_polls recv_attempts recv_polls env =
    (if \<not> same_kind receivers senders then Panic
     else obind (secondary_create agent (secondary_worker_ids ws) send_attempts send_polls recv_attempts recv_polls env)
       (\<lambda>connector. obind (take_builders (sec_builders connector) (map fst ws)) (\<lambda>_. Ret connector)))"

text \<open>\<open>run\<close>: the connector first, then the workers.\<close>

definition relayed_secondary_run :: "unit outcome \<Rightarrow> worker_end outcome list \<Rightarrow> unit outcome" where
  "relayed_secondary_run connector ends = obind connector (\<lambda>_. join_unwrap (map relayed_thread ends))"

section \<open>Failing workers\<close>

lemma join_logged_returns: "(\<And>t. t \<in> set ts \<Longrightarrow> t \<noteq> Hang) \<Longrightarrow> join_logged ts = Ret ()"
  by (induction ts rule: join_logged.induct) auto

lemma join_unwrap_returns:
  "(\<And>t. t \<in> set ts \<Longrightarrow> t \<noteq> Hang) \<Longrightarrow> join_unwrap ts = (if Panic \<in> set ts then Panic else Ret ())"
  by (induction ts rule: join_unwrap.induct) auto

lemma end_of_thread_hang: "end_of_thread c r x = Hang \<longleftrightarrow> x = Hang"
  by (cases x) (auto simp: end_of_thread_def split: worker_end.splits)


lemma secondary_workers:
  assumes "distinct (concat (map snd ws))"
  shows "set (secondary_worker_ids ws) = {w. \<exists>ids. (w, ids) \<in> set ws \<and> ids \<noteq> []}"
proof -
  let ?xs = "concat (map (\<lambda>(w, ids). map (\<lambda>i. (i, w)) ids) ws)"
  have keys: "map fst ?xs = concat (map snd ws)" by (induction ws) (auto simp: comp_def)
  have pairs: "(i, w) \<in> set ?xs \<longleftrightarrow> (\<exists>ids. (w, ids) \<in> set ws \<and> i \<in> set ids)" for i w by force
  have "distinct (map fst ?xs)" using assms unfolding keys .
  then have "distinct (map fst (rev ?xs))" unfolding rev_map [symmetric] distinct_rev .
  from map_of_eq_Some_iff [OF this]
  have "secondary_activity_map ws i = Some w \<longleftrightarrow> (i, w) \<in> set ?xs" for i w
    unfolding secondary_activity_map_def set_rev .
  then have lookup: "secondary_activity_map ws i = Some w \<longleftrightarrow> (\<exists>ids. (w, ids) \<in> set ws \<and> i \<in> set ids)" for i w
    using pairs by simp
  show ?thesis
  proof (intro equalityI subsetI)
    fix w
    assume "w \<in> set (secondary_worker_ids ws)"
    then obtain i where "secondary_activity_map ws i = Some w"
      by (auto simp: secondary_worker_ids_def List.map_filter_def)
    then obtain ids where "(w, ids) \<in> set ws" "i \<in> set ids" using lookup by blast
    then show "w \<in> {w. \<exists>ids. (w, ids) \<in> set ws \<and> ids \<noteq> []}" by auto
  next
    fix w
    assume "w \<in> {w. \<exists>ids. (w, ids) \<in> set ws \<and> ids \<noteq> []}"
    then obtain ids where "(w, ids) \<in> set ws" "ids \<noteq> []" by blast
    then obtain i where i: "(w, ids) \<in> set ws" "i \<in> set ids" using list.set_sel(1) by blast
    then have "secondary_activity_map ws i = Some w" using lookup by blast
    moreover from i have "i \<in> set (concat (map snd ws))" by force
    ultimately show "w \<in> set (secondary_worker_ids ws)"
      by (force simp: secondary_worker_ids_def List.map_filter_def)
  qed
qed

text \<open>
  A secondary with relayed signalling can be built only when each of its workers has an activity:
  with distinct workers and activities and addresses of one kind, construction panics exactly if some
  worker has none, because the connector makes its builders from the activities.
\<close>

theorem idle_worker_panics:
  assumes "distinct (map fst ws)" and "distinct (concat (map snd ws))" and "same_kind receivers senders"
  shows "relayed_secondary_new receivers senders agent ws sa sp ra rp env = Panic \<longleftrightarrow> (\<exists>w. (w, []) \<in> set ws)"
proof -
  have "distinct (map ChWorker (secondary_worker_ids ws))"
    by (simp add: secondary_worker_ids_def distinct_map inj_on_def)
  then have "relayed_secondary_new receivers senders agent ws sa sp ra rp env = Panic
      \<longleftrightarrow> \<not> set (map fst ws) \<subseteq> set (secondary_worker_ids ws)"
    using assms(1,3)
    by (simp add: relayed_secondary_new_def secondary_create_def multi_sender_create_def take_builders_distinct)
  also have "\<dots> \<longleftrightarrow> (\<exists>w. (w, []) \<in> set ws)"
    using assms(1) unfolding secondary_workers [OF assms(2)]
    by (fastforce dest: eq_key_imp_eq_value)
  finally show ?thesis .
qed

theorem idle_worker_panics_witness:
  "relayed_secondary_new (NodeTcp []) (NodeTcp []) (GenericId 101)
    [(GenericId 42, [GenericId 2]), (GenericId 43, [])] [] [] [] [] () = Panic"
  using idle_worker_panics [of "[(GenericId 42, [GenericId 2]), (GenericId 43, [])]" "NodeTcp []" "NodeTcp []"]
  by (simp add: same_kind_def)

text \<open>A worker whose connector fails to connect.\<close>

definition failing_connector :: "unit connect_worker" where
  "failing_connector = \<lparr>cw_connect_remote = io_return (Inl EChannelClosed),
    cw_receive = (\<lambda>_. io_return (Inl EChannelClosed)), cw_send_to_scheduler = (\<lambda>_. io_return (Inl EChannelClosed))\<rparr>"

definition failing_ops :: "unit activity_ops" where
  "failing_ops = \<lparr>act_startup = io_return (Inl AStartup), act_step = io_return (Inl AStep), act_shutdown = io_return (Inl AShutdown)\<rparr>"


end
