(* ===== verification/Feo_Cycle_Bench.thy ===== *)
theory Feo_Cycle_Bench
  imports Feo_Composite_Opt Feo_Agents
begin

text \<open>
  The configuration of the cycle benchmark and its program
  (\<open>examples/rust/cycle-benchmark/src/config.rs\<close>, \<open>src/bin/cycle_bench.rs\<close>): reading and checking the
  configuration, assigning activities and builders to the workers, and the choice of the agent to
  run. Opening and parsing the file is an argument, as is the outcome of building the MW COM
  runtime; running an agent is the subject of the other theories, so the program ends in the
  configuration it hands to the agent.
\<close>

section \<open>The configuration file\<close>

record raw_config =
  rc_signalling :: signalling_type
  rc_primary_agent :: u64
  rc_agent_assignments :: "(u64 \<times> u64 list) list"
  rc_worker_assignments :: "(u64 \<times> u64 list) list"
  rc_activity_deps :: "(u64 \<times> u64 list) list"
  rc_optimize_composite_activities :: bool

definition bench_bind_addr :: string where
  "bench_bind_addr = ''127.0.0.1:8081''"

definition bench_bind_addr2 :: string where
  "bench_bind_addr2 = ''127.0.0.1:8082''"

definition bench_default_paths :: "string \<times> string" where
  "bench_default_paths = (''/tmp/feo_listener1.socket'', ''/tmp/feo_listener2.socket'')"

text \<open>The three maps, with the numbers as identifiers.\<close>

definition identified :: "(u64 \<times> u64 list) list \<Rightarrow> ('k generic_id \<times> 'v generic_id list) list" where
  "identified m = hash_collect (map (\<lambda>(k, vs). (GenericId k, map GenericId vs)) m)"

definition check_consistency :: "raw_config \<Rightarrow> activity_deps \<Rightarrow> unit outcome" where
  "check_consistency config deps =
    (let all_workers_agents = set (map GenericId (concat (map snd (rc_agent_assignments config)))) :: worker_id set;
         all_workers_workers = set (map (GenericId \<circ> fst) (rc_worker_assignments config)) :: worker_id set;
         all_activities_workers = set (map GenericId (concat (map snd (rc_worker_assignments config))));
         depending_activities = set (map fst deps);
         dependency_activities = set (concat (map snd deps));
         all_activities_dependencies = depending_activities \<union> dependency_activities in
     obind (oassert (rc_primary_agent config \<in> set (map fst (rc_agent_assignments config)))) (\<lambda>_.
     obind (oassert (all_workers_agents = all_workers_workers)) (\<lambda>_.
     obind (oassert (all_activities_workers = depending_activities)) (\<lambda>_.
     oassert (all_activities_workers = all_activities_dependencies)))))"

text \<open>\<open>file\<close> is the result of opening and parsing the file.\<close>

definition application_config ::
  "nat \<Rightarrow> (activity_id list \<Rightarrow> activity_id list) \<Rightarrow> io_error_kind + (string + raw_config) \<Rightarrow> bench_config outcome" where
  "application_config n order file =
    (case file of
       Inl e \<Rightarrow> Panic
     | Inr (Inl e) \<Rightarrow> Panic
     | Inr (Inr config) \<Rightarrow>
         (let deps = identified (rc_activity_deps config) in
          obind (check_consistency config deps) (\<lambda>_.
          let app_config =
            \<lparr>bc_signalling = rc_signalling config, bc_primary_agent = GenericId (rc_primary_agent config),
             bc_bind_addrs = (bench_bind_addr, bench_bind_addr2), bc_socket_paths = bench_default_paths,
             bc_agent_assignments = identified (rc_agent_assignments config),
             bc_worker_assignments = identified (rc_worker_assignments config),
             bc_activity_deps = deps, bc_composites = []\<rparr> in
          if rc_optimize_composite_activities config then optimize_composite n order app_config
          else Ret app_config)))"

section \<open>What the program reads from the configuration\<close>

definition bench_secondaries :: "bench_config \<Rightarrow> agent_id list" where
  "bench_secondaries cfg = filter (\<lambda>i. i \<noteq> bc_primary_agent cfg) (map fst (bc_agent_assignments cfg))"

definition bench_worker_agents :: "bench_config \<Rightarrow> (worker_id \<times> agent_id) list" where
  "bench_worker_agents cfg =
    hash_collect (concat (map (\<lambda>(aid, wids). map (\<lambda>wid. (wid, aid)) wids) (bc_agent_assignments cfg)))"

text \<open>The dependencies; the composites are searched for, to be printed.\<close>

definition bench_activity_dependencies ::
  "nat \<Rightarrow> (activity_id list \<Rightarrow> activity_id list) \<Rightarrow> bench_config \<Rightarrow> activity_deps outcome" where
  "bench_activity_dependencies n order cfg =
    obind (find_composites n order (bc_activity_deps cfg) (bench_activity_workers cfg)) (\<lambda>_.
    Ret (bc_activity_deps cfg))"

type_synonym bench_builder = "activity_id \<Rightarrow> bench_activity"
type_synonym bench_workers = "(worker_id \<times> (activity_id \<times> bench_builder) list) list"

definition bench_builder_of :: "bench_config \<Rightarrow> activity_id \<Rightarrow> bench_builder" where
  "bench_builder_of cfg aid =
    (case map_of (bc_composites cfg) aid of
       Some components \<Rightarrow> composite_builder components
     | None \<Rightarrow> dummy_build)"

text \<open>The workers of one agent; \<open>seen\<close> are the workers of the agents before.\<close>

fun assign_workers :: "bench_config \<Rightarrow> worker_id list \<Rightarrow> worker_id list \<Rightarrow> (worker_id list \<times> bench_workers) outcome" where
  "assign_workers cfg [] seen = Ret (seen, [])"
| "assign_workers cfg (wid # ws) seen =
    (if wid \<in> set seen then Panic
     else obind (oexpect (map_of (bc_worker_assignments cfg) wid)) (\<lambda>aids.
       obind (assign_workers cfg ws (wid # seen)) (\<lambda>(seen', assigned).
       Ret (seen', (wid, map (\<lambda>aid. (aid, bench_builder_of cfg aid)) aids) # assigned))))"

fun assign_agents ::
  "bench_config \<Rightarrow> (agent_id \<times> worker_id list) list \<Rightarrow> worker_id list \<Rightarrow> (agent_id \<times> bench_workers) list outcome" where
  "assign_agents cfg [] seen = Ret []"
| "assign_agents cfg ((agent, ws) # agents) seen =
    obind (assign_workers cfg ws seen) (\<lambda>(seen', assigned).
    obind (assign_agents cfg agents seen') (\<lambda>rest. Ret ((agent, assigned) # rest)))"

definition bench_worker_assignments :: "bench_config \<Rightarrow> (agent_id \<times> bench_workers) list outcome" where
  "bench_worker_assignments cfg =
    obind (assign_agents cfg (bc_agent_assignments cfg) []) (\<lambda>assignments. Ret (hash_collect assignments))"

section \<open>The program\<close>

record bench_params =
  bp_agent_id :: agent_id
  bp_feo_cycle_time :: duration

text \<open>\<open>str::parse::<u64>\<close>: digits, possibly after a plus sign, without overflow.\<close>

definition parse_u64 :: "string \<Rightarrow> u64 option" where
  "parse_u64 s =
    (let digits = (case s of c # cs \<Rightarrow> if c = CHR ''+'' then cs else s | [] \<Rightarrow> []);
         value = undecimal 0 digits in
     if digits = [] \<or> (\<exists>c\<in>set digits. c \<notin> digit_chars) \<or> 2 ^ 64 \<le> value then None else Some (of_nat value))"

definition bench_arg :: "nat \<Rightarrow> string list \<Rightarrow> u64 option" where
  "bench_arg i args = (if i < length args then parse_u64 (args ! i) else None)"

definition params_from_args :: "string list \<Rightarrow> bench_params outcome" where
  "params_from_args args =
    obind (oexpect (bench_arg 1 args)) (\<lambda>a.
    Ret \<lparr>bp_agent_id = GenericId a,
         bp_feo_cycle_time = (case bench_arg 2 args of Some ms \<Rightarrow> dur_from_millis ms | None \<Rightarrow> dur_from_millis 5)\<rparr>)"

text \<open>The configurations of the agents; the fields that the kinds of signalling share come first.\<close>

record 'b bench_agent =
  ba_id :: agent_id
  ba_worker_assignments :: "(worker_id \<times> (activity_id \<times> 'b) list) list"
  ba_timeout :: duration

record 'b bench_primary = "'b bench_agent" +
  bpr_cycle_time :: duration
  bpr_activity_dependencies :: activity_deps
  bpr_startup_timeout :: duration

record 'b bench_direct_primary = "'b bench_primary" +
  bdp_all_agent_assignments :: "(agent_id \<times> (worker_id \<times> activity_id list) list) list"
  bdp_connection_timeout :: duration
  bdp_endpoint :: node_address
  bdp_activity_agent_map :: "(activity_id \<times> agent_id) list"

record 'b bench_direct_secondary = "'b bench_agent" +
  bds_endpoint :: node_address

record 'b bench_relayed_primary = "'b bench_primary" +
  brp_connection_timeout :: duration
  brp_bind_address_senders :: node_address
  brp_bind_address_receivers :: node_address
  brp_worker_agent_map :: "(worker_id \<times> agent_id) list"
  brp_activity_worker_map :: "(activity_id \<times> worker_id) list"

record 'b bench_relayed_secondary = "'b bench_agent" +
  brs_bind_address_senders :: node_address
  brs_bind_address_receivers :: node_address

text \<open>\<open>worker_assignments().remove(&agent_id).unwrap()\<close>\<close>

definition own_workers :: "bench_params \<Rightarrow> bench_config \<Rightarrow> bench_workers outcome" where
  "own_workers params cfg =
    obind (bench_worker_assignments cfg) (\<lambda>m. oexpect (map_of m (bp_agent_id params)))"

definition mpsc_primary_config ::
  "nat \<Rightarrow> (activity_id list \<Rightarrow> activity_id list) \<Rightarrow> bench_params \<Rightarrow> bench_config \<Rightarrow> bench_builder bench_primary outcome" where
  "mpsc_primary_config n order params cfg =
    obind (oassert (bench_secondaries cfg = [])) (\<lambda>_.
    obind (bench_activity_dependencies n order cfg) (\<lambda>deps.
    obind (own_workers params cfg) (\<lambda>ws.
    Ret \<lparr>ba_id = bp_agent_id params, ba_worker_assignments = ws, ba_timeout = dur_from_secs 10,
         bpr_cycle_time = bp_feo_cycle_time params, bpr_activity_dependencies = deps,
         bpr_startup_timeout = dur_from_secs 10\<rparr>)))"

definition direct_endpoint :: "bench_config \<Rightarrow> signalling_type \<Rightarrow> node_address outcome" where
  "direct_endpoint cfg sig =
    (case sig of
       DirectTcp \<Rightarrow> Ret (NodeTcp (fst (bc_bind_addrs cfg)))
     | DirectUnix \<Rightarrow> Ret (NodeUnix (fst (bc_socket_paths cfg)))
     | _ \<Rightarrow> Panic)"

definition direct_primary_config ::
  "nat \<Rightarrow> (activity_id list \<Rightarrow> activity_id list) \<Rightarrow> bench_params \<Rightarrow> bench_config \<Rightarrow> signalling_type \<Rightarrow>
    bench_builder bench_direct_primary outcome" where
  "direct_primary_config n order params cfg sig =
    obind (bench_worker_assignments cfg) (\<lambda>all.
    obind (bench_activity_dependencies n order cfg) (\<lambda>deps.
    obind (own_workers params cfg) (\<lambda>ws.
    obind (direct_endpoint cfg sig) (\<lambda>endpoint.
    obind (omap (\<lambda>(act, wid). obind (oexpect (map_of (bench_worker_agents cfg) wid)) (\<lambda>agent. Ret (act, agent)))
      (bench_activity_workers cfg)) (\<lambda>aam.
    Ret \<lparr>ba_id = bp_agent_id params, ba_worker_assignments = ws, ba_timeout = dur_from_secs 10,
         bpr_cycle_time = bp_feo_cycle_time params, bpr_activity_dependencies = deps,
         bpr_startup_timeout = dur_from_secs 10,
         bdp_all_agent_assignments = map (\<lambda>(a, v). (a, map (\<lambda>(w, v). (w, map fst v)) v)) all,
         bdp_connection_timeout = dur_from_secs 10, bdp_endpoint = endpoint,
         bdp_activity_agent_map = aam\<rparr>)))))"

definition direct_secondary_config ::
  "bench_params \<Rightarrow> bench_config \<Rightarrow> signalling_type \<Rightarrow> bench_builder bench_direct_secondary outcome" where
  "direct_secondary_config params cfg sig =
    obind (own_workers params cfg) (\<lambda>ws.
    obind (direct_endpoint cfg sig) (\<lambda>endpoint.
    Ret \<lparr>ba_id = bp_agent_id params, ba_worker_assignments = ws, ba_timeout = dur_from_secs 1,
         bds_endpoint = endpoint\<rparr>))"

definition relayed_endpoints :: "bench_config \<Rightarrow> signalling_type \<Rightarrow> (node_address \<times> node_address) outcome" where
  "relayed_endpoints cfg sig =
    (case sig of
       RelayedTcp \<Rightarrow> Ret (NodeTcp (fst (bc_bind_addrs cfg)), NodeTcp (snd (bc_bind_addrs cfg)))
     | RelayedUnix \<Rightarrow> Ret (NodeUnix (fst (bc_socket_paths cfg)), NodeUnix (snd (bc_socket_paths cfg)))
     | _ \<Rightarrow> Panic)"

definition relayed_primary_config ::
  "nat \<Rightarrow> (activity_id list \<Rightarrow> activity_id list) \<Rightarrow> bench_params \<Rightarrow> bench_config \<Rightarrow> signalling_type \<Rightarrow>
    bench_builder bench_relayed_primary outcome" where
  "relayed_primary_config n order params cfg sig =
    obind (relayed_endpoints cfg sig) (\<lambda>endpoints.
    obind (bench_activity_dependencies n order cfg) (\<lambda>deps.
    obind (own_workers params cfg) (\<lambda>ws.
    Ret \<lparr>ba_id = bp_agent_id params, ba_worker_assignments = ws, ba_timeout = dur_from_secs 10,
         bpr_cycle_time = bp_feo_cycle_time params, bpr_activity_dependencies = deps,
         bpr_startup_timeout = dur_from_secs 10, brp_connection_timeout = dur_from_secs 10,
         brp_bind_address_senders = fst endpoints, brp_bind_address_receivers = snd endpoints,
         brp_worker_agent_map = bench_worker_agents cfg,
         brp_activity_worker_map = bench_activity_workers cfg\<rparr>)))"

definition relayed_secondary_config ::
  "bench_params \<Rightarrow> bench_config \<Rightarrow> signalling_type \<Rightarrow> bench_builder bench_relayed_secondary outcome" where
  "relayed_secondary_config params cfg sig =
    obind (relayed_endpoints cfg sig) (\<lambda>endpoints.
    obind (own_workers params cfg) (\<lambda>ws.
    Ret \<lparr>ba_id = bp_agent_id params, ba_worker_assignments = ws, ba_timeout = dur_from_secs 10,
         brs_bind_address_senders = fst endpoints, brs_bind_address_receivers = snd endpoints\<rparr>))"

text \<open>What the program does: it runs an agent or reports an unknown agent.\<close>

datatype 'b agent_start =
    RunMpscPrimary "'b bench_primary"
  | RunDirectPrimary "'b bench_direct_primary"
  | RunRelayedPrimary "'b bench_relayed_primary"
  | RunDirectSecondary "'b bench_direct_secondary"
  | RunRelayedSecondary "'b bench_relayed_secondary"
  | AgentNotDefined agent_id

definition run_as_primary ::
  "nat \<Rightarrow> (activity_id list \<Rightarrow> activity_id list) \<Rightarrow> unit outcome \<Rightarrow> bench_params \<Rightarrow> bench_config \<Rightarrow> bench_builder agent_start outcome" where
  "run_as_primary n order runtime params cfg =
    obind runtime (\<lambda>_.
    case bc_signalling cfg of
      DirectMpsc \<Rightarrow> obind (mpsc_primary_config n order params cfg) (\<lambda>c. Ret (RunMpscPrimary c))
    | RelayedTcp \<Rightarrow> obind (relayed_primary_config n order params cfg RelayedTcp) (\<lambda>c. Ret (RunRelayedPrimary c))
    | RelayedUnix \<Rightarrow> obind (relayed_primary_config n order params cfg RelayedUnix) (\<lambda>c. Ret (RunRelayedPrimary c))
    | sig \<Rightarrow> obind (direct_primary_config n order params cfg sig) (\<lambda>c. Ret (RunDirectPrimary c)))"

definition run_as_secondary :: "unit outcome \<Rightarrow> bench_params \<Rightarrow> bench_config \<Rightarrow> bench_builder agent_start outcome" where
  "run_as_secondary runtime params cfg =
    obind runtime (\<lambda>_.
    case bc_signalling cfg of
      DirectMpsc \<Rightarrow> Panic
    | RelayedTcp \<Rightarrow> obind (relayed_secondary_config params cfg RelayedTcp) (\<lambda>c. Ret (RunRelayedSecondary c))
    | RelayedUnix \<Rightarrow> obind (relayed_secondary_config params cfg RelayedUnix) (\<lambda>c. Ret (RunRelayedSecondary c))
    | sig \<Rightarrow> obind (direct_secondary_config params cfg sig) (\<lambda>c. Ret (RunDirectSecondary c)))"

definition bench_main ::
  "nat \<Rightarrow> (activity_id list \<Rightarrow> activity_id list) \<Rightarrow> unit outcome \<Rightarrow> io_error_kind + (string + raw_config) \<Rightarrow>
    string list \<Rightarrow> bench_builder agent_start outcome" where
  "bench_main n order runtime file args =
    obind (params_from_args args) (\<lambda>params.
    obind (application_config n order file) (\<lambda>cfg.
    if bp_agent_id params = bc_primary_agent cfg then run_as_primary n order runtime params cfg
    else if bp_agent_id params \<in> set (bench_secondaries cfg) then run_as_secondary runtime params cfg
    else Ret (AgentNotDefined (bp_agent_id params))))"

text \<open>The number of an identifier is read back.\<close>

lemma parse_u64_decimal: "parse_u64 (decimal (unat a)) = Some a"
proof -
  obtain c cs where d: "decimal (unat a) = c # cs" using decimal_nonempty [of "unat a"] by (cases "decimal (unat a)") auto
  have digit: "c \<in> digit_chars" "set cs \<subseteq> digit_chars" using decimal_digits [of "unat a"] unfolding d by auto
  have "CHR ''+'' \<notin> digit_chars"
  proof
    assume "CHR ''+'' \<in> digit_chars"
    then obtain k :: nat where "48 \<le> k" "k < 58" "CHR ''+'' = char_of k" by (auto simp: digit_chars_def)
    then have "(of_char CHR ''+'' :: nat) = k" by simp
    with \<open>48 \<le> k\<close> show False by simp
  qed
  then have "c \<noteq> CHR ''+''" using digit by metis
  moreover have "undecimal 0 (c # cs) = unat a" using undecimal_decimal [of "unat a"] d by simp
  moreover have "unat a < 2 ^ 64" using unat_bound [of a] by simp
  ultimately show ?thesis
    using digit by (auto simp: parse_u64_def d Let_def simp del: undecimal.simps)
qed

lemma bench_arg_id: "bench_arg 1 [program, decimal (unat a)] = Some a"
  by (simp add: bench_arg_def parse_u64_decimal)

section \<open>Assigning the workers\<close>

text \<open>The maps and sets of the file have distinct keys and elements.\<close>

definition raw_ok :: "raw_config \<Rightarrow> bool" where
  "raw_ok raw \<longleftrightarrow> distinct (map fst (rc_agent_assignments raw)) \<and> distinct (map fst (rc_worker_assignments raw))
    \<and> distinct (map fst (rc_activity_deps raw))"

lemma identified_eq:
  "distinct (map fst m) \<Longrightarrow>
    (identified m :: ('k generic_id \<times> 'v generic_id list) list) = map (\<lambda>(k, vs). (GenericId k, map GenericId vs)) m"
proof -
  assume d: "distinct (map fst m)"
  have "map fst (map (\<lambda>(k, vs). (GenericId k :: 'k generic_id, map GenericId vs :: 'v generic_id list)) m)
      = map GenericId (map fst m)" by (simp add: comp_def case_prod_unfold)
  moreover have "distinct \<dots>" unfolding distinct_map [of GenericId] using d by (auto simp: inj_on_def)
  ultimately show ?thesis unfolding identified_def by (simp only: hash_collect_distinct)
qed

lemma identified_keys:
  assumes "distinct (map fst m)"
  shows "map fst (identified m :: ('k generic_id \<times> 'v generic_id list) list) = map GenericId (map fst m)"
    and "concat (map snd (identified m :: ('k generic_id \<times> 'v generic_id list) list)) = map GenericId (concat (map snd m))"
    and "distinct (map fst (identified m :: ('k generic_id \<times> 'v generic_id list) list))"
proof -
  show fst: "map fst (identified m :: ('k generic_id \<times> 'v generic_id list) list) = map GenericId (map fst m)"
    unfolding identified_eq [OF assms] by (simp add: comp_def case_prod_unfold)
  show "concat (map snd (identified m :: ('k generic_id \<times> 'v generic_id list) list)) = map GenericId (concat (map snd m))"
    unfolding identified_eq [OF assms] by (simp add: comp_def case_prod_unfold map_concat)
  show "distinct (map fst (identified m :: ('k generic_id \<times> 'v generic_id list) list))"
    unfolding fst distinct_map [of GenericId] using assms by (auto simp: inj_on_def)
qed

text \<open>The entry of one worker, and the assignments of all agents.\<close>

definition worker_entry :: "bench_config \<Rightarrow> worker_id \<Rightarrow> worker_id \<times> (activity_id \<times> bench_builder) list" where
  "worker_entry cfg wid =
    (wid, map (\<lambda>aid. (aid, bench_builder_of cfg aid)) (the (map_of (bc_worker_assignments cfg) wid)))"

definition assigned_agents :: "bench_config \<Rightarrow> (agent_id \<times> bench_workers) list" where
  "assigned_agents cfg = map (\<lambda>(agent, ws). (agent, map (worker_entry cfg) ws)) (bc_agent_assignments cfg)"

lemma assign_workers_eq:
  "set ws \<subseteq> fst ` set (bc_worker_assignments cfg) \<Longrightarrow>
    assign_workers cfg ws seen =
      (if distinct ws \<and> set ws \<inter> set seen = {} then Ret (rev ws @ seen, map (worker_entry cfg) ws) else Panic)"
proof (induction ws arbitrary: seen)
  case (Cons w ws)
  then obtain as where "map_of (bc_worker_assignments cfg) w = Some as"
    by (metis insert_subset list.simps(15) map_of_None_iff not_None_eq)
  with Cons show ?case by (simp add: worker_entry_def)
qed simp

lemma assign_agents_eq:
  "set (concat (map snd agents)) \<subseteq> fst ` set (bc_worker_assignments cfg) \<Longrightarrow>
    assign_agents cfg agents seen =
      (if distinct (concat (map snd agents)) \<and> set (concat (map snd agents)) \<inter> set seen = {}
       then Ret (map (\<lambda>(agent, ws). (agent, map (worker_entry cfg) ws)) agents) else Panic)"
proof (induction agents arbitrary: seen)
  case (Cons a agents)
  obtain agent ws where a: "a = (agent, ws)" by fastforce
  have ws: "set ws \<subseteq> fst ` set (bc_worker_assignments cfg)"
    and rest: "set (concat (map snd agents)) \<subseteq> fst ` set (bc_worker_assignments cfg)"
    using Cons.prems by (auto simp: a)
  show ?case
  proof (cases "distinct ws \<and> set ws \<inter> set seen = {}")
    case True
    have "set (concat (map snd agents)) \<inter> set (rev ws @ seen) = {} \<longleftrightarrow>
        set ws \<inter> set (concat (map snd agents)) = {} \<and> set (concat (map snd agents)) \<inter> set seen = {}"
      by auto
    then show ?thesis
      using True Cons.IH [OF rest, of "rev ws @ seen"] by (simp add: a assign_workers_eq [OF ws] Int_Un_distrib2)
  next
    case False
    then show ?thesis by (auto simp: a assign_workers_eq [OF ws])
  qed
qed simp

lemma bench_worker_assignments_eq:
  assumes "set (concat (map snd (bc_agent_assignments cfg))) \<subseteq> fst ` set (bc_worker_assignments cfg)"
    and "distinct (map fst (bc_agent_assignments cfg))"
  shows "bench_worker_assignments cfg =
    (if distinct (concat (map snd (bc_agent_assignments cfg))) then Ret (assigned_agents cfg) else Panic)"
proof -
  have "distinct (map fst (assigned_agents cfg))"
    using assms(2) by (simp add: assigned_agents_def comp_def case_prod_unfold)
  then show ?thesis
    using assign_agents_eq [OF assms(1), of "[]"]
    by (simp add: bench_worker_assignments_def hash_collect_distinct assigned_agents_def)
qed

text \<open>The optimisation keeps the agents and the workers.\<close>

lemma optimize_chains_keeps:
  "optimize_chains cs cfg = Ret cfg' \<Longrightarrow> distinct (map fst (bc_worker_assignments cfg)) \<Longrightarrow>
    map fst (bc_worker_assignments cfg') = map fst (bc_worker_assignments cfg)
    \<and> bc_agent_assignments cfg' = bc_agent_assignments cfg \<and> bc_primary_agent cfg' = bc_primary_agent cfg
    \<and> bc_signalling cfg' = bc_signalling cfg"
proof (induction cs arbitrary: cfg)
  case (Cons c cs)
  let ?ws = "map (\<lambda>(w, as). (w, filter (\<lambda>a. a \<notin> set (tl c)) as)) (bc_worker_assignments cfg)"
  have fst: "map fst ?ws = map fst (bc_worker_assignments cfg)" by (simp add: comp_def case_prod_unfold)
  then have "optimize_assignments c (bc_worker_assignments cfg) = ?ws"
    using Cons.prems(2) by (simp only: optimize_assignments_def hash_collect_distinct)
  with Cons.prems(1) obtain cfg1 where "optimize_chains cs cfg1 = Ret cfg'" "bc_worker_assignments cfg1 = ?ws"
    "bc_agent_assignments cfg1 = bc_agent_assignments cfg" "bc_primary_agent cfg1 = bc_primary_agent cfg"
    "bc_signalling cfg1 = bc_signalling cfg"
    by (auto simp: optimize_chain_def split: if_splits)
  moreover from this fst have "map fst (bc_worker_assignments cfg1) = map fst (bc_worker_assignments cfg)" by (simp only:)
  ultimately show ?case using Cons.IH [of cfg1] Cons.prems(2) by (simp only:)
qed simp

lemma optimize_composite_keeps:
  assumes "optimize_composite n order cfg = Ret cfg'" "distinct (map fst (bc_worker_assignments cfg))"
  shows "map fst (bc_worker_assignments cfg') = map fst (bc_worker_assignments cfg)"
    "bc_agent_assignments cfg' = bc_agent_assignments cfg" "bc_primary_agent cfg' = bc_primary_agent cfg"
    "bc_signalling cfg' = bc_signalling cfg"
proof -
  obtain cs where "optimize_chains cs cfg = Ret cfg'"
    using assms(1)
    by (auto simp: optimize_composite_def obind_Ret_iff)
  from optimize_chains_keeps [OF this assms(2)]
  show "map fst (bc_worker_assignments cfg') = map fst (bc_worker_assignments cfg)"
    "bc_agent_assignments cfg' = bc_agent_assignments cfg" "bc_primary_agent cfg' = bc_primary_agent cfg"
    "bc_signalling cfg' = bc_signalling cfg" by auto
qed

section \<open>Loading\<close>

text \<open>The configuration that the file stands for, before the optimisation.\<close>

definition raw_application :: "raw_config \<Rightarrow> bench_config" where
  "raw_application config =
    \<lparr>bc_signalling = rc_signalling config, bc_primary_agent = GenericId (rc_primary_agent config),
     bc_bind_addrs = (bench_bind_addr, bench_bind_addr2), bc_socket_paths = bench_default_paths,
     bc_agent_assignments = identified (rc_agent_assignments config),
     bc_worker_assignments = identified (rc_worker_assignments config),
     bc_activity_deps = identified (rc_activity_deps config), bc_composites = []\<rparr>"

text \<open>What the consistency check asks for.\<close>

definition consistent :: "raw_config \<Rightarrow> bool" where
  "consistent raw \<longleftrightarrow> rc_primary_agent raw \<in> fst ` set (rc_agent_assignments raw)
    \<and> set (concat (map snd (rc_agent_assignments raw))) = fst ` set (rc_worker_assignments raw)
    \<and> set (concat (map snd (rc_worker_assignments raw))) = fst ` set (rc_activity_deps raw)
    \<and> set (concat (map snd (rc_activity_deps raw))) \<subseteq> fst ` set (rc_activity_deps raw)"

lemma inj_GenericId [simp]: "inj GenericId"
  by (rule injI) simp

lemma image_GenericId_iff: "GenericId ` A = GenericId ` B \<longleftrightarrow> A = B" "GenericId ` A \<subseteq> GenericId ` B \<longleftrightarrow> A \<subseteq> B"
  by (rule inj_image_eq_iff [OF inj_GenericId]) (rule inj_image_subset_iff [OF inj_GenericId])

lemma check_consistency_eq:
  assumes "raw_ok raw"
  shows "check_consistency raw (identified (rc_activity_deps raw)) = (if consistent raw then Ret () else Panic)"
proof -
  have d: "distinct (map fst (rc_activity_deps raw))" using assms by (simp add: raw_ok_def)
  have 1: "fst ` set (identified (rc_activity_deps raw) :: activity_deps) = GenericId ` fst ` set (rc_activity_deps raw)"
    unfolding set_map [symmetric] identified_keys(1) [OF d] ..
  have 2: "set (concat (map snd (identified (rc_activity_deps raw) :: activity_deps)))
      = GenericId ` set (concat (map snd (rc_activity_deps raw)))"
    unfolding identified_keys(2) [OF d] by (rule set_map)
  have chain: "obind (oassert a) (\<lambda>_. obind (oassert b) (\<lambda>_. obind (oassert c) (\<lambda>_. oassert d))) =
      (if a \<and> b \<and> c \<and> d then Ret () else Panic)" for a b c d
    by (simp add: oassert_def)
  have last: "A = B \<and> GenericId ` A = GenericId ` B \<union> (GenericId ` C :: 'k generic_id set)
      \<longleftrightarrow> A = B \<and> C \<subseteq> B" for A B C :: "u64 set"
    unfolding image_Un [symmetric] image_GenericId_iff by blast
  show ?thesis
    unfolding check_consistency_def Let_def chain 1 2 set_map image_comp [symmetric] image_GenericId_iff(1)
      consistent_def last ..
qed

lemma application_config_eq:
  assumes "raw_ok raw"
  shows "application_config n order (Inr (Inr raw)) =
    (if consistent raw
     then if rc_optimize_composite_activities raw then optimize_composite n order (raw_application raw)
          else Ret (raw_application raw)
     else Panic)"
  by (simp add: application_config_def Let_def check_consistency_eq [OF assms] raw_application_def)

lemma loaded_config:
  assumes raw: "raw_ok raw" and load: "application_config n order (Inr (Inr raw)) = Ret cfg"
  shows "consistent raw" "bc_agent_assignments cfg = identified (rc_agent_assignments raw)"
    "map fst (bc_worker_assignments cfg) = map GenericId (map fst (rc_worker_assignments raw))"
    "bc_primary_agent cfg = GenericId (rc_primary_agent raw)" "bc_signalling cfg = rc_signalling raw"
proof -
  show "consistent raw" using load by (simp add: application_config_eq [OF raw] split: if_splits)
  have dw: "distinct (map fst (rc_worker_assignments raw))" using raw by (simp only: raw_ok_def)
  have fst: "map fst (bc_worker_assignments (raw_application raw)) = map GenericId (map fst (rc_worker_assignments raw))"
    by (simp only: raw_application_def bench_config.simps identified_keys [OF dw])
  have d: "distinct (map fst (bc_worker_assignments (raw_application raw)))"
    by (simp only: raw_application_def bench_config.simps identified_keys(3) [OF dw])
  have "cfg = raw_application raw \<or> optimize_composite n order (raw_application raw) = Ret cfg"
    using load by (auto simp: application_config_eq [OF raw] split: if_splits)
  then have "map fst (bc_worker_assignments cfg) = map fst (bc_worker_assignments (raw_application raw))
    \<and> bc_agent_assignments cfg = bc_agent_assignments (raw_application raw)
    \<and> bc_primary_agent cfg = bc_primary_agent (raw_application raw)
    \<and> bc_signalling cfg = bc_signalling (raw_application raw)"
    using optimize_composite_keeps [OF _ d] by blast
  then show "bc_agent_assignments cfg = identified (rc_agent_assignments raw)"
    "map fst (bc_worker_assignments cfg) = map GenericId (map fst (rc_worker_assignments raw))"
    "bc_primary_agent cfg = GenericId (rc_primary_agent raw)" "bc_signalling cfg = rc_signalling raw"
    unfolding fst by (simp_all add: raw_application_def)
qed

lemma loaded_workers:
  assumes raw: "raw_ok raw" and load: "application_config n order (Inr (Inr raw)) = Ret cfg"
  shows "set (concat (map snd (bc_agent_assignments cfg))) = fst ` set (bc_worker_assignments cfg)"
    and "distinct (map fst (bc_agent_assignments cfg))"
    and "distinct (concat (map snd (bc_agent_assignments cfg))) \<longleftrightarrow> distinct (concat (map snd (rc_agent_assignments raw)))"
proof -
  note l = loaded_config [OF raw load]
  have d: "distinct (map fst (rc_agent_assignments raw))" using raw by (simp add: raw_ok_def)
  have c: "concat (map snd (bc_agent_assignments cfg)) = map GenericId (concat (map snd (rc_agent_assignments raw)))"
    unfolding l(2) by (rule identified_keys(2) [OF d])
  have "fst ` set (bc_worker_assignments cfg) = set (map fst (bc_worker_assignments cfg))" by simp
  also have "\<dots> = GenericId ` fst ` set (rc_worker_assignments raw)" unfolding l(3) by (simp only: set_map)
  also have "fst ` set (rc_worker_assignments raw) = set (concat (map snd (rc_agent_assignments raw)))"
    using l(1) by (simp only: consistent_def)
  finally show "set (concat (map snd (bc_agent_assignments cfg))) = fst ` set (bc_worker_assignments cfg)"
    unfolding c by (simp only: set_map)
  show "distinct (map fst (bc_agent_assignments cfg))" unfolding l(2) by (rule identified_keys(3) [OF d])
  show "distinct (concat (map snd (bc_agent_assignments cfg))) \<longleftrightarrow> distinct (concat (map snd (rc_agent_assignments raw)))"
    unfolding c distinct_map [of GenericId] by (auto simp: inj_on_def)
qed

text \<open>A consistent file with each activity on one worker loads to a consistent configuration.\<close>

lemma config_ok_raw:
  assumes raw: "raw_ok raw" and c: "consistent raw" and one: "distinct (concat (map snd (rc_worker_assignments raw)))"
  shows "config_ok (raw_application raw)"
proof -
  have d: "distinct (map fst (rc_worker_assignments raw))" "distinct (map fst (rc_activity_deps raw))"
    using raw by (simp_all only: raw_ok_def)
  have 1: "fst ` set (identified (rc_activity_deps raw) :: activity_deps) = GenericId ` fst ` set (rc_activity_deps raw)"
    unfolding set_map [symmetric] identified_keys(1) [OF d(2)] ..
  have "distinct (map GenericId (concat (map snd (rc_worker_assignments raw))))"
    unfolding distinct_map [of GenericId] using one by (auto simp: inj_on_def)
  moreover have "set (concat (map snd (rc_worker_assignments raw))) = fst ` set (rc_activity_deps raw)"
    "set (concat (map snd (rc_activity_deps raw))) \<subseteq> fst ` set (rc_activity_deps raw)"
    using c by (simp_all only: consistent_def)
  ultimately show ?thesis
    unfolding config_ok_def raw_application_def bench_config.simps identified_keys(2) [OF d(1)] identified_keys(2) [OF d(2)]
      1 set_map image_GenericId_iff
    using identified_keys(3) [OF d(1)] identified_keys(3) [OF d(2)] by blast
qed

lemma loads:
  assumes raw: "raw_ok raw" and c: "consistent raw" and one: "distinct (concat (map snd (rc_worker_assignments raw)))"
    and order: "iteration_order order" and n: "length (rc_activity_deps raw) < n"
  shows "\<exists>cfg. application_config n order (Inr (Inr raw)) = Ret cfg \<and> config_ok cfg \<and> length (bc_activity_deps cfg) < n"
proof -
  note ok = config_ok_raw [OF raw c one]
  have "length (bc_activity_deps (raw_application raw)) < n" "bc_composites (raw_application raw) = []"
    using n raw by (simp_all add: raw_application_def identified_eq raw_ok_def)
  then show ?thesis
    using config_ok_optimized [OF ok _ order] ok by (auto simp: application_config_eq [OF raw] c)
qed

text \<open>What the program reads from such a configuration is there.\<close>

lemma dependencies_read:
  assumes "config_ok cfg" "iteration_order order" "length (bc_activity_deps cfg) < n"
  shows "bench_activity_dependencies n order cfg = Ret (bc_activity_deps cfg)"
proof -
  have d: "distinct (map fst (bc_activity_deps cfg))" using assms(1) by (simp add: config_ok_def)
  obtain sd sy where "searched (bc_activity_deps cfg) (bench_activity_workers cfg) sd sy"
    using workers_known_searched [OF d config_ok_workers_known [OF assms(1)]] by blast
  from find_composites_searched [OF d this assms(2,3)] show ?thesis
    by (auto simp: bench_activity_dependencies_def)
qed

lemma worker_agents_known:
  assumes "wid \<in> set (concat (map snd (bc_agent_assignments cfg)))"
  shows "\<exists>agent. map_of (bench_worker_agents cfg) wid = Some agent"
proof -
  let ?kvs = "concat (map (\<lambda>(aid, wids). map (\<lambda>wid. (wid, aid)) wids) (bc_agent_assignments cfg))"
  have "wid \<in> fst ` set ?kvs" using assms by force
  then have "wid \<in> fst ` set (bench_worker_agents cfg)"
    unfolding bench_worker_agents_def hash_collect_sets(1) .
  then show ?thesis by (metis map_of_None_iff not_None_eq)
qed

lemma activity_worker_listed:
  assumes "(act, wid) \<in> set (bench_activity_workers cfg)"
  shows "wid \<in> fst ` set (bc_worker_assignments cfg)"
proof -
  let ?kvs = "concat (map (\<lambda>(wid, aids). map (\<lambda>aid. (aid, wid)) aids) (bc_worker_assignments cfg))"
  have "wid \<in> snd ` set (bench_activity_workers cfg)" using assms by force
  then have "wid \<in> snd ` set ?kvs"
    unfolding bench_activity_workers_def using hash_collect_sets(2) by fast
  then show ?thesis by force
qed

text \<open>Every agent of the configuration gets its own configuration.\<close>

definition readable :: "nat \<Rightarrow> (activity_id list \<Rightarrow> activity_id list) \<Rightarrow> bench_config \<Rightarrow> bool" where
  "readable n order cfg \<longleftrightarrow>
    (\<exists>deps. bench_activity_dependencies n order cfg = Ret deps)
    \<and> (\<exists>all. bench_worker_assignments cfg = Ret all \<and> fst ` set all = fst ` set (bc_agent_assignments cfg))
    \<and> (\<forall>(act, wid) \<in> set (bench_activity_workers cfg). \<exists>agent. map_of (bench_worker_agents cfg) wid = Some agent)"

lemma own_workers_read:
  assumes "readable n order cfg" "bp_agent_id params \<in> fst ` set (bc_agent_assignments cfg)"
  shows "\<exists>ws. own_workers params cfg = Ret ws"
proof -
  obtain all where all: "bench_worker_assignments cfg = Ret all" "fst ` set all = fst ` set (bc_agent_assignments cfg)"
    using assms(1) by (auto simp: readable_def)
  with assms(2) obtain ws where "map_of all (bp_agent_id params) = Some ws"
    by (metis map_of_None_iff not_None_eq)
  with all(1) show ?thesis by (simp add: own_workers_def)
qed

lemma activity_agents_read:
  assumes "readable n order cfg"
  shows "\<exists>aam. omap (\<lambda>(act, wid). obind (oexpect (map_of (bench_worker_agents cfg) wid)) (\<lambda>agent. Ret (act, agent)))
    (bench_activity_workers cfg) = Ret aam"
proof
  show "omap (\<lambda>(act, wid). obind (oexpect (map_of (bench_worker_agents cfg) wid)) (\<lambda>agent. Ret (act, agent)))
      (bench_activity_workers cfg)
    = Ret (map (\<lambda>(act, wid). (act, the (map_of (bench_worker_agents cfg) wid))) (bench_activity_workers cfg))"
  proof (rule omap_Ret)
    fix p
    assume p: "p \<in> set (bench_activity_workers cfg)"
    obtain act wid where aw: "p = (act, wid)" by fastforce
    with p assms obtain agent where "map_of (bench_worker_agents cfg) wid = Some agent"
      unfolding readable_def by blast
    then show "(case p of (act, wid) \<Rightarrow> obind (oexpect (map_of (bench_worker_agents cfg) wid)) (\<lambda>agent. Ret (act, agent)))
        = Ret (case p of (act, wid) \<Rightarrow> (act, the (map_of (bench_worker_agents cfg) wid)))"
      by (simp add: aw)
  qed
qed

lemma primary_starts:
  assumes r: "readable n order cfg" and a: "bp_agent_id params \<in> fst ` set (bc_agent_assignments cfg)"
  shows "run_as_primary n order (Ret ()) params cfg = Panic \<longleftrightarrow> bc_signalling cfg = DirectMpsc \<and> bench_secondaries cfg \<noteq> []"
    and "run_as_primary n order (Ret ()) params cfg \<noteq> Hang"
    and "run_as_primary n order (Ret ()) params cfg \<noteq> Ret (AgentNotDefined i)"
proof -
  obtain deps all ws where "bench_activity_dependencies n order cfg = Ret deps" "bench_worker_assignments cfg = Ret all"
    "own_workers params cfg = Ret ws"
    using r own_workers_read [OF r a] unfolding readable_def by blast
  moreover note activity_agents_read [OF r]
  ultimately have "(run_as_primary n order (Ret ()) params cfg = Panic
      \<longleftrightarrow> bc_signalling cfg = DirectMpsc \<and> bench_secondaries cfg \<noteq> [])
    \<and> run_as_primary n order (Ret ()) params cfg \<noteq> Hang
    \<and> run_as_primary n order (Ret ()) params cfg \<noteq> Ret (AgentNotDefined i)"
    by (cases "bc_signalling cfg")
      (auto simp: run_as_primary_def mpsc_primary_config_def direct_primary_config_def relayed_primary_config_def
        direct_endpoint_def relayed_endpoints_def oassert_def)
  then show "run_as_primary n order (Ret ()) params cfg = Panic \<longleftrightarrow> bc_signalling cfg = DirectMpsc \<and> bench_secondaries cfg \<noteq> []"
    and "run_as_primary n order (Ret ()) params cfg \<noteq> Hang"
    and "run_as_primary n order (Ret ()) params cfg \<noteq> Ret (AgentNotDefined i)" by blast+
qed

lemma secondary_starts:
  assumes r: "readable n order cfg" and a: "bp_agent_id params \<in> fst ` set (bc_agent_assignments cfg)"
  shows "run_as_secondary (Ret ()) params cfg = Panic \<longleftrightarrow> bc_signalling cfg = DirectMpsc"
    and "run_as_secondary (Ret ()) params cfg \<noteq> Hang"
    and "run_as_secondary (Ret ()) params cfg \<noteq> Ret (AgentNotDefined i)"
proof -
  obtain ws where "own_workers params cfg = Ret ws" using own_workers_read [OF r a] by blast
  then have "(run_as_secondary (Ret ()) params cfg = Panic \<longleftrightarrow> bc_signalling cfg = DirectMpsc)
    \<and> run_as_secondary (Ret ()) params cfg \<noteq> Hang \<and> run_as_secondary (Ret ()) params cfg \<noteq> Ret (AgentNotDefined i)"
    by (cases "bc_signalling cfg")
      (auto simp: run_as_secondary_def direct_secondary_config_def relayed_secondary_config_def
        direct_endpoint_def relayed_endpoints_def)
  then show "run_as_secondary (Ret ()) params cfg = Panic \<longleftrightarrow> bc_signalling cfg = DirectMpsc"
    and "run_as_secondary (Ret ()) params cfg \<noteq> Hang"
    and "run_as_secondary (Ret ()) params cfg \<noteq> Ret (AgentNotDefined i)" by blast+
qed

lemma loaded_readable:
  assumes raw: "raw_ok raw" and load: "application_config n order (Inr (Inr raw)) = Ret cfg"
    and ok: "config_ok cfg" "iteration_order order" "length (bc_activity_deps cfg) < n"
    and agents: "distinct (concat (map snd (rc_agent_assignments raw)))"
  shows "readable n order cfg"
proof -
  note w = loaded_workers [OF raw load]
  have "bench_worker_assignments cfg = Ret (assigned_agents cfg)"
    using bench_worker_assignments_eq [OF equalityD1 [OF w(1)] w(2)] w(3) agents by simp
  moreover have "fst ` set (assigned_agents cfg) = fst ` set (bc_agent_assignments cfg)"
    by (force simp: assigned_agents_def)
  moreover have "\<exists>agent. map_of (bench_worker_agents cfg) wid = Some agent"
    if "(act, wid) \<in> set (bench_activity_workers cfg)" for act wid
    by (rule worker_agents_known) (use activity_worker_listed [OF that] w(1) in simp)
  ultimately show ?thesis
    using dependencies_read [OF ok] unfolding readable_def by blast
qed

section \<open>Properties\<close>

text \<open>
  A configuration that has passed the consistency check still makes \<open>worker_assignments\<close> panic in
  exactly one case, a worker that is listed twice in the agent assignments. Otherwise every agent
  gets its workers, each with its activities and a builder for each of them, that of a composite
  where the optimisation has made one.
\<close>

theorem worker_assignments_outcome:
  assumes "raw_ok raw" and "application_config n order (Inr (Inr raw)) = Ret cfg"
  shows "bench_worker_assignments cfg =
    (if distinct (concat (map snd (rc_agent_assignments raw)))
     then Ret (map (\<lambda>(agent, ws). (agent, map (worker_entry cfg) ws)) (bc_agent_assignments cfg)) else Panic)"
  using bench_worker_assignments_eq [OF equalityD1 [OF loaded_workers(1) [OF assms]] loaded_workers(2) [OF assms]]
    loaded_workers(3) [OF assms]
  by (simp add: assigned_agents_def)


section \<open>Witnesses\<close>

text \<open>Two agents with a worker each, and a chain on the first worker.\<close>

definition two_agents_file :: raw_config where
  "two_agents_file =
    \<lparr>rc_signalling = RelayedTcp, rc_primary_agent = 100, rc_agent_assignments = [(100, [40]), (101, [41])],
     rc_worker_assignments = [(40, [1, 2]), (41, [3])], rc_activity_deps = [(1, []), (2, [1]), (3, [2])],
     rc_optimize_composite_activities = True\<rparr>"

lemma two_agents_file_ok:
  "raw_ok two_agents_file" "consistent two_agents_file" "distinct (concat (map snd (rc_worker_assignments two_agents_file)))"
  "distinct (concat (map snd (rc_agent_assignments two_agents_file)))" "length (rc_activity_deps two_agents_file) < 4"
  by (auto simp: raw_ok_def consistent_def two_agents_file_def)

theorem worker_assignments_outcome_witness:
  "\<exists>cfg. application_config 4 (\<lambda>xs. xs) (Inr (Inr two_agents_file)) = Ret cfg
    \<and> bench_worker_assignments cfg =
      (if distinct (concat (map snd (rc_agent_assignments two_agents_file)))
       then Ret (map (\<lambda>(agent, ws). (agent, map (worker_entry cfg) ws)) (bc_agent_assignments cfg)) else Panic)"
proof -
  obtain cfg where "application_config 4 (\<lambda>xs. xs) (Inr (Inr two_agents_file)) = Ret cfg"
    using loads [OF two_agents_file_ok(1-3) iteration_order_self two_agents_file_ok(5)] by blast
  with worker_assignments_outcome [OF two_agents_file_ok(1) this] show ?thesis by (intro exI [of _ cfg]) simp
qed


end
