(* ===== verification/Feo_Adas_Programs.thy ===== *)
theory Feo_Adas_Programs
  imports Feo_Adas_Cycle Feo_Cycle_Bench
begin

text \<open>
  The programs of the mini-adas example (\<open>examples/rust/mini-adas/src/bin\<close>): which configuration the
  primary and the secondaries build for each kind of signalling, a feature of the build, and the
  order of their initialisations. The records of the agents' configurations are those of the cycle
  benchmark, with the builders of the example. The lemmas show that the configurations fit together.
\<close>

section \<open>Assignments\<close>

datatype adas_signalling = AdasMpsc | AdasTcp | AdasUnix | AdasRelayedTcp | AdasRelayedUnix | AdasMwCom

definition adas_assignments ::
  "adas_signalling \<Rightarrow> (agent_id \<times> (worker_id \<times> (activity_id \<times> adas_builder) list) list) list" where
  "adas_assignments sig =
    (case sig of
       AdasMpsc \<Rightarrow> [(GenericId 100, adas_workers)]
     | AdasMwCom \<Rightarrow> [(GenericId 100, []), (GenericId 101, take 3 adas_workers), (GenericId 102, drop 3 adas_workers)]
     | _ \<Rightarrow> [(GenericId 100, take 2 adas_workers), (GenericId 101, [adas_workers ! 2]), (GenericId 102, drop 3 adas_workers)])"

definition adas_assignments_ids :: "adas_signalling \<Rightarrow> agent_table" where
  "adas_assignments_ids sig = map (\<lambda>(k, v). (k, map (\<lambda>(w, a). (w, map fst a)) v)) (adas_assignments sig)"

definition adas_worker_agents :: "adas_signalling \<Rightarrow> (worker_id \<times> agent_id) list" where
  "adas_worker_agents sig = hash_collect (concat (map (\<lambda>(aid, w). map (\<lambda>(wid, _). (wid, aid)) w) (adas_assignments sig)))"

definition adas_activity_workers :: "adas_signalling \<Rightarrow> (activity_id \<times> worker_id) list" where
  "adas_activity_workers sig =
    hash_collect (concat (map (\<lambda>(_, ws). concat (map (\<lambda>(wid, aid_b). map (\<lambda>(aid, _). (aid, wid)) aid_b) ws))
      (adas_assignments sig)))"

definition adas_bind_addrs :: "string \<times> string" where
  "adas_bind_addrs = (''127.0.0.1:8081'', ''127.0.0.1:8082'')"

definition adas_socket_paths :: "string \<times> string" where
  "adas_socket_paths = (''/tmp/feo_listener1.socket'', ''/tmp/feo_listener2.socket'')"

text \<open>\<open>agent_assignments().remove(&id).unwrap()\<close>\<close>

definition adas_own ::
  "adas_signalling \<Rightarrow> agent_id \<Rightarrow> (worker_id \<times> (activity_id \<times> adas_builder) list) list outcome" where
  "adas_own sig agent = oexpect (map_of (adas_assignments sig) agent)"

section \<open>The primary\<close>

definition adas_primary_id :: agent_id where
  "adas_primary_id = GenericId 100"

definition adas_cycle_time :: "string list \<Rightarrow> duration" where
  "adas_cycle_time args = (case bench_arg 1 args of Some ms \<Rightarrow> dur_from_millis ms | None \<Rightarrow> dur_from_secs 5)"

definition adas_mpsc_primary :: "duration \<Rightarrow> adas_builder bench_primary outcome" where
  "adas_mpsc_primary cycle_time =
    obind (adas_own AdasMpsc adas_primary_id) (\<lambda>ws.
    Ret \<lparr>ba_id = adas_primary_id, ba_worker_assignments = ws, ba_timeout = dur_from_secs 10,
         bpr_cycle_time = cycle_time, bpr_activity_dependencies = activity_dependencies,
         bpr_startup_timeout = dur_from_secs 10\<rparr>)"

definition adas_direct_primary ::
  "adas_signalling \<Rightarrow> node_address \<Rightarrow> duration \<Rightarrow> adas_builder bench_direct_primary outcome" where
  "adas_direct_primary sig endpoint cycle_time =
    obind (adas_own sig adas_primary_id) (\<lambda>ws.
    obind (omap (\<lambda>(act, wid). obind (oexpect (map_of (adas_worker_agents sig) wid)) (\<lambda>agent. Ret (act, agent)))
      (adas_activity_workers sig)) (\<lambda>aam.
    Ret \<lparr>ba_id = adas_primary_id, ba_worker_assignments = ws, ba_timeout = dur_from_secs 10,
         bpr_cycle_time = cycle_time, bpr_activity_dependencies = activity_dependencies,
         bpr_startup_timeout = dur_from_secs 10, bdp_all_agent_assignments = adas_assignments_ids sig,
         bdp_connection_timeout = dur_from_secs 10, bdp_endpoint = endpoint,
         bdp_activity_agent_map = hash_collect aam\<rparr>))"

definition adas_tcp_primary :: "duration \<Rightarrow> adas_builder bench_direct_primary outcome" where
  "adas_tcp_primary = adas_direct_primary AdasTcp (NodeTcp (fst adas_bind_addrs))"

definition adas_unix_primary :: "duration \<Rightarrow> adas_builder bench_direct_primary outcome" where
  "adas_unix_primary = adas_direct_primary AdasUnix (NodeUnix (fst adas_socket_paths))"

definition adas_mw_com_primary :: "duration \<Rightarrow> adas_builder bench_direct_primary outcome" where
  "adas_mw_com_primary = adas_direct_primary AdasMwCom NodeMwCom"

definition adas_relayed_primary ::
  "adas_signalling \<Rightarrow> node_address \<Rightarrow> node_address \<Rightarrow> duration \<Rightarrow> adas_builder bench_relayed_primary outcome" where
  "adas_relayed_primary sig senders receivers cycle_time =
    obind (adas_own sig adas_primary_id) (\<lambda>ws.
    Ret \<lparr>ba_id = adas_primary_id, ba_worker_assignments = ws, ba_timeout = dur_from_secs 10,
         bpr_cycle_time = cycle_time, bpr_activity_dependencies = activity_dependencies,
         bpr_startup_timeout = dur_from_secs 10, brp_connection_timeout = dur_from_secs 10,
         brp_bind_address_senders = senders, brp_bind_address_receivers = receivers,
         brp_worker_agent_map = adas_worker_agents sig,
         brp_activity_worker_map = adas_activity_workers sig\<rparr>)"

definition adas_relayed_tcp_primary :: "duration \<Rightarrow> adas_builder bench_relayed_primary outcome" where
  "adas_relayed_tcp_primary =
    adas_relayed_primary AdasRelayedTcp (NodeTcp (fst adas_bind_addrs)) (NodeTcp (snd adas_bind_addrs))"

definition adas_relayed_unix_primary :: "duration \<Rightarrow> adas_builder bench_relayed_primary outcome" where
  "adas_relayed_unix_primary =
    adas_relayed_primary AdasRelayedUnix (NodeUnix (fst adas_socket_paths)) (NodeUnix (snd adas_socket_paths))"

definition adas_primary_config :: "adas_signalling \<Rightarrow> duration \<Rightarrow> adas_builder agent_start outcome" where
  "adas_primary_config sig cycle_time =
    (case sig of
       AdasMpsc \<Rightarrow> obind (adas_mpsc_primary cycle_time) (\<lambda>c. Ret (RunMpscPrimary c))
     | AdasTcp \<Rightarrow> obind (adas_tcp_primary cycle_time) (\<lambda>c. Ret (RunDirectPrimary c))
     | AdasUnix \<Rightarrow> obind (adas_unix_primary cycle_time) (\<lambda>c. Ret (RunDirectPrimary c))
     | AdasMwCom \<Rightarrow> obind (adas_mw_com_primary cycle_time) (\<lambda>c. Ret (RunDirectPrimary c))
     | AdasRelayedTcp \<Rightarrow> obind (adas_relayed_tcp_primary cycle_time) (\<lambda>c. Ret (RunRelayedPrimary c))
     | AdasRelayedUnix \<Rightarrow> obind (adas_relayed_unix_primary cycle_time) (\<lambda>c. Ret (RunRelayedPrimary c)))"

text \<open>
  \<open>main\<close>: the topics are initialised after the configuration is built and before the MW COM runtime,
  unless the topics are those of MW COM (no \<open>backend\<close>). What remains is to run the agent.
\<close>

definition adas_primary_main ::
  "adas_value iox2 \<Rightarrow> adas_signalling \<Rightarrow> com_backend option \<Rightarrow> (adas_payload \<Rightarrow> adas_value type_info) \<Rightarrow> unit outcome \<Rightarrow>
    string list \<Rightarrow> (adas_value process, adas_builder agent_start) io" where
  "adas_primary_main iox2_init sig backend ty runtime args =
    io_bind (io_lift (adas_primary_config sig (adas_cycle_time args))) (\<lambda>cfg.
    io_bind
      (case backend of
         None \<Rightarrow> io_return ()
       | Some b \<Rightarrow>
           io_bind (initialize_com_primary iox2_init b adas_primary_id (topic_dependencies ty) (adas_assignments_ids sig) 0)
             (\<lambda>_. io_return ())) (\<lambda>_.
    io_bind (io_lift runtime) (\<lambda>_. io_return cfg)))"

section \<open>The secondaries\<close>

definition adas_secondary_ids :: "agent_id list" where
  "adas_secondary_ids = [GenericId 101, GenericId 102]"

text \<open>The index is counted from 1; \<open>secondary_index - 1\<close> is checked for overflow.\<close>

definition adas_secondary_id :: "string list \<Rightarrow> agent_id outcome" where
  "adas_secondary_id args =
    obind (oexpect (bench_arg 1 args)) (\<lambda>secondary_index.
    if secondary_index = 0 then Panic
    else let k = unat (secondary_index - 1) in
      if k < length adas_secondary_ids then Ret (adas_secondary_ids ! k) else Panic)"

definition adas_direct_secondary :: "adas_signalling \<Rightarrow> agent_id \<Rightarrow> adas_builder bench_direct_secondary outcome" where
  "adas_direct_secondary sig agent =
    obind (adas_own sig agent) (\<lambda>ws.
    Ret \<lparr>ba_id = agent, ba_worker_assignments = ws, ba_timeout = dur_from_secs 1,
         bds_endpoint = (case sig of AdasTcp \<Rightarrow> NodeTcp (fst adas_bind_addrs)
           | AdasUnix \<Rightarrow> NodeUnix (fst adas_socket_paths) | _ \<Rightarrow> NodeMwCom)\<rparr>)"

definition adas_relayed_tcp_secondary :: "agent_id \<Rightarrow> adas_builder bench_relayed_secondary outcome" where
  "adas_relayed_tcp_secondary agent =
    obind (adas_own AdasRelayedTcp agent) (\<lambda>ws.
    Ret \<lparr>ba_id = agent, ba_worker_assignments = ws, ba_timeout = dur_from_secs 10,
         brs_bind_address_senders = NodeTcp (fst adas_bind_addrs),
         brs_bind_address_receivers = NodeTcp (snd adas_bind_addrs)\<rparr>)"

definition adas_relayed_unix_secondary :: "agent_id \<Rightarrow> adas_builder bench_relayed_secondary outcome" where
  "adas_relayed_unix_secondary agent =
    obind (adas_own AdasRelayedUnix agent) (\<lambda>ws.
    Ret \<lparr>ba_id = agent, ba_worker_assignments = ws, ba_timeout = dur_from_secs 10,
         brs_bind_address_senders = NodeUnix (fst adas_socket_paths),
         brs_bind_address_receivers = NodeUnix (snd adas_socket_paths)\<rparr>)"

text \<open>The activities whose topics a secondary initialises.\<close>

definition adas_local_activities :: "adas_signalling \<Rightarrow> agent_id \<Rightarrow> activity_id set outcome" where
  "adas_local_activities sig agent =
    obind (oexpect (map_of (adas_assignments_ids sig) agent)) (\<lambda>ws. Ret (set (concat (map snd ws))))"

text \<open>
  The topics of a secondary; with direct signalling the MW COM runtime is built before them, with
  relayed signalling only when the topics are those of MW COM.
\<close>

definition adas_secondary_topics ::
  "(string \<Rightarrow> string) \<Rightarrow> adas_signalling \<Rightarrow> com_backend option \<Rightarrow> (adas_payload \<Rightarrow> adas_value type_info) \<Rightarrow> unit outcome \<Rightarrow>
    bool \<Rightarrow> agent_id \<Rightarrow> (adas_value process, unit) io" where
  "adas_secondary_topics ask sig backend ty runtime direct agent =
    (case backend of
       None \<Rightarrow> io_lift runtime
     | Some b \<Rightarrow>
         io_bind (io_lift (adas_local_activities sig agent)) (\<lambda>acts.
         io_bind (io_lift (if direct then runtime else Ret ())) (\<lambda>_.
         io_bind (initialize_com_secondary ask b (topic_dependencies ty) acts) (\<lambda>_. io_return ()))))"

definition adas_direct_secondary_main ::
  "(string \<Rightarrow> string) \<Rightarrow> adas_signalling \<Rightarrow> com_backend option \<Rightarrow> (adas_payload \<Rightarrow> adas_value type_info) \<Rightarrow> unit outcome \<Rightarrow>
    string list \<Rightarrow> (adas_value process, adas_builder agent_start) io" where
  "adas_direct_secondary_main ask sig backend ty runtime args =
    io_bind (io_lift (adas_secondary_id args)) (\<lambda>agent.
    io_bind (io_lift (adas_direct_secondary sig agent)) (\<lambda>cfg.
    io_bind (adas_secondary_topics ask sig backend ty runtime True agent) (\<lambda>_. io_return (RunDirectSecondary cfg))))"

definition adas_relayed_tcp_secondary_main ::
  "(string \<Rightarrow> string) \<Rightarrow> com_backend option \<Rightarrow> (adas_payload \<Rightarrow> adas_value type_info) \<Rightarrow> unit outcome \<Rightarrow>
    string list \<Rightarrow> (adas_value process, adas_builder agent_start) io" where
  "adas_relayed_tcp_secondary_main ask backend ty runtime args =
    io_bind (io_lift (adas_secondary_id args)) (\<lambda>agent.
    io_bind (io_lift (adas_relayed_tcp_secondary agent)) (\<lambda>cfg.
    io_bind (adas_secondary_topics ask AdasRelayedTcp backend ty runtime False agent)
      (\<lambda>_. io_return (RunRelayedSecondary cfg))))"

definition adas_relayed_unix_secondary_main ::
  "(string \<Rightarrow> string) \<Rightarrow> com_backend option \<Rightarrow> (adas_payload \<Rightarrow> adas_value type_info) \<Rightarrow> unit outcome \<Rightarrow>
    string list \<Rightarrow> (adas_value process, adas_builder agent_start) io" where
  "adas_relayed_unix_secondary_main ask backend ty runtime args =
    io_bind (io_lift (adas_secondary_id args)) (\<lambda>agent.
    io_bind (io_lift (adas_relayed_unix_secondary agent)) (\<lambda>cfg.
    io_bind (adas_secondary_topics ask AdasRelayedUnix backend ty runtime False agent)
      (\<lambda>_. io_return (RunRelayedSecondary cfg))))"

definition adas_secondary_main ::
  "(string \<Rightarrow> string) \<Rightarrow> adas_signalling \<Rightarrow> com_backend option \<Rightarrow> (adas_payload \<Rightarrow> adas_value type_info) \<Rightarrow> unit outcome \<Rightarrow>
    string list \<Rightarrow> (adas_value process, adas_builder agent_start) io" where
  "adas_secondary_main ask sig backend ty runtime args =
    (case sig of
       AdasMpsc \<Rightarrow> io_panic
     | AdasRelayedTcp \<Rightarrow> adas_relayed_tcp_secondary_main ask backend ty runtime args
     | AdasRelayedUnix \<Rightarrow> adas_relayed_unix_secondary_main ask backend ty runtime args
     | _ \<Rightarrow> adas_direct_secondary_main ask sig backend ty runtime args)"

section \<open>The agents fit together\<close>

text \<open>What a primary and a secondary must agree on: addresses, and who runs what.\<close>

fun agents_fit :: "'b agent_start \<Rightarrow> 'b agent_start \<Rightarrow> bool" where
  "agents_fit (RunDirectPrimary p) (RunDirectSecondary s) \<longleftrightarrow>
    bds_endpoint s = bdp_endpoint p
    \<and> map_of (bdp_all_agent_assignments p) (ba_id s) = Some (map (\<lambda>(w, as). (w, map fst as)) (ba_worker_assignments s))
    \<and> list_all (\<lambda>(w, as). list_all (\<lambda>(i, _). map_of (bdp_activity_agent_map p) i = Some (ba_id s)) as) (ba_worker_assignments s)
    \<and> fst ` set (bdp_activity_agent_map p) = fst ` set (bpr_activity_dependencies p)"
| "agents_fit (RunRelayedPrimary p) (RunRelayedSecondary s) \<longleftrightarrow>
    brs_bind_address_senders s = brp_bind_address_senders p \<and> brs_bind_address_receivers s = brp_bind_address_receivers p
    \<and> list_all (\<lambda>(w, as). map_of (brp_worker_agent_map p) w = Some (ba_id s)
        \<and> list_all (\<lambda>(i, _). map_of (brp_activity_worker_map p) i = Some w) as) (ba_worker_assignments s)
    \<and> fst ` set (brp_activity_worker_map p) = fst ` set (bpr_activity_dependencies p)"
| "agents_fit _ _ \<longleftrightarrow> False"

lemma primary_main_config:
  "adas_primary_main iox2_init sig backend ty runtime args p = (Ret pr, p') \<Longrightarrow>
    adas_primary_config sig (adas_cycle_time args) = Ret pr"
  by (auto simp: adas_primary_main_def io_defs split: outcome.splits prod.splits option.splits)

lemma secondary_id_cases: "adas_secondary_id args = Ret a \<Longrightarrow> a = GenericId 101 \<or> a = GenericId 102"
  by (auto simp: adas_secondary_id_def adas_secondary_ids_def obind_Ret_iff Let_def less_Suc_eq split: if_splits)

definition adas_secondary_config :: "adas_signalling \<Rightarrow> agent_id \<Rightarrow> adas_builder agent_start outcome" where
  "adas_secondary_config sig agent =
    (case sig of
       AdasMpsc \<Rightarrow> Panic
     | AdasRelayedTcp \<Rightarrow> obind (adas_relayed_tcp_secondary agent) (\<lambda>c. Ret (RunRelayedSecondary c))
     | AdasRelayedUnix \<Rightarrow> obind (adas_relayed_unix_secondary agent) (\<lambda>c. Ret (RunRelayedSecondary c))
     | _ \<Rightarrow> obind (adas_direct_secondary sig agent) (\<lambda>c. Ret (RunDirectSecondary c)))"

lemma secondary_main_config:
  "adas_secondary_main ask sig backend ty runtime args q = (Ret se, q') \<Longrightarrow>
    \<exists>agent. adas_secondary_id args = Ret agent \<and> adas_secondary_config sig agent = Ret se"
  by (cases sig)
    (auto simp: adas_secondary_main_def adas_direct_secondary_main_def adas_relayed_tcp_secondary_main_def
      adas_relayed_unix_secondary_main_def adas_secondary_config_def io_defs split: outcome.splits prod.splits)

lemmas adas_tables = adas_assignments_def adas_assignments_ids_def adas_worker_agents_def adas_activity_workers_def
  adas_workers_def hash_collect_def activity_dependencies_def

lemmas adas_configs = adas_primary_config_def adas_secondary_config_def adas_mpsc_primary_def adas_tcp_primary_def
  adas_unix_primary_def adas_mw_com_primary_def adas_direct_primary_def adas_relayed_tcp_primary_def
  adas_relayed_unix_primary_def adas_relayed_primary_def adas_direct_secondary_def adas_relayed_tcp_secondary_def
  adas_relayed_unix_secondary_def adas_own_def adas_primary_id_def

text \<open>
  C28: Whatever the kind of signalling, the programs of the mini-adas example build configurations that
  fit: a secondary that starts uses the addresses of the primary; the primary knows each worker and
  activity of the secondary as assigned to it; and the activities assigned to the agents are exactly
  those of the dependency graph.
\<close>

theorem adas_agents_agree:
  assumes "adas_primary_main iox2_init sig backend ty runtime args p = (Ret pr, p')"
    and "adas_secondary_main ask sig backend' ty runtime' args' q = (Ret se, q')"
  shows "agents_fit pr se"
proof -
  have pr: "adas_primary_config sig (adas_cycle_time args) = Ret pr" by (rule primary_main_config [OF assms(1)])
  obtain agent where agent: "agent = GenericId 101 \<or> agent = GenericId 102" and se: "adas_secondary_config sig agent = Ret se"
    using secondary_main_config [OF assms(2)] secondary_id_cases by blast
  show ?thesis
  proof (cases sig)
    case AdasMpsc
    with se show ?thesis by (simp add: adas_secondary_config_def)
  next
    case AdasTcp
    with pr se agent show ?thesis by (auto simp: adas_configs adas_tables)
  next
    case AdasUnix
    with pr se agent show ?thesis by (auto simp: adas_configs adas_tables)
  next
    case AdasMwCom
    with pr se agent show ?thesis by (auto simp: adas_configs adas_tables)
  next
    case AdasRelayedTcp
    with pr se agent show ?thesis by (auto simp: adas_configs adas_tables)
  next
    case AdasRelayedUnix
    with pr se agent show ?thesis by (auto simp: adas_configs adas_tables)
  qed
qed

lemma first_secondary: "bench_arg 1 args = Some 1 \<Longrightarrow> adas_secondary_id args = Ret (GenericId 101)"
  by (simp add: adas_secondary_id_def adas_secondary_ids_def)

lemma tcp_secondary_runs:
  "adas_secondary_id args = Ret (GenericId 101) \<Longrightarrow>
    \<exists>se. adas_secondary_main ask AdasTcp None ty (Ret ()) args q = (Ret se, q)"
  by (simp add: adas_secondary_main_def adas_direct_secondary_main_def adas_secondary_topics_def adas_configs
      adas_tables io_defs)

theorem adas_agents_agree_witness:
  "\<exists>pr se. adas_primary_main (\<lambda>_ _ _. io_panic) AdasTcp None demo_ty (Ret ()) [''adas_primary''] (aw_process demo_world)
      = (Ret pr, aw_process demo_world)
    \<and> adas_secondary_main (\<lambda>_. []) AdasTcp None demo_ty (Ret ()) [''adas_secondary'', decimal (unat (1 :: u64))]
        (aw_process demo_world) = (Ret se, aw_process demo_world)
    \<and> agents_fit pr se"
proof -
  obtain se where se: "adas_secondary_main (\<lambda>_. []) AdasTcp None demo_ty (Ret ())
      [''adas_secondary'', decimal (unat (1 :: u64))] (aw_process demo_world) = (Ret se, aw_process demo_world)"
    using tcp_secondary_runs [OF first_secondary [OF bench_arg_id]] by blast
  obtain pr where pr: "adas_primary_main (\<lambda>_ _ _. io_panic) AdasTcp None demo_ty (Ret ()) [''adas_primary'']
      (aw_process demo_world) = (Ret pr, aw_process demo_world)"
    by (simp add: adas_primary_main_def adas_configs adas_tables io_defs)
  show ?thesis
    by (rule exI [of _ pr], rule exI [of _ se]) (intro conjI pr se adas_agents_agree [OF pr se])
qed

end
