(* ===== verification/Feo_Test_Agent.thy ===== *)
theory Feo_Test_Agent
  imports Feo_Integration_Test Feo_Adas_Programs
begin

text \<open>
  The program of the agents that the integration tests start
  (\<open>tests/rust/feo_tests/test_agent\<close>): the maps derived from the assignments of a scenario, and the
  configuration of the primary or a secondary for each kind of signalling. The records of the
  configurations are those of the cycle benchmark. The lemmas show that the configurations fit.
\<close>

datatype test_signalling = TestMpsc | TestTcp | TestUnix | TestRelayedTcp | TestRelayedUnix | TestMwCom
datatype test_role = TestPrimary string | TestSecondary u64

section \<open>Derived maps\<close>

definition test_worker_agents :: "scenario \<Rightarrow> (worker_id \<times> agent_id) list" where
  "test_worker_agents scenario =
    hash_collect (concat (map (\<lambda>(aid, w). map (\<lambda>(wid, _). (wid, aid)) w) (test_assignments_ids scenario)))"

definition test_activity_workers :: "scenario \<Rightarrow> (activity_id \<times> worker_id) list" where
  "test_activity_workers scenario =
    hash_collect (concat (map (\<lambda>(_, ws). concat (map (\<lambda>(wid, acts). map (\<lambda>v. (v, wid)) acts) ws))
      (test_assignments_ids scenario)))"

definition test_activity_agents :: "scenario \<Rightarrow> (activity_id \<times> agent_id) list outcome" where
  "test_activity_agents scenario =
    obind (omap (\<lambda>(act, wid). obind (oexpect (map_of (test_worker_agents scenario) wid)) (\<lambda>agent. Ret (act, agent)))
      (test_activity_workers scenario)) (\<lambda>kvs. Ret (hash_collect kvs))"

definition test_bind_addrs :: "string \<times> string" where
  "test_bind_addrs = (''127.0.0.1:8081'', ''127.0.0.1:8082'')"

definition test_socket_paths :: "string \<times> string" where
  "test_socket_paths = (''/tmp/feo_listener1.socket'', ''/tmp/feo_listener2.socket'')"

text \<open>\<open>agent_assignments(server_name).remove(&id).unwrap()\<close>\<close>

definition test_own ::
  "scenario \<Rightarrow> string \<Rightarrow> agent_id \<Rightarrow> (worker_id \<times> (activity_id \<times> test_builder) list) list outcome" where
  "test_own scenario server agent = oexpect (map_of (test_assignments scenario server) agent)"

section \<open>The primary\<close>

definition test_mpsc_primary :: "scenario \<Rightarrow> string \<Rightarrow> test_builder bench_primary outcome" where
  "test_mpsc_primary scenario server =
    obind (test_own scenario server test_primary_id) (\<lambda>ws.
    Ret \<lparr>ba_id = test_primary_id, ba_worker_assignments = ws, ba_timeout = dur_from_secs 10,
         bpr_cycle_time = dur_from_millis 100, bpr_activity_dependencies = test_dependencies scenario,
         bpr_startup_timeout = dur_from_secs 10\<rparr>)"

definition test_direct_primary :: "node_address \<Rightarrow> scenario \<Rightarrow> string \<Rightarrow> test_builder bench_direct_primary outcome" where
  "test_direct_primary endpoint scenario server =
    obind (test_own scenario server test_primary_id) (\<lambda>ws.
    obind (test_activity_agents scenario) (\<lambda>aam.
    Ret \<lparr>ba_id = test_primary_id, ba_worker_assignments = ws, ba_timeout = dur_from_secs 10,
         bpr_cycle_time = dur_from_millis 100, bpr_activity_dependencies = test_dependencies scenario,
         bpr_startup_timeout = dur_from_secs 10,
         bdp_all_agent_assignments = map (\<lambda>(a, v). (a, map (\<lambda>(w, v). (w, map fst v)) v)) (test_assignments scenario server),
         bdp_connection_timeout = dur_from_secs 10, bdp_endpoint = endpoint,
         bdp_activity_agent_map = aam\<rparr>))"

definition test_relayed_primary ::
  "node_address \<Rightarrow> node_address \<Rightarrow> scenario \<Rightarrow> string \<Rightarrow> test_builder bench_relayed_primary outcome" where
  "test_relayed_primary senders receivers scenario server =
    obind (test_own scenario server test_primary_id) (\<lambda>ws.
    Ret \<lparr>ba_id = test_primary_id, ba_worker_assignments = ws, ba_timeout = dur_from_secs 10,
         bpr_cycle_time = dur_from_millis 100, bpr_activity_dependencies = test_dependencies scenario,
         bpr_startup_timeout = dur_from_secs 10, brp_connection_timeout = dur_from_secs 10,
         brp_bind_address_senders = senders, brp_bind_address_receivers = receivers,
         brp_worker_agent_map = test_worker_agents scenario,
         brp_activity_worker_map = test_activity_workers scenario\<rparr>)"

definition test_primary_config :: "test_signalling \<Rightarrow> scenario \<Rightarrow> string \<Rightarrow> test_builder agent_start outcome" where
  "test_primary_config sig scenario server =
    (case sig of
       TestMpsc \<Rightarrow> obind (test_mpsc_primary scenario server) (\<lambda>c. Ret (RunMpscPrimary c))
     | TestTcp \<Rightarrow> obind (test_direct_primary (NodeTcp (fst test_bind_addrs)) scenario server) (\<lambda>c. Ret (RunDirectPrimary c))
     | TestUnix \<Rightarrow>
         obind (test_direct_primary (NodeUnix (fst test_socket_paths)) scenario server) (\<lambda>c. Ret (RunDirectPrimary c))
     | TestRelayedTcp \<Rightarrow>
         obind (test_relayed_primary (NodeTcp (fst test_bind_addrs)) (NodeTcp (snd test_bind_addrs)) scenario server)
           (\<lambda>c. Ret (RunRelayedPrimary c))
     | TestRelayedUnix \<Rightarrow>
         obind (test_relayed_primary (NodeUnix (fst test_socket_paths)) (NodeUnix (snd test_socket_paths)) scenario server)
           (\<lambda>c. Ret (RunRelayedPrimary c))
     | TestMwCom \<Rightarrow> obind (test_direct_primary NodeMwCom scenario server) (\<lambda>c. Ret (RunDirectPrimary c)))"

text \<open>The topics are initialised first, then the MW COM runtime is built; what remains is to run the agent.\<close>

definition launch_primary ::
  "u64 iox2 \<Rightarrow> com_backend \<Rightarrow> u64 type_info \<Rightarrow> unit outcome \<Rightarrow> test_signalling \<Rightarrow> scenario \<Rightarrow> string \<Rightarrow>
    (u64 process, test_builder agent_start) io" where
  "launch_primary iox2_init backend ty runtime sig scenario server =
    io_bind (initialize_com_primary iox2_init backend test_primary_id (test_topics ty) (test_assignments_ids scenario) 0)
      (\<lambda>_. io_bind (io_lift runtime) (\<lambda>_. io_lift (test_primary_config sig scenario server)))"

section \<open>The secondaries\<close>

definition test_direct_secondary ::
  "node_address \<Rightarrow> scenario \<Rightarrow> agent_id \<Rightarrow> test_builder bench_direct_secondary outcome" where
  "test_direct_secondary endpoint scenario agent =
    obind (test_own scenario ''UNUSED'' agent) (\<lambda>ws.
    Ret \<lparr>ba_id = agent, ba_worker_assignments = ws, ba_timeout = dur_from_secs 1, bds_endpoint = endpoint\<rparr>)"

definition test_relayed_secondary ::
  "node_address \<Rightarrow> node_address \<Rightarrow> scenario \<Rightarrow> agent_id \<Rightarrow> test_builder bench_relayed_secondary outcome" where
  "test_relayed_secondary senders receivers scenario agent =
    obind (test_own scenario ''UNUSED'' agent) (\<lambda>ws.
    Ret \<lparr>ba_id = agent, ba_worker_assignments = ws, ba_timeout = dur_from_secs 10,
         brs_bind_address_senders = senders, brs_bind_address_receivers = receivers\<rparr>)"

definition test_secondary_config :: "test_signalling \<Rightarrow> scenario \<Rightarrow> agent_id \<Rightarrow> test_builder agent_start outcome" where
  "test_secondary_config sig scenario agent =
    (case sig of
       TestMpsc \<Rightarrow> Panic
     | TestTcp \<Rightarrow> obind (test_direct_secondary (NodeTcp (fst test_bind_addrs)) scenario agent) (\<lambda>c. Ret (RunDirectSecondary c))
     | TestUnix \<Rightarrow>
         obind (test_direct_secondary (NodeUnix (fst test_socket_paths)) scenario agent) (\<lambda>c. Ret (RunDirectSecondary c))
     | TestRelayedTcp \<Rightarrow>
         obind (test_relayed_secondary (NodeTcp (fst test_bind_addrs)) (NodeTcp (snd test_bind_addrs)) scenario agent)
           (\<lambda>c. Ret (RunRelayedSecondary c))
     | TestRelayedUnix \<Rightarrow>
         obind (test_relayed_secondary (NodeUnix (fst test_socket_paths)) (NodeUnix (snd test_socket_paths)) scenario agent)
           (\<lambda>c. Ret (RunRelayedSecondary c))
     | TestMwCom \<Rightarrow> obind (test_direct_secondary NodeMwCom scenario agent) (\<lambda>c. Ret (RunDirectSecondary c)))"

text \<open>\<open>PRIMARY_AGENT_ID.id() + num\<close> is checked for overflow.\<close>

definition launch_secondary ::
  "(string \<Rightarrow> string) \<Rightarrow> com_backend \<Rightarrow> u64 type_info \<Rightarrow> unit outcome \<Rightarrow> test_signalling \<Rightarrow> scenario \<Rightarrow> u64 \<Rightarrow>
    (u64 process, test_builder agent_start) io" where
  "launch_secondary ask backend ty runtime sig scenario num =
    (let agent = GenericId (100 + num) in
     if 2 ^ 64 \<le> 100 + unat num then io_panic
     else
       io_bind (io_lift (test_local_activities scenario agent)) (\<lambda>local_activities.
       io_bind (initialize_com_secondary ask backend (test_topics ty) local_activities) (\<lambda>_.
       io_bind (io_lift runtime) (\<lambda>_. io_lift (test_secondary_config sig scenario agent)))))"

definition run_scenario ::
  "u64 iox2 \<Rightarrow> (string \<Rightarrow> string) \<Rightarrow> com_backend \<Rightarrow> u64 type_info \<Rightarrow> unit outcome \<Rightarrow> test_signalling \<Rightarrow> scenario \<Rightarrow> test_role \<Rightarrow>
    (u64 process, test_builder agent_start) io" where
  "run_scenario iox2_init ask backend ty runtime sig scenario role =
    (case role of
       TestPrimary monitor_server \<Rightarrow> launch_primary iox2_init backend ty runtime sig scenario monitor_server
     | TestSecondary num \<Rightarrow> launch_secondary ask backend ty runtime sig scenario num)"

section \<open>The agents fit together\<close>

lemmas test_configs = test_primary_config_def test_mpsc_primary_def test_direct_primary_def test_relayed_primary_def
  test_secondary_config_def test_direct_secondary_def test_relayed_secondary_def test_own_def

lemmas test_maps = test_worker_agents_def test_activity_workers_def test_activity_agents_def test_tables
  hash_collect_def test_dependencies_def

lemma primary_role_config:
  "run_scenario iox2_init ask backend ty runtime sig scenario (TestPrimary server) p = (Ret pr, p') \<Longrightarrow>
    test_primary_config sig scenario server = Ret pr"
  by (auto simp: run_scenario_def launch_primary_def io_defs split: outcome.splits prod.splits)

lemma secondary_role_config:
  "run_scenario iox2_init ask backend ty runtime sig scenario (TestSecondary num) q = (Ret se, q') \<Longrightarrow>
    test_secondary_config sig scenario (GenericId (100 + num)) = Ret se
    \<and> test_local_activities scenario (GenericId (100 + num)) \<noteq> Panic"
  by (auto simp: run_scenario_def launch_secondary_def io_defs Let_def split: outcome.splits prod.splits if_splits)

text \<open>
  In every scenario and for every kind of signalling a primary and a secondary of the test agent that
  start have configurations that fit: the secondary uses the addresses of the primary, which knows
  its workers and activities as assigned to it. (A secondary with the number 0 would be the primary
  itself and is left out.)
\<close>

theorem test_agents_agree:
  assumes "run_scenario iox2_init ask backend ty runtime sig scenario (TestPrimary server) p = (Ret pr, p')"
    and "run_scenario iox2_init ask backend ty runtime sig scenario (TestSecondary num) q = (Ret se, q')"
    and "num \<noteq> 0"
  shows "agents_fit pr se"
proof -
  have pr: "test_primary_config sig scenario server = Ret pr" by (rule primary_role_config [OF assms(1)])
  have se: "test_secondary_config sig scenario (GenericId (100 + num)) = Ret se"
    "test_local_activities scenario (GenericId (100 + num)) \<noteq> Panic"
    using secondary_role_config [OF assms(2)] by simp_all
  have "scenario = MultipleAgents \<and> 100 + num = 101"
    using se(2) assms(3) by (cases scenario) (auto simp: test_local_activities_def test_tables split: if_splits)
  then have known: "scenario = MultipleAgents" "100 + num = 101" by simp_all
  show ?thesis
    using pr se(1) unfolding known
    by (cases sig) (auto simp: test_configs test_maps)
qed

end
