(* ===== verification/Feo_Relay_Wiring.thy ===== *)
theory Feo_Relay_Wiring
  imports Feo_Agents
begin

text \<open>
  How the endpoints of relayed signalling are wired (\<open>relayed/sockets_mpsc.rs\<close>, and the constructors
  of the relays in \<open>connectors/relays.rs\<close>): which addresses and channels the builders hand to whom.
  A builder is a function that makes its endpoint; an endpoint is here the transport, the address and
  the channels it is made with. What endpoints and relays do is the subject of the other theories.

  The lemmas show that a primary and its secondaries fit together: the clients of a secondary connect
  to the servers of the primary that expect it, and every worker gets its own pair of channels.
\<close>

section \<open>Channels between processes\<close>

datatype transport = TcpTransport | UnixTransport

datatype socket_end =
    ClientEnd transport string channel_id
  | ServerEnd transport string "channel_id list"

text \<open>The trait \<open>SocketChannel\<close> and its two implementations.\<close>

record inter_channel =
  ic_new_receiver :: "string \<Rightarrow> channel_id \<Rightarrow> socket_end"
  ic_new_sender :: "string \<Rightarrow> channel_id \<Rightarrow> socket_end"
  ic_new_multi_receiver :: "channel_id list \<Rightarrow> string \<Rightarrow> socket_end"
  ic_new_multi_sender :: "channel_id list \<Rightarrow> string \<Rightarrow> socket_end"

definition inter_channel_tcp :: inter_channel where
  "inter_channel_tcp =
    \<lparr>ic_new_receiver = (\<lambda>address channel. ClientEnd TcpTransport address channel),
     ic_new_sender = (\<lambda>address channel. ClientEnd TcpTransport address channel),
     ic_new_multi_receiver = (\<lambda>channels address. ServerEnd TcpTransport address channels),
     ic_new_multi_sender = (\<lambda>channels address. ServerEnd TcpTransport address channels)\<rparr>"

definition inter_channel_unix :: inter_channel where
  "inter_channel_unix =
    \<lparr>ic_new_receiver = (\<lambda>address channel. ClientEnd UnixTransport address channel),
     ic_new_sender = (\<lambda>address channel. ClientEnd UnixTransport address channel),
     ic_new_multi_receiver = (\<lambda>channels address. ServerEnd UnixTransport address channels),
     ic_new_multi_sender = (\<lambda>channels address. ServerEnd UnixTransport address channels)\<rparr>"

type_synonym 'a builder = "unit \<Rightarrow> 'a"

definition inter_multi_receiver_builder :: "inter_channel \<Rightarrow> channel_id list \<Rightarrow> string \<Rightarrow> socket_end builder" where
  "inter_multi_receiver_builder ic channels address = (\<lambda>_. ic_new_multi_receiver ic channels address)"

definition inter_receiver_builder :: "inter_channel \<Rightarrow> channel_id \<Rightarrow> string \<Rightarrow> socket_end builder" where
  "inter_receiver_builder ic channel address = (\<lambda>_. ic_new_receiver ic address channel)"

section \<open>Channels within a process\<close>

text \<open>
  A multi-receiver with its senders, and a multi-sender with its receivers, each named by its channel.
  Making a multi-sender panics on a duplicate channel (\<open>multi_sender_create\<close>).
\<close>

datatype intra_sender = IntraSender channel_id
datatype intra_receiver = IntraReceiver channel_id
datatype intra_multi = IntraMulti "channel_id list"

definition intra_multi_receiver_builder ::
  "channel_id list \<Rightarrow> intra_multi builder \<times> (channel_id \<times> intra_sender builder) list" where
  "intra_multi_receiver_builder channels =
    (let receiver = IntraMulti (remdups channels); senders = map (\<lambda>c. (c, IntraSender c)) (remdups channels)
     in (\<lambda>_. receiver, map (\<lambda>(c, sender). (c, \<lambda>_. sender)) senders))"

definition intra_multi_sender_builder ::
  "channel_id list \<Rightarrow> (intra_multi builder \<times> (channel_id \<times> intra_receiver builder) list) outcome" where
  "intra_multi_sender_builder channels =
    obind (multi_sender_create channels) (\<lambda>created.
    let sender = IntraMulti (map fst created); receivers = map (\<lambda>(c, _). (c, IntraReceiver c)) created
    in Ret (\<lambda>_. sender, map (\<lambda>(c, receiver). (c, \<lambda>_. receiver)) receivers))"

record worker_wiring =
  ww_sender :: intra_sender
  ww_receiver :: intra_receiver

definition worker_connector_builder ::
  "intra_sender builder \<Rightarrow> intra_receiver builder \<Rightarrow> worker_wiring builder" where
  "worker_connector_builder sender_builder receiver_builder =
    (let sender = sender_builder (); receiver = receiver_builder ()
     in (\<lambda>_. \<lparr>ww_sender = sender, ww_receiver = receiver\<rparr>))"

section \<open>Relays\<close>

record primary_receive_relay =
  prr_sender_builder :: "intra_sender builder option"
  prr_receiver_builder :: "socket_end builder option"
  prr_timeout :: duration
  prr_thread :: bool

definition primary_receive_relay_new ::
  "intra_sender builder \<Rightarrow> socket_end builder \<Rightarrow> duration \<Rightarrow> primary_receive_relay" where
  "primary_receive_relay_new sender receiver timeout =
    \<lparr>prr_sender_builder = Some sender, prr_receiver_builder = Some receiver, prr_timeout = timeout,
     prr_thread = False\<rparr>"

text \<open>
  \<open>run_and_connect\<close>: what the thread is started with. The handle of the thread is given to the caller by
  the primary and kept by the secondary (the flag says that there is one).
\<close>

definition primary_receive_run ::
  "(primary_receive_relay, socket_end builder \<times> intra_sender builder \<times> duration) io" where
  "primary_receive_run =
    io_bind (io_gets prr_receiver_builder) (\<lambda>r.
    io_bind (io_modify (prr_receiver_builder_update (\<lambda>_. None))) (\<lambda>_.
    io_bind (io_expect r) (\<lambda>receiver.
    io_bind (io_gets prr_sender_builder) (\<lambda>s.
    io_bind (io_modify (prr_sender_builder_update (\<lambda>_. None))) (\<lambda>_.
    io_bind (io_expect s) (\<lambda>sender.
    io_bind (io_gets prr_timeout) (\<lambda>timeout. io_return (receiver, sender, timeout))))))))"

record secondary_receive_relay =
  srr_receiver_builder :: "socket_end builder option"
  srr_sender_builder :: "intra_multi builder option"
  srr_activity_worker :: "(activity_id \<times> worker_id) list"
  srr_timeout :: duration
  srr_thread :: bool

definition secondary_receive_relay_new ::
  "(activity_id \<times> worker_id) list \<Rightarrow> intra_multi builder \<Rightarrow> socket_end builder \<Rightarrow> duration \<Rightarrow> secondary_receive_relay" where
  "secondary_receive_relay_new awm sender receiver timeout =
    \<lparr>srr_receiver_builder = Some receiver, srr_sender_builder = Some sender, srr_activity_worker = awm,
     srr_timeout = timeout, srr_thread = False\<rparr>"

definition secondary_receive_run ::
  "(secondary_receive_relay, intra_multi builder \<times> socket_end builder \<times> (activity_id \<times> worker_id) list \<times> duration) io" where
  "secondary_receive_run =
    io_bind (io_gets srr_receiver_builder) (\<lambda>r.
    io_bind (io_modify (srr_receiver_builder_update (\<lambda>_. None))) (\<lambda>_.
    io_bind (io_expect r) (\<lambda>receiver.
    io_bind (io_gets srr_sender_builder) (\<lambda>s.
    io_bind (io_modify (srr_sender_builder_update (\<lambda>_. None))) (\<lambda>_.
    io_bind (io_expect s) (\<lambda>sender.
    io_bind io_get (\<lambda>relay.
    io_bind (io_modify (srr_thread_update (\<lambda>_. True))) (\<lambda>_.
    io_return (sender, receiver, srr_activity_worker relay, srr_timeout relay)))))))))"

record primary_send_wiring =
  psw_remote_agents :: "agent_id list"
  psw_sender :: socket_end
  psw_timeout :: duration

definition primary_send_relay_new :: "agent_id list \<Rightarrow> socket_end \<Rightarrow> duration \<Rightarrow> primary_send_wiring" where
  "primary_send_relay_new remote_agents sender timeout =
    \<lparr>psw_remote_agents = remote_agents, psw_sender = sender, psw_timeout = timeout\<rparr>"

definition get_remote_agents :: "primary_send_wiring \<Rightarrow> agent_id list" where
  "get_remote_agents relay = psw_remote_agents relay"

record secondary_send_wiring =
  ssw_sender :: socket_end
  ssw_receiver :: intra_multi
  ssw_timeout :: duration

definition secondary_send_relay_new :: "socket_end \<Rightarrow> intra_multi \<Rightarrow> duration \<Rightarrow> secondary_send_wiring" where
  "secondary_send_relay_new sender receiver timeout =
    \<lparr>ssw_sender = sender, ssw_receiver = receiver, ssw_timeout = timeout\<rparr>"

section \<open>The connectors\<close>

text \<open>\<open>HashMap::remove\<close> followed by \<open>unwrap\<close>.\<close>

definition take_key :: "'k \<Rightarrow> ('k \<times> 'v) list \<Rightarrow> ('v \<times> ('k \<times> 'v) list) outcome" where
  "take_key k m = (case map_of m k of None \<Rightarrow> Panic | Some v \<Rightarrow> Ret (v, AList.delete k m))"

fun worker_builders ::
  "worker_id list \<Rightarrow> (channel_id \<times> intra_sender builder) list \<Rightarrow> (channel_id \<times> intra_receiver builder) list \<Rightarrow>
    (worker_id \<times> worker_wiring builder) list outcome" where
  "worker_builders [] senders receivers = Ret []"
| "worker_builders (w # ws) senders receivers =
    obind (take_key (ChWorker w) senders) (\<lambda>(sender, senders).
    obind (take_key (ChWorker w) receivers) (\<lambda>(receiver, receivers).
    obind (worker_builders ws senders receivers) (\<lambda>rest.
    Ret ((w, worker_connector_builder sender receiver) # rest))))"

record primary_wiring =
  pw_receiver :: intra_multi
  pw_receive_relay :: "primary_receive_relay option"
  pw_send_relay :: "primary_send_wiring option"
  pw_worker_sender :: intra_multi
  pw_builders :: "(worker_id \<times> worker_wiring builder) list"

definition wire_primary ::
  "inter_channel \<Rightarrow> agent_id \<Rightarrow> string \<Rightarrow> string \<Rightarrow> duration \<Rightarrow> (worker_id \<times> agent_id) list \<Rightarrow> primary_wiring outcome" where
  "wire_primary ic agent bind_senders bind_receivers timeout wam =
    (let local_workers = local_workers_of agent wam; remote_agents = remote_agents_of agent wam;
         (receiver_builder, senders) = intra_multi_receiver_builder (local_channels_of agent wam);
         receiver = receiver_builder () in
     obind (intra_multi_sender_builder (map ChWorker local_workers)) (\<lambda>(sender_builder, receivers).
     let worker_sender = sender_builder (); channel_ids = map ChAgent remote_agents in
     obind (if remote_agents \<noteq> [] then
         obind (take_key relay_channel senders) (\<lambda>(relay_sender, senders).
         Ret (Some (primary_receive_relay_new relay_sender (inter_multi_receiver_builder ic channel_ids bind_senders) timeout),
              Some (primary_send_relay_new remote_agents (ic_new_multi_sender ic channel_ids bind_receivers) timeout), senders))
       else Ret (None, None, senders)) (\<lambda>(receive_relay, send_relay, senders).
     obind (worker_builders local_workers senders receivers) (\<lambda>builders.
     Ret \<lparr>pw_receiver = receiver, pw_receive_relay = receive_relay, pw_send_relay = send_relay,
          pw_worker_sender = worker_sender, pw_builders = builders\<rparr>))))"

record secondary_wiring =
  sw_send_relay :: secondary_send_wiring
  sw_receive_relay :: secondary_receive_relay
  sw_builders :: "(worker_id \<times> worker_wiring builder) list"

definition wire_secondary ::
  "inter_channel \<Rightarrow> agent_id \<Rightarrow> (activity_id \<times> worker_id) list \<Rightarrow> string \<Rightarrow> string \<Rightarrow> duration \<Rightarrow> secondary_wiring outcome" where
  "wire_secondary ic agent awm bind_senders bind_receivers timeout =
    (let worker_ids = remdups (map snd awm); channel_ids = map ChWorker worker_ids;
         (receiver_builder, senders) = intra_multi_receiver_builder channel_ids;
         send_relay = secondary_send_relay_new (ic_new_sender ic bind_senders (ChAgent agent)) (receiver_builder ()) timeout in
     obind (intra_multi_sender_builder channel_ids) (\<lambda>(sender_builder, receivers).
     let receive_relay = secondary_receive_relay_new awm sender_builder
           (inter_receiver_builder ic (ChAgent agent) bind_receivers) timeout in
     obind (worker_builders worker_ids senders receivers) (\<lambda>builders.
     Ret \<lparr>sw_send_relay = send_relay, sw_receive_relay = receive_relay, sw_builders = builders\<rparr>)))"

text \<open>
  The connector for signalling within one process (\<open>direct/mpsc/scheduler.rs\<close>) keeps the ends for its
  workers and gives the builders of their connectors once.
\<close>

record mpsc_related =
  mr_receivers :: "(channel_id \<times> intra_receiver) list option"
  mr_senders :: "(channel_id \<times> intra_sender) list option"

definition mpsc_related_new :: "(activity_id \<times> worker_id) list \<Rightarrow> mpsc_related outcome" where
  "mpsc_related_new awm =
    (let channel_ids = remdups (map (\<lambda>(_, w). ChWorker w) awm) in
     obind (multi_sender_create channel_ids) (\<lambda>created.
     Ret \<lparr>mr_receivers = Some (map (\<lambda>(c, _). (c, IntraReceiver c)) created),
          mr_senders = Some (map (\<lambda>c. (c, IntraSender c)) channel_ids)\<rparr>))"

fun mpsc_connectors ::
  "(channel_id \<times> intra_receiver) list \<Rightarrow> (channel_id \<times> intra_sender) list \<Rightarrow> (worker_id \<times> worker_wiring) list outcome" where
  "mpsc_connectors [] senders = Ret []"
| "mpsc_connectors ((ChWorker w, r) # receivers) senders =
    obind (take_key (ChWorker w) senders) (\<lambda>(s, senders).
    obind (mpsc_connectors receivers senders) (\<lambda>rest. Ret ((w, \<lparr>ww_sender = s, ww_receiver = r\<rparr>) # rest)))"
| "mpsc_connectors ((_, r) # receivers) senders = Panic"

definition mpsc_worker_connector_builders :: "(mpsc_related, (worker_id \<times> worker_wiring builder) list) io" where
  "mpsc_worker_connector_builders =
    io_bind (io_gets mr_receivers) (\<lambda>receivers.
    io_bind (io_lift (oassert (receivers \<noteq> None))) (\<lambda>_.
    io_bind (io_modify (mr_receivers_update (\<lambda>_. None))) (\<lambda>_.
    io_bind (io_expect receivers) (\<lambda>receivers.
    io_bind (io_gets mr_senders) (\<lambda>senders.
    io_bind (io_modify (mr_senders_update (\<lambda>_. None))) (\<lambda>_.
    io_bind (io_expect senders) (\<lambda>senders.
    io_bind (io_lift (mpsc_connectors receivers senders)) (\<lambda>connectors.
    io_return (map (\<lambda>(w, connector). (w, \<lambda>_. connector)) connectors)))))))))"

section \<open>They fit\<close>

text \<open>A client reaches a server: the same transport and address, and the server expects its channel.\<close>

fun reaches :: "socket_end \<Rightarrow> socket_end \<Rightarrow> bool" where
  "reaches (ClientEnd t address channel) (ServerEnd u bound channels) \<longleftrightarrow>
    t = u \<and> address = bound \<and> channel \<in> set channels"
| "reaches _ _ \<longleftrightarrow> False"

text \<open>Each of the workers has one builder, of a connector with its own channels.\<close>

definition own_channels :: "worker_id list \<Rightarrow> (worker_id \<times> worker_wiring builder) list \<Rightarrow> bool" where
  "own_channels ws builders \<longleftrightarrow> map (\<lambda>(w, b). (w, b ())) builders
    = map (\<lambda>w. (w, \<lparr>ww_sender = IntraSender (ChWorker w), ww_receiver = IntraReceiver (ChWorker w)\<rparr>)) ws"

lemma worker_builders_own:
  assumes "distinct ws"
    and "\<And>w. w \<in> set ws \<Longrightarrow> map_of senders (ChWorker w) = Some (\<lambda>_. IntraSender (ChWorker w))"
    and "\<And>w. w \<in> set ws \<Longrightarrow> map_of receivers (ChWorker w) = Some (\<lambda>_. IntraReceiver (ChWorker w))"
  shows "\<exists>bs. worker_builders ws senders receivers = Ret bs \<and> own_channels ws bs"
  using assms
proof (induction ws arbitrary: senders receivers)
  case Nil
  then show ?case by (simp add: own_channels_def)
next
  case (Cons w ws)
  let ?s = "AList.delete (ChWorker w) senders" and ?r = "AList.delete (ChWorker w) receivers"
  have "\<exists>bs. worker_builders ws ?s ?r = Ret bs \<and> own_channels ws bs"
    using Cons.prems by (intro Cons.IH) (auto simp: AList.delete_conv')
  then obtain bs where bs: "worker_builders ws ?s ?r = Ret bs" "own_channels ws bs" by blast
  then show ?case
    using Cons.prems by (simp add: take_key_def own_channels_def worker_connector_builder_def)
qed

lemma map_of_named: "map_of (map (\<lambda>c. (c, f c)) cs) c = (if c \<in> set cs then Some (f c) else None)"
  by (induction cs) auto

lemma intra_senders: "map_of (snd (intra_multi_receiver_builder channels)) c
    = (if c \<in> set channels then Some (\<lambda>_. IntraSender c) else None)"
  by (simp add: intra_multi_receiver_builder_def comp_def map_of_named)

lemma intra_receivers:
  assumes "distinct channels"
  shows "\<exists>m. intra_multi_sender_builder channels = Ret (\<lambda>_. IntraMulti channels, m)
    \<and> (\<forall>c \<in> set channels. map_of m c = Some (\<lambda>_. IntraReceiver c))"
proof -
  have "intra_multi_sender_builder channels = Ret (\<lambda>_. IntraMulti channels, map (\<lambda>c. (c, \<lambda>_. IntraReceiver c)) channels)"
    using assms by (simp add: intra_multi_sender_builder_def multi_sender_create_def comp_def)
  moreover have "map_of (map (\<lambda>c. (c, \<lambda>_. IntraReceiver c)) channels) c = Some (\<lambda>_. IntraReceiver c)"
    if "c \<in> set channels" for c :: channel_id
    using that by (simp add: map_of_named)
  ultimately show ?thesis by blast
qed

lemma local_workers_distinct: "distinct (map fst wam) \<Longrightarrow> distinct (local_workers_of agent wam)"
  by (simp add: local_workers_of_def distinct_map_filter)

lemma distinct_workers: "distinct ws \<Longrightarrow> distinct (map ChWorker ws)"
  by (simp add: distinct_map inj_on_def)

lemma wire_primary_ok:
  assumes "distinct (map fst wam)"
  shows "\<exists>p. wire_primary ic agent bind_senders bind_receivers timeout wam = Ret p
    \<and> own_channels (local_workers_of agent wam) (pw_builders p)
    \<and> (let remote = remote_agents_of agent wam; ids = map ChAgent remote in
       pw_receive_relay p = (if remote = [] then None else Some (primary_receive_relay_new (\<lambda>_. IntraSender relay_channel)
           (inter_multi_receiver_builder ic ids bind_senders) timeout))
       \<and> pw_send_relay p = (if remote = [] then None
           else Some (primary_send_relay_new remote (ic_new_multi_sender ic ids bind_receivers) timeout)))"
proof -
  let ?ws = "local_workers_of agent wam" and ?remote = "remote_agents_of agent wam"
  let ?channels = "local_channels_of agent wam"
  obtain rb senders where r: "intra_multi_receiver_builder ?channels = (rb, senders)" by fastforce
  have look: "map_of senders c = (if c \<in> set ?channels then Some (\<lambda>_. IntraSender c) else None)" for c
    using intra_senders [of ?channels c] r by simp
  have relay: "relay_channel \<in> set ?channels" by (simp add: local_channels_of_def)
  have other: "ChWorker w \<noteq> relay_channel" for w by (simp add: relay_channel_def)
  from intra_receivers [OF distinct_workers [OF local_workers_distinct [OF assms]]] obtain m where
    m: "intra_multi_sender_builder (map ChWorker ?ws) = Ret (\<lambda>_. IntraMulti (map ChWorker ?ws), m)"
    "\<And>w. w \<in> set ?ws \<Longrightarrow> map_of m (ChWorker w) = Some (\<lambda>_. IntraReceiver (ChWorker w))"
    by (metis imageI list.set_map)
  have own: "\<exists>bs. worker_builders ?ws s m = Ret bs \<and> own_channels ?ws bs"
    if "s = senders \<or> s = AList.delete relay_channel senders" for s
    by (rule worker_builders_own [OF local_workers_distinct [OF assms]])
      (use that look other m(2) in \<open>auto simp: local_channels_of_def AList.delete_conv'\<close>)
  obtain b1 where b1: "worker_builders ?ws senders m = Ret b1" "own_channels ?ws b1" using own by blast
  obtain b2 where b2: "worker_builders ?ws (AList.delete relay_channel senders) m = Ret b2" "own_channels ?ws b2"
    using own by blast
  show ?thesis
    using b1 b2 look relay by (simp add: wire_primary_def r m(1) Let_def take_key_def)
qed

lemma wire_secondary_ok:
  "\<exists>q. wire_secondary ic agent awm bind_senders bind_receivers timeout = Ret q
    \<and> own_channels (remdups (map snd awm)) (sw_builders q)
    \<and> ssw_sender (sw_send_relay q) = ic_new_sender ic bind_senders (ChAgent agent)
    \<and> (\<exists>b. sw_receive_relay q = secondary_receive_relay_new awm b (inter_receiver_builder ic (ChAgent agent) bind_receivers) timeout)"
proof -
  let ?ws = "remdups (map snd awm)"
  obtain rb senders where r: "intra_multi_receiver_builder (map ChWorker ?ws) = (rb, senders)" by fastforce
  have look: "map_of senders c = (if c \<in> set (map ChWorker ?ws) then Some (\<lambda>_. IntraSender c) else None)" for c
    using intra_senders [of "map ChWorker ?ws" c] r by simp
  have "distinct ?ws" by simp
  from intra_receivers [OF distinct_workers [OF this]] obtain m where
    m: "intra_multi_sender_builder (map ChWorker ?ws) = Ret (\<lambda>_. IntraMulti (map ChWorker ?ws), m)"
    "\<And>w. w \<in> set ?ws \<Longrightarrow> map_of m (ChWorker w) = Some (\<lambda>_. IntraReceiver (ChWorker w))"
    by (metis imageI list.set_map)
  have "\<exists>bs. worker_builders ?ws senders m = Ret bs \<and> own_channels ?ws bs"
    by (rule worker_builders_own) (use look m(2) in auto)
  then show ?thesis
    by (auto simp: wire_secondary_def r m(1) Let_def secondary_send_relay_new_def)
qed

lemma mpsc_connectors_own:
  assumes "distinct ws" and "\<And>w. w \<in> set ws \<Longrightarrow> map_of senders (ChWorker w) = Some (IntraSender (ChWorker w))"
  shows "mpsc_connectors (map (\<lambda>w. (ChWorker w, IntraReceiver (ChWorker w))) ws) senders
    = Ret (map (\<lambda>w. (w, \<lparr>ww_sender = IntraSender (ChWorker w), ww_receiver = IntraReceiver (ChWorker w)\<rparr>)) ws)"
  using assms
proof (induction ws arbitrary: senders)
  case Nil
  then show ?case by simp
next
  case (Cons w ws)
  have "mpsc_connectors (map (\<lambda>w. (ChWorker w, IntraReceiver (ChWorker w))) ws) (AList.delete (ChWorker w) senders)
    = Ret (map (\<lambda>w. (w, \<lparr>ww_sender = IntraSender (ChWorker w), ww_receiver = IntraReceiver (ChWorker w)\<rparr>)) ws)"
    using Cons.prems by (intro Cons.IH) (auto simp: AList.delete_conv')
  then show ?case using Cons.prems by (simp add: take_key_def)
qed

text \<open>Within one process, too, every worker gets one connector with its own channels, and only once.\<close>

lemma mpsc_builders_fit:
  "\<exists>m bs m'. mpsc_related_new awm = Ret m \<and> mpsc_worker_connector_builders m = (Ret bs, m')
    \<and> own_channels (remdups (map snd awm)) bs \<and> fst (mpsc_worker_connector_builders m') = Panic"
proof -
  let ?ws = "remdups (map snd awm)"
  have ids: "remdups (map (\<lambda>(_, w). ChWorker w) awm) = map ChWorker ?ws"
    by (induction awm) force+
  let ?rs = "map (\<lambda>w. (ChWorker w, IntraReceiver (ChWorker w))) ?ws" and ?ss = "map (\<lambda>c. (c, IntraSender c)) (map ChWorker ?ws)"
  let ?m = "\<lparr>mr_receivers = Some ?rs, mr_senders = Some ?ss\<rparr>"
  have d: "distinct (map ChWorker ?ws)" by (rule distinct_workers) simp
  then have new: "mpsc_related_new awm = Ret ?m"
    by (simp only: mpsc_related_new_def ids Let_def) (simp add: multi_sender_create_def comp_def)
  have "map_of ?ss (ChWorker w) = Some (IntraSender (ChWorker w))" if "w \<in> set ?ws" for w
    using that by (simp only: map_of_named) simp
  then have own: "mpsc_connectors ?rs ?ss
    = Ret (map (\<lambda>w. (w, \<lparr>ww_sender = IntraSender (ChWorker w), ww_receiver = IntraReceiver (ChWorker w)\<rparr>)) ?ws)"
    by (intro mpsc_connectors_own) simp_all
  let ?bs = "map (\<lambda>(w, connector). (w, \<lambda>_. connector))
    (map (\<lambda>w. (w, \<lparr>ww_sender = IntraSender (ChWorker w), ww_receiver = IntraReceiver (ChWorker w)\<rparr>)) ?ws)"
  have "mpsc_worker_connector_builders ?m = (Ret ?bs, \<lparr>mr_receivers = None, mr_senders = None\<rparr>)"
    by (simp only: mpsc_worker_connector_builders_def) (simp add: io_defs oassert_def own del: map_map list.map)
  moreover have "own_channels ?ws ?bs" by (simp add: own_channels_def comp_def)
  moreover have "fst (mpsc_worker_connector_builders \<lparr>mr_receivers = None, mr_senders = None\<rparr>) = Panic"
    by (simp add: mpsc_worker_connector_builders_def io_defs oassert_def)
  ultimately show ?thesis using new by blast
qed

text \<open>
  C29: A primary and its secondaries with relayed signalling are wired together. For TCP and for Unix
  sockets, a primary that knows each worker once and a secondary that hosts a worker the primary
  knows: both can be built; the secondary's sender connects to the socket on which the primary's
  receive relay listens, its receiver to the one of the primary's send relay, both of which expect the
  agent; in either process each worker gets one connector, with channels of its own; and a receive
  relay can be started once, its second start panics.
\<close>

theorem relayed_wiring_fits:
  assumes "distinct (map fst wam)" and "agent \<noteq> primary" and "(w, agent) \<in> set wam"
    and "ic \<in> {inter_channel_tcp, inter_channel_unix}"
  shows "\<exists>p q rr sr start srv. wire_primary ic primary bind_senders bind_receivers timeout wam = Ret p
    \<and> wire_secondary ic agent awm bind_senders bind_receivers timeout' = Ret q
    \<and> pw_receive_relay p = Some rr \<and> pw_send_relay p = Some sr
    \<and> fst (primary_receive_run rr) = Ret start \<and> fst (io_bind primary_receive_run (\<lambda>_. primary_receive_run) rr) = Panic
    \<and> reaches (ssw_sender (sw_send_relay q)) (fst start ())
    \<and> fst (secondary_receive_run (sw_receive_relay q)) = Ret srv
    \<and> fst (io_bind secondary_receive_run (\<lambda>_. secondary_receive_run) (sw_receive_relay q)) = Panic
    \<and> reaches (fst (snd srv) ()) (psw_sender sr) \<and> set (get_remote_agents sr) = set (remote_agents_of primary wam)
    \<and> own_channels (local_workers_of primary wam) (pw_builders p)
    \<and> own_channels (remdups (map snd awm)) (sw_builders q)"
proof -
  have agent: "agent \<in> set (remote_agents_of primary wam)"
    using assms(2,3) by (force simp: remote_agents_of_def)
  then have remote: "remote_agents_of primary wam \<noteq> []" by auto
  let ?ids = "map ChAgent (remote_agents_of primary wam)"
  from wire_primary_ok [OF assms(1), of ic primary bind_senders bind_receivers timeout] remote obtain p where
    p: "wire_primary ic primary bind_senders bind_receivers timeout wam = Ret p"
    "own_channels (local_workers_of primary wam) (pw_builders p)"
    "pw_receive_relay p = Some (primary_receive_relay_new (\<lambda>_. IntraSender relay_channel)
      (inter_multi_receiver_builder ic ?ids bind_senders) timeout)"
    "pw_send_relay p = Some (primary_send_relay_new (remote_agents_of primary wam)
      (ic_new_multi_sender ic ?ids bind_receivers) timeout)"
    by (auto simp: Let_def)
  from wire_secondary_ok [of ic agent awm bind_senders bind_receivers timeout'] obtain q b where
    q: "wire_secondary ic agent awm bind_senders bind_receivers timeout' = Ret q"
    "own_channels (remdups (map snd awm)) (sw_builders q)"
    "ssw_sender (sw_send_relay q) = ic_new_sender ic bind_senders (ChAgent agent)"
    "sw_receive_relay q = secondary_receive_relay_new awm b (inter_receiver_builder ic (ChAgent agent) bind_receivers) timeout'"
    by blast
  have "reaches (ic_new_sender ic bind_senders (ChAgent agent)) (ic_new_multi_receiver ic ?ids bind_senders)"
    "reaches (ic_new_receiver ic bind_receivers (ChAgent agent)) (ic_new_multi_sender ic ?ids bind_receivers)"
    using assms(4) agent by (auto simp: inter_channel_tcp_def inter_channel_unix_def)
  then show ?thesis
    using p q
    by (simp add: primary_receive_run_def secondary_receive_run_def primary_receive_relay_new_def io_defs
        secondary_receive_relay_new_def primary_send_relay_new_def get_remote_agents_def
        inter_multi_receiver_builder_def inter_receiver_builder_def)
qed

theorem relayed_wiring_fits_witness:
  "\<exists>p q rr sr. wire_primary inter_channel_tcp (GenericId 100) ''a'' ''b'' 5
      [(GenericId 40, GenericId 100), (GenericId 41, GenericId 101)] = Ret p
    \<and> wire_secondary inter_channel_tcp (GenericId 101) [(GenericId 7, GenericId 41)] ''a'' ''b'' 5 = Ret q
    \<and> pw_receive_relay p = Some rr \<and> pw_send_relay p = Some sr
    \<and> own_channels [GenericId 41] (sw_builders q)"
  using relayed_wiring_fits [of "[(GenericId 40, GenericId 100), (GenericId 41, GenericId 101)]" "GenericId 101" "GenericId 100"
      "GenericId 41" inter_channel_tcp "''a''" "''b''" 5 "[(GenericId 7, GenericId 41)]" 5] by auto

end
