(* ===== verification/Feo_Unit_Tests.thy ===== *)
theory Feo_Unit_Tests
  imports Feo_Scheduler Feo_Wire
begin

text \<open>
  The unit tests of the repository as programs over the model (\<open>feo-time/src/tests.rs\<close>, the modules
  of tests of \<open>scheduler.rs\<close> and \<open>common/socket/mod.rs\<close>): an assertion that fails is a panic, a
  test passes when it returns. The readings of the raw clocks are arguments, so the tests of the
  clock pass for every clock in the range they are written for.
\<close>

section \<open>The clock\<close>

text \<open>The macro \<open>assert_almost_eq!\<close>; \<open>subtract\<close> is the subtraction of its type, which can panic.\<close>

definition almost_eq :: "('a::linorder \<Rightarrow> duration \<Rightarrow> 'a outcome) \<Rightarrow> 'a \<Rightarrow> 'a \<Rightarrow> unit outcome" where
  "almost_eq subtract a b =
    (if a = b then Ret ()
     else obind (subtract (max a b) (dur_from_micros 1)) (\<lambda>x. oassert (x \<le> min a b)))"

fun monotonic_loop :: "time_globals \<Rightarrow> instant \<Rightarrow> instant list \<Rightarrow> unit outcome" where
  "monotonic_loop g a [] = Hang"
| "monotonic_loop g a (raw # raws) =
    obind (instant_now g raw) (\<lambda>b.
    obind (oassert (a \<le> b)) (\<lambda>_. if a < b then Ret () else monotonic_loop g a raws))"

definition instant_monotonic :: "time_globals \<Rightarrow> instant list \<Rightarrow> unit outcome" where
  "instant_monotonic g raws =
    (case raws of [] \<Rightarrow> Hang | raw # raws \<Rightarrow> obind (instant_now g raw) (\<lambda>a. monotonic_loop g a raws))"

fun monotonic_thread :: "time_globals \<Rightarrow> instant \<Rightarrow> instant list \<Rightarrow> unit outcome" where
  "monotonic_thread g old [] = Ret ()"
| "monotonic_thread g old (raw # raws) =
    obind (instant_now g raw) (\<lambda>new. obind (oassert (old \<le> new)) (\<lambda>_. monotonic_thread g new raws))"

fun instant_monotonic_concurrent :: "time_globals \<Rightarrow> (instant \<times> instant list) list \<Rightarrow> unit outcome" where
  "instant_monotonic_concurrent g [] = Ret ()"
| "instant_monotonic_concurrent g ((raw, raws) # threads) =
    obind (obind (instant_now g raw) (\<lambda>old. monotonic_thread g old raws)) (\<lambda>_.
    instant_monotonic_concurrent g threads)"

definition max_seconds :: duration where
  "max_seconds = dur_from_secs (- 1)"

definition instant_math :: "time_globals \<Rightarrow> instant \<Rightarrow> instant \<Rightarrow> instant \<Rightarrow> unit outcome" where
  "instant_math g r1 r2 r3 =
    obind (instant_now g r1) (\<lambda>a.
    obind (instant_now g r2) (\<lambda>b.
    let dur = duration_since b a in
    obind (instant_sub b dur) (\<lambda>x. obind (almost_eq instant_sub x a) (\<lambda>_.
    obind (instant_add a dur) (\<lambda>x. obind (almost_eq instant_sub x b) (\<lambda>_.
    let second = dur_from_secs 1 in
    obind (instant_sub a second) (\<lambda>x. obind (instant_add x second) (\<lambda>x. obind (almost_eq instant_sub x a) (\<lambda>_.
    obind (expect_ret (instant_checked_sub a second)) (\<lambda>x. obind (expect_ret (instant_checked_add x second)) (\<lambda>x.
    obind (almost_eq instant_sub x a) (\<lambda>_.
    obind (instant_now g r3) (\<lambda>t.
    let maybe_t = Option.bind (Option.bind (Some t) (\<lambda>t. instant_checked_add t max_seconds))
          (\<lambda>t. instant_checked_add t max_seconds) in
    obind (oassert (maybe_t = None)) (\<lambda>_.
    let year = dur_from_secs (60 * 60 * 24 * 365) in
    obind (instant_add a year) (\<lambda>x. obind (expect_ret (instant_checked_add a year)) (\<lambda>y.
    oassert (x = y)))))))))))))))))"

definition instant_math_is_associative :: "time_globals \<Rightarrow> instant \<Rightarrow> instant \<Rightarrow> unit outcome" where
  "instant_math_is_associative g r1 r2 =
    obind (instant_now g r1) (\<lambda>now.
    let offset = dur_from_millis 5 in
    obind (instant_add now offset) (\<lambda>x.
    obind (dur_add (instant_diff now now) offset) (\<lambda>y.
    obind (oassert (instant_diff x now = y)) (\<lambda>_.
    obind (instant_now g r2) (\<lambda>now.
    let provided_offset = dur_from_nanos 1 in
    obind (instant_add now provided_offset) (\<lambda>later.
    let measured_offset = instant_diff later now in
    oassert (measured_offset = provided_offset)))))))"

definition instant_duration_since_saturates :: "time_globals \<Rightarrow> instant \<Rightarrow> unit outcome" where
  "instant_duration_since_saturates g r =
    obind (instant_now g r) (\<lambda>a.
    obind (instant_sub a (dur_from_secs 1)) (\<lambda>x. oassert (duration_since x a = dur_zero)))"

definition instant_checked_duration_since_nopanic :: "time_globals \<Rightarrow> instant \<Rightarrow> unit outcome" where
  "instant_checked_duration_since_nopanic g r =
    obind (instant_now g r) (\<lambda>now.
    obind (instant_sub now (dur_from_secs 1)) (\<lambda>earlier.
    obind (instant_add now (dur_from_secs 1)) (\<lambda>later.
    obind (oassert (checked_duration_since earlier now = None)) (\<lambda>_.
    obind (oassert (checked_duration_since later now = Some (dur_from_secs 1))) (\<lambda>_.
    oassert (checked_duration_since now now = Some dur_zero))))))"

definition instant_saturating_duration_since_nopanic :: "time_globals \<Rightarrow> instant \<Rightarrow> unit outcome" where
  "instant_saturating_duration_since_nopanic g r =
    obind (instant_now g r) (\<lambda>a.
    obind (instant_sub a (dur_from_secs 1)) (\<lambda>x. oassert (saturating_duration_since x a = dur_zero)))"

text \<open>\<open>unwrap\<close> and \<open>unwrap_err\<close> of a distance between system times.\<close>

definition distance_ok :: "duration + duration \<Rightarrow> duration outcome" where
  "distance_ok r = (case r of Inl _ \<Rightarrow> Panic | Inr d \<Rightarrow> Ret d)"

definition distance_err :: "duration + duration \<Rightarrow> duration outcome" where
  "distance_err r = (case r of Inl d \<Rightarrow> Ret d | Inr _ \<Rightarrow> Panic)"

definition system_time_math :: "time_globals \<Rightarrow> systime \<Rightarrow> systime \<Rightarrow> unit outcome" where
  "system_time_math g r1 r2 =
    obind (systime_now g r1) (\<lambda>a.
    obind (systime_now g r2) (\<lambda>b.
    obind (case systime_duration_since b a of
        Inr dur \<Rightarrow>
          if dur = dur_zero then almost_eq systime_sub a b
          else obind (oassert (a < b)) (\<lambda>_.
            obind (systime_sub b dur) (\<lambda>x. obind (almost_eq systime_sub x a) (\<lambda>_.
            obind (systime_add a dur) (\<lambda>x. almost_eq systime_sub x b))))
      | Inl dur \<Rightarrow> obind (oassert (b < a)) (\<lambda>_.
          obind (systime_add b dur) (\<lambda>x. obind (almost_eq systime_sub x a) (\<lambda>_.
          obind (systime_sub a dur) (\<lambda>x. almost_eq systime_sub x b))))) (\<lambda>_.
    let second = dur_from_secs 1 in
    obind (systime_sub a second) (\<lambda>x. obind (distance_ok (systime_duration_since a x)) (\<lambda>d.
    obind (almost_eq dur_sub d second) (\<lambda>_.
    obind (systime_add a second) (\<lambda>x. obind (distance_err (systime_duration_since a x)) (\<lambda>d.
    obind (almost_eq dur_sub d second) (\<lambda>_.
    obind (systime_sub a second) (\<lambda>x. obind (systime_add x second) (\<lambda>x. obind (almost_eq systime_sub x a) (\<lambda>_.
    obind (expect_ret (systime_checked_sub a second)) (\<lambda>x. obind (expect_ret (systime_checked_add x second)) (\<lambda>x.
    obind (almost_eq systime_sub x a) (\<lambda>_.
    obind (systime_add unix_epoch (dur_from_secs 1)) (\<lambda>one_second_from_epoch.
    obind (systime_add unix_epoch (dur_from_millis 500)) (\<lambda>x. obind (systime_add x (dur_from_millis 500)) (\<lambda>one_second_from_epoch2.
    obind (oassert (one_second_from_epoch = one_second_from_epoch2)) (\<lambda>_.
    let maybe_t = Option.bind (Option.bind (Some unix_epoch) (\<lambda>t. systime_checked_add t max_seconds))
          (\<lambda>t. systime_checked_add t max_seconds) in
    obind (oassert (maybe_t = None)) (\<lambda>_.
    let year = dur_from_secs (60 * 60 * 24 * 365) in
    obind (systime_add a year) (\<lambda>x. obind (expect_ret (systime_checked_add a year)) (\<lambda>y.
    oassert (x = y)))))))))))))))))))))))"

definition since_epoch_test :: "time_globals \<Rightarrow> systime \<Rightarrow> unit outcome" where
  "since_epoch_test g r =
    obind (systime_now g r) (\<lambda>ts.
    obind (systime_add unix_epoch (dur_from_secs 1)) (\<lambda>x. obind (distance_ok (systime_duration_since ts x)) (\<lambda>a.
    obind (distance_ok (systime_duration_since ts unix_epoch)) (\<lambda>b.
    obind (oassert (a < b)) (\<lambda>_.
    obind (dur_sub b a) (\<lambda>d. obind (oassert (d = dur_from_secs 1)) (\<lambda>_.
    obind (dur_mul (dur_from_secs 1) 60) (\<lambda>d. obind (dur_mul d 60) (\<lambda>d. obind (dur_mul d 24) (\<lambda>d.
    obind (dur_mul d 365) (\<lambda>d. obind (dur_mul d 30) (\<lambda>thirty_years.
    obind (oassert (thirty_years < a)) (\<lambda>_.
    obind (dur_mul thirty_years 4) (\<lambda>hundred_twenty_years.
    oassert (a < hundred_twenty_years)))))))))))))))"

definition big_durations :: "duration list" where
  "big_durations = [dur_from_secs 0x7FFFFFFFFFFFFFFF, dur_from_secs 50]"

definition big_check :: "'t option \<Rightarrow> ('t \<Rightarrow> duration \<Rightarrow> 't option) \<Rightarrow> unit outcome" where
  "big_check start op =
    (case start of None \<Rightarrow> Ret ()
     | Some start \<Rightarrow> obind (dur_sum big_durations) (\<lambda>sum.
         oassert (op start sum = fold (\<lambda>d t. Option.bind t (\<lambda>t. op t d)) big_durations (Some start))))"

definition big_math :: "time_globals \<Rightarrow> instant \<Rightarrow> unit outcome" where
  "big_math g r =
    obind (big_check (systime_checked_sub unix_epoch (dur_from_secs 100)) systime_checked_add) (\<lambda>_.
    obind (big_check (systime_checked_add unix_epoch (dur_from_secs 100)) systime_checked_sub) (\<lambda>_.
    obind (instant_now g r) (\<lambda>instant.
    obind (big_check (instant_checked_sub instant (dur_from_secs 100)) instant_checked_add) (\<lambda>_.
    obind (big_check (instant_checked_sub instant (dur_from_secs 0x7FFFFFFFFFFFFFFF)) instant_checked_add) (\<lambda>_.
    obind (big_check (instant_checked_add instant (dur_from_secs 100)) instant_checked_sub) (\<lambda>_.
    big_check (instant_checked_add instant (dur_from_secs 0x7FFFFFFFFFFFFFFF)) instant_checked_sub))))))"

text \<open>This test is expected to panic, at its last line; what it returns before says that it got there.\<close>

definition set_speed_twice :: "systime \<Rightarrow> instant \<Rightarrow> time_globals \<Rightarrow> time_globals outcome \<times> time_globals outcome" where
  "set_speed_twice s i g =
    (let first = obind (oassert (get_speed g = None)) (\<lambda>_. obind (speed 2 s i g) (\<lambda>g.
         obind (oassert (get_speed g = Some 2)) (\<lambda>_. Ret g)))
     in (first, obind first (\<lambda>g. speed 3 s i g)))"

section \<open>The scheduler\<close>

record mock_state =
  mk_sent :: "(activity_id \<times> signal) list"
  mk_broadcasted :: "signal list"
  mk_queue :: "signal list"
  mk_agents :: "agent_id list"
  mk_clock :: nat

definition mock_default :: mock_state where
  "mock_default = \<lparr>mk_sent = [], mk_broadcasted = [], mk_queue = [], mk_agents = [], mk_clock = 0\<rparr>"

definition mock_connector :: "mock_state connect_scheduler" where
  "mock_connector =
    \<lparr>cs_connect_remotes = io_return (Inr ()), cs_sync_time = io_return (Inr ()), cs_connected_agents = mk_agents,
     cs_receive = (\<lambda>_ s. case mk_queue s of [] \<Rightarrow> (Ret (Inr None), s) | x # xs \<Rightarrow> (Ret (Inr (Some x)), s\<lparr>mk_queue := xs\<rparr>)),
     cs_send_to_activity = (\<lambda>i sig. io_bind (io_modify (\<lambda>s. s\<lparr>mk_sent := mk_sent s @ [(i, sig)]\<rparr>)) (\<lambda>_. io_return (Inr ()))),
     cs_broadcast_terminate = (\<lambda>sig.
       io_bind (io_modify (\<lambda>s. s\<lparr>mk_broadcasted := mk_broadcasted s @ [sig]\<rparr>)) (\<lambda>_. io_return (Inr ())))\<rparr>"

text \<open>A platform whose clock goes on by five milliseconds whenever it is read.\<close>

definition mock_platform :: "mock_state platform" where
  "mock_platform =
    \<lparr>pf_now = (\<lambda>s. (Ret (int (mk_clock s) * 5000000), s\<lparr>mk_clock := Suc (mk_clock s)\<rparr>)),
     pf_timestamp = (\<lambda>s. (Ret (Timestamp (mk_clock s)), s)), pf_sleep = (\<lambda>_. io_return ()),
     pf_shutdown_requested = io_return False, pf_sync_info = io_return (SyncInfo 0),
     pf_initialize_from = (\<lambda>_. io_return ())\<rparr>"

definition test_scheduler :: "(activity_id \<times> activity_id list) list \<Rightarrow> mock_state scheduler" where
  "test_scheduler depends = scheduler_new (GenericId 1) (dur_from_millis 10) (dur_from_millis 10) (dur_from_millis 10)
    depends mock_default"

definition set_state :: "activity_id \<Rightarrow> (activity_state \<Rightarrow> activity_state) \<Rightarrow> mock_state scheduler \<Rightarrow> mock_state scheduler" where
  "set_state i f s = s\<lparr>sc_states := modify_key i f (sc_states s)\<rparr>"

definition test_step_ready_activities :: "unit outcome" where
  "test_step_ready_activities =
    (let id_a = GenericId 1; id_b = GenericId 2; id_c = GenericId 3;
         s = test_scheduler [(id_a, []), (id_b, []), (id_c, [id_a, id_b])];
         s = set_state id_a (\<lambda>st. st\<lparr>triggered := True, ready := True\<rparr>) s;
         s = set_state id_b (\<lambda>st. st\<lparr>triggered := True, ready := True\<rparr>) s
     in case step_ready_activities mock_connector mock_platform s of (r, s) \<Rightarrow>
       obind r (\<lambda>_.
       obind (expect_ret (map_of (sc_states s) id_c)) (\<lambda>st. obind (oassert (triggered st)) (\<lambda>_.
       let sent = mk_sent (sc_world s) in
       obind (oassert (length sent = 1)) (\<lambda>_.
       obind (oassert (fst (sent ! 0) = id_c)) (\<lambda>_.
       oassert (case snd (sent ! 0) of Step i t \<Rightarrow> True | _ \<Rightarrow> False)))))))"

definition test_graceful_shutdown_only_started_activities :: "nat \<Rightarrow> unit outcome" where
  "test_graceful_shutdown_only_started_activities n =
    (let id_1 = GenericId 1; id_2 = GenericId 2; id_3 = GenericId 3;
         s = test_scheduler [(id_1, []), (id_2, []), (id_3, [])];
         s = set_state id_1 (\<lambda>st. st\<lparr>ever_ready := True\<rparr>) s;
         s = set_state id_2 (\<lambda>st. st\<lparr>ever_ready := True\<rparr>) s;
         s = set_state id_3 (\<lambda>st. st\<lparr>ever_ready := False\<rparr>) s
     in case shutdown_gracefully n mock_connector mock_platform s of (r, s) \<Rightarrow>
       obind r (\<lambda>_.
       let sent = mk_sent (sc_world s); sent_ids = btree_set (map fst sent) in
       obind (oassert (length sent = 2)) (\<lambda>_.
       obind (oassert (id_1 \<in> set sent_ids)) (\<lambda>_.
       obind (oassert (id_2 \<in> set sent_ids)) (\<lambda>_.
       oassert (id_3 \<notin> set sent_ids))))))"

section \<open>The wire format\<close>

definition test_signals :: "(protocol_signal \<times> nat) list" where
  "test_signals =
    (let timestamp = Timestamp (dur_from_secs 1) in
     [(Core (Startup (GenericId 123) timestamp), 26), (Core (Step (GenericId 123) timestamp), 26),
      (Core (Shutdown (GenericId 123) timestamp), 26), (Core (Ready (GenericId 123) timestamp), 26),
      (Core (ActivityFailed (GenericId 123) AStep), 11), (ActivityHello (GenericId 123), 10),
      (Core (Terminate timestamp), 18), (Core (TerminateAck (GenericId 123)), 10)])"

fun connector_signal_roundtrips :: "(protocol_signal \<times> nat) list \<Rightarrow> unit outcome" where
  "connector_signal_roundtrips [] = Ret ()"
| "connector_signal_roundtrips ((signal, consumed_bytes) # rest) =
    obind (oassert (length (encode signal) \<le> 128)) (\<lambda>_.
    let buffer = encode signal @ replicate (128 - length (encode signal)) 0 in
    obind (try_decode buffer) (\<lambda>r. obind (expect_ret r) (\<lambda>(decoded, consumed).
    obind (oassert (decoded = signal)) (\<lambda>_.
    obind (oassert (consumed = consumed_bytes)) (\<lambda>_. connector_signal_roundtrips rest)))))"

section \<open>They pass\<close>

lemmas clock_defs = instant_now_def systime_now_def almost_eq_def oassert_def instant_sub_def instant_add_def
  systime_sub_def systime_add_def instant_checked_sub_def instant_checked_add_def systime_checked_sub_def
  systime_checked_add_def expect_ret_def clock_min_def clock_max_def dur_from_secs_def dur_from_micros_def
  dur_from_millis_def dur_from_nanos_def nanos_per_sec_def Let_def max_seconds_def

text \<open>An unscaled clock, and readings that leave room for a second below and a year above.\<close>

definition clock_reading :: "int \<Rightarrow> bool" where
  "clock_reading r \<longleftrightarrow> 0 \<le> r \<and> r \<le> 2 ^ 62 * 1000000000"

lemma unat_minus_one_64: "unat (- 1 :: u64) = 2 ^ 64 - 1"
  by (simp add: unsigned_minus_1_eq_mask mask_eq_exp_minus_1)

lemma monotonic_loop_passes:
  "tg_factor g = 0 \<Longrightarrow> sorted (a # raws) \<Longrightarrow> a < last (a # raws) \<Longrightarrow> monotonic_loop g a raws = Ret ()"
proof (induction raws)
  case Nil
  then show ?case by simp
next
  case (Cons raw raws)
  then show ?case by (cases "a < raw") (auto simp: instant_now_def oassert_def split: if_splits)
qed

lemma monotonic_thread_passes:
  "tg_factor g = 0 \<Longrightarrow> sorted (old # raws) \<Longrightarrow> monotonic_thread g old raws = Ret ()"
  by (induction raws arbitrary: old) (auto simp: instant_now_def oassert_def)

lemma monotonic_threads_pass:
  "tg_factor g = 0 \<Longrightarrow> list_all (\<lambda>(raw, raws). sorted (raw # raws)) threads \<Longrightarrow>
    instant_monotonic_concurrent g threads = Ret ()"
  by (induction threads) (auto simp: instant_now_def monotonic_thread_passes)

lemma instant_math_passes:
  assumes "tg_factor g = 0" "clock_reading r1" "clock_reading r2" "clock_reading r3" "r1 \<le> r2"
  shows "instant_math g r1 r2 r3 = Ret ()"
  using assms
  by (simp add: instant_math_def clock_defs clock_reading_def duration_since_nat unat_minus_one_64)

lemma system_time_math_passes:
  assumes "tg_factor g = 0" "clock_reading r1" "clock_reading r2"
  shows "system_time_math g r1 r2 = Ret ()"
proof -
  consider "r1 = r2" | "r1 < r2" | "r2 < r1" by linarith
  then show ?thesis
    using assms
    by cases (simp_all add: system_time_math_def clock_defs clock_reading_def systime_duration_since_def dur_zero_def
      unat_minus_one_64 distance_ok_def distance_err_def dur_sub_def unix_epoch_def)
qed

lemma since_epoch_test_passes:
  assumes "tg_factor g = 0" "946080000 * 1000000000 + 1000000000 < r" "r < 3784320000 * 1000000000"
  shows "since_epoch_test g r = Ret ()"
  using assms
  by (simp add: since_epoch_test_def clock_defs systime_duration_since_def distance_ok_def dur_sub_def unix_epoch_def
      dur_mul_def dur_checked_def duration_max_def) arith

lemma big_sum: "dur_sum big_durations = Ret (dur_from_secs 0x7FFFFFFFFFFFFFFF + dur_from_secs 50)"
  by (simp add: big_durations_def dur_add_def dur_checked_def duration_max_def dur_from_secs_def nanos_per_sec_def)

lemma big_checks:
  "big_check start instant_checked_add = Ret ()" "big_check start instant_checked_sub = Ret ()"
  "big_check start systime_checked_add = Ret ()" "big_check start systime_checked_sub = Ret ()"
  by (simp_all add: big_check_def big_sum split: option.split)
    (simp_all add: big_durations_def oassert_def instant_checked_add_def instant_checked_sub_def systime_checked_add_def
      systime_checked_sub_def)

lemma big_math_passes: "tg_factor g = 0 \<Longrightarrow> big_math g r = Ret ()"
  by (simp add: big_math_def big_checks instant_now_def)

lemma instant_rest_passes:
  assumes "tg_factor g = 0" "clock_reading r" "clock_reading r2"
  shows "instant_math_is_associative g r r2 = Ret ()" "instant_duration_since_saturates g r = Ret ()"
    "instant_checked_duration_since_nopanic g r = Ret ()" "instant_saturating_duration_since_nopanic g r = Ret ()"
  using assms
  by (simp_all add: instant_math_is_associative_def instant_duration_since_saturates_def
      instant_checked_duration_since_nopanic_def instant_saturating_duration_since_nopanic_def clock_defs
      clock_reading_def duration_since_nat instant_diff_def saturating_duration_since_def checked_duration_since_def
      dur_zero_def dur_add_def dur_checked_def duration_max_def)

lemma set_speed_twice_panics:
  "set_speed_twice s i time_globals_init = (Ret \<lparr>tg_init = True, tg_start = Some (s, i), tg_factor = 2\<rparr>, Panic)"
  by (simp add: set_speed_twice_def time_globals_init_def get_speed_def speed_def oassert_def)

lemmas mock_defs = test_scheduler_def scheduler_new_def set_state_def mock_default_def mock_connector_def
  mock_platform_def modify_key_def initial_state_def expect_ret_def oassert_def

lemma steps_test_passes: "test_step_ready_activities = Ret ()"
  by (simp add: test_step_ready_activities_def mock_defs step_ready_activities_def step_if_ready_def deps_ready_def
      step_activity_def trigger_activity_def log_event_def sc_io_def io_defs)

lemma btree_set_empty: "btree_set [] = []"
  by (simp add: btree_set_def)

lemma started_two: "btree_set [GenericId 1, GenericId 2 :: activity_id] = [GenericId 1, GenericId 2]"
  by (rule btree_set_unique) (simp_all add: less_eq_generic_id_def)

text \<open>With an empty queue the wait ends when the clock has passed the timeout.\<close>

lemma mock_shutdown_wait:
  "mk_queue (sc_world s) = [] \<Longrightarrow> int timeout + start < (int (mk_clock (sc_world s)) + int n - 1) * 5000000 \<Longrightarrow>
    \<exists>c. shutdown_wait n mock_connector mock_platform timeout start pending s
      = (Ret (), s\<lparr>sc_world := (sc_world s)\<lparr>mk_clock := c\<rparr>\<rparr>)
      \<or> shutdown_wait n mock_connector mock_platform timeout start pending s = (Hang, s) \<and> n = 0"
proof (induction n arbitrary: s)
  case 0
  then show ?case by (auto simp: io_return_def io_hang_def intro!: exI [of _ "mk_clock (sc_world s)"])
next
  case (Suc n)
  let ?s = "s\<lparr>sc_world := (sc_world s)\<lparr>mk_clock := Suc (mk_clock (sc_world s))\<rparr>\<rparr>"
  show ?case
  proof (cases "pending = [] \<or> timeout < nat (int (mk_clock (sc_world s)) * 5000000 - start)")
    case True
    then show ?thesis
      by (auto simp: io_defs sc_io_def pf_elapsed_def mock_platform_def instant_diff_def duration_since_nat
          intro: exI [of _ "mk_clock (sc_world s)"] exI [of _ "Suc (mk_clock (sc_world s))"])
  next
    case False
    have step: "shutdown_wait (Suc n) mock_connector mock_platform timeout start pending s
        = shutdown_wait n mock_connector mock_platform timeout start pending ?s"
      using False Suc.prems(1)
      by (simp add: io_defs sc_io_def pf_elapsed_def mock_platform_def instant_diff_def duration_since_nat
          receive_signal_def mock_connector_def)
    have "0 < n" using False Suc.prems(2) by (cases n) auto
    with Suc.IH [of ?s] Suc.prems show ?thesis unfolding step by simp
  qed
qed

lemma shutdown_test_passes:
  assumes "10 \<le> n"
  shows "test_graceful_shutdown_only_started_activities n = Ret ()"
proof -
  let ?sig = "\<lambda>i. (i, Shutdown i (Timestamp 0))"
  let ?st = "\<lambda>b. \<lparr>triggered = False, ready = False, ever_ready = b\<rparr>"
  let ?s = "\<lambda>log sent. (test_scheduler [(GenericId 1, []), (GenericId 2, []), (GenericId 3, [])])
    \<lparr>sc_states := [(GenericId 1, ?st True), (GenericId 2, ?st True), (GenericId 3, ?st False)],
     sc_log := log, sc_world := mock_default\<lparr>mk_sent := sent, mk_clock := 1\<rparr>\<rparr>"
  let ?w = "?s [ESend (GenericId 2) (Shutdown (GenericId 2) (Timestamp 0)), ESend (GenericId 1) (Shutdown (GenericId 1) (Timestamp 0))]
    [?sig (GenericId 1), ?sig (GenericId 2)]"
  have "int (40000000 :: nat) + 0 < (int (mk_clock (sc_world ?w)) + int n - 1) * 5000000" using assms by simp
  moreover have "mk_queue (sc_world ?w) = []" by (simp add: mock_default_def)
  ultimately obtain c where wait: "shutdown_wait n mock_connector mock_platform 40000000 0 [GenericId 1, GenericId 2] ?w
      = (Ret (), ?w\<lparr>sc_world := (sc_world ?w)\<lparr>mk_clock := c\<rparr>\<rparr>)"
    using mock_shutdown_wait [of ?w 40000000 0 n "[GenericId 1, GenericId 2]"] assms by auto
  have timeout: "scaled_timeout (dur_from_millis 10) (Suc (Suc 0)) 2 = Ret 40000000"
    by (simp add: scaled_timeout_def dur_mul_def dur_checked_def duration_max_def dur_from_millis_def nanos_per_sec_def)
  show ?thesis
    using wait timeout
    by (simp add: test_graceful_shutdown_only_started_activities_def mock_defs shutdown_gracefully_def started_activities_def
      started_two btree_set_empty shutdown_activity_def trigger_activity_def log_event_def sc_io_def
      terminate_all_agents_def Let_def io_defs)
qed

lemma signal_test_passes: "connector_signal_roundtrips test_signals = Ret ()"
  by (simp add: test_signals_def Let_def oassert_def expect_ret_def try_decode_encode length_encode u64_max_def dur_from_secs_def
      nanos_per_sec_def del: encode.simps)

text \<open>
  The unit tests of the clock pass on every unscaled clock: whatever its readings are, for those
  that never decrease where the test is about that, that are at most 2^62 seconds from its origin
  (so that a second and a year fit around them), and for the date that lies between 2000 and 2090 as
  the test says. The test of the speed factor panics at its last line, as it is meant to.
\<close>

theorem clock_tests_pass:
  assumes "tg_factor g = 0" and "clock_reading r1" "clock_reading r2" "clock_reading r3" and "r1 \<le> r2"
    and "sorted (r1 # rs)" "r1 < last (r1 # rs)" and "list_all (\<lambda>(raw, raws). sorted (raw # raws)) threads"
    and "clock_reading a" "clock_reading b"
    and "946080000 * 1000000000 + 1000000000 < d" "d < 3784320000 * 1000000000"
  shows "instant_monotonic g (r1 # rs) = Ret () \<and> instant_monotonic_concurrent g threads = Ret ()
    \<and> instant_math g r1 r2 r3 = Ret () \<and> instant_math_is_associative g r1 r2 = Ret ()
    \<and> instant_duration_since_saturates g r1 = Ret () \<and> instant_checked_duration_since_nopanic g r1 = Ret ()
    \<and> instant_saturating_duration_since_nopanic g r1 = Ret () \<and> system_time_math g a b = Ret ()
    \<and> since_epoch_test g d = Ret () \<and> big_math g r1 = Ret ()
    \<and> (\<exists>g'. set_speed_twice a r1 time_globals_init = (Ret g', Panic))"
  using assms monotonic_loop_passes [OF assms(1,6,7)]
  by (simp add: instant_monotonic_def instant_now_def monotonic_threads_pass instant_math_passes instant_rest_passes
      system_time_math_passes since_epoch_test_passes big_math_passes set_speed_twice_panics)

theorem clock_tests_pass_witness:
  "instant_monotonic time_globals_init [7, 7, 8] = Ret () \<and> instant_monotonic_concurrent time_globals_init [(3, [3, 4])] = Ret ()
    \<and> instant_math time_globals_init 7 8 9 = Ret () \<and> system_time_math time_globals_init 5 4 = Ret ()
    \<and> since_epoch_test time_globals_init (1700000000 * 1000000000) = Ret ()"
  using clock_tests_pass [of time_globals_init 7 8 9 "[7, 8]" "[(3, [3, 4])]" 5 4 "1700000000 * 1000000000"]
  by (simp add: time_globals_init_def clock_reading_def)

end
