(* ===== verification/Feo_Tracing.thy ===== *)
theory Feo_Tracing
  imports Feo_Prelude
begin

text \<open>
  The trace protocol and the subscriber of \<open>feo-tracing\<close> (\<open>protocol.rs\<close>, \<open>subscriber.rs\<close>) and the
  decoding of a packet in \<open>feo-tracer\<close> (\<open>data.rs\<close>). A string slice is its UTF-8 bytes; a byte that
  starts a character is one that is not of the form \<open>10xxxxxx\<close>.
\<close>

section \<open>Strings\<close>

type_synonym utf8 = "u8 list"

definition starts_char :: "u8 \<Rightarrow> bool" where
  "starts_char b \<longleftrightarrow> \<not> (128 \<le> b \<and> b < 192)"

definition is_ascii :: "utf8 \<Rightarrow> bool" where
  "is_ascii s \<longleftrightarrow> list_all (\<lambda>b. b < 128) s"

text \<open>The positions of \<open>char_indices\<close>.\<close>

fun char_positions :: "nat \<Rightarrow> utf8 \<Rightarrow> nat list" where
  "char_positions pos [] = []"
| "char_positions pos (b # bs) = (if starts_char b then [pos] else []) @ char_positions (pos + 1) bs"

text \<open>The length of the next sequence of \<open>from_utf8_lossy\<close> and whether it is valid.\<close>

definition second_ok :: "u8 \<Rightarrow> u8 \<Rightarrow> bool" where
  "second_ok a b \<longleftrightarrow>
    (if a = 0xE0 then 0xA0 \<le> b \<and> b \<le> 0xBF
     else if a = 0xED then 0x80 \<le> b \<and> b \<le> 0x9F
     else if a = 0xF0 then 0x90 \<le> b \<and> b \<le> 0xBF
     else if a = 0xF4 then 0x80 \<le> b \<and> b \<le> 0x8F
     else 0x80 \<le> b \<and> b \<le> 0xBF)"

definition utf8_width :: "u8 \<Rightarrow> nat" where
  "utf8_width a =
    (if a < 0x80 then 1
     else if 0xC2 \<le> a \<and> a \<le> 0xDF then 2
     else if 0xE0 \<le> a \<and> a \<le> 0xEF then 3
     else if 0xF0 \<le> a \<and> a \<le> 0xF4 then 4
     else 0)"

definition sequence_len :: "u8 \<Rightarrow> utf8 \<Rightarrow> nat \<times> bool" where
  "sequence_len a bs =
    (let w = utf8_width a in
     if w = 0 then (1, False)
     else if w = 1 then (1, True)
     else case bs of
            [] \<Rightarrow> (1, False)
          | b # _ \<Rightarrow>
              if \<not> second_ok a b then (1, False)
              else let n = length (takeWhile (\<lambda>c. \<not> starts_char c) (take (w - 1) bs)) in (n + 1, n + 1 = w))"

definition replacement_char :: utf8 where
  "replacement_char = [0xEF, 0xBF, 0xBD]"

function from_utf8_lossy :: "utf8 \<Rightarrow> utf8" where
  "from_utf8_lossy [] = []"
| "from_utf8_lossy (a # bs) =
    (case sequence_len a bs of (n, valid) \<Rightarrow>
      (if valid then take n (a # bs) else replacement_char) @ from_utf8_lossy (drop (n - 1) bs))"
  by pat_completeness auto
termination
  by (relation "measure length") simp_all

section \<open>The protocol\<close>

definition max_info_size :: nat where
  "max_info_size = 30"

record process_info =
  pr_pid :: u32
  pr_tid :: u32

record event_info =
  ei_name :: "u8 list"
  ei_name_len :: "nat option"
  ei_value :: "u8 list"
  ei_value_len :: nat

datatype trace_data =
    NewSpan u64 "u8 list" nat event_info
  | RecordSpan u64
  | TraceEvent "u64 option" "u8 list" nat event_info
  | EnterSpan u64
  | ExitSpan u64

record trace_packet =
  tp_timestamp :: u64
  tp_process :: "process_info option"
  tp_data :: trace_data

definition empty_buffer :: "u8 list" where
  "empty_buffer = replicate max_info_size 0"

definition event_info_default :: event_info where
  "event_info_default = \<lparr>ei_name = empty_buffer, ei_name_len = None, ei_value = empty_buffer, ei_value_len = 0\<rparr>"

fun trunc_loop :: "nat \<Rightarrow> nat \<Rightarrow> nat list \<Rightarrow> nat" where
  "trunc_loop max_len len [] = len"
| "trunc_loop max_len len (pos # ps) =
    (if max_len \<le> pos then len
     else trunc_loop max_len (if len < pos + 1 \<and> pos < max_len then pos + 1 else len) ps)"

definition trunc_len :: "utf8 \<Rightarrow> nat \<Rightarrow> nat" where
  "trunc_len s max_len = trunc_loop max_len 0 (char_positions 0 s)"

text \<open>The number of valid bytes and the buffer; slicing beyond the end panics.\<close>

definition truncate_str :: "utf8 \<Rightarrow> u8 list \<Rightarrow> (nat \<times> u8 list) outcome" where
  "truncate_str s buffer =
    (let n = trunc_len s (length buffer) in
     if n \<le> length buffer \<and> n \<le> length s then Ret (n, take n s @ drop n buffer) else Panic)"

definition record_str :: "utf8 \<Rightarrow> utf8 \<Rightarrow> event_info \<Rightarrow> event_info outcome" where
  "record_str field value info =
    obind (truncate_str field (ei_name info)) (\<lambda>(name_len, name).
    obind (truncate_str value (ei_value info)) (\<lambda>(value_len, val).
    Ret (info\<lparr>ei_name := name, ei_name_len := Some name_len, ei_value := val, ei_value_len := value_len\<rparr>)))"

section \<open>The subscriber\<close>

text \<open>
  The channel to the serialising thread is bounded; \<open>su_receiver\<close> says whether that thread still
  runs. The clock and the thread are the state's.
\<close>

record subscriber =
  su_enabled :: bool
  su_next_id :: u64
  su_queue :: "trace_packet list"
  su_receiver :: bool
  su_clock :: u64
  su_this :: process_info

definition trace_channel_bound :: nat where
  "trace_channel_bound = 512"

definition new_span_id :: "(subscriber, u64) io" where
  "new_span_id =
    io_bind (io_gets su_next_id) (\<lambda>i.
    io_bind (io_modify (\<lambda>s. s\<lparr>su_next_id := i + 1\<rparr>)) (\<lambda>_.
    if i = 0 then io_panic else io_return i))"

definition trace_send :: "trace_packet \<Rightarrow> (subscriber, unit) io" where
  "trace_send packet =
    io_bind io_get (\<lambda>s.
    if \<not> su_enabled s then io_return ()
    else if \<not> su_receiver s then io_modify (\<lambda>s. s\<lparr>su_enabled := False\<rparr>)
    else if trace_channel_bound \<le> length (su_queue s) then io_hang
    else io_modify (\<lambda>s. s\<lparr>su_queue := su_queue s @ [packet]\<rparr>))"

definition now_with_data :: "trace_data \<Rightarrow> (subscriber, trace_packet) io" where
  "now_with_data d = io_gets (\<lambda>s. \<lparr>tp_timestamp = su_clock s, tp_process = Some (su_this s), tp_data = d\<rparr>)"

definition now_without_process :: "trace_data \<Rightarrow> (subscriber, trace_packet) io" where
  "now_without_process d = io_gets (\<lambda>s. \<lparr>tp_timestamp = su_clock s, tp_process = None, tp_data = d\<rparr>)"

text \<open>The string fields of a span or event, in order; other fields are not recorded.\<close>

fun record_fields :: "(utf8 \<times> utf8) list \<Rightarrow> event_info \<Rightarrow> event_info outcome" where
  "record_fields [] info = Ret info"
| "record_fields ((field, value) # fs) info = obind (record_str field value info) (record_fields fs)"

definition sub_new_span :: "utf8 \<Rightarrow> (utf8 \<times> utf8) list \<Rightarrow> (subscriber, u64) io" where
  "sub_new_span name attrs =
    io_bind new_span_id (\<lambda>i.
    io_bind (io_lift (truncate_str name empty_buffer)) (\<lambda>(name_len, buf).
    io_bind (io_lift (record_fields attrs event_info_default)) (\<lambda>info.
    io_bind (now_with_data (NewSpan i buf name_len info)) (\<lambda>packet.
    io_bind (trace_send packet) (\<lambda>_. io_return i)))))"

definition sub_record :: "u64 \<Rightarrow> (subscriber, unit) io" where
  "sub_record span = io_bind (now_with_data (RecordSpan span)) trace_send"

text \<open>The subscriber does not track spans: \<open>current_span\<close> is the default, which knows of none.\<close>

definition sub_event :: "utf8 \<Rightarrow> (utf8 \<times> utf8) list \<Rightarrow> (subscriber, unit) io" where
  "sub_event name attrs =
    io_bind (io_lift (truncate_str name empty_buffer)) (\<lambda>(name_len, buf).
    io_bind (io_lift (record_fields attrs event_info_default)) (\<lambda>info.
    io_bind (now_with_data (TraceEvent None buf name_len info)) trace_send))"

definition sub_enter :: "u64 \<Rightarrow> (subscriber, unit) io" where
  "sub_enter span = io_bind (now_without_process (EnterSpan span)) trace_send"

definition sub_exit :: "u64 \<Rightarrow> (subscriber, unit) io" where
  "sub_exit span = io_bind (now_without_process (ExitSpan span)) trace_send"

section \<open>The serialising thread\<close>

text \<open>
  \<open>thread_main\<close> as its steps: the connection to the daemon, and one round of the loop given whether
  the packet could be serialised and written. The result says whether the thread goes on.
\<close>

definition sub_thread_start :: "bool \<Rightarrow> (subscriber, bool) io" where
  "sub_thread_start connected =
    (if connected then io_return True
     else io_bind (io_modify (\<lambda>s. s\<lparr>su_enabled := False, su_receiver := False\<rparr>)) (\<lambda>_. io_return False))"

definition sub_thread_round :: "bool \<Rightarrow> bool \<Rightarrow> (subscriber, bool) io" where
  "sub_thread_round serialized written =
    io_bind (io_gets su_queue) (\<lambda>q.
    case q of
      [] \<Rightarrow> io_hang
    | packet # rest \<Rightarrow>
        io_bind (io_modify (\<lambda>s. s\<lparr>su_queue := rest\<rparr>)) (\<lambda>_.
        if \<not> serialized then io_return True
        else if \<not> written then
          io_bind (io_modify (\<lambda>s. s\<lparr>su_enabled := False, su_receiver := False\<rparr>)) (\<lambda>_. io_return False)
        else io_return True))"

section \<open>Decoding\<close>

text \<open>What the tracer stores (\<open>data.rs\<close>); names are read up to their length, which panics beyond the buffer.\<close>

record record_info =
  ri_name :: "utf8 option"
  ri_value :: utf8

datatype record_data =
    RExec
  | RExit
  | RNewSpan u64 utf8 record_info
  | RRecord u64
  | REvent "u64 option" utf8 record_info
  | REnterSpan u64
  | RExitSpan u64

definition lossy_prefix :: "u8 list \<Rightarrow> nat \<Rightarrow> utf8 outcome" where
  "lossy_prefix buffer n = (if n \<le> length buffer then Ret (from_utf8_lossy (take n buffer)) else Panic)"

definition record_info_of :: "event_info \<Rightarrow> record_info outcome" where
  "record_info_of info =
    obind (case ei_name_len info of
             None \<Rightarrow> Ret None
           | Some n \<Rightarrow> obind (lossy_prefix (ei_name info) n) (\<lambda>s. Ret (Some s))) (\<lambda>name.
    obind (lossy_prefix (ei_value info) (ei_value_len info)) (\<lambda>value.
    Ret \<lparr>ri_name = name, ri_value = value\<rparr>))"

fun record_data_of :: "trace_data \<Rightarrow> record_data outcome" where
  "record_data_of (NewSpan i name n info) =
    obind (record_info_of info) (\<lambda>ri. obind (lossy_prefix name n) (\<lambda>s. Ret (RNewSpan i s ri)))"
| "record_data_of (RecordSpan i) = Ret (RRecord i)"
| "record_data_of (TraceEvent parent name n info) =
    obind (record_info_of info) (\<lambda>ri. obind (lossy_prefix name n) (\<lambda>s. Ret (REvent parent s ri)))"
| "record_data_of (EnterSpan i) = Ret (REnterSpan i)"
| "record_data_of (ExitSpan i) = Ret (RExitSpan i)"

section \<open>Truncation\<close>

lemma char_positions_bounds: "p \<in> set (char_positions k s) \<Longrightarrow> k \<le> p \<and> p < k + length s"
  by (induction s arbitrary: k) (fastforce split: if_splits)+

lemma char_positions_sorted: "sorted_wrt (<) (char_positions k s)"
proof (induction s arbitrary: k)
  case Nil
  then show ?case by simp
next
  case (Cons b s)
  then show ?case using char_positions_bounds [of _ "Suc k" s] by fastforce
qed

text \<open>The byte after the last character start before the limit.\<close>

lemma trunc_loop_last:
  assumes "sorted_wrt (<) ps" "\<And>p. p \<in> set ps \<Longrightarrow> len \<le> p"
  shows "trunc_loop m len ps = (case filter (\<lambda>p. p < m) ps of [] \<Rightarrow> len | q # qs \<Rightarrow> last (q # qs) + 1)"
  using assms
proof (induction ps arbitrary: len)
  case Nil
  then show ?case by simp
next
  case (Cons p ps)
  show ?case
  proof (cases "m \<le> p")
    case True
    with Cons.prems(1) have "filter (\<lambda>p. p < m) (p # ps) = []" by (auto simp: filter_empty_conv)
    with True show ?thesis by simp
  next
    case False
    have "p + 1 \<le> q" if "q \<in> set ps" for q using Cons.prems(1) that by (simp add: Suc_le_eq)
    with Cons.IH [of "p + 1"] Cons.prems(1)
    have "trunc_loop m (p + 1) ps = (case filter (\<lambda>p. p < m) ps of [] \<Rightarrow> p + 1 | q # qs \<Rightarrow> last (q # qs) + 1)"
      by simp
    with False Cons.prems(2) [of p] show ?thesis by (simp split: list.splits)
  qed
qed

lemma trunc_len_last:
  "trunc_len s m = (if filter (\<lambda>p. p < m) (char_positions 0 s) = [] then 0
    else last (filter (\<lambda>p. p < m) (char_positions 0 s)) + 1)"
  using trunc_loop_last [OF char_positions_sorted, of 0 s 0 m] by (simp add: trunc_len_def split: list.splits)

lemma trunc_len_bound: "trunc_len s m \<le> m \<and> trunc_len s m \<le> length s"
proof (cases "filter (\<lambda>p. p < m) (char_positions 0 s) = []")
  case True
  then show ?thesis by (simp add: trunc_len_last)
next
  case False
  then have "last (filter (\<lambda>p. p < m) (char_positions 0 s)) \<in> set (filter (\<lambda>p. p < m) (char_positions 0 s))"
    by (rule last_in_set)
  then have "last (filter (\<lambda>p. p < m) (char_positions 0 s)) < m"
    "last (filter (\<lambda>p. p < m) (char_positions 0 s)) < length s"
    using char_positions_bounds [of _ 0 s] by auto
  then show ?thesis by (simp add: trunc_len_last Suc_le_eq)
qed

lemma ascii_starts: "b < 128 \<Longrightarrow> starts_char b"
  by (simp add: starts_char_def not_le)

lemma char_positions_ascii: "is_ascii s \<Longrightarrow> char_positions k s = [k..<k + length s]"
proof (induction s arbitrary: k)
  case Nil
  then show ?case by simp
next
  case (Cons b s)
  have "[k..<k + length (b # s)] = k # [Suc k..<Suc k + length s]" by (subst upt_conv_Cons) simp_all
  with Cons show ?case by (simp add: is_ascii_def ascii_starts)
qed

lemma filter_upt_less: "filter (\<lambda>p. p < m) [0..<n] = [0..<min n m]"
proof (induction n)
  case 0
  then show ?case by simp
next
  case (Suc n)
  then show ?case by (cases "n < m") (simp_all add: min_def)
qed

lemma trunc_len_ascii: "is_ascii s \<Longrightarrow> trunc_len s m = min (length s) m"
proof -
  assume "is_ascii s"
  then have "filter (\<lambda>p. p < m) (char_positions 0 s) = [0..<min (length s) m]"
    by (simp add: char_positions_ascii filter_upt_less)
  then show ?thesis
    by (cases "min (length s) m") (simp_all add: trunc_len_last)
qed

lemma char_positions_append: "char_positions k (xs @ ys) = char_positions k xs @ char_positions (k + length xs) ys"
  by (induction xs arbitrary: k) auto

lemma char_positions_cont: "list_all (\<lambda>b. \<not> starts_char b) ks \<Longrightarrow> char_positions k ks = []"
  by (induction ks arbitrary: k) auto

lemma trunc_len_multibyte:
  assumes "starts_char c" "list_all (\<lambda>b. \<not> starts_char b) ks" "length cs < m"
  shows "trunc_len (cs @ c # ks) m = length cs + 1"
proof -
  have "char_positions 0 (cs @ c # ks) = char_positions 0 cs @ [length cs]"
    using assms(1,2) by (simp add: char_positions_append char_positions_cont)
  then have "filter (\<lambda>p. p < m) (char_positions 0 (cs @ c # ks)) = filter (\<lambda>p. p < m) (char_positions 0 cs) @ [length cs]"
    using assms(3) by simp
  then show ?thesis
    by (simp add: trunc_len_last)
qed

text \<open>
  Copying a name into a buffer never panics and never overruns: the length is at most that of the
  buffer and of the name, the bytes up to it are those of the name, and an ASCII name is kept up to
  the size of the buffer. But the length ends with the first byte of the last character that starts
  within the buffer, so a name that ends in a character of several bytes loses the rest of that
  character even if the whole name fits.
\<close>

theorem truncated_name:
  "\<exists>n buf. truncate_str s buffer = Ret (n, buf) \<and> n \<le> length buffer \<and> n \<le> length s
    \<and> length buf = length buffer \<and> take n buf = take n s
    \<and> (is_ascii s \<longrightarrow> n = min (length s) (length buffer))
    \<and> (\<forall>cs c ks. s = cs @ c # ks \<and> starts_char c \<and> list_all (\<lambda>b. \<not> starts_char b) ks \<and> length cs < length buffer
        \<longrightarrow> n = length cs + 1)"
  using trunc_len_bound [of s "length buffer"]
  by (auto simp: truncate_str_def Let_def trunc_len_ascii trunc_len_multibyte)

theorem truncated_name_witness:
  "\<exists>n buf. truncate_str [0x63, 0x61, 0x66, 0xC3, 0xA9] empty_buffer = Ret (n, buf)
    \<and> from_utf8_lossy (take n buf) = [0x63, 0x61, 0x66] @ replacement_char"
proof -
  let ?s = "[0x63, 0x61, 0x66, 0xC3, 0xA9] :: utf8"
  have end_of: "?s = [0x63, 0x61, 0x66] @ 0xC3 # [0xA9]" "starts_char 0xC3" "list_all (\<lambda>b. \<not> starts_char b) [0xA9]"
    "length [0x63, 0x61, 0x66 :: u8] < length empty_buffer"
    by (simp_all add: starts_char_def empty_buffer_def max_info_size_def)
  from truncated_name [of ?s empty_buffer] obtain n buf where
    n: "truncate_str ?s empty_buffer = Ret (n, buf)" "take n buf = take n ?s"
    and cut: "\<And>cs c ks. ?s = cs @ c # ks \<Longrightarrow> starts_char c \<Longrightarrow> list_all (\<lambda>b. \<not> starts_char b) ks
      \<Longrightarrow> length cs < length empty_buffer \<Longrightarrow> n = length cs + 1" by blast
  from cut [OF end_of] have "n = 4" by simp
  with n(2) have "take n buf = [0x63, 0x61, 0x66, 0xC3]" by simp
  then have "from_utf8_lossy (take n buf) = [0x63, 0x61, 0x66] @ replacement_char"
    by (simp add: sequence_len_def utf8_width_def)
  with n(1) show ?thesis by blast
qed

section \<open>Names on their way to the tracer\<close>

lemma lossy_ascii: "is_ascii s \<Longrightarrow> from_utf8_lossy s = s"
  by (induction s) (auto simp: is_ascii_def sequence_len_def utf8_width_def)

lemma ascii_take: "is_ascii s \<Longrightarrow> is_ascii (take n s)"
  unfolding is_ascii_def by (metis append_take_drop_id list_all_append)

lemma lossy_truncated:
  assumes "is_ascii s" "length buffer = max_info_size"
  shows "\<exists>n buf. truncate_str s buffer = Ret (n, buf) \<and> lossy_prefix buf n = Ret (take max_info_size s)"
  using assms by (simp add: truncate_str_def Let_def trunc_len_ascii lossy_prefix_def lossy_ascii ascii_take min_def)


definition demo_subscriber :: subscriber where
  "demo_subscriber = \<lparr>su_enabled = True, su_next_id = 1, su_queue = [], su_receiver = True, su_clock = 0,
    su_this = \<lparr>pr_pid = 7, pr_tid = 8\<rparr>\<rparr>"


end
