(* ===== verification/Feo_Tracer.thy ===== *)
theory Feo_Tracer
  imports Feo_Tracing
begin

text \<open>
  The tracer (\<open>feo-tracer\<close>): the records made of the packets of a connection (\<open>data.rs\<close>, the cache of
  \<open>io.rs\<close>) and the writer of Perfetto traces (\<open>perfetto.rs\<close>). The types of the generated Perfetto model
  are reduced to the fields the writer sets; \<open>encode\<close> is their generated encoding. The lemmas show
  what is written for a span.
\<close>

section \<open>Records\<close>

record trace_process =
  tpr_id :: u32
  tpr_name :: "utf8 option"

record trace_thread =
  tth_id :: u32
  tth_name :: "utf8 option"

text \<open>The time is in nanoseconds since the epoch.\<close>

record trace_record =
  tr_time :: int
  tr_process :: trace_process
  tr_thread :: "trace_thread option"
  tr_data :: record_data

text \<open>The cache of thread names: \<open>read_comm\<close> reads the name from the kernel.\<close>

record name_cache =
  nc_pid :: u32
  nc_names :: "u32 \<Rightarrow> utf8 option option"

definition cache_get :: "(u32 \<Rightarrow> u32 \<Rightarrow> utf8 option) \<Rightarrow> u32 \<Rightarrow> (name_cache, utf8 option) io" where
  "cache_get read_comm tid =
    io_bind io_get (\<lambda>c.
    case nc_names c tid of
      Some name \<Rightarrow> io_return name
    | None \<Rightarrow>
        io_bind (io_modify (\<lambda>c. c\<lparr>nc_names := (nc_names c)(tid \<mapsto> read_comm (nc_pid c) tid)\<rparr>)) (\<lambda>_.
        io_return (read_comm (nc_pid c) tid)))"

definition decode_packet ::
  "(u32 \<Rightarrow> u32 \<Rightarrow> utf8 option) \<Rightarrow> u32 \<Rightarrow> trace_packet \<Rightarrow> utf8 option \<Rightarrow> (name_cache, trace_record) io" where
  "decode_packet read_comm pid packet process_name =
    io_bind (io_lift (record_data_of (tp_data packet))) (\<lambda>d.
    io_bind
      (case tp_process packet of
         None \<Rightarrow> io_return None
       | Some p \<Rightarrow> io_bind (cache_get read_comm (pr_tid p)) (\<lambda>name.
           io_return (Some \<lparr>tth_id = pr_tid p, tth_name = name\<rparr>)))
      (\<lambda>thread.
    io_return \<lparr>tr_time = int (unat (tp_timestamp packet)),
      tr_process = \<lparr>tpr_id = pid, tpr_name = process_name\<rparr>, tr_thread = thread, tr_data = d\<rparr>))"

section \<open>The Perfetto model\<close>

datatype slice = SliceBegin | SliceEnd | Instant

datatype packet_data =
    TrackDescriptor "u64 option" "utf8 option" "(u32 \<times> utf8 option) option" "(u32 \<times> u32) option"
  | TrackEvent "slice option" u64 "utf8 option" "(utf8 option \<times> utf8) list"

record perfetto_packet =
  pk_data :: packet_data
  pk_timestamp :: "u64 option"
  pk_pid :: "u32 option"
  pk_sequence :: "u32 option"

record span =
  sp_pid :: u32
  sp_thread :: trace_thread
  sp_trace :: "perfetto_packet list"
  sp_name :: utf8
  sp_info :: record_info

record perfetto =
  pe_spans :: "u32 \<times> u64 \<Rightarrow> span option"
  pe_track :: u64
  pe_sequence_id :: u32
  pe_written :: "perfetto_packet list list"
  pe_bytes :: nat
  pe_writer_ok :: bool

definition perfetto_new :: "u64 \<Rightarrow> u32 \<Rightarrow> perfetto" where
  "perfetto_new track sequence_id =
    \<lparr>pe_spans = Map.empty, pe_track = track, pe_sequence_id = sequence_id, pe_written = [], pe_bytes = 0,
     pe_writer_ok = True\<rparr>"

definition descriptor_packet :: "packet_data \<Rightarrow> perfetto_packet" where
  "descriptor_packet d = \<lparr>pk_data = d, pk_timestamp = None, pk_pid = None, pk_sequence = None\<rparr>"

definition process_descriptor :: "perfetto \<Rightarrow> u32 \<Rightarrow> utf8 option \<Rightarrow> perfetto_packet" where
  "process_descriptor s pid name =
    descriptor_packet (TrackDescriptor (Some (pe_track s)) name (Some (pid, name)) None)"

definition thread_descriptor :: "u32 \<Rightarrow> u32 \<Rightarrow> utf8 option \<Rightarrow> perfetto_packet" where
  "thread_descriptor tgid tid name =
    descriptor_packet (TrackDescriptor (Some (ucast tid)) name None (Some (tgid, tid)))"

definition debug_annotation :: "record_info \<Rightarrow> utf8 option \<times> utf8" where
  "debug_annotation info = (ri_name info, ri_value info)"

definition event_packet ::
  "perfetto \<Rightarrow> u32 \<Rightarrow> u64 \<Rightarrow> u32 \<Rightarrow> utf8 \<Rightarrow> (utf8 option \<times> utf8) list \<Rightarrow> slice \<Rightarrow> perfetto_packet" where
  "event_packet s pid time tid name annotations sl =
    \<lparr>pk_data = TrackEvent (Some sl) (ucast tid) (Some name) annotations, pk_timestamp = Some time,
     pk_pid = Some pid, pk_sequence = Some (pe_sequence_id s)\<rparr>"

datatype tracer_error = TimeBeforeEpoch | MissingThread | WriteFailed

definition perfetto_append ::
  "(perfetto_packet list \<Rightarrow> u8 list) \<Rightarrow> perfetto_packet list \<Rightarrow> (perfetto, tracer_error + unit) io" where
  "perfetto_append encode trace =
    io_bind io_get (\<lambda>s.
    if pe_writer_ok s
    then io_bind (io_modify (\<lambda>s. s\<lparr>pe_written := pe_written s @ [trace],
        pe_bytes := pe_bytes s + length (encode trace)\<rparr>)) (\<lambda>_. io_return (Inr ()))
    else io_return (Inl WriteFailed))"

definition push_packet :: "u32 \<times> u64 \<Rightarrow> perfetto_packet \<Rightarrow> perfetto \<Rightarrow> perfetto" where
  "push_packet key packet s =
    s\<lparr>pe_spans := (pe_spans s)(key := map_option (\<lambda>sp. sp\<lparr>sp_trace := sp_trace sp @ [packet]\<rparr>) (pe_spans s key))\<rparr>"

definition no_info :: record_info where
  "no_info = \<lparr>ri_name = None, ri_value = []\<rparr>"

fun as_event :: "record_data \<Rightarrow> record_data" where
  "as_event (RRecord i) = REvent (Some i) [] no_info"
| "as_event d = d"

definition on_packet ::
  "(perfetto_packet list \<Rightarrow> u8 list) \<Rightarrow> trace_record \<Rightarrow> (perfetto, tracer_error + unit) io" where
  "on_packet encode r =
    (let pid = tpr_id (tr_process r) in
     if tr_time r < 0 then io_return (Inl TimeBeforeEpoch)
     else let time = word_of_int (tr_time r) in
     io_bind io_get (\<lambda>s.
     case as_event (tr_data r) of
       RExec \<Rightarrow> io_return (Inr ())
     | RExit \<Rightarrow>
         io_bind (io_modify (\<lambda>s. s\<lparr>pe_spans := (\<lambda>k. case pe_spans s k of
           None \<Rightarrow> None | Some sp \<Rightarrow> if sp_pid sp \<noteq> pid then Some sp else None)\<rparr>)) (\<lambda>_. io_return (Inr ()))
     | RNewSpan i name info \<Rightarrow>
         if pe_spans s (pid, i) \<noteq> None then io_panic
         else io_bind (io_expect (tr_thread r)) (\<lambda>thread.
           io_bind (io_modify (\<lambda>s. s\<lparr>pe_spans := (pe_spans s)((pid, i) \<mapsto>
             \<lparr>sp_pid = pid, sp_thread = thread,
              sp_trace = [process_descriptor s pid (tpr_name (tr_process r)), thread_descriptor pid (tth_id thread) (tth_name thread)],
              sp_name = name, sp_info = info\<rparr>)\<rparr>)) (\<lambda>_. io_return (Inr ())))
     | REnterSpan i \<Rightarrow>
         (case pe_spans s (pid, i) of
            None \<Rightarrow> io_return (Inr ())
          | Some sp \<Rightarrow>
              io_bind (io_modify (push_packet (pid, i)
                (event_packet s pid time (tth_id (sp_thread sp)) (sp_name sp) [debug_annotation (sp_info sp)] SliceBegin)))
                (\<lambda>_. io_return (Inr ())))
     | RExitSpan i \<Rightarrow>
         (case pe_spans s (pid, i) of
            None \<Rightarrow> io_return (Inr ())
          | Some sp \<Rightarrow>
              io_bind (io_modify (\<lambda>s. s\<lparr>pe_spans := (pe_spans s)((pid, i) := None)\<rparr>)) (\<lambda>_.
              perfetto_append encode (sp_trace sp
                @ [event_packet s pid time (tth_id (sp_thread sp)) (sp_name sp) [] SliceEnd])))
     | RRecord i \<Rightarrow> io_panic
     | REvent parent name info \<Rightarrow>
         (case tr_thread r of
            None \<Rightarrow> io_return (Inl MissingThread)
          | Some thread \<Rightarrow>
              let packet = event_packet s pid time (tth_id thread) name [debug_annotation info] Instant in
              case Option.bind parent (\<lambda>i. map_option (\<lambda>_. i) (pe_spans s (pid, i))) of
                Some i \<Rightarrow> io_bind (io_modify (push_packet (pid, i) packet)) (\<lambda>_. io_return (Inr ()))
              | None \<Rightarrow>
                  perfetto_append encode
                    [process_descriptor s pid (tpr_name (tr_process r)),
                     thread_descriptor pid (tth_id thread) (tth_name thread), packet])))"

text \<open>The loop that feeds the writer; an error ends it.\<close>

fun on_packets :: "(perfetto_packet list \<Rightarrow> u8 list) \<Rightarrow> trace_record list \<Rightarrow> (perfetto, tracer_error + unit) io" where
  "on_packets encode [] = io_return (Inr ())"
| "on_packets encode (r # rs) = io_try (on_packet encode r) (\<lambda>_. on_packets encode rs)"

section \<open>What is written for a span\<close>

text \<open>The packet that a record adds to an open span, if it adds one.\<close>

definition span_packet :: "perfetto \<Rightarrow> u32 \<times> u64 \<Rightarrow> span \<Rightarrow> trace_record \<Rightarrow> perfetto_packet list" where
  "span_packet s key sp r =
    (if tpr_id (tr_process r) \<noteq> fst key then []
     else case as_event (tr_data r) of
       REnterSpan i \<Rightarrow> if i = snd key
         then [event_packet s (fst key) (word_of_int (tr_time r)) (tth_id (sp_thread sp)) (sp_name sp)
           [debug_annotation (sp_info sp)] SliceBegin] else []
     | REvent parent name info \<Rightarrow> if parent = Some (snd key)
         then (case tr_thread r of None \<Rightarrow> [] | Some thread \<Rightarrow>
           [event_packet s (fst key) (word_of_int (tr_time r)) (tth_id thread) name [debug_annotation info] Instant])
         else []
     | _ \<Rightarrow> [])"

definition ends_span :: "u32 \<times> u64 \<Rightarrow> trace_record \<Rightarrow> bool" where
  "ends_span key r \<longleftrightarrow> tpr_id (tr_process r) = fst key \<and> (tr_data r = RExit \<or> tr_data r = RExitSpan (snd key))"

definition span_open :: "perfetto \<Rightarrow> u32 \<times> u64 \<Rightarrow> span \<Rightarrow> bool" where
  "span_open s key sp \<longleftrightarrow> pe_spans s key = Some sp \<and> sp_pid sp = fst key"

lemma on_packet_span:
  assumes "span_open s (p, k) sp" "\<not> ends_span (p, k) r" "on_packet encode r s = (Ret (Inr ()), s')"
  shows "span_open s' (p, k) (sp\<lparr>sp_trace := sp_trace sp @ span_packet s (p, k) sp r\<rparr>)
    \<and> pe_sequence_id s' = pe_sequence_id s \<and> pe_writer_ok s' = pe_writer_ok s"
proof (cases "as_event (tr_data r)")
  case RExec
  with assms show ?thesis by (auto simp: on_packet_def io_defs span_packet_def Let_def span_open_def split: if_splits)
next
  case RExit
  then have "tr_data r = RExit" by (cases "tr_data r") simp_all
  with assms RExit show ?thesis
    by (auto simp: on_packet_def io_defs span_packet_def Let_def span_open_def ends_span_def split: if_splits)
next
  case (RNewSpan i name info)
  with assms show ?thesis
    by (auto simp: on_packet_def io_defs span_packet_def Let_def span_open_def split: if_splits option.splits)
next
  case (REnterSpan i)
  with assms show ?thesis
    by (auto simp: on_packet_def io_defs span_packet_def Let_def span_open_def push_packet_def
        split: if_splits option.splits)
next
  case (RExitSpan i)
  then have "tr_data r = RExitSpan i" by (cases "tr_data r") simp_all
  with assms RExitSpan show ?thesis
    by (auto simp: on_packet_def io_defs span_packet_def Let_def span_open_def ends_span_def perfetto_append_def
        split: if_splits option.splits)
next
  case (RRecord i)
  then show ?thesis by (cases "tr_data r") simp_all
next
  case (REvent parent name info)
  with assms show ?thesis
    by (auto simp: on_packet_def io_defs span_packet_def Let_def span_open_def push_packet_def perfetto_append_def
        split: if_splits option.splits bind_splits)
qed

text \<open>The packets of a run, and the span with them.\<close>

lemma span_packet_static:
  "pe_sequence_id s' = pe_sequence_id s \<Longrightarrow> span_packet s' key (sp\<lparr>sp_trace := t\<rparr>) r = span_packet s key sp r"
  by (simp add: span_packet_def event_packet_def split: record_data.splits option.splits)

lemma on_packets_span:
  assumes "span_open s (p, k) sp" "list_all (\<lambda>r. \<not> ends_span (p, k) r) rs" "on_packets encode rs s = (Ret (Inr ()), s')"
  shows "span_open s' (p, k) (sp\<lparr>sp_trace := sp_trace sp @ concat (map (span_packet s (p, k) sp) rs)\<rparr>)
    \<and> pe_sequence_id s' = pe_sequence_id s \<and> pe_writer_ok s' = pe_writer_ok s"
  using assms
proof (induction rs arbitrary: s sp)
  case Nil
  then show ?case by (simp add: io_defs)
next
  case (Cons r rs)
  from Cons.prems(3) obtain s1 where s1: "on_packet encode r s = (Ret (Inr ()), s1)"
    "on_packets encode rs s1 = (Ret (Inr ()), s')"
    by (auto simp: io_try_def io_bind_def io_return_def split: prod.splits outcome.splits sum.splits)
  let ?sp = "sp\<lparr>sp_trace := sp_trace sp @ span_packet s (p, k) sp r\<rparr>"
  from on_packet_span [OF Cons.prems(1) _ s1(1)] Cons.prems(2)
  have open1: "span_open s1 (p, k) ?sp" "pe_sequence_id s1 = pe_sequence_id s" "pe_writer_ok s1 = pe_writer_ok s"
    by simp_all
  have same: "span_packet s1 (p, k) ?sp = span_packet s (p, k) sp"
    by (rule ext) (rule span_packet_static [OF open1(2)])
  from Cons.IH [OF open1(1) _ s1(2)] Cons.prems(2) open1(2,3) show ?case by (simp add: same)
qed

text \<open>
  C19: what the tracer writes for a span is complete and in order. Between the record that creates a
  span and the first exit of it, whatever other records of this or other processes come in between,
  nothing of it is written and nothing is lost; at the exit one trace is written: the descriptors of
  its process and thread, then one packet per enter, event and record of the span in the order of
  arrival, then the end; and the span is forgotten.
\<close>

theorem span_trace_complete:
  assumes "on_packets encode (r # mid) s = (Ret (Inr ()), s')" and "pe_writer_ok s"
    and "tr_data r = RNewSpan k name info" and "tpr_id (tr_process r) = p" and "tr_thread r = Some thread"
    and "list_all (\<lambda>x. \<not> ends_span (p, k) x) mid"
    and "tr_data e = RExitSpan k" and "tpr_id (tr_process e) = p" and "0 \<le> tr_time e"
    and "sp = \<lparr>sp_pid = p, sp_thread = thread, sp_trace = [], sp_name = name, sp_info = info\<rparr>"
  shows "\<exists>s''. on_packet encode e s' = (Ret (Inr ()), s'') \<and> pe_spans s'' (p, k) = None
    \<and> pe_written s'' = pe_written s' @
        [[process_descriptor s p (tpr_name (tr_process r)), thread_descriptor p (tth_id thread) (tth_name thread)]
          @ concat (map (span_packet s (p, k) sp) mid)
          @ [event_packet s p (word_of_int (tr_time e)) (tth_id thread) name [] SliceEnd]]"
proof -
  let ?first = "[process_descriptor s p (tpr_name (tr_process r)), thread_descriptor p (tth_id thread) (tth_name thread)]"
  from assms(1) obtain s1 where s1: "on_packet encode r s = (Ret (Inr ()), s1)"
    "on_packets encode mid s1 = (Ret (Inr ()), s')"
    by (auto simp: io_try_def io_bind_def io_return_def split: prod.splits outcome.splits sum.splits)
  from s1(1) assms(3-5,10) have open1: "span_open s1 (p, k) (sp\<lparr>sp_trace := ?first\<rparr>)"
    "pe_sequence_id s1 = pe_sequence_id s" "pe_writer_ok s1 = pe_writer_ok s"
    by (auto simp: on_packet_def io_defs Let_def span_open_def split: if_splits)
  have same: "span_packet s1 (p, k) (sp\<lparr>sp_trace := ?first\<rparr>) = span_packet s (p, k) sp"
    by (rule ext) (rule span_packet_static [OF open1(2)])
  from on_packets_span [OF open1(1) assms(6) s1(2)] open1(2,3) assms(2)
  have "pe_spans s' (p, k) = Some (sp\<lparr>sp_trace := ?first @ concat (map (span_packet s (p, k) sp) mid)\<rparr>)"
    "pe_sequence_id s' = pe_sequence_id s" "pe_writer_ok s'"
    by (simp_all add: span_open_def same)
  with assms(7-10) show ?thesis
    by (simp add: on_packet_def io_defs Let_def perfetto_append_def event_packet_def)
qed

definition demo_record :: "u32 \<Rightarrow> int \<Rightarrow> record_data \<Rightarrow> trace_record" where
  "demo_record p t d = \<lparr>tr_time = t, tr_process = \<lparr>tpr_id = p, tpr_name = None\<rparr>,
    tr_thread = Some \<lparr>tth_id = 8, tth_name = None\<rparr>, tr_data = d\<rparr>"

theorem span_trace_complete_witness:
  "\<exists>s' s''. on_packets (\<lambda>_. []) [demo_record 7 0 (RNewSpan 1 [0x61] no_info), demo_record 7 1 (REnterSpan 1),
      demo_record 9 2 (REnterSpan 1), demo_record 7 3 (RRecord 1)] (perfetto_new 0 0) = (Ret (Inr ()), s')
    \<and> on_packet (\<lambda>_. []) (demo_record 7 4 (RExitSpan 1)) s' = (Ret (Inr ()), s'')
    \<and> pe_spans s'' (7, 1) = None \<and> length (last (pe_written s'')) = 5"
proof -
  obtain s' where run: "on_packets (\<lambda>_. []) [demo_record 7 0 (RNewSpan 1 [0x61] no_info), demo_record 7 1 (REnterSpan 1),
      demo_record 9 2 (REnterSpan 1), demo_record 7 3 (RRecord 1)] (perfetto_new 0 0) = (Ret (Inr ()), s')"
    by (simp add: on_packet_def demo_record_def perfetto_new_def io_defs Let_def push_packet_def)
  from span_trace_complete [OF run, of 1 "[0x61]" no_info 7 "\<lparr>tth_id = 8, tth_name = None\<rparr>" "demo_record 7 4 (RExitSpan 1)"] run
  show ?thesis
    by (auto simp: demo_record_def perfetto_new_def ends_span_def span_packet_def)
qed

end
