(* ===== verification/Feo_Trace_Stream.thy ===== *)
theory Feo_Trace_Stream
  imports Feo_Tracer
begin

text \<open>
  The way of a trace packet: the serialising thread of a process (\<open>feo-tracing/src/subscriber.rs\<close>)
  writes packets through a buffer to a socket, and a connection of the tracer (\<open>feo-tracer/src/io.rs\<close>)
  reads bytes in chunks of any cap and turns them into records. Serialisation and the accumulator
  of frames belong to the postcard library: they are parameters, and \<open>framing\<close> states what they do.
\<close>

section \<open>The writer of a process\<close>

definition max_packet_size :: nat where
  "max_packet_size = 148"

definition bufwriter_size :: nat where
  "bufwriter_size = 512 * max_packet_size"

record trace_writer =
  tw_buffer :: "u8 list"
  tw_sent :: "u8 list"

definition tw_flush :: "trace_writer \<Rightarrow> trace_writer" where
  "tw_flush w = w\<lparr>tw_buffer := [], tw_sent := tw_sent w @ tw_buffer w\<rparr>"

text \<open>\<open>BufWriter::write_all\<close>: what does not fit is preceded by a flush, and what never fits is not buffered.\<close>

definition tw_write_all :: "u8 list \<Rightarrow> trace_writer \<Rightarrow> trace_writer" where
  "tw_write_all bs w =
    (if length (tw_buffer w) + length bs < bufwriter_size then w\<lparr>tw_buffer := tw_buffer w @ bs\<rparr>
     else let w = (if bufwriter_size < length (tw_buffer w) + length bs then tw_flush w else w) in
       if bufwriter_size \<le> length bs then w\<lparr>tw_sent := tw_sent w @ bs\<rparr> else w\<lparr>tw_buffer := tw_buffer w @ bs\<rparr>)"

text \<open>
  The loop over the received packets while writing succeeds; each comes with the answer whether the
  flush interval is over after it. A packet that cannot be serialised is skipped.
\<close>

fun write_packets :: "(trace_packet \<Rightarrow> u8 list option) \<Rightarrow> (trace_packet \<times> bool) list \<Rightarrow> trace_writer \<Rightarrow> trace_writer" where
  "write_packets serialize [] w = w"
| "write_packets serialize ((packet, due) # packets) w =
    (case serialize packet of
       None \<Rightarrow> write_packets serialize packets w
     | Some bs \<Rightarrow>
         (let w = tw_write_all bs w in write_packets serialize packets (if due then tw_flush w else w)))"

section \<open>A connection of the tracer\<close>

datatype feed_result =
    Consumed
  | OverFull "u8 list"
  | DeserError "u8 list"
  | Success trace_packet "u8 list"

type_synonym 'acc feeder = "u8 list \<Rightarrow> 'acc \<Rightarrow> feed_result \<times> 'acc"

text \<open>What \<open>try_read\<close> gives; reading no bytes means that the peer has closed the connection.\<close>

datatype trace_read = ReadBytes "u8 list" | ReadBlocks | ReadFails

record 'acc trace_conn =
  tc_acc :: 'acc
  tc_cache :: name_cache
  tc_sink :: "trace_record list"
  tc_sink_open :: bool

definition read_buffer_size :: nat where
  "read_buffer_size = 32 * max_packet_size"

definition sink_send :: "trace_record \<Rightarrow> ('acc trace_conn, unit) io" where
  "sink_send r =
    io_bind (io_gets tc_sink_open) (\<lambda>open.
    if open then io_modify (\<lambda>c. c\<lparr>tc_sink := tc_sink c @ [r]\<rparr>) else io_panic)"

definition acc_feed :: "'acc feeder \<Rightarrow> u8 list \<Rightarrow> ('acc trace_conn, feed_result) io" where
  "acc_feed feed bs =
    io_bind (io_gets tc_acc) (\<lambda>acc.
    case feed bs acc of (r, acc') \<Rightarrow> io_bind (io_modify (\<lambda>c. c\<lparr>tc_acc := acc'\<rparr>)) (\<lambda>_. io_return r))"

text \<open>The loop over the rest of a chunk; the result says whether the connection goes on.\<close>

fun feed_loop ::
  "nat \<Rightarrow> 'acc feeder \<Rightarrow> (u32 \<Rightarrow> u32 \<Rightarrow> utf8 option) \<Rightarrow> u32 \<Rightarrow> utf8 option \<Rightarrow> u8 list \<Rightarrow> ('acc trace_conn, bool) io" where
  "feed_loop n feed read_comm pid process_name [] = io_return True"
| "feed_loop 0 feed read_comm pid process_name remaining = io_hang"
| "feed_loop (Suc n) feed read_comm pid process_name remaining =
    io_bind (acc_feed feed remaining) (\<lambda>r.
    case r of
      Consumed \<Rightarrow> io_return True
    | OverFull _ \<Rightarrow> io_return False
    | DeserError remaining \<Rightarrow> feed_loop n feed read_comm pid process_name remaining
    | Success packet remaining \<Rightarrow>
        io_bind (io_zoom tc_cache (\<lambda>k c. c\<lparr>tc_cache := k\<rparr>) (decode_packet read_comm pid packet process_name)) (\<lambda>record.
        io_bind (sink_send record) (\<lambda>_. feed_loop n feed read_comm pid process_name remaining)))"

fun read_loop ::
  "nat \<Rightarrow> 'acc feeder \<Rightarrow> (u32 \<Rightarrow> u32 \<Rightarrow> utf8 option) \<Rightarrow> u32 \<Rightarrow> utf8 option \<Rightarrow> trace_read list \<Rightarrow> ('acc trace_conn, unit) io" where
  "read_loop n feed read_comm pid process_name [] = io_hang"
| "read_loop n feed read_comm pid process_name (ReadBlocks # reads) = read_loop n feed read_comm pid process_name reads"
| "read_loop n feed read_comm pid process_name (ReadFails # reads) = io_return ()"
| "read_loop n feed read_comm pid process_name (ReadBytes bs # reads) =
    (if bs = [] then io_return ()
     else io_bind (feed_loop n feed read_comm pid process_name bs) (\<lambda>go_on.
       if go_on then read_loop n feed read_comm pid process_name reads else io_return ()))"

definition process_record :: "int \<Rightarrow> u32 \<Rightarrow> utf8 option \<Rightarrow> record_data \<Rightarrow> trace_record" where
  "process_record time pid name d =
    \<lparr>tr_time = time, tr_process = \<lparr>tpr_id = pid, tpr_name = name\<rparr>, tr_thread = None, tr_data = d\<rparr>"

text \<open>\<open>peer\<close> is the process of the peer, \<open>read_proc\<close> reads its name, \<open>stamps\<close> are those of the first and the last record.\<close>

definition trace_connection ::
  "nat \<Rightarrow> 'acc feeder \<Rightarrow> 'acc \<Rightarrow> (u32 \<Rightarrow> utf8 option) \<Rightarrow> (u32 \<Rightarrow> u32 \<Rightarrow> utf8 option) \<Rightarrow> int \<times> int \<Rightarrow> u32 option \<Rightarrow>
    trace_read list \<Rightarrow> ('acc trace_conn, unit) io" where
  "trace_connection n feed new_acc read_proc read_comm stamps peer reads =
    io_bind (io_expect peer) (\<lambda>pid.
    let process_name = read_proc pid in
    io_bind (sink_send (process_record (fst stamps) pid process_name RExec)) (\<lambda>_.
    io_bind (io_modify (\<lambda>c. c\<lparr>tc_cache := \<lparr>nc_pid = pid, nc_names = Map.empty\<rparr>, tc_acc := new_acc\<rparr>)) (\<lambda>_.
    io_bind (read_loop n feed read_comm pid process_name reads) (\<lambda>_.
    sink_send (process_record (snd stamps) pid None RExit)))))"

text \<open>The loop over what \<open>accept\<close> yields: the connections that are spawned, and the error that ends it.\<close>

fun trace_listen :: "(string + 'conn) list \<Rightarrow> 'conn list \<times> string option" where
  "trace_listen [] = ([], None)"
| "trace_listen (Inl e # accepts) = ([], Some e)"
| "trace_listen (Inr c # accepts) = (case trace_listen accepts of (cs, e) \<Rightarrow> (c # cs, e))"

section \<open>Framing\<close>

text \<open>The frames that zero bytes end, and the bytes after the last of them.\<close>

fun frames_of :: "u8 list \<Rightarrow> u8 list \<Rightarrow> u8 list list \<times> u8 list" where
  "frames_of acc [] = ([], acc)"
| "frames_of acc (b # bs) =
    (if b = 0 then (case frames_of [] bs of (fs, t) \<Rightarrow> ((acc @ [0]) # fs, t)) else frames_of (acc @ [b]) bs)"

text \<open>
  What the accumulator of capacity \<open>cap\<close> does with an input that fits: without a zero byte the input
  is kept, and with one the frame up to it is parsed and the accumulator is empty.
\<close>

definition framing :: "nat \<Rightarrow> 'acc feeder \<Rightarrow> ('acc \<Rightarrow> u8 list) \<Rightarrow> (u8 list \<Rightarrow> trace_packet option) \<Rightarrow> bool" where
  "framing cap feed held parse \<longleftrightarrow>
    (\<forall>acc bs. bs \<noteq> [] \<and> 0 \<notin> set bs \<and> length (held acc) + length bs \<le> cap \<longrightarrow>
      (case feed bs acc of (r, acc') \<Rightarrow> r = Consumed \<and> held acc' = held acc @ bs))
    \<and> (\<forall>acc bs rest. 0 \<notin> set bs \<and> length (held acc) + length bs + 1 \<le> cap \<longrightarrow>
      (case feed (bs @ 0 # rest) acc of (r, acc') \<Rightarrow> held acc' = []
        \<and> r = (case parse (held acc @ bs @ [0]) of Some packet \<Rightarrow> Success packet rest | None \<Rightarrow> DeserError rest)))"

definition serializing :: "(trace_packet \<Rightarrow> u8 list option) \<Rightarrow> (u8 list \<Rightarrow> trace_packet option) \<Rightarrow> bool" where
  "serializing serialize parse \<longleftrightarrow>
    (\<forall>packet bs. serialize packet = Some bs \<longrightarrow>
      length bs \<le> max_packet_size \<and> parse bs = Some packet \<and> (\<exists>cs. bs = cs @ [0] \<and> 0 \<notin> set cs))"

lemma frames_of_clean: "0 \<notin> set bs \<Longrightarrow> frames_of acc bs = ([], acc @ bs)"
  by (induction bs arbitrary: acc) auto

lemma frames_of_append:
  "frames_of acc (xs @ ys) = (case frames_of acc xs of (fs, t) \<Rightarrow> case frames_of t ys of (gs, u) \<Rightarrow> (fs @ gs, u))"
  by (induction xs arbitrary: acc) (auto split: prod.splits)

lemma frames_of_first: "0 \<notin> set bs \<Longrightarrow> frames_of acc (bs @ 0 # rest) =
    (case frames_of [] rest of (fs, t) \<Rightarrow> ((acc @ bs @ [0]) # fs, t))"
  by (simp add: frames_of_append frames_of_clean split: prod.splits)

lemma split_zero: "0 \<in> set (bs :: u8 list) \<Longrightarrow> \<exists>cs rest. bs = cs @ 0 # rest \<and> 0 \<notin> set cs"
  by (metis split_list_first)

section \<open>What a connection delivers\<close>

text \<open>The record of a packet, with the name of its thread as the kernel gives it.\<close>

definition packet_record ::
  "(u32 \<Rightarrow> u32 \<Rightarrow> utf8 option) \<Rightarrow> u32 \<Rightarrow> utf8 option \<Rightarrow> trace_packet \<Rightarrow> trace_record outcome" where
  "packet_record read_comm pid name packet =
    obind (record_data_of (tp_data packet)) (\<lambda>d.
    Ret \<lparr>tr_time = int (unat (tp_timestamp packet)), tr_process = \<lparr>tpr_id = pid, tpr_name = name\<rparr>,
      tr_thread = map_option (\<lambda>p. \<lparr>tth_id = pr_tid p, tth_name = read_comm pid (pr_tid p)\<rparr>) (tp_process packet),
      tr_data = d\<rparr>)"

definition cache_ok :: "(u32 \<Rightarrow> u32 \<Rightarrow> utf8 option) \<Rightarrow> u32 \<Rightarrow> name_cache \<Rightarrow> bool" where
  "cache_ok read_comm pid k \<longleftrightarrow> nc_pid k = pid \<and> (\<forall>tid name. nc_names k tid = Some name \<longrightarrow> name = read_comm pid tid)"

definition conn_ok :: "(u32 \<Rightarrow> u32 \<Rightarrow> utf8 option) \<Rightarrow> u32 \<Rightarrow> 'acc trace_conn \<Rightarrow> bool" where
  "conn_ok read_comm pid c \<longleftrightarrow> cache_ok read_comm pid (tc_cache c) \<and> tc_sink_open c"

lemma decode_packet_record:
  assumes "cache_ok read_comm pid k" "packet_record read_comm pid name packet = Ret r"
  shows "\<exists>k'. decode_packet read_comm pid packet name k = (Ret r, k') \<and> cache_ok read_comm pid k'"
proof -
  obtain d where d: "record_data_of (tp_data packet) = Ret d" using assms(2)
    by (cases "record_data_of (tp_data packet)") (auto simp: packet_record_def)
  show ?thesis
  proof (cases "tp_process packet")
    case None
    with d assms show ?thesis by (auto simp: decode_packet_def packet_record_def io_defs)
  next
    case (Some q)
    show ?thesis
    proof (cases "nc_names k (pr_tid q)")
      case None
      with Some d assms show ?thesis
        by (auto simp: decode_packet_def packet_record_def cache_get_def cache_ok_def io_defs)
    next
      case (Some name')
      moreover from this assms(1) have "name' = read_comm pid (pr_tid q)" by (simp add: cache_ok_def)
      ultimately show ?thesis
        using \<open>tp_process packet = Some q\<close> d assms
        by (auto simp: decode_packet_def packet_record_def cache_get_def io_defs)
    qed
  qed
qed

text \<open>The frames that can be parsed, in order; the others are skipped.\<close>

definition parsed :: "(u8 list \<Rightarrow> trace_packet option) \<Rightarrow> u8 list list \<Rightarrow> trace_packet list" where
  "parsed parse fs = concat (map (\<lambda>f. case parse f of None \<Rightarrow> [] | Some packet \<Rightarrow> [packet]) fs)"

lemma parsed_simps [simp]:
  "parsed parse [] = []"
  "parsed parse (f # fs) = (case parse f of None \<Rightarrow> [] | Some packet \<Rightarrow> [packet]) @ parsed parse fs"
  "parsed parse (fs @ gs) = parsed parse fs @ parsed parse gs"
  by (simp_all add: parsed_def)

lemma feed_kept:
  assumes "framing cap feed held parse" "bs \<noteq> []" "0 \<notin> set bs" "length (held (tc_acc c)) + length bs \<le> cap"
  shows "\<exists>acc. acc_feed feed bs c = (Ret Consumed, c\<lparr>tc_acc := acc\<rparr>) \<and> held acc = held (tc_acc c) @ bs"
proof -
  have "case feed bs (tc_acc c) of (r, acc') \<Rightarrow> r = Consumed \<and> held acc' = held (tc_acc c) @ bs"
    using assms(1) [unfolded framing_def, THEN conjunct1, THEN spec [of _ "tc_acc c"], THEN spec [of _ bs], THEN mp]
      assms(2-4) by simp
  then show ?thesis by (cases "feed bs (tc_acc c)") (auto simp: acc_feed_def io_defs)
qed

lemma feed_framed:
  assumes "framing cap feed held parse" "0 \<notin> set bs" "length (held (tc_acc c)) + length bs + 1 \<le> cap"
  shows "\<exists>acc. acc_feed feed (bs @ 0 # rest) c
      = (Ret (case parse (held (tc_acc c) @ bs @ [0]) of Some packet \<Rightarrow> Success packet rest | None \<Rightarrow> DeserError rest),
         c\<lparr>tc_acc := acc\<rparr>) \<and> held acc = []"
proof -
  have "case feed (bs @ 0 # rest) (tc_acc c) of (r, acc') \<Rightarrow> held acc' = []
      \<and> r = (case parse (held (tc_acc c) @ bs @ [0]) of Some packet \<Rightarrow> Success packet rest | None \<Rightarrow> DeserError rest)"
    using assms(1) [unfolded framing_def, THEN conjunct2, THEN spec [of _ "tc_acc c"], THEN spec [of _ bs],
        THEN spec [of _ rest], THEN mp] assms(2,3) by simp
  then show ?thesis by (cases "feed (bs @ 0 # rest) (tc_acc c)") (auto simp: acc_feed_def io_defs)
qed

lemma feed_loop_frames:
  assumes fr: "framing cap feed held parse"
  shows "frames_of (held (tc_acc c)) bs = (fs, t) \<Longrightarrow> \<forall>f \<in> set fs. length f \<le> cap \<Longrightarrow> length t \<le> cap \<Longrightarrow>
    length bs \<le> n \<Longrightarrow> conn_ok read_comm pid c \<Longrightarrow> map (packet_record read_comm pid name) (parsed parse fs) = map Ret rs \<Longrightarrow>
    \<exists>c'. feed_loop n feed read_comm pid name bs c = (Ret True, c') \<and> held (tc_acc c') = t
      \<and> conn_ok read_comm pid c' \<and> tc_sink c' = tc_sink c @ rs"
proof (induction n arbitrary: bs c fs rs)
  case 0
  then show ?case by (simp add: io_return_def)
next
  case (Suc n)
  show ?case
  proof (cases "bs = []")
    case True
    with Suc.prems show ?thesis by (simp add: io_return_def)
  next
    case False
    then have step: "feed_loop (Suc n) feed read_comm pid name bs = io_bind (acc_feed feed bs) (\<lambda>r.
      case r of Consumed \<Rightarrow> io_return True | OverFull _ \<Rightarrow> io_return False
      | DeserError remaining \<Rightarrow> feed_loop n feed read_comm pid name remaining
      | Success packet remaining \<Rightarrow>
          io_bind (io_zoom tc_cache (\<lambda>k c. c\<lparr>tc_cache := k\<rparr>) (decode_packet read_comm pid packet name)) (\<lambda>record.
          io_bind (sink_send record) (\<lambda>_. feed_loop n feed read_comm pid name remaining)))"
      by (cases bs) simp_all
    show ?thesis
    proof (cases "0 \<in> set bs")
      case False
      then have f: "fs = []" "t = held (tc_acc c) @ bs" using Suc.prems(1) by (simp_all add: frames_of_clean)
      then obtain acc where "acc_feed feed bs c = (Ret Consumed, c\<lparr>tc_acc := acc\<rparr>)" "held acc = held (tc_acc c) @ bs"
        using feed_kept [OF fr \<open>bs \<noteq> []\<close> False] Suc.prems(3) by auto
      with f Suc.prems(5,6) show ?thesis unfolding step by (simp add: io_bind_def io_return_def conn_ok_def)
    next
      case True
      then obtain cs rest where bs: "bs = cs @ 0 # rest" "0 \<notin> set cs" using split_zero by blast
      obtain gs where gs: "frames_of [] rest = (gs, t)" "fs = (held (tc_acc c) @ cs @ [0]) # gs"
        using Suc.prems(1) unfolding bs(1) frames_of_first [OF bs(2)] by (auto split: prod.splits)
      have fits: "length (held (tc_acc c)) + length cs + 1 \<le> cap" using Suc.prems(2) gs(2) by simp
      obtain acc where fed: "acc_feed feed bs c = (Ret (case parse (held (tc_acc c) @ cs @ [0]) of
          Some packet \<Rightarrow> Success packet rest | None \<Rightarrow> DeserError rest), c\<lparr>tc_acc := acc\<rparr>)" "held acc = []"
        using feed_framed [OF fr bs(2) fits, of rest] bs(1) by blast
      have rest: "length rest \<le> n" "\<forall>f \<in> set gs. length f \<le> cap" using Suc.prems(2,4) bs(1) gs(2) by simp_all
      show ?thesis
      proof (cases "parse (held (tc_acc c) @ cs @ [0])")
        case None
        have "\<exists>c'. feed_loop n feed read_comm pid name rest (c\<lparr>tc_acc := acc\<rparr>) = (Ret True, c') \<and> held (tc_acc c') = t
            \<and> conn_ok read_comm pid c' \<and> tc_sink c' = tc_sink (c\<lparr>tc_acc := acc\<rparr>) @ rs"
          by (rule Suc.IH [where fs = gs]) (use Suc.prems fed(2) gs rest None in \<open>simp_all add: conn_ok_def\<close>)
        then show ?thesis unfolding step by (simp add: io_bind_def fed None)
      next
        case (Some packet)
        then obtain r rs' where rs: "rs = r # rs'" "packet_record read_comm pid name packet = Ret r"
          "map (packet_record read_comm pid name) (parsed parse gs) = map Ret rs'"
          using Suc.prems(6) gs(2) by (cases rs) auto
        obtain k where k: "decode_packet read_comm pid packet name (tc_cache c) = (Ret r, k)" "cache_ok read_comm pid k"
          using decode_packet_record [OF _ rs(2)] Suc.prems(5) by (auto simp: conn_ok_def)
        let ?c = "c\<lparr>tc_acc := acc, tc_cache := k, tc_sink := tc_sink c @ [r]\<rparr>"
        have "\<exists>c'. feed_loop n feed read_comm pid name rest ?c = (Ret True, c') \<and> held (tc_acc c') = t
            \<and> conn_ok read_comm pid c' \<and> tc_sink c' = tc_sink ?c @ rs'"
          by (rule Suc.IH [where fs = gs]) (use Suc.prems fed(2) gs rest rs k in \<open>simp_all add: conn_ok_def\<close>)
        moreover have "tc_sink_open c" using Suc.prems(5) by (simp add: conn_ok_def)
        ultimately show ?thesis
          unfolding step using k(1)
          by (simp add: io_bind_def fed Some io_zoom_def sink_send_def io_gets_def io_modify_def rs(1))
      qed
    qed
  qed
qed

text \<open>The reads of a connection, and what they bring.\<close>

fun read_bytes :: "trace_read list \<Rightarrow> u8 list" where
  "read_bytes [] = []"
| "read_bytes (ReadBytes bs # reads) = bs @ read_bytes reads"
| "read_bytes (_ # reads) = read_bytes reads"

fun chunk_ok :: "trace_read \<Rightarrow> bool" where
  "chunk_ok (ReadBytes bs) \<longleftrightarrow> bs \<noteq> [] \<and> length bs \<le> read_buffer_size"
| "chunk_ok ReadBlocks \<longleftrightarrow> True"
| "chunk_ok ReadFails \<longleftrightarrow> False"

lemma frames_tail: "frames_of acc xs = (fs, t) \<Longrightarrow> length t \<le> length acc + length xs"
  by (induction xs arbitrary: acc fs) (fastforce split: if_splits prod.splits)+

lemma frames_start: "frames_of acc (xs @ ys) = (fs, t) \<Longrightarrow> frames_of acc xs = (gs, u) \<Longrightarrow> \<exists>hs. frames_of u ys = (hs, t) \<and> fs = gs @ hs"
  by (auto simp: frames_of_append split: prod.splits)

text \<open>The bytes that are held between two reads are the start of a frame, or of the rest.\<close>

lemma frames_held: "frames_of u ys = (hs, t) \<Longrightarrow> length u \<le> (case hs of [] \<Rightarrow> length t | h # _ \<Rightarrow> length h)"
  by (induction ys arbitrary: u hs) (fastforce split: if_splits prod.splits list.splits)+

lemma read_loop_frames:
  assumes fr: "framing cap feed held parse"
  shows "frames_of (held (tc_acc c)) (read_bytes reads) = (fs, t) \<Longrightarrow> \<forall>f \<in> set fs. length f \<le> cap \<Longrightarrow> length t \<le> cap \<Longrightarrow>
    list_all chunk_ok reads \<Longrightarrow> conn_ok read_comm pid c \<Longrightarrow> map (packet_record read_comm pid name) (parsed parse fs) = map Ret rs \<Longrightarrow>
    \<exists>c'. read_loop read_buffer_size feed read_comm pid name (reads @ [ReadBytes []]) c = (Ret (), c')
      \<and> conn_ok read_comm pid c' \<and> tc_sink c' = tc_sink c @ rs"
proof (induction reads arbitrary: c fs rs)
  case Nil
  then show ?case by (simp add: io_return_def)
next
  case (Cons r reads)
  show ?case
  proof (cases r)
    case ReadBlocks
    with Cons show ?thesis by simp
  next
    case ReadFails
    with Cons.prems show ?thesis by simp
  next
    case (ReadBytes bs)
    obtain gs u where gs: "frames_of (held (tc_acc c)) bs = (gs, u)" by fastforce
    from frames_start [OF _ gs, of "read_bytes reads"] Cons.prems(1) ReadBytes obtain hs
      where hs: "frames_of u (read_bytes reads) = (hs, t)" "fs = gs @ hs" by auto
    have u: "length u \<le> cap"
      using frames_held [OF hs(1)] Cons.prems(2,3) hs(2) by (cases hs) auto
    have "map (packet_record read_comm pid name) (parsed parse gs) @ map (packet_record read_comm pid name) (parsed parse hs)
        = map Ret rs"
      using Cons.prems(6) hs(2) by simp
    then obtain rs1 rs2 where rs: "rs = rs1 @ rs2" "map (packet_record read_comm pid name) (parsed parse gs) = map Ret rs1"
      "map (packet_record read_comm pid name) (parsed parse hs) = map Ret rs2"
      unfolding append_eq_map_conv by blast
    have "\<exists>c'. feed_loop read_buffer_size feed read_comm pid name bs c = (Ret True, c') \<and> held (tc_acc c') = u
        \<and> conn_ok read_comm pid c' \<and> tc_sink c' = tc_sink c @ rs1"
      by (rule feed_loop_frames [OF fr gs]) (use Cons.prems hs(2) u rs ReadBytes in auto)
    then obtain c1 where c1: "feed_loop read_buffer_size feed read_comm pid name bs c = (Ret True, c1)"
      "held (tc_acc c1) = u" "conn_ok read_comm pid c1" "tc_sink c1 = tc_sink c @ rs1" by blast
    have "\<exists>c'. read_loop read_buffer_size feed read_comm pid name (reads @ [ReadBytes []]) c1 = (Ret (), c')
        \<and> conn_ok read_comm pid c' \<and> tc_sink c' = tc_sink c1 @ rs2"
      by (rule Cons.IH [where fs = hs]) (use Cons.prems hs c1 rs in auto)
    moreover have "bs \<noteq> []" using Cons.prems(4) ReadBytes by simp
    ultimately show ?thesis using ReadBytes c1 rs(1) by (simp add: io_bind_def)
  qed
qed

section \<open>From the process to the tracer\<close>

text \<open>The packets that the thread writes: those that can be serialised.\<close>

definition written_packets :: "(trace_packet \<Rightarrow> u8 list option) \<Rightarrow> (trace_packet \<times> bool) list \<Rightarrow> trace_packet list" where
  "written_packets serialize packets = filter (\<lambda>p. serialize p \<noteq> None) (map fst packets)"

lemma write_all_bytes: "tw_sent (tw_write_all bs w) @ tw_buffer (tw_write_all bs w) = tw_sent w @ tw_buffer w @ bs"
  if "length bs < bufwriter_size"
  using that by (auto simp: tw_write_all_def tw_flush_def Let_def)

lemma write_packets_bytes:
  assumes "serializing serialize parse"
  shows "tw_sent (write_packets serialize packets w) @ tw_buffer (write_packets serialize packets w)
    = tw_sent w @ tw_buffer w @ concat (map (the \<circ> serialize) (written_packets serialize packets))"
proof (induction packets arbitrary: w)
  case Nil
  then show ?case by (simp add: written_packets_def)
next
  case (Cons x packets)
  obtain packet due where x: "x = (packet, due)" by fastforce
  show ?case
  proof (cases "serialize packet")
    case None
    with Cons x show ?thesis by (simp add: written_packets_def)
  next
    case (Some bs)
    then have "length bs < bufwriter_size"
      using assms by (fastforce simp: serializing_def bufwriter_size_def max_packet_size_def)
    note bytes = write_all_bytes [OF this, of w]
    let ?w = "if due then tw_flush (tw_write_all bs w) else tw_write_all bs w"
    have "tw_sent ?w @ tw_buffer ?w = tw_sent w @ tw_buffer w @ bs"
      using bytes by (simp add: tw_flush_def)
    then have "tw_sent ?w @ tw_buffer ?w @ ys = tw_sent w @ tw_buffer w @ bs @ ys" for ys
      by (metis append.assoc)
    then show ?thesis using Cons.IH [of ?w] x Some by (simp add: written_packets_def Let_def)
  qed
qed

text \<open>The frames of a part of the stream are those of the first packets.\<close>

lemma frames_of_part:
  assumes "list_all (\<lambda>b. length b \<le> cap \<and> (\<exists>cs. b = cs @ [0] \<and> 0 \<notin> set cs)) bss" "xs @ ys = concat bss"
  shows "\<exists>k t. frames_of [] xs = (take k bss, t) \<and> length t \<le> cap \<and> (ys = [] \<longrightarrow> k = length bss)"
  using assms
proof (induction bss arbitrary: xs)
  case Nil
  then show ?case by simp
next
  case (Cons b bss)
  then obtain cs where b: "b = cs @ [0]" "0 \<notin> set cs" "length b \<le> cap" by auto
  show ?case
  proof (cases "length b \<le> length xs")
    case True
    with Cons.prems(2) obtain zs where zs: "xs = b @ zs" "zs @ ys = concat bss"
      by (fastforce simp: append_eq_append_conv2)
    from Cons.IH [OF _ zs(2)] Cons.prems(1) obtain k t where
      "frames_of [] zs = (take k bss, t)" "length t \<le> cap" "ys = [] \<longrightarrow> k = length bss" by auto
    then show ?thesis
      using frames_of_first [OF b(2), of "[]" zs] zs(1) b(1)
      by (intro exI [of _ "Suc k"] exI [of _ t]) simp
  next
    case False
    then have "length xs \<le> length cs" using b(1) by simp
    then have "xs = take (length xs) cs"
      using Cons.prems(2) b(1) by (simp add: append_eq_conv_conj)
    then have "0 \<notin> set xs" using b(2) in_set_takeD by metis
    moreover have "ys \<noteq> []" using Cons.prems(2) False by (cases ys) auto
    ultimately show ?thesis using False b(3) by (intro exI [of _ 0] exI [of _ xs]) (simp add: frames_of_clean)
  qed
qed

lemma written_framed:
  assumes "serializing serialize parse"
  shows "list_all (\<lambda>b. length b \<le> max_packet_size \<and> (\<exists>cs. b = cs @ [0] \<and> 0 \<notin> set cs))
      (map (the \<circ> serialize) (written_packets serialize packets))"
    and "parsed parse (map (the \<circ> serialize) (take k (written_packets serialize packets)))
      = take k (written_packets serialize packets)"
proof -
  have one: "length (the (serialize p)) \<le> max_packet_size \<and> parse (the (serialize p)) = Some p
      \<and> (\<exists>cs. the (serialize p) = cs @ [0] \<and> 0 \<notin> set cs)" if "serialize p \<noteq> None" for p
    using assms that unfolding serializing_def by fastforce
  show "list_all (\<lambda>b. length b \<le> max_packet_size \<and> (\<exists>cs. b = cs @ [0] \<and> 0 \<notin> set cs))
      (map (the \<circ> serialize) (written_packets serialize packets))"
    unfolding written_packets_def list_all_iff using one by auto
  have "parsed parse (map (the \<circ> serialize) ps) = ps" if "list_all (\<lambda>p. serialize p \<noteq> None) ps" for ps
    using that by (induction ps) (use one in fastforce)+
  moreover have "list_all (\<lambda>p. serialize p \<noteq> None) (take k (written_packets serialize packets))"
    unfolding list_all_iff written_packets_def using in_set_takeD by fastforce
  ultimately show "parsed parse (map (the \<circ> serialize) (take k (written_packets serialize packets)))
      = take k (written_packets serialize packets)" by blast
qed

text \<open>
  C20: What a process traces reaches the records of the tracer in order: whatever packets the thread
  writes and whenever it flushes, and in whatever chunks the socket delivers what was flushed, a
  connection yields one record for the process, one for each packet of an initial part of those that
  can be serialised, and one for the end. Nothing is reordered, invented or lost in between, and once
  the buffer is empty the part is everything. (Packets that make the conversion panic are excluded;
  those of the subscriber do not.)
\<close>

theorem trace_reaches_tracer:
  assumes lib: "framing read_buffer_size feed held parse" "serializing serialize parse" "held new_acc = []"
    and w: "w = write_packets serialize packets \<lparr>tw_buffer = [], tw_sent = []\<rparr>"
    and reads: "read_bytes reads = tw_sent w" "list_all chunk_ok reads" "tc_sink_open c"
    and rs: "map (packet_record read_comm pid (read_proc pid)) (written_packets serialize packets) = map Ret rs"
  shows "\<exists>k c'. trace_connection read_buffer_size feed new_acc read_proc read_comm (t0, t1) (Some pid)
      (reads @ [ReadBytes []]) c = (Ret (), c')
    \<and> tc_sink c' = tc_sink c @ process_record t0 pid (read_proc pid) RExec # take k rs @ [process_record t1 pid None RExit]
    \<and> (tw_buffer w = [] \<longrightarrow> k = length rs)"
proof -
  let ?sent = "written_packets serialize packets"
  let ?c = "c\<lparr>tc_sink := tc_sink c @ [process_record t0 pid (read_proc pid) RExec],
      tc_cache := \<lparr>nc_pid = pid, nc_names = Map.empty\<rparr>, tc_acc := new_acc\<rparr>"
  have size: "max_packet_size \<le> read_buffer_size" by (simp add: read_buffer_size_def)
  have "tw_sent w @ tw_buffer w = concat (map (the \<circ> serialize) ?sent)"
    using write_packets_bytes [OF lib(2), of packets "\<lparr>tw_buffer = [], tw_sent = []\<rparr>"] by (simp add: w)
  from frames_of_part [OF written_framed(1) [OF lib(2)] this] obtain k t where
    k: "frames_of [] (tw_sent w) = (take k (map (the \<circ> serialize) ?sent), t)" "length t \<le> max_packet_size"
      "tw_buffer w = [] \<longrightarrow> k = length ?sent" by auto
  have "list_all (\<lambda>b. length b \<le> max_packet_size) (map (the \<circ> serialize) ?sent)"
    using written_framed(1) [OF lib(2), of packets] by (simp add: list_all_iff)
  then have short: "\<forall>f \<in> set (take k (map (the \<circ> serialize) ?sent)). length f \<le> read_buffer_size"
    using size unfolding list_all_iff by (meson in_set_takeD order_trans)
  have "\<exists>c'. read_loop read_buffer_size feed read_comm pid (read_proc pid) (reads @ [ReadBytes []]) ?c = (Ret (), c')
      \<and> conn_ok read_comm pid c' \<and> tc_sink c' = tc_sink ?c @ take k rs"
  proof (rule read_loop_frames [OF lib(1)])
    show "frames_of (held (tc_acc ?c)) (read_bytes reads) = (take k (map (the \<circ> serialize) ?sent), t)"
      using k(1) reads(1) lib(3) by simp
    show "map (packet_record read_comm pid (read_proc pid)) (parsed parse (take k (map (the \<circ> serialize) ?sent)))
        = map Ret (take k rs)"
      unfolding take_map written_framed(2) [OF lib(2)] using rs by (metis take_map)
    show "conn_ok read_comm pid ?c" using reads(3) by (simp add: conn_ok_def cache_ok_def)
  qed (use short k(2) size reads(2) in simp_all)
  then obtain c' where c': "read_loop read_buffer_size feed read_comm pid (read_proc pid) (reads @ [ReadBytes []]) ?c = (Ret (), c')"
    "conn_ok read_comm pid c'" "tc_sink c' = tc_sink ?c @ take k rs" by blast
  have "length rs = length ?sent" using rs by (metis length_map)
  moreover have "trace_connection read_buffer_size feed new_acc read_proc read_comm (t0, t1) (Some pid)
      (reads @ [ReadBytes []]) c
    = (Ret (), c'\<lparr>tc_sink := tc_sink c' @ [process_record t1 pid None RExit]\<rparr>)"
    using reads(3) c' by (simp add: trace_connection_def io_expect_def io_return_def io_bind_def sink_send_def io_gets_def
        io_modify_def Let_def conn_ok_def)
  ultimately show ?thesis using c'(3) k(3) by (intro exI [of _ k]) simp
qed

text \<open>An accumulator that keeps the bytes in a list, and an encoding of one packet.\<close>

definition demo_packet :: trace_packet where
  "demo_packet = \<lparr>tp_timestamp = 3, tp_process = None, tp_data = EnterSpan 5\<rparr>"

definition demo_serialize :: "trace_packet \<Rightarrow> u8 list option" where
  "demo_serialize p = (if p = demo_packet then Some [7, 0] else None)"

definition demo_parse :: "u8 list \<Rightarrow> trace_packet option" where
  "demo_parse bs = (if bs = [7, 0] then Some demo_packet else None)"

fun demo_feed :: "u8 list feeder" where
  "demo_feed [] acc = (Consumed, acc)"
| "demo_feed (b # bs) acc =
    (if b = 0 then (case demo_parse (acc @ [0]) of Some p \<Rightarrow> Success p bs | None \<Rightarrow> DeserError bs, [])
     else demo_feed bs (acc @ [b]))"

lemma demo_feed_clean: "0 \<notin> set bs \<Longrightarrow> demo_feed (bs @ rest) acc = demo_feed rest (acc @ bs)"
  by (induction bs arbitrary: acc) auto

lemma demo_library: "framing n demo_feed (\<lambda>acc. acc) demo_parse" "serializing demo_serialize demo_parse"
proof -
  have "demo_feed bs acc = (Consumed, acc @ bs)" if "0 \<notin> set bs" for bs acc
    using demo_feed_clean [OF that, of "[]"] by simp
  then show "framing n demo_feed (\<lambda>acc. acc) demo_parse" by (auto simp: framing_def demo_feed_clean)
  show "serializing demo_serialize demo_parse"
    by (auto simp: serializing_def demo_serialize_def demo_parse_def max_packet_size_def intro!: exI [of _ "[7]"])
qed

definition demo_conn :: "u8 list trace_conn" where
  "demo_conn = \<lparr>tc_acc = [], tc_cache = \<lparr>nc_pid = 0, nc_names = Map.empty\<rparr>, tc_sink = [], tc_sink_open = True\<rparr>"

theorem trace_reaches_tracer_witness:
  "\<exists>k c'. trace_connection read_buffer_size demo_feed [] (\<lambda>_. None) (\<lambda>_ _. None) (1, 9) (Some 42)
      [ReadBytes [7], ReadBlocks, ReadBytes [0, 7, 0], ReadBytes []] demo_conn = (Ret (), c')
    \<and> tc_sink c' = process_record 1 42 None RExec
        # take k (replicate 2 \<lparr>tr_time = 3, tr_process = \<lparr>tpr_id = 42, tpr_name = None\<rparr>, tr_thread = None, tr_data = REnterSpan 5\<rparr>)
        @ [process_record 9 42 None RExit]
    \<and> k = 2"
proof -
  let ?r = "\<lparr>tr_time = 3, tr_process = \<lparr>tpr_id = 42, tpr_name = None\<rparr>, tr_thread = None, tr_data = REnterSpan 5\<rparr>"
  let ?packets = "[(demo_packet, False), (demo_packet\<lparr>tp_timestamp := 4\<rparr>, True), (demo_packet, True)]"
  let ?w = "write_packets demo_serialize ?packets \<lparr>tw_buffer = [], tw_sent = []\<rparr>"
  have w: "?w = \<lparr>tw_buffer = [], tw_sent = [7, 0, 7, 0]\<rparr>"
    by (simp add: demo_serialize_def demo_packet_def tw_write_all_def tw_flush_def bufwriter_size_def max_packet_size_def)
  have "\<exists>k c'. trace_connection read_buffer_size demo_feed [] (\<lambda>_. None) (\<lambda>_ _. None) (1, 9) (Some 42)
      ([ReadBytes [7], ReadBlocks, ReadBytes [0, 7, 0]] @ [ReadBytes []]) demo_conn = (Ret (), c')
    \<and> tc_sink c' = tc_sink demo_conn @ process_record 1 42 None RExec # take k (replicate 2 ?r) @ [process_record 9 42 None RExit]
    \<and> (tw_buffer ?w = [] \<longrightarrow> k = length (replicate 2 ?r))"
  proof (rule trace_reaches_tracer [OF demo_library refl refl])
    show "read_bytes [ReadBytes [7], ReadBlocks, ReadBytes [0, 7, 0]] = tw_sent ?w" unfolding w by simp
    have "replicate 2 ?r = [?r, ?r]" by (simp add: numeral_2_eq_2)
    then show "map (packet_record (\<lambda>_ _. None) 42 ((\<lambda>_. None) 42)) (written_packets demo_serialize ?packets) = map Ret (replicate 2 ?r)"
      by (simp add: written_packets_def demo_serialize_def demo_packet_def packet_record_def)
  qed (simp_all add: demo_conn_def read_buffer_size_def max_packet_size_def)
  then show ?thesis unfolding w by (simp add: demo_conn_def)
qed

end
