(* ===== verification/Feo_Com_Backends.thy ===== *)
theory Feo_Com_Backends
  imports Feo_Com_Guards
begin

text \<open>
  The inputs and outputs over iceoryx2 (\<open>feo-com/src/iox2/mod.rs\<close>) and MW COM
  (\<open>feo-com/src/mw_com/mod.rs\<close>), and how the mini-adas example creates those of MW COM
  (\<open>activities/input.rs\<close>, \<open>activities/output.rs\<close>). The two libraries are records of operations on a
  world of theirs; \<open>iox_contract\<close> and \<open>mwt_contract\<close> state what they do on a topic with one buffer.

  The locale \<open>last_value\<close> is what an activity relies on, whatever the backend: reading gives the value
  that was written last. It is interpreted on shared memory, and holds over the other two libraries.
\<close>

section \<open>iceoryx2\<close>

text \<open>
  The node of a process, made on first use and kept: the left-over state of dead nodes is removed, and
  a failure to remove it is only logged. \<open>in_list\<close> gives the nodes it visited, with whether they are
  dead, and its result.
\<close>

record ('s, 'n, 'node) iox_node_api =
  in_cleanup :: "('s, unit) io"
  in_list :: "('s, ('n \<times> bool) list \<times> (string + unit)) io"
  in_remove :: "'n \<Rightarrow> ('s, string + unit) io"
  in_name_ok :: "string \<Rightarrow> bool"
  in_create :: "string \<Rightarrow> ('s, string + 'node) io"

definition ipc_node_create :: "('s, 'n, 'node) iox_node_api \<Rightarrow> nat \<Rightarrow> ('s, 'node) io" where
  "ipc_node_create napi pid =
    io_bind (in_cleanup napi) (\<lambda>_.
    io_bind (in_list napi) (\<lambda>(nodes, r).
    io_bind (io_for nodes (\<lambda>(n, dead). if dead then io_bind (in_remove napi n) (\<lambda>_. io_return ()) else io_return ())) (\<lambda>_.
    io_bind (io_unwrap r) (\<lambda>_.
    let name = ''feo_node_'' @ decimal pid in
    if \<not> in_name_ok napi name then io_panic else io_bind (in_create napi name) io_unwrap))))"

type_synonym ('s, 'node) iox_world = "'s \<times> 'node option"

definition iox_io :: "('s, 'a) io \<Rightarrow> (('s, 'node) iox_world, 'a) io" where
  "iox_io = io_zoom fst (\<lambda>s w. (s, snd w))"

definition ipc_node :: "('s, 'n, 'node) iox_node_api \<Rightarrow> nat \<Rightarrow> (('s, 'node) iox_world, 'node) io" where
  "ipc_node napi pid =
    io_bind (io_gets snd) (\<lambda>node.
    case node of
      Some n \<Rightarrow> io_return n
    | None \<Rightarrow> io_bind (iox_io (ipc_node_create napi pid)) (\<lambda>n.
        io_bind (io_modify (\<lambda>w. (fst w, Some n))) (\<lambda>_. io_return n)))"

text \<open>The services, publishers and subscribers of a node, and their samples.\<close>

record iox_service_config =
  is_max_publishers :: nat
  is_max_subscribers :: nat
  is_safe_overflow :: bool
  is_buffer_size :: nat

record ('s, 'node, 'svc, 'sub, 'pub, 'g, 'v) iox_api =
  ix_name_ok :: "string \<Rightarrow> bool"
  ix_create :: "'node \<Rightarrow> string \<Rightarrow> iox_service_config \<Rightarrow> ('s, string + 'svc) io"
  ix_open :: "'node \<Rightarrow> string \<Rightarrow> ('s, string + 'svc) io"
  ix_subscriber :: "'svc \<Rightarrow> ('s, string + 'sub) io"
  ix_publisher :: "'svc \<Rightarrow> ('s, string + 'pub) io"
  ix_receive :: "'sub \<Rightarrow> ('s, string + 'g option) io"
  ix_loan_uninit :: "'pub \<Rightarrow> ('s, string + 'g) io"
  ix_loan :: "'pub \<Rightarrow> ('s, string + 'g) io"
  ix_payload :: "'g \<Rightarrow> ('s, 'v) io"
  ix_store :: "'g \<Rightarrow> 'v \<Rightarrow> ('s, unit) io"
  ix_write_payload :: "'g \<Rightarrow> 'v \<Rightarrow> ('s, 'g) io"
  ix_assume_init :: "'g \<Rightarrow> ('s, 'g) io"
  ix_send :: "'g \<Rightarrow> ('s, string + nat) io"

definition iox2_init_topic ::
  "('s, 'n, 'node) iox_node_api \<Rightarrow> ('s, 'node, 'svc, 'sub, 'pub, 'g, 'v) iox_api \<Rightarrow> nat \<Rightarrow> string \<Rightarrow> nat \<Rightarrow> nat \<Rightarrow>
    (('s, 'node) iox_world, 'svc) io" where
  "iox2_init_topic napi api pid topic writers readers =
    io_bind (ipc_node napi pid) (\<lambda>node.
    if \<not> ix_name_ok api topic then io_panic
    else io_bind (iox_io (ix_create api node topic
        \<lparr>is_max_publishers = writers, is_max_subscribers = readers, is_safe_overflow = True, is_buffer_size = 1\<rparr>))
      io_unwrap)"

definition iox2_open ::
  "('s, 'n, 'node) iox_node_api \<Rightarrow> ('s, 'node, 'svc, 'sub, 'pub, 'g, 'v) iox_api \<Rightarrow> nat \<Rightarrow> string \<Rightarrow>
    (('s, 'node) iox_world, 'svc) io" where
  "iox2_open napi api pid topic =
    io_bind (ipc_node napi pid) (\<lambda>node.
    if \<not> ix_name_ok api topic then io_panic else io_bind (iox_io (ix_open api node topic)) io_unwrap)"

definition iox2_input_new ::
  "('s, 'n, 'node) iox_node_api \<Rightarrow> ('s, 'node, 'svc, 'sub, 'pub, 'g, 'v) iox_api \<Rightarrow> nat \<Rightarrow> string \<Rightarrow>
    (('s, 'node) iox_world, 'sub) io" where
  "iox2_input_new napi api pid topic =
    io_bind (iox2_open napi api pid topic) (\<lambda>svc. io_bind (iox_io (ix_subscriber api svc)) io_unwrap)"

definition iox2_output_new ::
  "('s, 'n, 'node) iox_node_api \<Rightarrow> ('s, 'node, 'svc, 'sub, 'pub, 'g, 'v) iox_api \<Rightarrow> nat \<Rightarrow> string \<Rightarrow>
    (('s, 'node) iox_world, 'pub) io" where
  "iox2_output_new napi api pid topic =
    io_bind (iox2_open napi api pid topic) (\<lambda>svc. io_bind (iox_io (ix_publisher api svc)) io_unwrap)"

definition iox2_read :: "('s, 'node, 'svc, 'sub, 'pub, 'g, 'v) iox_api \<Rightarrow> 'sub \<Rightarrow> ('s, com_error + 'g) io" where
  "iox2_read api sub =
    io_bind (ix_receive api sub) (\<lambda>r.
    io_return (case r of Inr (Some sample) \<Rightarrow> Inr sample | _ \<Rightarrow> Inl NoEmptyBuffer))"

definition map_err :: "'e \<Rightarrow> 'x + 'a \<Rightarrow> 'e + 'a" where
  "map_err e r = (case r of Inl _ \<Rightarrow> Inl e | Inr a \<Rightarrow> Inr a)"

definition iox2_write_uninit :: "('s, 'node, 'svc, 'sub, 'pub, 'g, 'v) iox_api \<Rightarrow> 'pub \<Rightarrow> ('s, com_error + 'g) io" where
  "iox2_write_uninit api pub = io_bind (ix_loan_uninit api pub) (\<lambda>r. io_return (map_err NoEmptyBuffer r))"

definition iox2_write_init :: "('s, 'node, 'svc, 'sub, 'pub, 'g, 'v) iox_api \<Rightarrow> 'pub \<Rightarrow> ('s, com_error + 'g) io" where
  "iox2_write_init api pub = io_bind (ix_loan api pub) (\<lambda>r. io_return (map_err NoEmptyBuffer r))"

definition iox2_send :: "('s, 'node, 'svc, 'sub, 'pub, 'g, 'v) iox_api \<Rightarrow> 'g \<Rightarrow> ('s, com_error + unit) io" where
  "iox2_send api g = io_bind (ix_send api g) (\<lambda>r. io_return (map_err SendFailed (map_sum id (\<lambda>_. ()) r)))"

text \<open>The guards, as the interface uses them.\<close>

definition iox2_guards ::
  "('v process, 'node, 'svc, 'sub, 'pub, 'g, 'v) iox_api \<Rightarrow> 'v \<Rightarrow> ('g, 'v) foreign_guards" where
  "iox2_guards api dflt =
    \<lparr>fg_deref = ix_payload api, fg_send = iox2_send api, fg_assume_init = ix_assume_init api,
     fg_write_payload = ix_write_payload api, fg_init = (\<lambda>g. ix_write_payload api g dflt),
     fg_store = ix_store api\<rparr>"

section \<open>MW COM\<close>

record ('w, 'sub, 'pub, 'g, 'v) mwt_api =
  mt_try_receive :: "'sub \<Rightarrow> nat \<Rightarrow> 'g list \<Rightarrow> ('w, (string + nat) \<times> 'g list) io"
  mt_allocate :: "'pub \<Rightarrow> ('w, string + 'g) io"
  mt_assume_init :: "'g \<Rightarrow> ('w, 'g) io"
  mt_write :: "'g \<Rightarrow> 'v \<Rightarrow> ('w, 'g) io"
  mt_write_default :: "'g \<Rightarrow> ('w, 'g) io"
  mt_send :: "'g \<Rightarrow> ('w, string + unit) io"
  mt_deref :: "'g \<Rightarrow> ('w, 'v) io"
  mt_store :: "'g \<Rightarrow> 'v \<Rightarrow> ('w, unit) io"

text \<open>The world of an input: that of the library and the container of the received samples.\<close>

type_synonym ('w, 'g) mwt_world = "'w \<times> 'g list"

definition mwt_io :: "('w, 'a) io \<Rightarrow> (('w, 'g) mwt_world, 'a) io" where
  "mwt_io = io_zoom fst (\<lambda>w s. (w, snd s))"

definition mwt_read :: "('w, 'sub, 'pub, 'g, 'v) mwt_api \<Rightarrow> 'sub \<Rightarrow> (('w, 'g) mwt_world, com_error + 'g) io" where
  "mwt_read api sub =
    io_bind (io_gets snd) (\<lambda>container.
    io_bind (mwt_io (mt_try_receive api sub 1 container)) (\<lambda>(r, container).
    io_bind (io_modify (\<lambda>s. (fst s, container))) (\<lambda>_.
    io_bind (io_unwrap r) (\<lambda>n.
    if n \<noteq> 1 then io_panic
    else case container of
      [] \<Rightarrow> io_panic
    | g # rest \<Rightarrow> io_bind (io_modify (\<lambda>s. (fst s, rest))) (\<lambda>_. io_return (Inr g))))))"

definition mwt_write_uninit :: "('w, 'sub, 'pub, 'g, 'v) mwt_api \<Rightarrow> 'pub \<Rightarrow> ('w, com_error + 'g) io" where
  "mwt_write_uninit api pub = io_bind (mt_allocate api pub) (\<lambda>r. io_return (map_err SendFailed r))"

definition mwt_write_init :: "('w, 'sub, 'pub, 'g, 'v) mwt_api \<Rightarrow> 'pub \<Rightarrow> ('w, com_error + 'g) io" where
  "mwt_write_init api pub =
    io_try (mwt_write_uninit api pub) (\<lambda>g. io_bind (mt_write_default api g) (\<lambda>g. io_return (Inr g)))"

definition mwt_send :: "('w, 'sub, 'pub, 'g, 'v) mwt_api \<Rightarrow> 'g \<Rightarrow> ('w, com_error + unit) io" where
  "mwt_send api g = io_bind (mt_send api g) (\<lambda>r. io_return (map_err SendFailed r))"

definition mwt_guards :: "('v process, 'sub, 'pub, 'g, 'v) mwt_api \<Rightarrow> ('g, 'v) foreign_guards" where
  "mwt_guards api =
    \<lparr>fg_deref = mt_deref api, fg_send = mwt_send api, fg_assume_init = mt_assume_init api,
     fg_write_payload = mt_write api, fg_init = mt_write_default api,
     fg_store = mt_store api\<rparr>"

section \<open>Creating the inputs and outputs of the example\<close>

text \<open>
  The fields \<open>ms_input_of\<close> and \<open>ms_output_of\<close> are the mapping functions which the macros get: the
  subscriber of a consumer and the publisher of an offered producer.
\<close>

record ('w, 'inst, 'consumer, 'subscriber, 'sub, 'builder, 'producer, 'offered, 'pub) mwt_services =
  ms_specifier_ok :: "string \<Rightarrow> bool"
  ms_instances :: "string \<Rightarrow> ('w, string + 'inst list) io"
  ms_sleep :: "nat \<Rightarrow> ('w, unit) io"
  ms_build_consumer :: "'inst \<Rightarrow> ('w, string + 'consumer) io"
  ms_input_of :: "'consumer \<Rightarrow> 'subscriber"
  ms_subscribe :: "'subscriber \<Rightarrow> nat \<Rightarrow> ('w, string + 'sub) io"
  ms_producer_builder :: "string \<Rightarrow> ('w, 'builder) io"
  ms_build_producer :: "'builder \<Rightarrow> ('w, string + 'producer) io"
  ms_offer :: "'producer \<Rightarrow> ('w, string + 'offered) io"
  ms_output_of :: "'offered \<Rightarrow> 'pub"

text \<open>The loop of \<open>create_consumer\<close>; \<open>left\<close> is the number of tries after this one.\<close>

fun find_consumer ::
  "('w, 'inst, 'consumer, 'subscriber, 'sub, 'builder, 'producer, 'offered, 'pub) mwt_services \<Rightarrow> string \<Rightarrow> nat \<Rightarrow>
    ('w, 'consumer) io" where
  "find_consumer api topic left =
    (if \<not> ms_specifier_ok api topic then io_panic
     else io_bind (ms_instances api topic) (\<lambda>r.
       io_bind (io_unwrap r) (\<lambda>instances.
       case instances of
         [] \<Rightarrow> io_bind (ms_sleep api 500) (\<lambda>_.
           case left of 0 \<Rightarrow> io_panic | Suc k \<Rightarrow> find_consumer api topic k)
       | inst # _ \<Rightarrow> io_bind (ms_build_consumer api inst) io_unwrap)))"

declare find_consumer.simps [simp del]

definition adas_create_consumer ::
  "('w, 'inst, 'consumer, 'subscriber, 'sub, 'builder, 'producer, 'offered, 'pub) mwt_services \<Rightarrow> string \<Rightarrow>
    ('w, 'consumer) io" where
  "adas_create_consumer api topic = find_consumer api topic 100"

definition adas_create_producer ::
  "('w, 'inst, 'consumer, 'subscriber, 'sub, 'builder, 'producer, 'offered, 'pub) mwt_services \<Rightarrow> string \<Rightarrow>
    ('w, 'offered) io" where
  "adas_create_producer api topic =
    (if \<not> ms_specifier_ok api topic then io_panic
     else io_bind (ms_producer_builder api topic) (\<lambda>b.
       io_bind (ms_build_producer api b) (\<lambda>r.
       io_bind (io_unwrap r) (\<lambda>producer.
       io_bind (ms_offer api producer) io_unwrap))))"

text \<open>
  The macros \<open>input!\<close> and \<open>output!\<close>. With the feature \<open>com_mw\<close> the input is a subscription with one
  slot, whose container starts empty; without it the feature \<open>com_iox2\<close> decides between iceoryx2 and
  shared memory.
\<close>

datatype ('iox, 'mw) com_port = PortIox2 'iox | PortShm string | PortMwCom 'mw

type_synonym ('v, 's, 'node, 'w) com_world = "'v process \<times> ('s, 'node) iox_world \<times> 'w"

definition in_shm :: "('v process, 'a) io \<Rightarrow> (('v, 's, 'node, 'w) com_world, 'a) io" where
  "in_shm = io_zoom fst (\<lambda>p w. (p, snd w))"

definition in_iox :: "(('s, 'node) iox_world, 'a) io \<Rightarrow> (('v, 's, 'node, 'w) com_world, 'a) io" where
  "in_iox = io_zoom (fst \<circ> snd) (\<lambda>i w. (fst w, i, snd (snd w)))"

definition in_mw :: "('w, 'a) io \<Rightarrow> (('v, 's, 'node, 'w) com_world, 'a) io" where
  "in_mw = io_zoom (snd \<circ> snd) (\<lambda>m w. (fst w, fst (snd w), m))"

definition activity_input ::
  "bool \<Rightarrow> ('s, 'n, 'node) iox_node_api \<Rightarrow> ('s, 'node, 'svc, 'isub, 'ipub, 'g, 'v) iox_api \<Rightarrow> nat \<Rightarrow> string \<Rightarrow>
    (('v, 's, 'node, 'w) com_world, ('isub, 'sub \<times> 'g list) com_port) io" where
  "activity_input com_iox2 napi api pid topic =
    (if com_iox2 then io_bind (in_iox (iox2_input_new napi api pid topic)) (\<lambda>sub. io_return (PortIox2 sub))
     else io_bind (in_shm (input_new topic)) (\<lambda>_. io_return (PortShm topic)))"

definition activity_output ::
  "bool \<Rightarrow> ('s, 'n, 'node) iox_node_api \<Rightarrow> ('s, 'node, 'svc, 'isub, 'ipub, 'g, 'v) iox_api \<Rightarrow> nat \<Rightarrow> string \<Rightarrow>
    (('v, 's, 'node, 'w) com_world, ('ipub, 'pub) com_port) io" where
  "activity_output com_iox2 napi api pid topic =
    (if com_iox2 then io_bind (in_iox (iox2_output_new napi api pid topic)) (\<lambda>pub. io_return (PortIox2 pub))
     else io_bind (in_shm (output_new topic)) (\<lambda>_. io_return (PortShm topic)))"

definition adas_input ::
  "bool \<Rightarrow> bool \<Rightarrow> ('w, 'inst, 'consumer, 'subscriber, 'sub, 'builder, 'producer, 'offered, 'pub) mwt_services \<Rightarrow>
    ('s, 'n, 'node) iox_node_api \<Rightarrow> ('s, 'node, 'svc, 'isub, 'ipub, 'g, 'v) iox_api \<Rightarrow> nat \<Rightarrow> string \<Rightarrow>
    (('v, 's, 'node, 'w) com_world, ('isub, 'sub \<times> 'g list) com_port) io" where
  "adas_input com_mw com_iox2 services napi api pid topic =
    (if com_mw then
       io_bind (in_mw (io_bind (adas_create_consumer services topic) (\<lambda>consumer.
         io_bind (ms_subscribe services (ms_input_of services consumer) 1) io_unwrap))) (\<lambda>sub.
       io_return (PortMwCom (sub, [])))
     else activity_input com_iox2 napi api pid topic)"

definition adas_output ::
  "bool \<Rightarrow> bool \<Rightarrow> ('w, 'inst, 'consumer, 'subscriber, 'sub, 'builder, 'producer, 'offered, 'pub) mwt_services \<Rightarrow>
    ('s, 'n, 'node) iox_node_api \<Rightarrow> ('s, 'node, 'svc, 'isub, 'ipub, 'g, 'v) iox_api \<Rightarrow> nat \<Rightarrow> string \<Rightarrow>
    (('v, 's, 'node, 'w) com_world, ('ipub, 'pub) com_port) io" where
  "adas_output com_mw com_iox2 services napi api pid topic =
    (if com_mw then
       io_bind (in_mw (adas_create_producer services topic)) (\<lambda>offered. io_return (PortMwCom (ms_output_of services offered)))
     else activity_output com_iox2 napi api pid topic)"

text \<open>\<open>waits k\<close> is the state after \<open>k\<close> discoveries without an instance, each followed by half a second.\<close>

fun waits :: "('w, 'inst, 'consumer, 'subscriber, 'sub, 'builder, 'producer, 'offered, 'pub) mwt_services \<Rightarrow> string \<Rightarrow>
    nat \<Rightarrow> 'w \<Rightarrow> 'w option" where
  "waits api topic 0 w = Some w"
| "waits api topic (Suc k) w =
    (case ms_instances api topic w of
       (Ret (Inr []), w1) \<Rightarrow> (case ms_sleep api 500 w1 of (Ret _, w2) \<Rightarrow> waits api topic k w2 | _ \<Rightarrow> None)
     | _ \<Rightarrow> None)"

lemma waits_SucE:
  assumes "waits api topic (Suc k) w = Some w'"
  obtains w1 w2 where "ms_instances api topic w = (Ret (Inr []), w1)" "ms_sleep api 500 w1 = (Ret (), w2)"
    "waits api topic k w2 = Some w'"
  using assms by (auto split: prod.splits outcome.splits sum.splits list.splits)

lemma find_consumer_round:
  assumes "ms_specifier_ok api topic" "ms_instances api topic w = (Ret (Inr []), w1)" "ms_sleep api 500 w1 = (Ret (), w2)"
  shows "find_consumer api topic n w = (case n of 0 \<Rightarrow> (Panic, w2) | Suc m \<Rightarrow> find_consumer api topic m w2)"
  using assms by (subst find_consumer.simps) (simp add: io_defs split: nat.splits)

lemma find_consumer_found:
  assumes "ms_specifier_ok api topic" "waits api topic k w = Some w1" "k \<le> n"
    "ms_instances api topic w1 = (Ret (Inr (i # is)), w2)" "ms_build_consumer api i w2 = (Ret (Inr c), w3)"
  shows "find_consumer api topic n w = (Ret c, w3)"
  using assms(2,3)
proof (induction k arbitrary: n w)
  case 0
  then show ?case using assms(1,4,5) by (subst find_consumer.simps) (simp add: io_defs)
next
  case (Suc k)
  from Suc.prems(2) obtain m where m: "n = Suc m" "k \<le> m" by (cases n) auto
  from Suc.prems(1) obtain v1 v2 where v: "ms_instances api topic w = (Ret (Inr []), v1)" "ms_sleep api 500 v1 = (Ret (), v2)"
    "waits api topic k v2 = Some w1" by (rule waits_SucE)
  show ?case using find_consumer_round [OF assms(1) v(1,2)] Suc.IH [OF v(3) m(2)] m(1) by simp
qed

lemma find_consumer_gives_up:
  "ms_specifier_ok api topic \<Longrightarrow> waits api topic (Suc n) w = Some w' \<Longrightarrow> find_consumer api topic n w = (Panic, w')"
proof (induction n arbitrary: w)
  case 0
  from 0(2) obtain v1 v2 where "ms_instances api topic w = (Ret (Inr []), v1)" "ms_sleep api 500 v1 = (Ret (), v2)"
    "waits api topic 0 v2 = Some w'" by (rule waits_SucE)
  then show ?case using find_consumer_round [OF 0(1)] by simp
next
  case (Suc n)
  from Suc.prems(2) obtain v1 v2 where v: "ms_instances api topic w = (Ret (Inr []), v1)" "ms_sleep api 500 v1 = (Ret (), v2)"
    "waits api topic (Suc n) v2 = Some w'" by (rule waits_SucE)
  then show ?case using find_consumer_round [OF Suc.prems(1) v(1,2)] Suc.IH [OF Suc.prems(1) v(3)] by simp
qed

text \<open>
  C30: An input over MW COM is a subscription to the first instance of its topic which one of the first
  101 discoveries gives, whatever number of them gives none; when all 101 give none, half a second
  apart, the program panics, so an agent does not wait for a missing producer for ever.
\<close>

theorem input_found_or_panic:
  assumes "ms_specifier_ok services topic"
  shows "(waits services topic k (snd (snd w)) = Some w1 \<and> k \<le> 100
      \<and> ms_instances services topic w1 = (Ret (Inr (i # is)), w2) \<and> ms_build_consumer services i w2 = (Ret (Inr c), w3)
      \<and> ms_subscribe services (ms_input_of services c) 1 w3 = (Ret (Inr sub), w4) \<longrightarrow>
      adas_input True com_iox2 services napi api pid topic w = (Ret (PortMwCom (sub, [])), (fst w, fst (snd w), w4)))
    \<and> (waits services topic 101 (snd (snd w)) = Some w5 \<longrightarrow>
      adas_input True com_iox2 services napi api pid topic w = (Panic, (fst w, fst (snd w), w5)))"
proof (intro conjI impI)
  assume h: "waits services topic k (snd (snd w)) = Some w1 \<and> k \<le> 100
      \<and> ms_instances services topic w1 = (Ret (Inr (i # is)), w2) \<and> ms_build_consumer services i w2 = (Ret (Inr c), w3)
      \<and> ms_subscribe services (ms_input_of services c) 1 w3 = (Ret (Inr sub), w4)"
  then have "adas_create_consumer services topic (snd (snd w)) = (Ret c, w3)"
    unfolding adas_create_consumer_def using find_consumer_found [OF assms] by blast
  with h show "adas_input True com_iox2 services napi api pid topic w = (Ret (PortMwCom (sub, [])), (fst w, fst (snd w), w4))"
    by (simp add: adas_input_def in_mw_def io_defs)
next
  assume "waits services topic 101 (snd (snd w)) = Some w5"
  then have "adas_create_consumer services topic (snd (snd w)) = (Panic, w5)"
    unfolding adas_create_consumer_def using find_consumer_gives_up [OF assms, of 100 "snd (snd w)" w5] by simp
  then show "adas_input True com_iox2 services napi api pid topic w = (Panic, (fst w, fst (snd w), w5))"
    by (simp add: adas_input_def in_mw_def io_defs)
qed

section \<open>How an activity writes and reads\<close>

definition iox2_publish :: "('s, 'node, 'svc, 'sub, 'pub, 'g, 'v) iox_api \<Rightarrow> 'pub \<Rightarrow> 'v \<Rightarrow> ('s, unit) io" where
  "iox2_publish api pub v =
    io_bind (iox2_write_uninit api pub) (\<lambda>r. io_bind (io_unwrap r) (\<lambda>g.
    io_bind (ix_write_payload api g v) (\<lambda>g. io_bind (iox2_send api g) io_unwrap)))"

definition iox2_fetch :: "('s, 'node, 'svc, 'sub, 'pub, 'g, 'v) iox_api \<Rightarrow> 'sub \<Rightarrow> ('s, 'v) io" where
  "iox2_fetch api sub = io_bind (iox2_read api sub) (\<lambda>r. io_bind (io_unwrap r) (ix_payload api))"

definition mwt_publish :: "('w, 'sub, 'pub, 'g, 'v) mwt_api \<Rightarrow> 'pub \<Rightarrow> 'v \<Rightarrow> (('w, 'g) mwt_world, unit) io" where
  "mwt_publish api pub v =
    mwt_io (io_bind (mwt_write_uninit api pub) (\<lambda>r. io_bind (io_unwrap r) (\<lambda>g.
      io_bind (mt_write api g v) (\<lambda>g. io_bind (mwt_send api g) io_unwrap))))"

definition mwt_fetch :: "('w, 'sub, 'pub, 'g, 'v) mwt_api \<Rightarrow> 'sub \<Rightarrow> (('w, 'g) mwt_world, 'v) io" where
  "mwt_fetch api sub = io_bind (mwt_read api sub) (\<lambda>r. io_bind (io_unwrap r) (\<lambda>g. mwt_io (mt_deref api g)))"

section \<open>The last value\<close>

text \<open>\<open>holds\<close> says what a read would give; \<open>keeps\<close> whether a read leaves the value to be read again.\<close>

locale last_value =
  fixes put :: "'v \<Rightarrow> ('s, unit) io" and get :: "('s, 'v) io"
    and holds :: "'v option \<Rightarrow> 's \<Rightarrow> bool" and keeps :: bool
  assumes put: "holds x s \<Longrightarrow> \<exists>s'. put v s = (Ret (), s') \<and> holds (Some v) s'"
    and get: "holds (Some v) s \<Longrightarrow> \<exists>s'. get s = (Ret v, s') \<and> holds (if keeps then Some v else None) s'"
begin

lemma put_all: "holds x s \<Longrightarrow> \<exists>s'. io_for vs put s = (Ret (), s') \<and> holds (if vs = [] then x else Some (last vs)) s'"
proof (induction vs arbitrary: x s)
  case Nil
  then show ?case by (simp add: io_return_def)
next
  case (Cons v vs)
  from put [OF Cons.prems] obtain s1 where s1: "put v s = (Ret (), s1)" "holds (Some v) s1" by blast
  from Cons.IH [OF s1(2)] s1(1) show ?case by (auto simp: io_bind_def)
qed

lemma put_all_get:
  assumes "holds x s" "vs \<noteq> []"
  shows "\<exists>s'. io_bind (io_for vs put) (\<lambda>_. get) s = (Ret (last vs), s')
    \<and> holds (if keeps then Some (last vs) else None) s'"
proof -
  from put_all [OF assms(1), of vs] assms(2) obtain s1 where s1: "io_for vs put s = (Ret (), s1)" "holds (Some (last vs)) s1"
    by auto
  from get [OF s1(2)] s1(1) show ?thesis by (auto simp: io_bind_def)
qed

end

text \<open>Shared memory keeps the value.\<close>

definition shm_holds :: "'v type_info \<Rightarrow> string \<Rightarrow> string \<Rightarrow> 'v option \<Rightarrow> 'v process \<Rightarrow> bool" where
  "shm_holds ty topic mid x p \<longleftrightarrow> topic_ready ty topic mid p \<and> topic_writable topic p \<and> pc_shm p mid = x"

interpretation shm: last_value "publish ty topic" "fetch ty topic" "shm_holds ty topic mid" True
proof unfold_locales
  show "\<exists>p'. publish ty topic v p = (Ret (), p') \<and> shm_holds ty topic mid (Some v) p'" if "shm_holds ty topic mid x p" for x v p
    using publish_ready [of ty topic mid p v] that by (auto simp: shm_holds_def)
  show "\<exists>p'. fetch ty topic p = (Ret v, p') \<and> shm_holds ty topic mid (if True then Some v else None) p'"
    if h: "shm_holds ty topic mid (Some v) p" for v p
  proof -
    have r: "topic_ready ty topic mid p" "pc_shm p mid = Some v" "topic_writable topic p" using h by (simp_all add: shm_holds_def)
    from fetch_ready [OF r(1,2)] obtain p' where "fetch ty topic p = (Ret v, p')" "topic_ready ty topic mid p'"
      "pc_shm p' = pc_shm p" "topic_writable topic p' = topic_writable topic p" by blast
    then show ?thesis using r(2,3) by (auto simp: shm_holds_def)
  qed
qed

text \<open>
  iceoryx2 with one buffer and safe overflow, seen from a publisher and a subscriber of a service:
  \<open>unread\<close> is what the subscriber would receive and \<open>content\<close> the payload of a sample.
\<close>

definition iox_contract ::
  "('s, 'node, 'svc, 'sub, 'pub, 'g, 'v) iox_api \<Rightarrow> 'pub \<Rightarrow> 'sub \<Rightarrow> ('s \<Rightarrow> bool) \<Rightarrow> ('s \<Rightarrow> 'v option) \<Rightarrow> ('s \<Rightarrow> 'g \<Rightarrow> 'v option) \<Rightarrow> bool" where
  "iox_contract api pub sub ok unread content \<longleftrightarrow>
    (\<forall>s. ok s \<longrightarrow> (\<exists>g s'. ix_loan_uninit api pub s = (Ret (Inr g), s') \<and> ok s' \<and> unread s' = unread s))
    \<and> (\<forall>s g v. ok s \<longrightarrow> (\<exists>g' s'. ix_write_payload api g v s = (Ret g', s') \<and> ok s' \<and> unread s' = unread s
        \<and> content s' g' = Some v))
    \<and> (\<forall>s g v. ok s \<and> content s g = Some v \<longrightarrow> (\<exists>n s'. ix_send api g s = (Ret (Inr n), s') \<and> ok s' \<and> unread s' = Some v))
    \<and> (\<forall>s. ok s \<and> unread s = None \<longrightarrow> (\<exists>s'. ix_receive api sub s = (Ret (Inr None), s') \<and> ok s' \<and> unread s' = None))
    \<and> (\<forall>s v. ok s \<and> unread s = Some v \<longrightarrow> (\<exists>g s'. ix_receive api sub s = (Ret (Inr (Some g)), s') \<and> ok s' \<and> unread s' = None
        \<and> content s' g = Some v))
    \<and> (\<forall>s g v. ok s \<and> content s g = Some v \<longrightarrow> ix_payload api g s = (Ret v, s))"

lemma iox_contractD:
  assumes "iox_contract api pub sub ok unread content"
  shows "ok s \<Longrightarrow> \<exists>g s'. ix_loan_uninit api pub s = (Ret (Inr g), s') \<and> ok s' \<and> unread s' = unread s"
    and "ok s \<Longrightarrow> \<exists>g' s'. ix_write_payload api g v s = (Ret g', s') \<and> ok s' \<and> unread s' = unread s \<and> content s' g' = Some v"
    and "ok s \<Longrightarrow> content s g = Some v \<Longrightarrow> \<exists>n s'. ix_send api g s = (Ret (Inr n), s') \<and> ok s' \<and> unread s' = Some v"
    and "ok s \<Longrightarrow> unread s = None \<Longrightarrow> \<exists>s'. ix_receive api sub s = (Ret (Inr None), s') \<and> ok s' \<and> unread s' = None"
    and "ok s \<Longrightarrow> unread s = Some v \<Longrightarrow> \<exists>g s'. ix_receive api sub s = (Ret (Inr (Some g)), s') \<and> ok s' \<and> unread s' = None
        \<and> content s' g = Some v"
    and "ok s \<Longrightarrow> content s g = Some v \<Longrightarrow> ix_payload api g s = (Ret v, s)"
  using assms unfolding iox_contract_def by simp_all

lemma iox_last_value:
  assumes c: "iox_contract api pub sub ok unread content"
  shows "last_value (iox2_publish api pub) (iox2_fetch api sub) (\<lambda>x s. ok s \<and> unread s = x) False"
proof unfold_locales
  fix x s v
  assume "ok s \<and> unread s = x"
  then obtain g s1 where s1: "ix_loan_uninit api pub s = (Ret (Inr g), s1)" "ok s1" using iox_contractD(1) [OF c] by blast
  obtain g2 s2 where s2: "ix_write_payload api g v s1 = (Ret g2, s2)" "ok s2" "content s2 g2 = Some v"
    using iox_contractD(2) [OF c s1(2)] by blast
  obtain n s3 where s3: "ix_send api g2 s2 = (Ret (Inr n), s3)" "ok s3" "unread s3 = Some v"
    using iox_contractD(3) [OF c s2(2,3)] by blast
  show "\<exists>s'. iox2_publish api pub v s = (Ret (), s') \<and> ok s' \<and> unread s' = Some v"
    using s1(1) s2(1) s3 by (simp add: iox2_publish_def iox2_write_uninit_def iox2_send_def map_err_def io_defs)
next
  fix v s
  assume "ok s \<and> unread s = Some v"
  then obtain g s1 where s1: "ix_receive api sub s = (Ret (Inr (Some g)), s1)" "ok s1" "unread s1 = None" "content s1 g = Some v"
    using iox_contractD(5) [OF c] by blast
  then show "\<exists>s'. iox2_fetch api sub s = (Ret v, s') \<and> ok s' \<and> unread s' = (if False then Some v else None)"
    using iox_contractD(6) [OF c s1(2,4)] by (simp add: iox2_fetch_def iox2_read_def io_defs)
qed

text \<open>MW COM with one slot, likewise.\<close>

definition mwt_contract ::
  "('w, 'sub, 'pub, 'g, 'v) mwt_api \<Rightarrow> 'pub \<Rightarrow> 'sub \<Rightarrow> ('w \<Rightarrow> bool) \<Rightarrow> ('w \<Rightarrow> 'v option) \<Rightarrow> ('w \<Rightarrow> 'g \<Rightarrow> 'v option) \<Rightarrow> bool" where
  "mwt_contract api pub sub ok unread content \<longleftrightarrow>
    (\<forall>w. ok w \<longrightarrow> (\<exists>g w'. mt_allocate api pub w = (Ret (Inr g), w') \<and> ok w' \<and> unread w' = unread w))
    \<and> (\<forall>w g v. ok w \<longrightarrow> (\<exists>g' w'. mt_write api g v w = (Ret g', w') \<and> ok w' \<and> unread w' = unread w \<and> content w' g' = Some v))
    \<and> (\<forall>w g v. ok w \<and> content w g = Some v \<longrightarrow> (\<exists>w'. mt_send api g w = (Ret (Inr ()), w') \<and> ok w' \<and> unread w' = Some v))
    \<and> (\<forall>w. ok w \<and> unread w = None \<longrightarrow> (\<exists>w'. mt_try_receive api sub 1 [] w = (Ret (Inr 0, []), w') \<and> ok w' \<and> unread w' = None))
    \<and> (\<forall>w v. ok w \<and> unread w = Some v \<longrightarrow> (\<exists>g w'. mt_try_receive api sub 1 [] w = (Ret (Inr 1, [g]), w') \<and> ok w' \<and> unread w' = None
        \<and> content w' g = Some v))
    \<and> (\<forall>w g v. ok w \<and> content w g = Some v \<longrightarrow> mt_deref api g w = (Ret v, w))"

lemma mwt_contractD:
  assumes "mwt_contract api pub sub ok unread content"
  shows "ok w \<Longrightarrow> \<exists>g w'. mt_allocate api pub w = (Ret (Inr g), w') \<and> ok w' \<and> unread w' = unread w"
    and "ok w \<Longrightarrow> \<exists>g' w'. mt_write api g v w = (Ret g', w') \<and> ok w' \<and> unread w' = unread w \<and> content w' g' = Some v"
    and "ok w \<Longrightarrow> content w g = Some v \<Longrightarrow> \<exists>w'. mt_send api g w = (Ret (Inr ()), w') \<and> ok w' \<and> unread w' = Some v"
    and "ok w \<Longrightarrow> unread w = None \<Longrightarrow> \<exists>w'. mt_try_receive api sub 1 [] w = (Ret (Inr 0, []), w') \<and> ok w' \<and> unread w' = None"
    and "ok w \<Longrightarrow> unread w = Some v \<Longrightarrow> \<exists>g w'. mt_try_receive api sub 1 [] w = (Ret (Inr 1, [g]), w') \<and> ok w' \<and> unread w' = None
        \<and> content w' g = Some v"
    and "ok w \<Longrightarrow> content w g = Some v \<Longrightarrow> mt_deref api g w = (Ret v, w)"
  using assms unfolding mwt_contract_def by simp_all

lemma mwt_last_value:
  fixes api :: "('w, 'sub, 'pub, 'g, 'v) mwt_api"
  assumes c: "mwt_contract api pub sub ok unread content"
  shows "last_value (mwt_publish api pub) (mwt_fetch api sub)
    (\<lambda>x (s :: ('w, 'g) mwt_world). ok (fst s) \<and> unread (fst s) = x \<and> snd s = []) False"
proof unfold_locales
  fix x v and s :: "('w, 'g) mwt_world"
  assume h: "ok (fst s) \<and> unread (fst s) = x \<and> snd s = []"
  then obtain g w1 where w1: "mt_allocate api pub (fst s) = (Ret (Inr g), w1)" "ok w1" using mwt_contractD(1) [OF c] by blast
  obtain g2 w2 where w2: "mt_write api g v w1 = (Ret g2, w2)" "ok w2" "content w2 g2 = Some v"
    using mwt_contractD(2) [OF c w1(2)] by blast
  obtain w3 where w3: "mt_send api g2 w2 = (Ret (Inr ()), w3)" "ok w3" "unread w3 = Some v"
    using mwt_contractD(3) [OF c w2(2,3)] by blast
  show "\<exists>s'. mwt_publish api pub v s = (Ret (), s') \<and> ok (fst s') \<and> unread (fst s') = Some v \<and> snd s' = []"
    using w1(1) w2(1) w3 h
    by (simp add: mwt_publish_def mwt_write_uninit_def mwt_send_def mwt_io_def map_err_def io_defs)
next
  fix v and s :: "('w, 'g) mwt_world"
  assume h: "ok (fst s) \<and> unread (fst s) = Some v \<and> snd s = []"
  then obtain g w1 where w1: "mt_try_receive api sub 1 [] (fst s) = (Ret (Inr 1, [g]), w1)" "ok w1" "unread w1 = None"
    "content w1 g = Some v"
    using mwt_contractD(5) [OF c] by blast
  then show "\<exists>s'. mwt_fetch api sub s = (Ret v, s') \<and> ok (fst s') \<and> unread (fst s') = (if False then Some v else None) \<and> snd s' = []"
    using mwt_contractD(6) [OF c w1(2,4)] h by (simp add: mwt_fetch_def mwt_read_def mwt_io_def io_defs)
qed


text \<open>Libraries with one slot, whose samples are the values.\<close>

definition demo_iox :: "(nat option, unit, unit, unit, unit, nat, nat) iox_api" where
  "demo_iox = \<lparr>ix_name_ok = (\<lambda>_. True), ix_create = (\<lambda>_ _ _. io_return (Inr ())), ix_open = (\<lambda>_ _. io_return (Inr ())),
     ix_subscriber = (\<lambda>_. io_return (Inr ())), ix_publisher = (\<lambda>_. io_return (Inr ())),
     ix_receive = (\<lambda>_ s. (Ret (Inr s), None)), ix_loan_uninit = (\<lambda>_. io_return (Inr 0)),
     ix_loan = (\<lambda>_. io_return (Inr 0)), ix_payload = io_return, ix_store = (\<lambda>_ _. io_return ()),
     ix_write_payload = (\<lambda>_. io_return), ix_assume_init = io_return, ix_send = (\<lambda>g s. (Ret (Inr 1), Some g))\<rparr>"

definition demo_mwt :: "(nat option, unit, unit, nat, nat) mwt_api" where
  "demo_mwt = \<lparr>mt_try_receive = (\<lambda>_ _ gs s. (Ret (Inr (length (gs @ (case s of None \<Rightarrow> [] | Some g \<Rightarrow> [g]))), gs @ (case s of None \<Rightarrow> [] | Some g \<Rightarrow> [g])), None)),
     mt_allocate = (\<lambda>_. io_return (Inr 0)), mt_assume_init = io_return, mt_write = (\<lambda>_. io_return),
     mt_write_default = (\<lambda>_. io_return 0), mt_send = (\<lambda>g s. (Ret (Inr ()), Some g)), mt_deref = io_return,
     mt_store = (\<lambda>_ _. io_return ())\<rparr>"


text \<open>A world that has an instance at the third discovery, and one that has none.\<close>

definition demo_services :: "nat \<Rightarrow> (nat, unit, unit, unit, unit, unit, unit, unit, unit) mwt_services" where
  "demo_services found = \<lparr>ms_specifier_ok = (\<lambda>_. True),
     ms_instances = (\<lambda>_ n. (Ret (Inr (if n = found then [()] else [])), n)), ms_sleep = (\<lambda>_ n. (Ret (), Suc n)),
     ms_build_consumer = (\<lambda>_. io_return (Inr ())), ms_input_of = id, ms_subscribe = (\<lambda>_ _. io_return (Inr ())),
     ms_producer_builder = (\<lambda>_. io_return ()), ms_build_producer = (\<lambda>_. io_return (Inr ())),
     ms_offer = (\<lambda>_. io_return (Inr ())), ms_output_of = id\<rparr>"

lemma demo_services_simps [simp]:
  "ms_specifier_ok (demo_services found) topic"
  "ms_instances (demo_services found) topic n = (Ret (Inr (if n = found then [()] else [])), n)"
  "ms_sleep (demo_services found) d n = (Ret (), Suc n)"
  "ms_build_consumer (demo_services found) i n = (Ret (Inr ()), n)"
  "ms_subscribe (demo_services found) c l n = (Ret (Inr ()), n)"
  by (simp_all add: demo_services_def io_return_def)

lemma demo_waits: "n + k \<le> found \<Longrightarrow> waits (demo_services found) topic k n = Some (n + k)"
proof (induction k arbitrary: n)
  case 0
  then show ?case by simp
next
  case (Suc k)
  then have "n \<noteq> found" "Suc n + k \<le> found" by simp_all
  with Suc.IH [of "Suc n"] show ?case by simp
qed

definition demo_node_api :: "(nat option, unit, unit) iox_node_api" where
  "demo_node_api = \<lparr>in_cleanup = io_return (), in_list = io_return ([], Inr ()), in_remove = (\<lambda>_. io_return (Inr ())),
     in_name_ok = (\<lambda>_. True), in_create = (\<lambda>_. io_return (Inr ()))\<rparr>"

theorem input_found_or_panic_witness:
  "adas_input True False (demo_services 2) demo_node_api demo_iox 0 ''t'' (fresh_process [], (None, None), 0)
      = (Ret (PortMwCom ((), [])), (fresh_process [], (None, None), 2))
    \<and> adas_input True False (demo_services 200) demo_node_api demo_iox 0 ''t'' (fresh_process [], (None, None), 0)
      = (Panic, (fresh_process [], (None, None), 101))"
proof
  have "waits (demo_services 2) ''t'' 2 (0 :: nat) = Some 2" using demo_waits [of 0 2 2] by simp
  with input_found_or_panic [of "demo_services 2" "''t''" 2 "(fresh_process [], (None, None), 0)" 2 "()" "[]" 2 "()" 2 "()" 2 False demo_node_api demo_iox 0]
  show "adas_input True False (demo_services 2) demo_node_api demo_iox 0 ''t'' (fresh_process [], (None, None), 0)
      = (Ret (PortMwCom ((), [])), (fresh_process [], (None, None), 2))"
    by simp
  have "waits (demo_services 200) ''t'' 101 (0 :: nat) = Some 101" using demo_waits [of 0 101 200] by simp
  with input_found_or_panic [of "demo_services 200" "''t''" 0 "(fresh_process [], (None, None), 0)" 0 "()" "[]" 0 "()" 0 "()" 0 False demo_node_api demo_iox 0 101]
  show "adas_input True False (demo_services 200) demo_node_api demo_iox 0 ''t'' (fresh_process [], (None, None), 0)
      = (Panic, (fresh_process [], (None, None), 101))"
    by simp
qed

end
