(* ===== verification/Feo_Mwcom.thy ===== *)
theory Feo_Mwcom
  imports Feo_Scheduler
begin

text \<open>
  Signalling over MW COM (\<open>signalling/direct/mw_com/\<close>): the stream that turns a subscription into a
  sequence of signals, and the connectors of the scheduler and of a worker. The communication API
  itself is not part of the sources: what a poll of a \<open>receive\<close> future yields, how often a lookup
  finds no service and which signals arrive are scripts of the state, so the lemmas are about every
  such behaviour.
\<close>

section \<open>The subscription stream\<close>

datatype 'a poll = PollPending | PollReady 'a

text \<open>
  \<open>ms_polls\<close> is the library's part: a poll of the future is pending or completes with new samples,
  which are appended to the container that was moved into \<open>receive\<close>.
\<close>

record 'a mw_stream =
  ms_container :: "'a list option"
  ms_future :: "'a list option"
  ms_received :: "'a list"
  ms_capacity :: nat
  ms_polls :: "'a list option list"

definition mw_stream_new :: "'a list option list \<Rightarrow> nat \<Rightarrow> 'a mw_stream" where
  "mw_stream_new polls capacity =
    \<lparr>ms_container = Some [], ms_future = None, ms_received = [], ms_capacity = capacity, ms_polls = polls\<rparr>"

definition start_receive :: "('a mw_stream, unit) io" where
  "start_receive =
    io_bind io_get (\<lambda>s.
    if ms_future s = None
    then io_bind (io_expect (ms_container s)) (\<lambda>c.
      io_modify (\<lambda>s. s\<lparr>ms_container := None, ms_future := Some c\<rparr>))
    else io_return ())"

definition poll_future :: "('a mw_stream, 'a list poll) io" where
  "poll_future =
    io_bind io_get (\<lambda>s.
    io_bind (io_expect (ms_future s)) (\<lambda>c.
    case ms_polls s of
      [] \<Rightarrow> io_return PollPending
    | None # ps \<Rightarrow> io_bind (io_modify (\<lambda>s. s\<lparr>ms_polls := ps\<rparr>)) (\<lambda>_. io_return PollPending)
    | Some xs # ps \<Rightarrow> io_bind (io_modify (\<lambda>s. s\<lparr>ms_polls := ps\<rparr>)) (\<lambda>_. io_return (PollReady (c @ xs)))))"

text \<open>The loop that moves the samples to \<open>received\<close>: each goes to the front.\<close>

fun move_samples :: "'a list \<Rightarrow> 'a list \<Rightarrow> 'a list" where
  "move_samples [] received = received"
| "move_samples (x # xs) received = move_samples xs (x # received)"

text \<open>One round of the loop of \<open>poll_next\<close>; \<open>None\<close> goes on to the next round.\<close>

definition poll_round :: "('a mw_stream, 'a poll option) io" where
  "poll_round =
    io_bind io_get (\<lambda>s.
    if ms_received s \<noteq> []
    then io_bind (io_modify (\<lambda>s. s\<lparr>ms_received := butlast (ms_received s)\<rparr>)) (\<lambda>_.
      io_return (Some (PollReady (last (ms_received s)))))
    else
      io_bind start_receive (\<lambda>_.
      io_bind poll_future (\<lambda>p.
      case p of
        PollPending \<Rightarrow> io_return (Some PollPending)
      | PollReady container \<Rightarrow>
          io_bind io_get (\<lambda>s.
          if container = [] then io_panic
          else if ms_capacity s < length container + length (ms_received s) then io_panic
          else io_bind (io_modify (\<lambda>s. s\<lparr>ms_received := move_samples container (ms_received s),
              ms_container := Some [], ms_future := None\<rparr>)) (\<lambda>_. io_return None)))))"

lemma poll_round_less:
  "poll_round s = (Ret None, s') \<Longrightarrow> length (ms_polls s') < length (ms_polls s)"
  by (auto simp: poll_round_def start_receive_def poll_future_def io_defs
      split: if_splits option.splits list.splits poll.splits prod.splits)

function poll_next :: "'a mw_stream \<Rightarrow> 'a poll outcome \<times> 'a mw_stream" where
  "poll_next s =
    (case poll_round s of
       (Ret (Some p), s') \<Rightarrow> (Ret p, s')
     | (Ret None, s') \<Rightarrow> poll_next s'
     | (Panic, s') \<Rightarrow> (Panic, s')
     | (Hang, s') \<Rightarrow> (Hang, s'))"
  by pat_completeness auto
termination
  by (relation "measure (\<lambda>s. length (ms_polls s))") (auto dest: poll_round_less [OF sym])

declare poll_next.simps [simp del]

text \<open>The samples that have arrived or will arrive and have not been handed out, oldest first.\<close>

definition arrived :: "'a list option list \<Rightarrow> 'a list" where
  "arrived polls = concat (map (case_option [] (\<lambda>xs. xs)) polls)"

definition waiting :: "'a mw_stream \<Rightarrow> 'a list" where
  "waiting s = rev (ms_received s) @ arrived (ms_polls s)"

text \<open>
  What the API documents of \<open>receive(container, 1, max)\<close>: it completes with at least one and at most
  \<open>max\<close> new samples.
\<close>

definition polls_ok :: "nat \<Rightarrow> 'a list option list \<Rightarrow> bool" where
  "polls_ok capacity polls \<longleftrightarrow> list_all (case_option True (\<lambda>xs. xs \<noteq> [] \<and> length xs \<le> capacity)) polls"

definition stream_ok :: "'a mw_stream \<Rightarrow> bool" where
  "stream_ok s \<longleftrightarrow> polls_ok (ms_capacity s) (ms_polls s)
    \<and> ((ms_container s = Some [] \<and> ms_future s = None)
      \<or> (ms_container s = None \<and> ms_future s = Some [] \<and> ms_received s = []))"

lemma move_samples_rev: "move_samples xs r = rev xs @ r"
  by (induction xs arbitrary: r) auto

lemma arrived_simps [simp]:
  "arrived [] = []" "arrived (None # ps) = arrived ps" "arrived (Some xs # ps) = xs @ arrived ps"
  by (simp_all add: arrived_def)

lemma polls_ok_simps [simp]:
  "polls_ok c []" "polls_ok c (None # ps) = polls_ok c ps"
  "polls_ok c (Some xs # ps) \<longleftrightarrow> xs \<noteq> [] \<and> length xs \<le> c \<and> polls_ok c ps"
  by (simp_all add: polls_ok_def)

lemma stream_ok_new: "polls_ok capacity polls \<Longrightarrow> stream_ok (mw_stream_new polls capacity)"
  by (simp add: stream_ok_def mw_stream_new_def)

text \<open>One round in a good state.\<close>

lemma poll_round_received:
  "ms_received s \<noteq> [] \<Longrightarrow>
    poll_round s = (Ret (Some (PollReady (last (ms_received s)))), s\<lparr>ms_received := butlast (ms_received s)\<rparr>)"
  by (simp add: poll_round_def io_defs)

lemma poll_round_pending:
  assumes "stream_ok s" "ms_received s = []" "ms_polls s = [] \<or> ms_polls s = None # ps"
  shows "poll_round s = (Ret (Some PollPending), s\<lparr>ms_container := None, ms_future := Some [],
    ms_polls := (if ms_polls s = [] then [] else ps)\<rparr>)"
  using assms by (cases s) (auto simp: stream_ok_def poll_round_def start_receive_def poll_future_def io_defs)

lemma poll_round_ready:
  assumes "stream_ok s" "ms_received s = []" "ms_polls s = Some xs # ps"
  shows "poll_round s = (Ret None, s\<lparr>ms_container := Some [], ms_future := None, ms_received := rev xs,
    ms_polls := ps\<rparr>)"
  using assms by (cases s)
    (auto simp: stream_ok_def poll_round_def start_receive_def poll_future_def move_samples_rev io_defs)

definition polled :: "'a mw_stream \<Rightarrow> 'a poll \<Rightarrow> 'a mw_stream \<Rightarrow> bool" where
  "polled s p s' \<longleftrightarrow> stream_ok s' \<and>
    (case p of
       PollReady x \<Rightarrow> waiting s = x # waiting s' \<and> length (ms_polls s') \<le> length (ms_polls s)
     | PollPending \<Rightarrow> waiting s = waiting s' \<and> (length (ms_polls s') < length (ms_polls s) \<or> waiting s = []))"

lemma poll_next_received:
  assumes "stream_ok s" "ms_received s \<noteq> []"
  shows "\<exists>p s'. poll_next s = (Ret p, s') \<and> polled s p s'"
proof -
  have "poll_next s = (Ret (PollReady (last (ms_received s))), s\<lparr>ms_received := butlast (ms_received s)\<rparr>)"
    using assms by (subst poll_next.simps) (simp add: poll_round_received)
  moreover have "rev (ms_received s) = last (ms_received s) # rev (butlast (ms_received s))"
    using assms(2) by (cases "ms_received s" rule: rev_cases) simp_all
  ultimately show ?thesis using assms by (auto simp: polled_def stream_ok_def waiting_def)
qed

lemma poll_next_step:
  assumes "stream_ok s"
  shows "\<exists>p s'. poll_next s = (Ret p, s') \<and> polled s p s'"
proof (cases "ms_received s = []")
  case False
  then show ?thesis using poll_next_received [OF assms] by simp
next
  case none: True
  show ?thesis
  proof (cases "ms_polls s")
    case Nil
    then have "poll_next s = (Ret PollPending, s\<lparr>ms_container := None, ms_future := Some [], ms_polls := []\<rparr>)"
      using poll_round_pending [OF assms none] by (subst poll_next.simps) simp
    then show ?thesis using assms none Nil by (auto simp: polled_def stream_ok_def waiting_def)
  next
    case (Cons p ps)
    show ?thesis
    proof (cases p)
      case None
      then have "poll_next s = (Ret PollPending, s\<lparr>ms_container := None, ms_future := Some [], ms_polls := ps\<rparr>)"
        using poll_round_pending [OF assms none, of ps] Cons by (subst poll_next.simps) simp
      then show ?thesis using assms none Cons None by (auto simp: polled_def stream_ok_def waiting_def)
    next
      case (Some xs)
      define t where "t = s\<lparr>ms_container := Some [], ms_future := None, ms_received := rev xs, ms_polls := ps\<rparr>"
      have "poll_next s = poll_next t"
        using poll_round_ready [OF assms none] Cons Some by (subst poll_next.simps) (simp add: t_def)
      moreover have "stream_ok t" "ms_received t \<noteq> []" "waiting t = waiting s"
        "length (ms_polls t) \<le> length (ms_polls s)"
        using assms none Cons Some by (auto simp: t_def stream_ok_def waiting_def)
      ultimately show ?thesis using poll_next_received [of t] by (fastforce simp: polled_def split: poll.splits)
    qed
  qed
qed

text \<open>A consumer that polls \<open>n\<close> times: what it gets.\<close>

fun poll_many :: "nat \<Rightarrow> 'a mw_stream \<Rightarrow> 'a list outcome \<times> 'a mw_stream" where
  "poll_many 0 = io_return []"
| "poll_many (Suc n) =
    io_bind poll_next (\<lambda>p.
    io_bind (poll_many n) (\<lambda>xs. io_return (case p of PollReady x \<Rightarrow> x # xs | PollPending \<Rightarrow> xs)))"

text \<open>
  C13: the stream of a subscription is a first-in first-out queue, although it keeps the received
  samples in a vector that it fills at the front and empties at the back: however the samples are
  grouped and whatever polls are pending, polling never panics, yields the samples in the order of
  arrival and loses none, and enough polls yield all of them. The hypothesis is the contract of
  \<open>receive\<close>: every completed receive has between one and \<open>capacity\<close> samples.
\<close>

theorem subscription_stream_fifo:
  assumes "polls_ok capacity polls"
  shows "\<exists>xs s'. poll_many n (mw_stream_new polls capacity) = (Ret xs, s')
    \<and> arrived polls = xs @ waiting s'
    \<and> (length polls + length (arrived polls) \<le> n \<longrightarrow> xs = arrived polls)"
proof -
  have run: "\<exists>xs s'. poll_many n s = (Ret xs, s') \<and> waiting s = xs @ waiting s'
      \<and> (length (ms_polls s) + length (waiting s) \<le> n \<longrightarrow> waiting s' = [])"
    if "stream_ok s" for s :: "'a mw_stream"
    using that
  proof (induction n arbitrary: s)
    case 0
    then show ?case by (auto simp: io_return_def waiting_def)
  next
    case (Suc n)
    from poll_next_step [OF Suc.prems] obtain p s1 where p: "poll_next s = (Ret p, s1)" "polled s p s1" by blast
    from p(2) have "stream_ok s1" by (simp add: polled_def)
    from Suc.IH [OF this] obtain xs s' where xs: "poll_many n s1 = (Ret xs, s')" "waiting s1 = xs @ waiting s'"
      "length (ms_polls s1) + length (waiting s1) \<le> n \<longrightarrow> waiting s' = []" by blast
    have "poll_many (Suc n) s = (Ret (case p of PollReady x \<Rightarrow> x # xs | PollPending \<Rightarrow> xs), s')"
      using p(1) xs(1) by (simp add: io_bind_def io_return_def)
    then show ?case using p(2) xs(2,3) by (cases p) (auto simp: polled_def)
  qed
  from run [OF stream_ok_new [OF assms]] show ?thesis by (auto simp: mw_stream_new_def waiting_def)
qed

theorem subscription_stream_fifo_witness:
  "\<exists>s'. poll_many 10 (mw_stream_new [None, Some [1, 2], None, Some [3::nat, 4, 5]] 3) = (Ret [1, 2, 3, 4, 5], s')"
  using subscription_stream_fifo [of 3 "[None, Some [1, 2], None, Some [3::nat, 4, 5]]" 10] by auto

end
