(* ===== verification/Feo_Mwcom_Connectors.thy ===== *)
theory Feo_Mwcom_Connectors
  imports Feo_Mwcom
begin

text \<open>
  The MW COM connectors (\<open>mw_com/scheduler_connector.rs\<close>, \<open>mw_com/worker_connector.rs\<close>). The bus is
  a script: \<open>mw_input\<close> is what \<open>agents_input.next()\<close> yields, one item after the other, and a call
  that finds no item blocks. Publishers are known by their worker; a publisher that cannot send is
  one for which \<open>mw_accepts\<close> is false. A connector records what it has published.
\<close>

section \<open>Signals and services\<close>

datatype mw_signal = MwCore signal | ActivityHello activity_id | ActivityHelloAcquired

text \<open>\<open>create_consumer\<close>: the argument says, per lookup, whether the service has been found.\<close>

fun create_consumer :: "nat \<Rightarrow> bool list \<Rightarrow> unit outcome" where
  "create_consumer tries [] = Hang"
| "create_consumer tries (found # later) =
    (if found then Ret ()
     else if 100 < tries + 1 then Panic
     else create_consumer (tries + 1) later)"

definition agent_topic :: "agent_id \<Rightarrow> string" where
  "agent_topic a = ''/feo/com/Agent'' @ filter (\<lambda>c. c \<noteq> CHR ''-'') (display_agent_id a) @ ''ToScheduler''"

definition worker_topic :: "worker_id \<Rightarrow> string" where
  "worker_topic w = ''/feo/com/SchedulerToWorker'' @ display_worker_id w"

section \<open>The connector of the scheduler\<close>

type_synonym agent_workers = "(agent_id \<times> (worker_id \<times> activity_id list) list) list"

record mw_scheduler =
  mw_assignments :: agent_workers
  mw_activities_workers :: "activity_id \<Rightarrow> worker_id option"
  mw_publishers :: "worker_id list"
  mw_input :: "mw_signal option list"
  mw_accepts :: "worker_id \<Rightarrow> bool"
  mw_published :: "(worker_id \<times> mw_signal) list"
  mw_sync :: sync_info
  mw_time :: timestamp

definition assigned_workers :: "agent_workers \<Rightarrow> (worker_id \<times> activity_id list) list" where
  "assigned_workers as = concat (map snd as)"

definition assigned_activities :: "agent_workers \<Rightarrow> activity_id list" where
  "assigned_activities as = concat (map snd (assigned_workers as))"

fun activities_of :: "(worker_id \<times> activity_id list) list \<Rightarrow> activity_id \<Rightarrow> worker_id option" where
  "activities_of [] = Map.empty"
| "activities_of ((w, ids) # ws) = (\<lambda>i. case activities_of ws i of
     Some w' \<Rightarrow> Some w' | None \<Rightarrow> if i \<in> set ids then Some w else None)"

fun subscribe_agents :: "(string \<Rightarrow> bool list) \<Rightarrow> agent_id list \<Rightarrow> unit outcome" where
  "subscribe_agents services [] = Ret ()"
| "subscribe_agents services (a # as) =
    obind (create_consumer 0 (services (agent_topic a))) (\<lambda>_. subscribe_agents services as)"

text \<open>The arguments after the assignments are the behaviour of the bus and the clock.\<close>

definition mw_scheduler_new ::
  "agent_workers \<Rightarrow> (string \<Rightarrow> bool list) \<Rightarrow> mw_signal option list \<Rightarrow> (worker_id \<Rightarrow> bool) \<Rightarrow>
    sync_info \<Rightarrow> timestamp \<Rightarrow> mw_scheduler outcome" where
  "mw_scheduler_new as services inputs accepts sync t =
    obind (subscribe_agents services (map fst as)) (\<lambda>_.
    Ret \<lparr>mw_assignments = as,
      mw_activities_workers = activities_of (assigned_workers as),
      mw_publishers = remdups (map fst (assigned_workers as)),
      mw_input = inputs, mw_accepts = accepts, mw_published = [], mw_sync = sync, mw_time = t\<rparr>)"

definition next_input :: "(mw_scheduler, mw_signal option) io" where
  "next_input =
    io_bind (io_gets mw_input) (\<lambda>inp.
    case inp of [] \<Rightarrow> io_hang | x # rest \<Rightarrow> io_bind (io_modify (\<lambda>c. c\<lparr>mw_input := rest\<rparr>)) (\<lambda>_. io_return x))"

definition publish_to :: "mw_signal \<Rightarrow> worker_id \<Rightarrow> (mw_scheduler, unit) io" where
  "publish_to sig w =
    io_bind (io_gets mw_accepts) (\<lambda>accepts.
    if accepts w then io_modify (\<lambda>c. c\<lparr>mw_published := mw_published c @ [(w, sig)]\<rparr>) else io_panic)"

text \<open>
  The loop of \<open>connect_remotes\<close>; the first argument bounds its rounds. The publishers and the map
  are local variables there.
\<close>

fun mw_connect_loop ::
  "nat \<Rightarrow> worker_id list \<Rightarrow> (activity_id \<Rightarrow> worker_id option) \<Rightarrow> activity_id list \<Rightarrow> (mw_scheduler, unit) io" where
  "mw_connect_loop 0 pubs workers missing = io_hang"
| "mw_connect_loop (Suc n) pubs workers missing =
    (if missing = [] then io_return ()
     else io_bind next_input (\<lambda>x.
       case x of
         None \<Rightarrow> mw_connect_loop n pubs workers missing
       | Some (ActivityHello i) \<Rightarrow>
           io_bind (io_expect (workers i)) (\<lambda>w.
           io_bind (io_expect (if w \<in> set pubs then Some w else None)) (\<lambda>w.
           io_bind (publish_to ActivityHelloAcquired w) (\<lambda>_.
           mw_connect_loop n pubs workers (removeAll i missing))))
       | Some _ \<Rightarrow> mw_connect_loop n pubs workers missing))"

definition mw_connect_remotes :: "nat \<Rightarrow> (mw_scheduler, error + unit) io" where
  "mw_connect_remotes n =
    io_bind io_get (\<lambda>c.
    io_bind (io_modify (\<lambda>c. c\<lparr>mw_publishers := [], mw_activities_workers := Map.empty\<rparr>)) (\<lambda>_.
    io_bind (mw_connect_loop n (mw_publishers c) (mw_activities_workers c)
      (remdups (assigned_activities (mw_assignments c)))) (\<lambda>_.
    io_bind (io_modify (\<lambda>d. d\<lparr>mw_publishers := mw_publishers c, mw_activities_workers := mw_activities_workers c\<rparr>)) (\<lambda>_.
    io_return (Inr ())))))"

definition mw_sync_time :: "(mw_scheduler, error + unit) io" where
  "mw_sync_time =
    io_bind io_get (\<lambda>c.
    io_bind (io_for (mw_publishers c) (publish_to (MwCore (StartupSync (mw_sync c))))) (\<lambda>_. io_return (Inr ())))"

text \<open>\<open>receive\<close> ignores its timeout and passes over everything but core signals.\<close>

fun mw_receive :: "nat \<Rightarrow> (mw_scheduler, error + signal option) io" where
  "mw_receive 0 = io_hang"
| "mw_receive (Suc n) =
    io_bind next_input (\<lambda>x.
    io_bind (io_expect x) (\<lambda>sig.
    case sig of MwCore s \<Rightarrow> io_return (Inr (Some s)) | _ \<Rightarrow> mw_receive n))"

definition mw_send_to_activity :: "activity_id \<Rightarrow> signal \<Rightarrow> (mw_scheduler, error + unit) io" where
  "mw_send_to_activity i sig =
    io_bind io_get (\<lambda>c.
    io_bind (io_expect (mw_activities_workers c i)) (\<lambda>w.
    io_bind (io_expect (if w \<in> set (mw_publishers c) then Some w else None)) (\<lambda>w.
    io_bind (publish_to (MwCore sig) w) (\<lambda>_. io_return (Inr ())))))"

definition mw_broadcast_terminate :: "signal \<Rightarrow> (mw_scheduler, error + unit) io" where
  "mw_broadcast_terminate sig =
    io_bind io_get (\<lambda>c.
    io_bind (io_for (mw_publishers c) (publish_to (MwCore (Terminate (mw_time c))))) (\<lambda>_. io_return (Inr ())))"

definition mw_connect_scheduler :: "nat \<Rightarrow> mw_scheduler connect_scheduler" where
  "mw_connect_scheduler n =
    \<lparr>cs_connect_remotes = mw_connect_remotes n,
     cs_sync_time = mw_sync_time,
     cs_connected_agents = (\<lambda>_. []),
     cs_receive = (\<lambda>_. mw_receive n),
     cs_send_to_activity = mw_send_to_activity,
     cs_broadcast_terminate = mw_broadcast_terminate\<rparr>"

section \<open>The connector of a worker\<close>

text \<open>
  \<open>mww_bus\<close> is what the subscription to the scheduler yields and \<open>mww_input\<close> says whether it has
  been made; \<open>mww_barrier\<close> says whether the other workers reach the barrier.
\<close>

record mw_worker =
  mww_id :: worker_id
  mww_activities :: "activity_id list"
  mww_input :: bool
  mww_bus :: "mw_signal option list"
  mww_barrier :: bool
  mww_services :: "string \<Rightarrow> bool list"
  mww_published :: "mw_signal list"

definition mw_worker_new ::
  "activity_id list \<Rightarrow> worker_id \<Rightarrow> bool \<Rightarrow> (string \<Rightarrow> bool list) \<Rightarrow> mw_signal option list \<Rightarrow> mw_worker" where
  "mw_worker_new ids w barrier services bus =
    \<lparr>mww_id = w, mww_activities = ids, mww_input = False, mww_bus = bus, mww_barrier = barrier,
     mww_services = services, mww_published = []\<rparr>"

definition mw_next :: "(mw_worker, mw_signal) io" where
  "mw_next =
    io_bind io_get (\<lambda>c.
    if \<not> mww_input c then io_panic
    else case mww_bus c of
      [] \<Rightarrow> io_hang
    | x # rest \<Rightarrow> io_bind (io_modify (\<lambda>c. c\<lparr>mww_bus := rest\<rparr>)) (\<lambda>_. io_expect x))"

definition mw_send_signal :: "mw_signal \<Rightarrow> (mw_worker, unit) io" where
  "mw_send_signal sig = io_modify (\<lambda>c. c\<lparr>mww_published := mww_published c @ [sig]\<rparr>)"

definition mw_hello :: "activity_id \<Rightarrow> (mw_worker, unit) io" where
  "mw_hello i =
    io_bind (mw_send_signal (ActivityHello i)) (\<lambda>_.
    io_bind mw_next (\<lambda>sig.
    case sig of ActivityHelloAcquired \<Rightarrow> io_return () | _ \<Rightarrow> io_panic))"

definition mw_connect_remote :: "(mw_worker, error + unit) io" where
  "mw_connect_remote =
    io_bind io_get (\<lambda>c.
    if \<not> mww_barrier c then io_hang
    else
      io_bind (io_lift (create_consumer 0 (mww_services c (worker_topic (mww_id c))))) (\<lambda>_.
      io_bind (io_modify (\<lambda>c. c\<lparr>mww_input := True\<rparr>)) (\<lambda>_.
      io_bind (io_for (mww_activities c) mw_hello) (\<lambda>_. io_return (Inr ())))))"

definition mw_worker_receive :: "(mw_worker, error + signal option) io" where
  "mw_worker_receive =
    io_bind mw_next (\<lambda>sig.
    case sig of MwCore s \<Rightarrow> io_return (Inr (Some s)) | _ \<Rightarrow> io_return (Inl EUnexpectedProtocolSignal))"

definition mw_send_to_scheduler :: "signal \<Rightarrow> (mw_worker, error + unit) io" where
  "mw_send_to_scheduler sig = io_bind (mw_send_signal (MwCore sig)) (\<lambda>_. io_return (Inr ()))"

definition mw_connect_worker :: "mw_worker connect_worker" where
  "mw_connect_worker =
    \<lparr>cw_connect_remote = mw_connect_remote,
     cw_receive = (\<lambda>_. mw_worker_receive),
     cw_send_to_scheduler = mw_send_to_scheduler\<rparr>"

section \<open>Discovery\<close>

lemma discovery_from:
  assumes "tries \<le> 100"
  shows "create_consumer tries services = (if True \<in> set (take (101 - tries) services) then Ret ()
    else if 101 - tries \<le> length services then Panic else Hang)"
  using assms
proof (induction services arbitrary: tries)
  case Nil
  then show ?case by simp
next
  case (Cons found later)
  have take: "take (101 - tries) (found # later) = found # take (100 - tries) later"
    using Cons.prems by (simp add: take_Cons')
  show ?case
  proof (cases "tries = 100")
    case True
    then show ?thesis by auto
  next
    case False
    with Cons.prems have "tries + 1 \<le> 100" "101 - (tries + 1) = 100 - tries" by simp_all
    then show ?thesis using Cons.IH [of "tries + 1"] take by auto
  qed
qed

text \<open>
  A service that is not found is looked up at most 101 times, a tenth of a second apart, and then
  the agent panics; if one of the first 101 lookups finds it, it is used.
\<close>

theorem consumer_discovery_bounded:
  "create_consumer 0 services = (if True \<in> set (take 101 services) then Ret ()
    else if 101 \<le> length services then Panic else Hang)"
  using discovery_from [of 0 services] by simp

lemma consumer_found: "True \<in> set (take 101 services) \<Longrightarrow> create_consumer 0 services = Ret ()"
  using discovery_from [of 0 services] by simp

section \<open>The handshake\<close>

definition hellos_of :: "mw_signal option list \<Rightarrow> activity_id list" where
  "hellos_of = List.map_filter (\<lambda>x. case x of Some (ActivityHello i) \<Rightarrow> Some i | _ \<Rightarrow> None)"

definition published_to :: "worker_id \<Rightarrow> mw_scheduler \<Rightarrow> mw_signal list" where
  "published_to w c = map snd (filter (\<lambda>p. fst p = w) (mw_published c))"

lemma hellos_of_simps [simp]:
  "hellos_of [] = []" "hellos_of (None # xs) = hellos_of xs"
  "hellos_of (Some (MwCore s) # xs) = hellos_of xs"
  "hellos_of (Some ActivityHelloAcquired # xs) = hellos_of xs"
  "hellos_of (Some (ActivityHello i) # xs) = i # hellos_of xs"
  by (simp_all add: hellos_of_def List.map_filter_def)

lemma mw_connect_loop_acks:
  fixes c :: mw_scheduler
  assumes "length (mw_input c) < n" "distinct (hellos_of (mw_input c))" "set (hellos_of (mw_input c)) = set missing"
    and "\<And>i. i \<in> set missing \<Longrightarrow> \<exists>w. workers i = Some w \<and> w \<in> set pubs \<and> mw_accepts c w"
  shows "\<exists>rest. mw_connect_loop n pubs workers missing c = (Ret (), c\<lparr>mw_input := rest,
    mw_published := mw_published c @ map (\<lambda>i. (the (workers i), ActivityHelloAcquired)) (hellos_of (mw_input c))\<rparr>)"
  using assms
proof (induction n arbitrary: c missing)
  case 0
  then show ?case by simp
next
  case (Suc n)
  show ?case
  proof (cases "missing = []")
    case True
    with Suc.prems(3) have "hellos_of (mw_input c) = []" by simp
    with True show ?thesis by (cases c) (auto simp: io_defs)
  next
    case more: False
    then obtain x inp where inp: "mw_input c = x # inp"
      using Suc.prems(3) by (cases "mw_input c") auto
    let ?c = "c\<lparr>mw_input := inp\<rparr>"
    have skip: ?thesis if "hellos_of (x # inp) = hellos_of inp"
      "mw_connect_loop (Suc n) pubs workers missing c = mw_connect_loop n pubs workers missing ?c"
      using Suc.IH [of ?c missing] Suc.prems that inp by auto
    consider "x = None" | s where "x = Some (MwCore s)" | "x = Some ActivityHelloAcquired" | i where "x = Some (ActivityHello i)"
      by (metis mw_signal.exhaust option.exhaust)
    then show ?thesis
    proof cases
      case 4
      let ?d = "?c\<lparr>mw_published := mw_published c @ [(the (workers i), ActivityHelloAcquired)]\<rparr>"
      have i: "i \<in> set missing" using Suc.prems(3) inp 4 by auto
      from Suc.prems(4) [OF i] obtain w where w: "workers i = Some w" "w \<in> set pubs" "mw_accepts c w" by blast
      have "mw_connect_loop (Suc n) pubs workers missing c = mw_connect_loop n pubs workers (removeAll i missing) ?d"
        using more inp 4 w by (simp add: io_defs next_input_def publish_to_def)
      moreover have "set (hellos_of inp) = set (removeAll i missing)"
        using Suc.prems(2,3) inp 4 by auto
      ultimately show ?thesis
        using Suc.IH [of ?d "removeAll i missing"] Suc.prems inp 4 by auto
    qed (use skip more inp in \<open>simp_all add: io_defs next_input_def\<close>)
  qed
qed

lemma activities_of_assigned:
  assumes "distinct (concat (map snd ws))" "(w, ids) \<in> set ws" "i \<in> set ids"
  shows "activities_of ws i = Some w"
  using assms
proof (induction ws rule: activities_of.induct)
  case 1
  then show ?case by simp
next
  case (2 v js ws)
  have other: "activities_of ws j = None" if "j \<notin> set (concat (map snd ws))" for j
    using that by (induction ws rule: activities_of.induct) auto
  show ?case
  proof (cases "(w, ids) \<in> set ws")
    case True
    with 2 show ?thesis by simp
  next
    case False
    with "2.prems" have "v = w" "js = ids" by auto
    moreover from this have "i \<notin> set (concat (map snd ws))" using "2.prems"(1,3) by auto
    ultimately show ?thesis using other [of i] "2.prems"(3) by simp
  qed
qed

lemma mw_hellos_answered:
  fixes c :: mw_worker
  assumes "mww_input c" "mww_bus c = replicate (length ids) (Some ActivityHelloAcquired) @ rest"
  shows "io_for ids mw_hello c = (Ret (), c\<lparr>mww_bus := rest, mww_published := mww_published c @ map ActivityHello ids\<rparr>)"
  using assms
proof (induction ids arbitrary: c)
  case Nil
  then show ?case by (cases c) (simp add: io_defs)
next
  case (Cons i ids)
  let ?c = "c\<lparr>mww_bus := replicate (length ids) (Some ActivityHelloAcquired) @ rest,
    mww_published := mww_published c @ [ActivityHello i]\<rparr>"
  have "mw_hello i c = (Ret (), ?c)"
    using Cons.prems by (simp add: mw_hello_def mw_send_signal_def mw_next_def io_defs)
  with Cons.IH [of ?c] Cons.prems(1) show ?case by (simp add: io_bind_def)
qed

lemma worker_hello_count:
  assumes "distinct (concat (map snd ws))" "distinct (map fst ws)" "(w, ids) \<in> set ws"
    and "distinct is" "set is = set (concat (map snd ws))"
  shows "length (filter (\<lambda>i. the (activities_of ws i) = w) is) = length ids"
proof -
  have "set (filter (\<lambda>i. the (activities_of ws i) = w) is) = set ids"
  proof (intro equalityI subsetI)
    fix i
    assume "i \<in> set (filter (\<lambda>i. the (activities_of ws i) = w) is)"
    then obtain v js where v: "(v, js) \<in> set ws" "i \<in> set js" "the (activities_of ws i) = w"
      using assms(5) by auto
    with activities_of_assigned [OF assms(1) v(1,2)] have "v = w" by simp
    with v(1) assms(2,3) have "js = ids" by (metis map_of_eq_Some_iff option.inject)
    with v(2) show "i \<in> set ids" by simp
  next
    fix i
    assume i: "i \<in> set ids"
    with assms(3,5) have "i \<in> set is" by force
    with activities_of_assigned [OF assms(1,3) i] show "i \<in> set (filter (\<lambda>i. the (activities_of ws i) = w) is)"
      by simp
  qed
  moreover have "distinct ids" using assms(1,3) by (induction ws) auto
  ultimately show ?thesis using assms(4) by (metis distinct_card distinct_filter)
qed

lemma subscribe_agents_found:
  assumes "\<And>topic. True \<in> set (take 101 (services topic))"
  shows "subscribe_agents services as = Ret ()"
  using assms by (induction as) (simp_all add: consumer_found)


definition demo_assignments :: agent_workers where
  "demo_assignments =
    [(GenericId 100, [(GenericId 40, [GenericId 0, GenericId 1])]), (GenericId 101, [(GenericId 41, [GenericId 2])])]"

definition demo_hellos :: "mw_signal option list" where
  "demo_hellos = [Some (ActivityHello (GenericId 2)), Some (ActivityHello (GenericId 0)), None,
    Some (MwCore (Ready (GenericId 2) (Timestamp 0))), Some (ActivityHello (GenericId 1))]"


section \<open>Shutting down\<close>

text \<open>
  Over MW COM the scheduler terminates the workers without waiting for any agent: the connector
  names no connected agents, so \<open>terminate_all_agents\<close> publishes one \<open>Terminate\<close> per worker and
  returns with no signal received, although the workers run in other agents.
\<close>

theorem mw_terminate_awaits_nobody:
  assumes "\<And>w. w \<in> set (mw_publishers (sc_world s)) \<Longrightarrow> mw_accepts (sc_world s) w"
    and "pf_timestamp pf = io_gets mw_time"
  shows "\<exists>s'. terminate_all_agents n (mw_connect_scheduler k) pf s = (Ret (), s')
    \<and> mw_input (sc_world s') = mw_input (sc_world s)
    \<and> mw_published (sc_world s') = mw_published (sc_world s)
        @ map (\<lambda>w. (w, MwCore (Terminate (mw_time (sc_world s))))) (mw_publishers (sc_world s))"
proof -
  have "io_for ws (publish_to sig) c = (Ret (), c\<lparr>mw_published := mw_published c @ map (\<lambda>w. (w, sig)) ws\<rparr>)"
    if "\<And>w. w \<in> set ws \<Longrightarrow> mw_accepts c w" for ws sig and c :: mw_scheduler
    using that
  proof (induction ws arbitrary: c)
    case Nil
    then show ?case by (cases c) (simp add: io_defs)
  next
    case (Cons w ws)
    let ?c = "c\<lparr>mw_published := mw_published c @ [(w, sig)]\<rparr>"
    have "publish_to sig w c = (Ret (), ?c)" using Cons.prems by (simp add: publish_to_def io_defs)
    with Cons.IH [of ?c] Cons.prems show ?case by (simp add: io_bind_def)
  qed
  from this [OF assms(1)] assms(2) show ?thesis
    by (simp add: terminate_all_agents_def sc_io_def log_event_def io_defs mw_connect_scheduler_def
        mw_broadcast_terminate_def btree_set_def)
qed

definition mw_demo_platform :: "mw_scheduler platform" where
  "mw_demo_platform = \<lparr>pf_now = io_return 0, pf_timestamp = io_gets mw_time, pf_sleep = (\<lambda>_. io_return ()),
    pf_shutdown_requested = io_return True, pf_sync_info = io_gets mw_sync, pf_initialize_from = (\<lambda>_. io_return ())\<rparr>"

definition mw_demo_world :: mw_scheduler where
  "mw_demo_world = \<lparr>mw_assignments = demo_assignments, mw_activities_workers = Map.empty,
    mw_publishers = [GenericId 40, GenericId 41], mw_input = [Some (MwCore (TerminateAck (GenericId 101)))],
    mw_accepts = (\<lambda>_. True), mw_published = [], mw_sync = SyncInfo 0, mw_time = Timestamp 7\<rparr>"

theorem mw_terminate_awaits_nobody_witness:
  "\<exists>s'. terminate_all_agents 0 (mw_connect_scheduler 0) mw_demo_platform
      (scheduler_new (GenericId 100) 0 0 0 [] mw_demo_world) = (Ret (), s')
    \<and> mw_input (sc_world s') = [Some (MwCore (TerminateAck (GenericId 101)))]
    \<and> mw_published (sc_world s') =
        [(GenericId 40, MwCore (Terminate (Timestamp 7))), (GenericId 41, MwCore (Terminate (Timestamp 7)))]"
  using mw_terminate_awaits_nobody [of "scheduler_new (GenericId 100) 0 0 0 [] mw_demo_world" mw_demo_platform 0 0]
  by (simp add: mw_demo_platform_def mw_demo_world_def scheduler_new_def)

end
