(* ===== verification/Spec2Isabelle.thy ===== *)
theory Spec2Isabelle
  imports Feo_Socket_Setup Feo_Test_Agent Feo_Relay_Wiring Feo_Unit_Tests Feo_Trace_Stream Feo_Com_Backends Feo_Mini_Adas Feo_Relayed Feo_Mwcom_Connectors Feo_Mini_Adas_Topics Feo_Tracer Feo_Agents Feo_Adas_Programs
begin

text \<open>
  A verification development of FEO, a framework that runs activities in a fixed execution order.

  \<^bold>\<open>The program.\<close> An application is a set of agents (processes). Each agent has workers (threads) that
  own activities; one agent, the primary, also runs the scheduler. The scheduler starts every activity,
  then cycle by cycle steps each activity once, as soon as the activities it depends on have reported
  ready, and finally shuts them down (\<open>feo/src/scheduler.rs\<close>). Scheduler and workers exchange signals
  (\<open>signals.rs\<close>) through connectors, of which there are four kinds: channels inside one process, sockets
  between the scheduler and every worker, relays with one socket connection per agent, and MW COM.
  Activities exchange data through topics (\<open>feo-com\<close>), here over shared memory. Time can be scaled
  (\<open>feo-time\<close>), and agents can be traced (\<open>feo-tracing\<close>, \<open>feo-tracer\<close>).

  \<^bold>\<open>How it is modelled.\<close> Rust code over a state is a function from the state to an outcome and a state
  (\<open>Feo_Prelude\<close>): \<open>Ret\<close>, \<open>Panic\<close> or \<open>Hang\<close>, and the state is kept in all three cases. Errors are
  values, integers are words where their width matters. Trait objects are records of operations. What
  the operating system or a library decides (what a poll or a read returns, when a thread runs, what
  the clock shows) is a script in the state, so a statement holds for every behaviour of it. Loops
  that need not end take fuel and give \<open>Hang\<close> without it; a statement about the state then speaks of
  every finite prefix of a run, and where a loop does end, that is proved as such.

  \<^bold>\<open>Theories and sources.\<close>
  \<^item> \<open>Feo_Ids\<close>, \<open>Feo_Interface\<close>: identifiers, errors, signals (\<open>ids.rs\<close>, \<open>error.rs\<close>, \<open>signals.rs\<close>), the
    connector traits (\<open>interface.rs\<close>) and the platform.
  \<^item> \<open>Feo_Time\<close>, \<open>Feo_Timestamp\<close>: the scaled clock (\<open>feo-time\<close>), the startup time and the timestamps
    (\<open>timestamp.rs\<close>).
  \<^item> \<open>Feo_Scheduler\<close>, \<open>Feo_Scheduler_Log\<close>, \<open>Feo_Scheduler_Live\<close>: the scheduler, the invariant of its
    log, and its progress under the contract \<open>responsive\<close> of a connector.
  \<^item> \<open>Feo_Worker\<close>: the worker (\<open>worker/mod.rs\<close>, \<open>activity.rs\<close>).
  \<^item> \<open>Feo_Mpsc\<close>, \<open>Feo_Mpsc_System\<close>: channels and endpoints, and the whole in-process agent, in which the
    scheduler and its workers interleave (\<open>common/mpsc\<close>, \<open>direct/mpsc\<close>, \<open>primary_mpsc.rs\<close>);
    \<open>Feo_Agent_Mpsc\<close>: its run to the end, with the joining of the threads.
  \<^item> \<open>Feo_Wire\<close>, \<open>Feo_Connection\<close>, \<open>Feo_Sockets\<close>: the wire format, the buffered reader, server, client
    and the direct connectors (\<open>common/socket\<close>, \<open>direct/scheduler.rs\<close>, \<open>direct/worker.rs\<close>).
  \<^item> \<open>Feo_Relays\<close>, \<open>Feo_Relay_Endpoints\<close>, \<open>Feo_Relayed\<close>: the traits of channels and the four relays over
    any endpoints, the endpoints over sockets and channels, and the two put together
    (\<open>signalling/relayed\<close>); \<open>Feo_Relay_Wiring\<close>: which endpoints their constructors hand to whom;
    \<open>Feo_Socket_Setup\<close>: how servers and clients are made.
  \<^item> \<open>Feo_Mwcom\<close>, \<open>Feo_Mwcom_Connectors\<close>: the stream of a subscription and the connectors
    (\<open>direct/mw_com\<close>).
  \<^item> \<open>Feo_Agents\<close>: the primary and secondary agents (\<open>feo/src/agent\<close>).
  \<^item> \<open>Feo_Shm_Lock\<close>, \<open>Feo_Shm_Runtime\<close>, \<open>Feo_Com_Init\<close>, \<open>Feo_Com_Guards\<close>: the lock of a shared topic
    (\<open>shared_memory.rs\<close>), the registry and the service of topics (\<open>linux_shm/mod.rs\<close>), the
    initialisation (\<open>com_init.rs\<close>, \<open>topicspec.rs\<close>) and the choice of the backend
    (\<open>feo-com/src/interface.rs\<close>).
  \<^item> \<open>Feo_Com_Backends\<close>: the backends iceoryx2 and MW COM (\<open>feo-com/src/iox2\<close>, \<open>feo-com/src/mw_com\<close>),
    how the mini-adas example creates its inputs and outputs (\<open>activities/input.rs\<close>, \<open>output.rs\<close>), and
    the locale \<open>last_value\<close> which all three backends satisfy.
  \<^item> \<open>Feo_Tracing\<close>, \<open>Feo_Tracer\<close>: the trace protocol and subscriber, the records and the Perfetto writer.
  \<^item> \<open>Feo_Trace_Stream\<close>: the buffered writer of a process and a connection of the tracer
    (\<open>feo-tracer/src/io.rs\<close>), put together.
  \<^item> \<open>Feo_Unit_Tests\<close>: the unit tests of the clock, the scheduler and the wire format, which pass in the
    model.
  \<^item> \<open>Feo_Integration_Test\<close>, \<open>Feo_Test_Agent\<close>: the integration tests and the agents they start
    (\<open>tests/rust/feo_tests\<close>), driven by the requests of the scheduler.
  \<^item> \<open>Feo_Mini_Adas\<close>, \<open>Feo_Mini_Adas_Topics\<close>: the configuration of the mini-adas example as an instance.
  \<^item> \<open>Feo_Adas_Activities\<close>, \<open>Feo_Adas_Cycle\<close>, \<open>Feo_Adas_Programs\<close>: its activities over topics in shared
    memory, whole cycles of them, and the programs of its agents (\<open>examples/rust/mini-adas\<close>).
  \<^item> \<open>Feo_Composites\<close>, \<open>Feo_Composite_Opt\<close>, \<open>Feo_Cycle_Bench\<close>: the cycle benchmark: the search for
    composites, the optimisation of a configuration, and its program (\<open>examples/rust/cycle-benchmark\<close>).

  \<^bold>\<open>What is shown.\<close>
  \<^item> Scheduler: on every connector and in every outcome the log respects the dependencies and steps
    each activity at most once per cycle; a run that returns has shut down exactly the started
    activities and terminated the agents once; with the channels and workers of one process the agent
    does return, for every interleaving, and all of its threads end.
  \<^item> Workers: strict request and response, whatever the connector does.
  \<^item> Sockets: messages are uniquely decodable and come back; the buffered reader delivers every message
    in order for every chunking; the server loses none; connecting ends and a broadcast reaches every
    worker once.
  \<^item> Relays: the receive relays refine a lossless merge and the routing by activity; responses keep
    their order through both relays. The interfaces are the locales \<open>source\<close>, \<open>sink\<close>, \<open>multi_sink\<close>,
    \<open>conversion\<close>, \<open>forwarding\<close> and \<open>dispatching\<close>, interpreted on the endpoints. A primary and its
    secondaries are wired together.
  \<^item> MW COM: the stream refines a queue; the handshake completes on both sides.
  \<^item> Topics: the lock excludes under every interleaving of its atomic steps (a step relation with an
    invariant by rule induction); the primary's answers are read back; activities find their topics; what one
    agent publishes is what another reads, in both directions; the service has requests enough. Over
    each of the three backends a read gives the value written last.
  \<^item> Time: the scaled clock is monotone, scaled sleeps are right up to rounding, synchronised agents
    agree. Tracing: truncation stays in bounds, names arrive, span traces are complete,
    and what a process traces reaches the records of the tracer in order for every chunking.
  \<^item> Cycle benchmark: the search for composites ends on every graph and finds exactly the maximal
    chains; the optimised configuration admits the same cycles as the original one; the program
    starts the agent it is asked for.
  \<^item> mini-adas: in every order that respects its dependencies its activities run cycle after cycle
    without panicking or waiting, and each cycle fuses the sensor data of that cycle; the brake
    instruction is monotone; the configurations of its agents fit together.
  \<^item> Integration tests: activities that depend on each other go in step under every honest connector, so
    the test agents never panic, and the test passes exactly after five steps of the monitor.
  \<^item> Flaws are theorems as well: a closed connection starves others, a relayed primary without
    remote agents cannot connect, a sent guard can panic, two encodings are rejected, timestamps run
    the wrong way under a speed factor, names are cut inside a character, idle workers of a relayed
    secondary panic, shutting down over MW COM awaits nobody, and reading there without a new sample
    panics.

  \<^bold>\<open>Fuel.\<close> The scheduler, the workers, the relays and the connecting loops take a number of rounds.
  Safety statements hold for every number. Where a result is claimed the number is bounded by the
  work to do: \<open>l + 2 * activities + 2\<close> for the in-process agent whose shutdown flag is raised by the
  \<open>l\<close>-th look, one round per input in the handshake over MW COM, one poll per signal and blocking
  point of the stream in the buffered reader.

  \<^bold>\<open>Not modelled.\<close> The libraries behind iceoryx2, MW COM, sockets, serialisation and Perfetto; threads
  as such (a thread is its body, interleavings are explicit where they matter); logging and debug
  formatting; floating point conversions of durations (in mini-adas a floating-point operation is the
  exact one followed by a rounding that is a parameter); the C++ glue; the command
  line and the progress display of the tracer. Weak memory effects are not modelled: the
  atomic operations of the lock are sequentially consistent steps.
\<close>

end
